(* ===== verification/Prelude.thy ===== *)
theory Prelude
  imports Main "HOL-Library.List_Lexorder" "HOL-Library.Char_ord" "HOL-Library.AList"
    "HOL-Library.Signed_Division"
begin

text \<open>
  What the components share: machine integers with their wrap-around written out, the
  functions of the C++ standard library that the code calls on strings (find, rfind,
  substr, getline, to_string, stoul, tolower, isspace), std::map as a list sorted by key,
  and the named collections of facts the component proofs rest on.  A string is the list
  of its bytes and is compared bytewise, as std::string compares.
\<close>

named_theorems cxx_simps "equations of the modelled C++ library functions"
named_theorems map_simps "lookup, keys and order of the modelled std::map"

section \<open>Machine integers\<close>

text \<open>uint32_t and uint64_t values are naturals below the bound; every conversion or
  addition that can pass it goes through \<open>u32\<close> or \<open>u64\<close>.\<close>

definition u32 :: "nat \<Rightarrow> nat" where "u32 n = n mod 2 ^ 32"

definition u64 :: "nat \<Rightarrow> nat" where "u64 n = n mod 2 ^ 64"

definition u32_max :: nat where "u32_max = 4294967295"

definition in_int64 :: "int \<Rightarrow> bool" where
  "in_int64 i \<longleftrightarrow> - (2 ^ 63) \<le> i \<and> i < 2 ^ 63"

definition in_int32 :: "int \<Rightarrow> bool" where
  "in_int32 i \<longleftrightarrow> - (2 ^ 31) \<le> i \<and> i < 2 ^ 31"

lemma u32_id: "n < 2 ^ 32 \<Longrightarrow> u32 n = n"
  by (simp add: u32_def)

lemma u32_le_max: "u32 n \<le> u32_max"
  using mod_less_divisor [of "2 ^ 32" n] by (simp add: u32_def u32_max_def)

lemma u32_idem [simp]: "u32 (u32 n) = u32 n"
  by (simp add: u32_def)

section \<open>Characters\<close>

definition newline :: char where "newline = CHR 0x0A"

definition is_space :: "char \<Rightarrow> bool" where
  "is_space c \<longleftrightarrow>
     c \<in> set [CHR '' '', CHR 0x09, CHR 0x0A, CHR 0x0B, CHR 0x0C, CHR 0x0D]"

definition digits :: string where "digits = ''0123456789''"

definition is_digit :: "char \<Rightarrow> bool" where "is_digit c \<longleftrightarrow> c \<in> set digits"

definition digit_val :: "char \<Rightarrow> nat" where "digit_val c = of_char c - 48"

definition to_lower :: "char \<Rightarrow> char" where
  "to_lower c =
     (case map_of (zip ''ABCDEFGHIJKLMNOPQRSTUVWXYZ'' ''abcdefghijklmnopqrstuvwxyz'') c of
        Some d \<Rightarrow> d | None \<Rightarrow> c)"

definition lower :: "string \<Rightarrow> string" where "lower s = map to_lower s"

lemma map_of_upper_None:
  "c \<notin> set ''ABCDEFGHIJKLMNOPQRSTUVWXYZ'' \<Longrightarrow>
   map_of (zip ''ABCDEFGHIJKLMNOPQRSTUVWXYZ'' ''abcdefghijklmnopqrstuvwxyz'') c = None"
  by (simp add: map_of_eq_None_iff)

lemma to_lower_not_upper: "to_lower c \<notin> set ''ABCDEFGHIJKLMNOPQRSTUVWXYZ''"
proof (cases "c \<in> set ''ABCDEFGHIJKLMNOPQRSTUVWXYZ''")
  case True
  then show ?thesis by (auto simp: to_lower_def)
next
  case False
  then have "to_lower c = c" by (simp only: to_lower_def map_of_upper_None option.case not_False_eq_True)
  with False show ?thesis by (simp only: not_False_eq_True)
qed

lemma to_lower_idem [simp]: "to_lower (to_lower c) = to_lower c"
  by (simp only: to_lower_def [of "to_lower c"] map_of_upper_None [OF to_lower_not_upper]
      option.case)

lemma lower_idem [simp]: "lower (lower s) = lower s"
  by (simp add: lower_def)

lemma length_lower [simp]: "length (lower s) = length s"
  by (simp add: lower_def)

section \<open>Decimal numbers\<close>

text \<open>std::to_string of an unsigned number and its reading back.\<close>

fun dec :: "nat \<Rightarrow> string" where
  "dec n = (if n < 10 then [digits ! n] else dec (n div 10) @ [digits ! (n mod 10)])"

declare dec.simps [simp del]

definition hex_digits :: string where "hex_digits = ''0123456789abcdef''"

text \<open>The conversion \<open>%x\<close>.\<close>

fun hex :: "nat \<Rightarrow> string" where
  "hex n = (if n < 16 then [hex_digits ! n] else hex (n div 16) @ [hex_digits ! (n mod 16)])"

declare hex.simps [simp del]

definition dec_int :: "int \<Rightarrow> string" where
  "dec_int i = (if i < 0 then CHR ''-'' # dec (nat (- i)) else dec (nat i))"

definition undec :: "string \<Rightarrow> nat" where
  "undec s = foldl (\<lambda>a c. a * 10 + digit_val c) 0 s"

lemma digit_nth_cases:
  assumes "n < 10"
  shows "n = 0 \<or> n = 1 \<or> n = 2 \<or> n = 3 \<or> n = 4 \<or> n = 5 \<or> n = 6 \<or> n = 7 \<or> n = 8 \<or> n = (9::nat)"
  using assms by arith

lemma digits_nth: "n < 10 \<Longrightarrow> is_digit (digits ! n) \<and> digit_val (digits ! n) = n"
  by (drule digit_nth_cases) (elim disjE; simp add: digits_def is_digit_def digit_val_def)

lemma dec_digits: "list_all is_digit (dec n)"
proof (induction n rule: dec.induct)
  case (1 n)
  show ?case
    by (subst dec.simps) (auto simp: digits_nth intro: "1.IH")
qed

lemma dec_nonempty [simp]: "dec n \<noteq> []"
  by (subst dec.simps) simp

lemma undec_append: "undec (s @ [c]) = undec s * 10 + digit_val c"
  by (simp add: undec_def)

lemma undec_dec [simp]: "undec (dec n) = n"
proof (induction n rule: dec.induct)
  case (1 n)
  show ?case
  proof (cases "n < 10")
    case True
    then show ?thesis by (subst dec.simps) (simp add: undec_def digits_nth)
  next
    case False
    with "1.IH" have "undec (dec (n div 10)) = n div 10" by simp
    with False show ?thesis
      by (subst dec.simps) (simp add: undec_append digits_nth)
  qed
qed

lemma dec_length: "n < 10 ^ k \<Longrightarrow> 0 < k \<Longrightarrow> length (dec n) \<le> k"
proof (induction k arbitrary: n)
  case 0
  then show ?case by simp
next
  case (Suc k)
  show ?case
  proof (cases "n < 10")
    case True
    then show ?thesis by (subst dec.simps) simp
  next
    case False
    with Suc.prems have "0 < k" by (cases k) auto
    moreover have "n div 10 < 10 ^ k" using Suc.prems by (simp add: less_mult_imp_div_less mult.commute)
    ultimately have "length (dec (n div 10)) \<le> k" by (rule Suc.IH [rotated])
    with False show ?thesis by (subst dec.simps) simp
  qed
qed

lemma undec_zeros [simp]: "undec (replicate k CHR ''0'' @ s) = undec s"
  by (induction k) (simp_all add: undec_def digit_val_def)

lemma undec_bound: "list_all is_digit s \<Longrightarrow> undec s < 10 ^ length s"
proof (induction s rule: rev_induct)
  case Nil
  then show ?case by (simp add: undec_def)
next
  case (snoc c s)
  then have "undec s < 10 ^ length s" and "is_digit c" by simp_all
  moreover from \<open>is_digit c\<close> have "digit_val c < 10"
    by (auto simp: is_digit_def digits_def digit_val_def)
  ultimately show ?case by (simp add: undec_append)
qed

text \<open>std::stoul (base 10, 64-bit unsigned long): leading white space and a sign are
  accepted, a minus sign negates modulo 2^64; \<open>None\<close> is an exception (no digits, or a
  magnitude above 2^64 - 1).  The second component is the number of characters read.\<close>

definition sign_of :: "string \<Rightarrow> bool \<times> string" where
  "sign_of s = (case s of [] \<Rightarrow> (False, [])
     | c # t \<Rightarrow> if c = CHR ''-'' then (True, t) else if c = CHR ''+'' then (False, t)
               else (False, c # t))"

definition stoul_used :: "string \<Rightarrow> (nat \<times> nat) option" where
  "stoul_used s =
     (let (neg, r) = sign_of (dropWhile is_space s);
          ds = takeWhile is_digit r; v = undec ds
      in if ds = [] \<or> 2 ^ 64 \<le> v then None
         else Some (if neg then u64 (2 ^ 64 - v) else v, length s - length r + length ds))"

definition stoul :: "string \<Rightarrow> nat option" where
  "stoul s = map_option fst (stoul_used s)"

lemma takeWhile_digits: "list_all is_digit s \<Longrightarrow> takeWhile is_digit s = s"
  by (simp add: takeWhile_eq_all_conv list_all_iff)

lemma sign_of_digits: "list_all is_digit s \<Longrightarrow> sign_of (dropWhile is_space s) = (False, s)"
proof (cases s)
  case (Cons c t)
  assume "list_all is_digit s"
  with Cons have "is_digit c" by simp
  then have "\<not> is_space c" "c \<noteq> CHR ''-''" "c \<noteq> CHR ''+''"
    by (auto simp: is_digit_def digits_def is_space_def)
  with Cons show ?thesis by (simp add: sign_of_def)
qed (simp add: sign_of_def)

lemma stoul_digits:
  "list_all is_digit s \<Longrightarrow> s \<noteq> [] \<Longrightarrow> undec s < 2 ^ 64 \<Longrightarrow> stoul_used s = Some (undec s, length s)"
  by (simp add: stoul_used_def sign_of_digits takeWhile_digits)

lemma stoul_dec: "n < 2 ^ 64 \<Longrightarrow> stoul (dec n) = Some n"
  by (simp add: stoul_def stoul_digits dec_digits)

section \<open>Substrings\<close>

definition starts_with :: "string \<Rightarrow> string \<Rightarrow> bool" where
  "starts_with p s \<longleftrightarrow> take (length p) s = p"

fun find_sub :: "string \<Rightarrow> string \<Rightarrow> nat option" where
  "find_sub p [] = (if p = [] then Some 0 else None)"
| "find_sub p (c # s) = (if starts_with p (c # s) then Some 0 else map_option Suc (find_sub p s))"

fun rfind_sub :: "string \<Rightarrow> string \<Rightarrow> nat option" where
  "rfind_sub p [] = (if p = [] then Some 0 else None)"
| "rfind_sub p (c # s) =
     (case rfind_sub p s of
        Some i \<Rightarrow> Some (Suc i)
      | None \<Rightarrow> if starts_with p (c # s) then Some 0 else None)"

lemma starts_with_append [simp]: "starts_with p (p @ s)"
  by (simp add: starts_with_def)

lemma starts_with_conv: "starts_with p s \<longleftrightarrow> (\<exists>r. s = p @ r)"
  by (auto simp: starts_with_def) (metis append_take_drop_id)

lemma starts_with_Nil [simp]: "starts_with [] s"
  by (simp add: starts_with_def)

lemma find_sub_Some: "find_sub p s = Some i \<Longrightarrow> i \<le> length s \<and> starts_with p (drop i s)"
  by (induction s arbitrary: i) (auto split: if_splits)

lemma rfind_sub_Some: "rfind_sub p s = Some i \<Longrightarrow> i \<le> length s \<and> starts_with p (drop i s)"
  by (induction s arbitrary: i) (auto split: if_splits option.splits)

lemma rfind_sub_last:
  "rfind_sub p s = Some i \<Longrightarrow> i < j \<Longrightarrow> j \<le> length s \<Longrightarrow> p \<noteq> [] \<Longrightarrow> \<not> starts_with p (drop j s)"
proof (induction s arbitrary: i j)
  case Nil
  then show ?case by (simp split: if_splits)
next
  case (Cons c s)
  then obtain k where j: "j = Suc k" by (cases j) auto
  show ?case
  proof (cases "rfind_sub p s")
    case None
    have "rfind_sub p t = None \<Longrightarrow> p \<noteq> [] \<Longrightarrow> \<not> starts_with p (drop k t)" for t k
    proof (induction t arbitrary: k)
      case Nil
      then show ?case by (simp add: starts_with_def)
    next
      case (Cons d t)
      then show ?case by (cases k) (auto split: option.splits if_splits)
    qed
    with None Cons.prems j show ?thesis by simp
  next
    case (Some m)
    with Cons.prems j have "m < k" "k \<le> length s" by auto
    with Some Cons.prems j show ?thesis using Cons.IH [of m k] by simp
  qed
qed

lemma rfind_sub_append: "rfind_sub p t = Some i \<Longrightarrow> rfind_sub p (s @ t) = Some (length s + i)"
  by (induction s) auto

section \<open>Lines\<close>

text \<open>The lines std::getline reads: the text after the last newline is a line only if it is
  not empty.\<close>

fun getlines_acc :: "string \<Rightarrow> string \<Rightarrow> string list" where
  "getlines_acc acc [] = (if acc = [] then [] else [rev acc])"
| "getlines_acc acc (c # s) =
     (if c = newline then rev acc # getlines_acc [] s else getlines_acc (c # acc) s)"

definition getlines :: "string \<Rightarrow> string list" where "getlines s = getlines_acc [] s"

lemma getlines_acc_line:
  "newline \<notin> set l \<Longrightarrow> getlines_acc acc (l @ newline # s) = (rev acc @ l) # getlines_acc [] s"
  by (induction l arbitrary: acc) auto

lemma getlines_acc_last:
  "newline \<notin> set l \<Longrightarrow> getlines_acc acc l = (if acc = [] \<and> l = [] then [] else [rev acc @ l])"
  by (induction l arbitrary: acc) auto

lemma getlines_Nil [simp]: "getlines [] = []"
  by (simp add: getlines_def)

lemma getlines_line [simp]: "newline \<notin> set l \<Longrightarrow> getlines (l @ newline # s) = l # getlines s"
  by (simp add: getlines_def getlines_acc_line)

lemma getlines_single: "newline \<notin> set l \<Longrightarrow> l \<noteq> [] \<Longrightarrow> getlines l = [l]"
  by (simp add: getlines_def getlines_acc_last)

lemma getlines_concat:
  "(\<And>l. l \<in> set ls \<Longrightarrow> newline \<notin> set l) \<Longrightarrow>
   getlines (concat (map (\<lambda>l. l @ [newline]) ls)) = ls"
  by (induction ls) auto

section \<open>std::map\<close>

text \<open>A std::map is the list of its entries in key order; looking a key up is \<open>map_of\<close>.\<close>

fun smap_put :: "'k::linorder \<Rightarrow> 'v \<Rightarrow> ('k \<times> 'v) list \<Rightarrow> ('k \<times> 'v) list" where
  "smap_put k v [] = [(k, v)]"
| "smap_put k v ((a, b) # m) =
     (if k < a then (k, v) # (a, b) # m
      else if k = a then (k, v) # m
      else (a, b) # smap_put k v m)"

fun smap_del :: "'k::linorder \<Rightarrow> ('k \<times> 'v) list \<Rightarrow> ('k \<times> 'v) list" where
  "smap_del k [] = []"
| "smap_del k ((a, b) # m) = (if k = a then m else (a, b) # smap_del k m)"

definition smap_ok :: "('k::linorder \<times> 'v) list \<Rightarrow> bool" where
  "smap_ok m \<longleftrightarrow> sorted_wrt (<) (map fst m)"

lemma smap_ok_simps [simp]:
  "smap_ok []"
  "smap_ok ((a, b) # m) \<longleftrightarrow> (\<forall>k \<in> set (map fst m). a < k) \<and> smap_ok m"
  by (simp_all add: smap_ok_def)

lemma map_of_smap_put [simp, map_simps]: "map_of (smap_put k v m) = (map_of m)(k \<mapsto> v)"
  by (induction m) (auto simp: fun_eq_iff)

lemma keys_smap_put [simp, map_simps]: "fst ` set (smap_put k v m) = insert k (fst ` set m)"
  by (simp flip: dom_map_of_conv_image_fst)

lemma smap_ok_put [simp, map_simps]: "smap_ok m \<Longrightarrow> smap_ok (smap_put k v m)"
proof (induction m)
  case (Cons p m)
  obtain a b where p: "p = (a, b)" by (cases p)
  show ?case
  proof (cases "k < a \<or> k = a")
    case True
    with Cons.prems p show ?thesis by auto
  next
    case False
    with Cons p show ?thesis by (auto simp: keys_smap_put)
  qed
qed simp

lemma map_of_smap_del [simp, map_simps]:
  "smap_ok m \<Longrightarrow> map_of (smap_del k m) = (map_of m)(k := None)"
proof (induction m)
  case (Cons p m)
  obtain a b where p: "p = (a, b)" by (cases p)
  have "map_of m a = None" if "a = k" "smap_ok ((a, b) # m)"
    using that by (auto simp: map_of_eq_None_iff)
  with Cons p show ?case by (auto simp: fun_eq_iff)
qed simp

lemma keys_smap_del_subset: "set (smap_del k m) \<subseteq> set m"
  by (induction m) (auto split: if_splits)

lemma smap_ok_del [simp, map_simps]: "smap_ok m \<Longrightarrow> smap_ok (smap_del k m)"
proof (induction m)
  case (Cons p m)
  then show ?case using keys_smap_del_subset [of k m] by (cases p) fastforce
qed simp

lemma smap_ok_distinct: "smap_ok m \<Longrightarrow> distinct (map fst m)"
  by (auto simp: smap_ok_def strict_sorted_iff)

section \<open>Interface of maps\<close>

text \<open>What the components rely on when they keep their state in a map: a stored value is
  found again, other keys are untouched, and the operations keep the map's invariant.\<close>

locale map_interface =
  fixes lookup :: "'m \<Rightarrow> 'k \<Rightarrow> 'v option"
    and put :: "'k \<Rightarrow> 'v \<Rightarrow> 'm \<Rightarrow> 'm"
    and del :: "'k \<Rightarrow> 'm \<Rightarrow> 'm"
    and invar :: "'m \<Rightarrow> bool"
  assumes lookup_put: "invar m \<Longrightarrow> lookup (put k v m) = (lookup m)(k \<mapsto> v)"
    and lookup_del: "invar m \<Longrightarrow> lookup (del k m) = (lookup m)(k := None)"
    and invar_put: "invar m \<Longrightarrow> invar (put k v m)"
    and invar_del: "invar m \<Longrightarrow> invar (del k m)"
begin

lemma lookup_put_same: "invar m \<Longrightarrow> lookup (put k v m) k = Some v"
  by (simp add: lookup_put)

lemma lookup_put_other: "invar m \<Longrightarrow> k' \<noteq> k \<Longrightarrow> lookup (put k v m) k' = lookup m k'"
  by (simp add: lookup_put)

lemma put_put: "invar m \<Longrightarrow> lookup (put k v (put k w m)) = lookup (put k v m)"
  by (simp add: lookup_put invar_put)

lemma fold_put_invar: "invar m \<Longrightarrow> invar (fold (\<lambda>(k, v). put k v) kvs m)"
  by (induction kvs arbitrary: m) (auto simp: invar_put)

lemma fold_del_lookup:
  "invar m \<Longrightarrow> lookup (fold del ks m) k = (if k \<in> set ks then None else lookup m k)"
  by (induction ks arbitrary: m) (auto simp: lookup_del invar_del)

lemma fold_del_invar: "invar m \<Longrightarrow> invar (fold del ks m)"
  by (induction ks arbitrary: m) (auto simp: invar_del)

end

interpretation smap: map_interface map_of smap_put smap_del smap_ok
  by unfold_locales simp_all

interpretation umap: map_interface map_of AList.update AList.delete "\<lambda>_. True"
  by unfold_locales (simp_all add: update_conv' delete_conv')

end
