(* ===== verification/Settings.thy ===== *)
theory Settings
  imports Prelude
begin

text \<open>
  \<open>Settings/LvSettings\<close> and \<open>TransactionManager/ProtocolOptions.hpp\<close>: the configuration
  file (one \<open>NAME=value\<close> per line) and the protocol options it sets.  Warnings on stderr are
  not modelled.
\<close>

datatype isolation = Serializable | Snapshot

record protocol_options =
  isolation :: isolation
  marker_lease_ms :: nat
  marker_grace_ms :: nat
  max_redos :: nat
  global_log_repair :: bool
  global_log_repair_after :: nat
  global_log_check_at_begin :: bool
  checkpoints :: bool
  checkpoint_interval :: nat

definition default_options :: protocol_options where
  "default_options =
     \<lparr>isolation = Serializable, marker_lease_ms = 30000, marker_grace_ms = 100, max_redos = 3,
      global_log_repair = False, global_log_repair_after = 3, global_log_check_at_begin = False,
      checkpoints = True, checkpoint_interval = 0\<rparr>"

record lv_settings =
  host :: string
  user :: string
  passwd :: string
  awsregion :: string
  bucket :: string
  warmupruns :: nat
  benchmarkruns :: nat
  cooldownruns :: nat
  pathToMinioTable :: string
  pathToGlobalLog :: string
  pathToGlobalTmpLog :: string
  pathToYCSBTable :: string
  pathToBankingTable0 :: string
  pathToBankingTable1 :: string
  logthreads :: nat
  freshruns :: nat
  pathToFreshTable :: string
  cab_path :: string
  readthreads :: nat
  protocol_opts :: protocol_options

definition lv_settings_init :: lv_settings where
  "lv_settings_init =
     \<lparr>host = '''', user = '''', passwd = '''', awsregion = '''', bucket = ''warehouse'',
      warmupruns = 0, benchmarkruns = 0, cooldownruns = 0, pathToMinioTable = '''',
      pathToGlobalLog = '''', pathToGlobalTmpLog = '''', pathToYCSBTable = '''',
      pathToBankingTable0 = '''', pathToBankingTable1 = '''', logthreads = 1, freshruns = 0,
      pathToFreshTable = '''', cab_path = '''', readthreads = 1, protocol_opts = default_options\<rparr>"

definition trim :: "string \<Rightarrow> string" where
  "trim s = rev (dropWhile is_space (rev (dropWhile is_space s)))"

definition parse_flag :: "string \<Rightarrow> bool \<Rightarrow> bool" where
  "parse_flag value target =
     (if value = ''1'' \<or> value = ''true'' then True
      else if value = ''0'' \<or> value = ''false'' then False
      else target)"

definition parse_number :: "string \<Rightarrow> nat \<Rightarrow> nat" where
  "parse_number value target =
     (case stoul_used value of
        None \<Rightarrow> target
      | Some (parsed, used) \<Rightarrow> if used \<noteq> length value then target else u32 parsed)"

text \<open>The if-chain over the property names.\<close>

definition set_protocol_option :: "string \<Rightarrow> string \<Rightarrow> protocol_options \<Rightarrow> protocol_options" where
  "set_protocol_option property value p =
     (if property = ''ISOLATION'' then
        (if value = ''serializable'' then p\<lparr>isolation := Serializable\<rparr>
         else if value = ''snapshot'' then p\<lparr>isolation := Snapshot\<rparr> else p)
      else if property = ''MARKER_LEASE_MS''
        then p\<lparr>marker_lease_ms := parse_number value (marker_lease_ms p)\<rparr>
      else if property = ''MARKER_GRACE_MS''
        then p\<lparr>marker_grace_ms := parse_number value (marker_grace_ms p)\<rparr>
      else if property = ''MAX_REDOS'' then p\<lparr>max_redos := parse_number value (max_redos p)\<rparr>
      else if property = ''GLOBAL_LOG_REPAIR''
        then p\<lparr>global_log_repair := parse_flag value (global_log_repair p)\<rparr>
      else if property = ''GLOBAL_LOG_REPAIR_AFTER''
        then p\<lparr>global_log_repair_after := parse_number value (global_log_repair_after p)\<rparr>
      else if property = ''GLOBAL_LOG_CHECK_AT_BEGIN''
        then p\<lparr>global_log_check_at_begin := parse_flag value (global_log_check_at_begin p)\<rparr>
      else if property = ''CHECKPOINTS'' then p\<lparr>checkpoints := parse_flag value (checkpoints p)\<rparr>
      else if property = ''CHECKPOINT_INTERVAL''
        then p\<lparr>checkpoint_interval := parse_number value (checkpoint_interval p)\<rparr>
      else p)"

definition set_property :: "string \<Rightarrow> string \<Rightarrow> lv_settings \<Rightarrow> lv_settings" where
  "set_property property value s =
     (if property = ''HOST'' then s\<lparr>host := value\<rparr>
      else if property = ''USER'' then s\<lparr>user := value\<rparr>
      else if property = ''PASSWD'' then s\<lparr>passwd := value\<rparr>
      else if property = ''AWSREGION'' then s\<lparr>awsregion := value\<rparr>
      else if property = ''BUCKET'' then s\<lparr>bucket := value\<rparr>
      else if property = ''PathToMinioTable'' then s\<lparr>pathToMinioTable := value\<rparr>
      else if property = ''PathToGlobalLog'' then s\<lparr>pathToGlobalLog := value\<rparr>
      else if property = ''PathToGlobalTmpLog'' then s\<lparr>pathToGlobalTmpLog := value\<rparr>
      else if property = ''PathToYCSBTable'' then s\<lparr>pathToYCSBTable := value\<rparr>
      else if property = ''PathToBankingTable0'' then s\<lparr>pathToBankingTable0 := value\<rparr>
      else if property = ''PathToBankingTable1'' then s\<lparr>pathToBankingTable1 := value\<rparr>
      else if property = ''PathToFreshTable'' then s\<lparr>pathToFreshTable := value\<rparr>
      else if property = ''WARMUPRUNS'' then s\<lparr>warmupruns := parse_number value (warmupruns s)\<rparr>
      else if property = ''BENCHMARKRUNS''
        then s\<lparr>benchmarkruns := parse_number value (benchmarkruns s)\<rparr>
      else if property = ''COOLDOWNRUNS''
        then s\<lparr>cooldownruns := parse_number value (cooldownruns s)\<rparr>
      else if property = ''CAB_PATH'' then s\<lparr>cab_path := value\<rparr>
      else if property = ''LOGTHREADS'' then
        (let s = s\<lparr>logthreads := parse_number value (logthreads s)\<rparr>
         in if logthreads s = 0 then s\<lparr>logthreads := 1\<rparr> else s)
      else if property = ''FRESHRUNS'' then s\<lparr>freshruns := parse_number value (freshruns s)\<rparr>
      else if property = ''READTHREADS'' then s\<lparr>readthreads := parse_number value (readthreads s)\<rparr>
      else s\<lparr>protocol_opts := set_protocol_option property value (protocol_opts s)\<rparr>)"

definition parse_line :: "string \<Rightarrow> lv_settings \<Rightarrow> lv_settings" where
  "parse_line line s =
     (let line = trim line
      in if line = [] \<or> hd line = CHR ''#'' then s
         else (case find_sub ''='' line of
                 None \<Rightarrow> s
               | Some pos \<Rightarrow> set_property (trim (take pos line)) (trim (drop (pos + 1) line)) s))"

text \<open>\<open>parse()\<close>: \<open>None\<close> is a file that cannot be opened.\<close>

definition lv_parse :: "string option \<Rightarrow> lv_settings \<Rightarrow> bool \<times> lv_settings" where
  "lv_parse file s =
     (case file of None \<Rightarrow> (False, s) | Some text \<Rightarrow> (True, fold parse_line (getlines text) s))"

text \<open>The defaults of new managers: the global-log paths and the protocol options.\<close>

record manager_defaults =
  default_global_log :: string
  default_global_tmp_log :: string
  default_protocol :: protocol_options

definition apply_defaults :: "lv_settings \<Rightarrow> manager_defaults \<Rightarrow> manager_defaults" where
  "apply_defaults s d =
     (let d = (if pathToGlobalLog s \<noteq> [] \<and> pathToGlobalTmpLog s \<noteq> []
               then d\<lparr>default_global_log := pathToGlobalLog s,
                       default_global_tmp_log := pathToGlobalTmpLog s\<rparr>
               else d)
      in d\<lparr>default_protocol := protocol_opts s\<rparr>)"

record minio_config =
  endpointURI :: string
  mc_user :: string
  mc_passwd :: string
  region :: string
  connectTimeout :: nat
  requestTimeout :: nat
  default_bucket :: string

definition minio_config_of :: "lv_settings \<Rightarrow> minio_config" where
  "minio_config_of s =
     \<lparr>endpointURI = host s, mc_user = user s, mc_passwd = passwd s, region = awsregion s,
      connectTimeout = 60000, requestTimeout = 10000, default_bucket = bucket s\<rparr>"

definition parse_levels :: "string \<Rightarrow> bool list" where
  "parse_levels levels =
     fold (\<lambda>level result.
             if CHR ''0'' \<le> level \<and> level \<le> CHR ''2''
             then result[of_char level - 48 := True] else result)
       levels [False, False, False]"

section \<open>Every number is a uint32\<close>

definition options_ok :: "protocol_options \<Rightarrow> bool" where
  "options_ok p \<longleftrightarrow> marker_lease_ms p < 2 ^ 32 \<and> marker_grace_ms p < 2 ^ 32 \<and> max_redos p < 2 ^ 32
     \<and> global_log_repair_after p < 2 ^ 32 \<and> checkpoint_interval p < 2 ^ 32"

definition settings_ok :: "lv_settings \<Rightarrow> bool" where
  "settings_ok s \<longleftrightarrow> 1 \<le> logthreads s
     \<and> list_all (\<lambda>n. n < 2 ^ 32) [warmupruns s, benchmarkruns s, cooldownruns s, logthreads s, freshruns s, readthreads s]
     \<and> options_ok (protocol_opts s)"

lemma parse_number_bound [simp]: "t < 4294967296 \<Longrightarrow> parse_number value t < 4294967296"
  by (simp add: parse_number_def u32_def split: option.splits prod.splits)

lemma ok_ifI: "(b \<Longrightarrow> P x) \<Longrightarrow> (\<not> b \<Longrightarrow> P y) \<Longrightarrow> P (if b then x else y)"
  by simp

lemma set_protocol_option_ok: "options_ok p \<Longrightarrow> options_ok (set_protocol_option property value p)"
  unfolding set_protocol_option_def
  by (intro ok_ifI [where P = options_ok]) (simp_all add: options_ok_def)

lemma set_property_ok: "settings_ok s \<Longrightarrow> settings_ok (set_property property value s)"
  unfolding set_property_def Let_def
  by (intro ok_ifI [where P = settings_ok])
     (simp_all add: settings_ok_def set_protocol_option_ok)

lemma parse_line_ok: "settings_ok s \<Longrightarrow> settings_ok (parse_line line s)"
  by (simp add: parse_line_def Let_def set_property_ok split: option.split)

lemma parse_lines_ok: "settings_ok s \<Longrightarrow> settings_ok (fold parse_line ls s)"
  by (induction ls arbitrary: s) (simp_all add: parse_line_ok)

section \<open>A line of the file\<close>

lemma trim_spaces:
  assumes "list_all is_space a" and "list_all is_space b" and "trim s = s"
  shows "trim (a @ s @ b) = s"
proof -
  have drop: "list_all is_space x \<Longrightarrow> dropWhile is_space (x @ y) = dropWhile is_space y" for x y
    by (induction x) auto
  have "dropWhile is_space (s @ b) = dropWhile is_space s @ b \<or> dropWhile is_space s = []"
    by (induction s) auto
  then show ?thesis
  proof
    assume "dropWhile is_space (s @ b) = dropWhile is_space s @ b"
    with assms drop [of "rev b" "rev (dropWhile is_space s)"] drop [of a "s @ b"] show ?thesis
      by (simp add: trim_def)
  next
    assume e: "dropWhile is_space s = []"
    with assms(3) have "s = []" by (simp add: trim_def)
    moreover have "dropWhile is_space b = []" using assms(2) by (simp add: list_all_iff)
    ultimately show ?thesis using drop [of a b] assms(1)
      by (auto simp: trim_def dest: set_dropWhileD)
  qed
qed

lemma find_sub_char: "c \<notin> set a \<Longrightarrow> find_sub [c] (a @ c # b) = Some (length a)"
  by (induction a) (auto simp: starts_with_def)

section \<open>Properties\<close>

text \<open>Whatever a configuration file says, the settings are usable: every number is a uint32 and
  there is at least one thread for parsing logs.\<close>

lemma lv_parse_settings_ok: "settings_ok (snd (lv_parse file lv_settings_init))"
proof -
  have "settings_ok lv_settings_init"
    by (simp add: settings_ok_def lv_settings_init_def options_ok_def default_options_def)
  then show ?thesis by (simp add: lv_parse_def parse_lines_ok split: option.split)
qed

text \<open>A line \<open>NAME = value\<close> sets the property of that name to that value, with any white space
  around the name and the value.\<close>

lemma parse_line_assigns:
  assumes "list_all is_space a" and "list_all is_space b" and "list_all is_space c" and "list_all is_space d"
    and "trim name = name" and "name \<noteq> []" and "CHR ''='' \<notin> set name" and "hd name \<noteq> CHR ''#''"
    and "trim value = value" and "value \<noteq> []"
  shows "parse_line (a @ name @ b @ ''='' @ c @ value @ d) s = set_property name value s"
proof -
  let ?l = "name @ b @ ''='' @ c @ value"
  have ends: "x \<noteq> [] \<Longrightarrow> trim x = x \<longleftrightarrow> \<not> is_space (hd x) \<and> \<not> is_space (last x)" for x
  proof -
    assume "x \<noteq> []"
    show "trim x = x \<longleftrightarrow> \<not> is_space (hd x) \<and> \<not> is_space (last x)"
    proof
      assume t: "trim x = x"
      then have "length (trim x) = length x" by simp
      then have "length (dropWhile is_space x) = length x"
        using length_dropWhile_le [of is_space x] length_dropWhile_le [of is_space "rev (dropWhile is_space x)"]
        by (simp add: trim_def)
      then have d: "dropWhile is_space x = x" by (metis append_self_conv2 length_append takeWhile_dropWhile_id add_cancel_left_left list.size(3) length_0_conv)
      with t have "dropWhile is_space (rev x) = rev x" by (simp add: trim_def rev_swap)
      with d \<open>x \<noteq> []\<close> show "\<not> is_space (hd x) \<and> \<not> is_space (last x)"
        by (metis hd_dropWhile hd_rev rev_is_Nil_conv)
    next
      assume "\<not> is_space (hd x) \<and> \<not> is_space (last x)"
      with \<open>x \<noteq> []\<close> have "dropWhile is_space x = x" "dropWhile is_space (rev x) = rev x"
        by (simp_all add: dropWhile_eq_self_iff hd_rev)
      then show "trim x = x" by (simp add: trim_def)
    qed
  qed
  from assms(5,6,9,10) have "trim ?l = ?l" by (simp add: ends)
  then have t: "trim (a @ ?l @ d) = ?l" by (rule trim_spaces [OF assms(1,4)])
  have sp: "\<not> is_space CHR ''=''" by (simp add: is_space_def)
  then have "CHR ''='' \<notin> set (name @ b)" using assms(2,7) by (auto simp: list_all_iff)
  from find_sub_char [OF this, of "c @ value"] have f: "find_sub ''='' ?l = Some (length (name @ b))" by simp
  have "trim (name @ b) = name" "trim (c @ value) = value"
    using trim_spaces [of "[]" b name] trim_spaces [of c "[]" "value"] assms by simp_all
  with t f assms(6,8) show ?thesis by (simp add: parse_line_def Let_def)
qed

lemma parse_line_assigns_witness:
  "logthreads (parse_line ''  LOGTHREADS =8 '' lv_settings_init) = logthreads (set_property ''LOGTHREADS'' ''8'' lv_settings_init)"
  using parse_line_assigns [of "''  ''" "'' ''" "[]" "'' ''" "''LOGTHREADS''" "''8''" lv_settings_init]
  by (simp add: is_space_def trim_def)

end
