(* ===== verification/Buffer.thy ===== *)
theory Buffer
  imports Prelude
begin

text \<open>
  \<open>LakeVilla/Buffer\<close>: a buffer element owns a string or nothing, a buffer manager is a
  vector of elements that grows on access.  An element's size is a uint32_t of its own, set
  from the string's size_t.  A (char*, size) pair is the memory the pointer points to
  (\<open>None\<close> for a null pointer) with the size; its contents are the first bytes of it.
\<close>

record buffer_element =
  be_data :: "string option"
  be_size :: nat

definition be_empty :: buffer_element where
  "be_empty = \<lparr>be_data = None, be_size = 0\<rparr>"

definition be_sized :: "nat \<Rightarrow> buffer_element" where
  "be_sized n = \<lparr>be_data = Some (replicate n CHR ''0''), be_size = n\<rparr>"

definition be_of_pair :: "string \<times> nat \<Rightarrow> buffer_element" where
  "be_of_pair p = \<lparr>be_data = Some (take (snd p) (fst p)), be_size = snd p\<rparr>"

definition be_of_string :: "string \<Rightarrow> buffer_element" where
  "be_of_string s = \<lparr>be_data = Some s, be_size = u32 (length s)\<rparr>"

definition be_get_size :: "buffer_element \<Rightarrow> nat" where
  "be_get_size e = be_size e"

definition be_has_element :: "buffer_element \<Rightarrow> bool" where
  "be_has_element e \<longleftrightarrow> be_data e \<noteq> None"

text \<open>The getters dereference the owned string: \<open>None\<close> is a null dereference.\<close>

definition be_get_as_pair :: "buffer_element \<Rightarrow> (string \<times> nat) option" where
  "be_get_as_pair e = map_option (\<lambda>s. (s, be_size e)) (be_data e)"

definition be_get_as_string :: "buffer_element \<Rightarrow> string option" where
  "be_get_as_string e = be_data e"

definition be_update_pair :: "string option \<times> nat \<Rightarrow> buffer_element \<Rightarrow> bool \<times> buffer_element" where
  "be_update_pair p e =
     (case fst p of
        None \<Rightarrow> (False, e)
      | Some buf \<Rightarrow> (True, e\<lparr>be_data := Some (take (snd p) buf), be_size := snd p\<rparr>))"

definition be_update :: "string \<Rightarrow> buffer_element \<Rightarrow> bool \<times> buffer_element" where
  "be_update s e = (True, e\<lparr>be_size := u32 (length s), be_data := Some s\<rparr>)"

text \<open>Move assignment: the other element loses its string but keeps its size.\<close>

definition be_move_assign ::
    "buffer_element \<Rightarrow> buffer_element \<Rightarrow> buffer_element \<times> buffer_element" where
  "be_move_assign other e =
     (e\<lparr>be_data := be_data other, be_size := be_size other\<rparr>, other\<lparr>be_data := None\<rparr>)"

definition be_copy_assign :: "buffer_element \<Rightarrow> buffer_element \<Rightarrow> buffer_element" where
  "be_copy_assign other e =
     (let e = e\<lparr>be_size := be_size other\<rparr>
      in if be_has_element other then e\<lparr>be_data := be_get_as_string other\<rparr>
         else e\<lparr>be_data := None\<rparr>)"

definition be_clear :: "buffer_element \<Rightarrow> buffer_element" where
  "be_clear e = e\<lparr>be_data := None, be_size := 0\<rparr>"

section \<open>The manager\<close>

type_synonym buffer_manager = "buffer_element list"

definition bm_new :: "nat \<Rightarrow> buffer_manager" where
  "bm_new n = replicate n be_empty"

text \<open>\<open>while (elements.size() <= index) elements.push_back(...)\<close>\<close>

function bm_grow :: "nat \<Rightarrow> buffer_manager \<Rightarrow> buffer_manager" where
  "bm_grow index bm = (if length bm \<le> index then bm_grow index (bm @ [be_empty]) else bm)"
  by auto
termination by (relation "measure (\<lambda>(index, bm). Suc index - length bm)") auto

declare bm_grow.simps [simp del]

definition bm_set :: "nat \<Rightarrow> string \<Rightarrow> buffer_manager \<Rightarrow> bool \<times> buffer_manager" where
  "bm_set index data bm =
     (let bm = bm_grow index bm in (True, bm[index := snd (be_update data (bm ! index))]))"

definition bm_set_pair ::
    "nat \<Rightarrow> string option \<times> nat \<Rightarrow> buffer_manager \<Rightarrow> bool \<times> buffer_manager" where
  "bm_set_pair index data bm =
     (let bm = bm_grow index bm in (True, bm[index := snd (be_update_pair data (bm ! index))]))"

definition bm_get :: "nat \<Rightarrow> buffer_manager \<Rightarrow> buffer_element \<times> buffer_manager" where
  "bm_get index bm = (let bm = bm_grow index bm in (bm ! index, bm))"

definition bm_get_size :: "buffer_manager \<Rightarrow> nat" where
  "bm_get_size bm = length bm"

definition bm_copy_elements :: "buffer_manager \<Rightarrow> buffer_manager" where
  "bm_copy_elements other =
     map (\<lambda>i. case be_get_as_string (fst (bm_get (u32 i) other)) of
                None \<Rightarrow> be_empty
              | Some elem \<Rightarrow> snd (be_update elem be_empty)) [0..<length other]"

text \<open>\<open>copy\<close> clears its own elements before it reads the other's, so copying a manager
  to itself empties it.\<close>

definition bm_copy :: "bool \<Rightarrow> buffer_manager \<Rightarrow> buffer_manager \<Rightarrow> bool \<times> buffer_manager" where
  "bm_copy self other bm = (True, if self then bm_copy_elements [] else bm_copy_elements other)"

section \<open>What is stored is read back\<close>

lemma bm_grow_append: "bm_grow index bm = bm @ replicate (Suc index - length bm) be_empty"
proof (induction index bm rule: bm_grow.induct)
  case (1 index bm)
  show ?case
  proof (cases "length bm \<le> index")
    case True
    then have "Suc index - length bm = Suc (Suc index - length (bm @ [be_empty]))" by simp
    with True "1.IH" show ?thesis by (subst bm_grow.simps) simp
  next
    case False
    then show ?thesis by (subst bm_grow.simps) simp
  qed
qed

lemma length_bm_grow [simp]: "length (bm_grow i bm) = max (length bm) (Suc i)"
  by (simp add: bm_grow_append)

definition bm_at :: "buffer_manager \<Rightarrow> nat \<Rightarrow> buffer_element" where
  "bm_at bm i = (if i < length bm then bm ! i else be_empty)"

lemma nth_bm_grow [simp]: "i < max (length bm) (Suc j) \<Longrightarrow> bm_grow j bm ! i = bm_at bm i"
  by (auto simp: bm_grow_append bm_at_def nth_append)

lemma bm_get_at: "fst (bm_get i bm) = bm_at bm i"
  by (simp add: bm_get_def)

lemma bm_at_set:
  "bm_at (snd (bm_set j d bm)) i = (if i = j then be_of_string d else bm_at bm i)"
  by (auto simp: bm_set_def be_update_def be_of_string_def bm_at_def [of "list_update _ _ _"] Let_def
      nth_list_update) (auto simp: bm_at_def)

lemma bm_copy_elements_nth:
  "length bm \<le> 2 ^ 32 \<Longrightarrow> i < length bm \<Longrightarrow>
   bm_copy_elements bm ! i = (case be_data (bm ! i) of None \<Rightarrow> be_empty | Some s \<Rightarrow> be_of_string s)"
  by (simp add: bm_copy_elements_def bm_get_at bm_at_def be_get_as_string_def be_update_def
      be_of_string_def be_empty_def u32_id split: option.splits)

section \<open>Properties\<close>

text \<open>A buffer manager gives back what was stored: after storing a string at an index, reading an
  index gives that string with its size if it is the same index, and what was there before
  otherwise; indices never stored hold no element.\<close>

lemma buffer_get_set:
  "fst (bm_get i (snd (bm_set j data bm))) = (if i = j then be_of_string data else fst (bm_get i bm))"
  by (simp add: bm_get_at bm_at_set)

text \<open>Copying a manager to another one copies the contents: every element of the copy has the
  string of the original, and the copy has as many elements.\<close>

lemma buffer_copy_contents:
  assumes "length other \<le> 2 ^ 32"
  shows "map be_data (snd (bm_copy False other bm)) = map be_data other"
proof -
  have "length (bm_copy_elements other) = length other" by (simp add: bm_copy_elements_def)
  moreover have "be_data (bm_copy_elements other ! i) = be_data (other ! i)" if "i < length other" for i
    using bm_copy_elements_nth [OF assms that]
    by (simp add: be_empty_def be_of_string_def split: option.splits)
  ultimately show ?thesis by (intro nth_equalityI) (simp_all add: bm_copy_def)
qed

lemma buffer_copy_contents_witness:
  "map be_data (snd (bm_copy False [be_of_string ''x'', be_empty] [])) = [Some ''x'', None]"
  using buffer_copy_contents [of "[be_of_string ''x'', be_empty]" "[]"]
  by (simp add: be_of_string_def be_empty_def)

end
