(* ===== verification/Json.thy ===== *)
theory Json
  imports Prelude "HOL-Library.Word"
begin

text \<open>
  The values of rapidjson (a git submodule, whose code is not part of the repository) as the
  sources use them: the kinds of a value, its typed accessors, and member lookup, which finds
  the first member of that name.  Parsing and writing JSON text are parameters of the
  definitions that use them; \<open>json_codec\<close> states what the sources rely on.
\<close>

datatype json =
    JNull
  | JBool bool
  | JInt int
  | JDouble "64 word" \<comment> \<open>the bits of the IEEE value\<close>
  | JString string
  | JArray "json list"
  | JObject "(string \<times> json) list"

text \<open>A parser gives \<open>None\<close> for a parse error.\<close>

type_synonym json_parser = "string \<Rightarrow> json option"
type_synonym json_writer = "json \<Rightarrow> string"

fun is_object :: "json \<Rightarrow> bool" where
  "is_object (JObject ms) = True"
| "is_object v = False"

fun is_array :: "json \<Rightarrow> bool" where
  "is_array (JArray vs) = True"
| "is_array v = False"

fun is_string :: "json \<Rightarrow> bool" where
  "is_string (JString s) = True"
| "is_string v = False"

fun find_member :: "string \<Rightarrow> json \<Rightarrow> json option" where
  "find_member name (JObject ms) = map_of ms name"
| "find_member name v = None"

definition has_member :: "string \<Rightarrow> json \<Rightarrow> bool" where
  "has_member name v \<longleftrightarrow> find_member name v \<noteq> None"

text \<open>A std::string made from the \<open>const char*\<close> of a JSON string ends at its first NUL.\<close>

definition c_str :: "string \<Rightarrow> string" where
  "c_str s = takeWhile (\<lambda>c. c \<noteq> CHR 0x00) s"

lemma c_str_id: "CHR 0x00 \<notin> set s \<Longrightarrow> c_str s = s"
  by (auto simp: c_str_def takeWhile_eq_all_conv)

text \<open>The accessors give \<open>None\<close> where the corresponding \<open>Is...\<close> test fails.\<close>

fun as_string :: "json \<Rightarrow> string option" where
  "as_string (JString s) = Some s"
| "as_string v = None"

fun as_bool :: "json \<Rightarrow> bool option" where
  "as_bool (JBool b) = Some b"
| "as_bool v = None"

fun as_int64 :: "json \<Rightarrow> int option" where
  "as_int64 (JInt i) = (if in_int64 i then Some i else None)"
| "as_int64 v = None"

fun as_int :: "json \<Rightarrow> int option" where
  "as_int (JInt i) = (if in_int32 i then Some i else None)"
| "as_int v = None"

fun as_uint :: "json \<Rightarrow> nat option" where
  "as_uint (JInt i) = (if 0 \<le> i \<and> i < 2 ^ 32 then Some (nat i) else None)"
| "as_uint v = None"

fun as_uint64 :: "json \<Rightarrow> nat option" where
  "as_uint64 (JInt i) = (if 0 \<le> i \<and> i < 2 ^ 64 then Some (nat i) else None)"
| "as_uint64 v = None"

fun as_array :: "json \<Rightarrow> json list option" where
  "as_array (JArray vs) = Some vs"
| "as_array v = None"

fun as_object :: "json \<Rightarrow> (string \<times> json) list option" where
  "as_object (JObject ms) = Some ms"
| "as_object v = None"

definition member_string :: "string \<Rightarrow> json \<Rightarrow> string option" where
  "member_string name v = Option.bind (find_member name v) as_string"

definition member_int64 :: "string \<Rightarrow> json \<Rightarrow> int option" where
  "member_int64 name v = Option.bind (find_member name v) as_int64"

definition member_object :: "string \<Rightarrow> json \<Rightarrow> json option" where
  "member_object name v =
     (case find_member name v of
        Some m \<Rightarrow> if is_object m then Some m else None
      | None \<Rightarrow> None)"

text \<open>The values a Writer can write and a parser reads back: integers of at most 64 bits
  and finite doubles.\<close>

fun json_ok :: "json \<Rightarrow> bool" where
  "json_ok (JInt i) = (- (2 ^ 63) \<le> i \<and> i < 2 ^ 64)"
| "json_ok (JDouble w) = (take_bit 11 (drop_bit 52 w) \<noteq> 2047)"
| "json_ok (JArray vs) = list_all json_ok vs"
| "json_ok (JObject ms) = list_all (\<lambda>(n, v). json_ok v) ms"
| "json_ok v = True"

text \<open>The documented behaviour the sources rely on: written text is read back as the same
  value, it is one line without NUL (control characters are escaped), and an object is at least the two
  characters of its braces.\<close>

definition json_codec :: "json_parser \<Rightarrow> json_writer \<Rightarrow> bool" where
  "json_codec parse write \<longleftrightarrow>
     (\<forall>v. json_ok v \<longrightarrow>
        parse (write v) = Some v \<and> newline \<notin> set (write v) \<and> CHR 0x00 \<notin> set (write v) \<and>
        (is_object v \<longrightarrow> 2 \<le> length (write v)))"

lemma json_codecD:
  assumes "json_codec parse write" and "json_ok v"
  shows "parse (write v) = Some v" and "newline \<notin> set (write v)"
    and "CHR 0x00 \<notin> set (write v)" and "is_object v \<Longrightarrow> 2 \<le> length (write v)"
  using assms by (auto simp: json_codec_def)

text \<open>The lines of a log object that hold a JSON object; empty lines, lines of one character
  and invalid lines are skipped.\<close>

definition json_objects :: "json_parser \<Rightarrow> string \<Rightarrow> json list" where
  "json_objects parse text =
     filter is_object
       (List.map_filter (\<lambda>l. parse (c_str l)) (filter (\<lambda>l. 1 < length l) (getlines text)))"

lemma json_objects_lines:
  assumes codec: "json_codec parse write" and ok: "\<And>v. v \<in> set vs \<Longrightarrow> json_ok v \<and> is_object v"
  shows "json_objects parse (concat (map (\<lambda>v. write v @ [newline]) vs)) = vs"
proof -
  have "getlines (concat (map (\<lambda>v. write v @ [newline]) vs)) = map write vs"
    using getlines_concat [of "map write vs"] json_codecD(2) [OF codec] ok
    by (fastforce simp: comp_def)
  moreover have "filter (\<lambda>l. 1 < length l) (map write vs) = map write vs"
    using json_codecD(4) [OF codec] ok by (fastforce simp: filter_id_conv)
  moreover have "List.map_filter (\<lambda>l. parse (c_str l)) (map write vs) = vs"
    using json_codecD(1) [OF codec] json_codecD(3) [OF codec] ok
    by (induction vs) (auto simp: List.map_filter_simps c_str_id)
  moreover have "filter is_object vs = vs" using ok by (simp add: filter_id_conv)
  ultimately show ?thesis by (simp add: json_objects_def)
qed

end
