(* ===== verification/SampleCodec.thy ===== *)
theory SampleCodec
  imports Json
begin

text \<open>
  A concrete writer and parser of JSON values with the properties \<open>json_codec\<close> names: a prefix
  code of decimal numbers.  The theorems about the program hold for every codec; the witnesses
  use this one.
\<close>

definition num :: "nat \<Rightarrow> string" where "num n = dec n @ '';''"

definition text_code :: "string \<Rightarrow> string" where
  "text_code s = num (length s) @ concat (map (\<lambda>c. num (of_char c)) s)"

fun sample_write :: "json \<Rightarrow> string" where
  "sample_write JNull = ''n;''"
| "sample_write (JBool b) = (if b then ''t;'' else ''f;'')"
| "sample_write (JInt i) = (if 0 \<le> i then ''p'' @ num (nat i) else ''m'' @ num (nat (- i)))"
| "sample_write (JDouble w) = ''d'' @ num (unat w)"
| "sample_write (JString s) = ''s'' @ text_code s"
| "sample_write (JArray vs) = ''a'' @ num (length vs) @ concat (map sample_write vs)"
| "sample_write (JObject ms) =
     ''o'' @ num (length ms) @ concat (map (\<lambda>(n, v). text_code n @ sample_write v) ms)"

definition read_num :: "string \<Rightarrow> (nat \<times> string) option" where
  "read_num s = Some (undec (takeWhile is_digit s), tl (dropWhile is_digit s))"

fun read_many :: "(string \<Rightarrow> ('a \<times> string) option) \<Rightarrow> nat \<Rightarrow> string \<Rightarrow> ('a list \<times> string) option" where
  "read_many p 0 s = Some ([], s)"
| "read_many p (Suc n) s =
     (case p s of
        None \<Rightarrow> None
      | Some (x, s) \<Rightarrow> map_option (\<lambda>(xs, s). (x # xs, s)) (read_many p n s))"

definition read_text :: "string \<Rightarrow> (string \<times> string) option" where
  "read_text s = Option.bind (read_num s) (\<lambda>(n, s).
     map_option (\<lambda>(xs, s). (map char_of xs, s)) (read_many read_num n s))"

definition read_member :: "(string \<Rightarrow> (json \<times> string) option) \<Rightarrow> string \<Rightarrow> ((string \<times> json) \<times> string) option" where
  "read_member p s = Option.bind (read_text s) (\<lambda>(n, s). map_option (\<lambda>(v, s). ((n, v), s)) (p s))"

fun read_value :: "nat \<Rightarrow> string \<Rightarrow> (json \<times> string) option" where
  "read_value 0 s = None"
| "read_value (Suc k) [] = None"
| "read_value (Suc k) (c # s) =
     (if c = CHR ''n'' then Some (JNull, tl s)
      else if c = CHR ''t'' then Some (JBool True, tl s)
      else if c = CHR ''f'' then Some (JBool False, tl s)
      else if c = CHR ''p'' then map_option (\<lambda>(n, s). (JInt (int n), s)) (read_num s)
      else if c = CHR ''m'' then map_option (\<lambda>(n, s). (JInt (- int n), s)) (read_num s)
      else if c = CHR ''d'' then map_option (\<lambda>(n, s). (JDouble (of_nat n), s)) (read_num s)
      else if c = CHR ''s'' then map_option (\<lambda>(t, s). (JString t, s)) (read_text s)
      else if c = CHR ''a'' then Option.bind (read_num s) (\<lambda>(n, s).
             map_option (\<lambda>(vs, s). (JArray vs, s)) (read_many (read_value k) n s))
      else if c = CHR ''o'' then Option.bind (read_num s) (\<lambda>(n, s).
             map_option (\<lambda>(ms, s). (JObject ms, s)) (read_many (read_member (read_value k)) n s))
      else None)"

definition sample_parse :: "string \<Rightarrow> json option" where
  "sample_parse s = (case read_value (length s) s of Some (v, []) \<Rightarrow> Some v | _ \<Rightarrow> None)"

lemma read_num: "read_num (num n @ r) = Some (n, r)"
proof -
  have "takeWhile is_digit (dec n @ CHR '';'' # r) = dec n" "dropWhile is_digit (dec n @ CHR '';'' # r) = CHR '';'' # r"
    using dec_digits [of n] by (simp_all add: list_all_iff takeWhile_append2 dropWhile_append2 is_digit_def digits_def)
  then show ?thesis by (simp add: read_num_def num_def)
qed

lemma read_many:
  "(\<And>x r. x \<in> set xs \<Longrightarrow> p (w x @ r) = Some (x, r)) \<Longrightarrow>
   read_many p (length xs) (concat (map w xs) @ r) = Some (xs, r)"
  by (induction xs) auto

lemma read_text: "read_text (text_code s @ r) = Some (s, r)"
  using read_many [of "map of_char s" read_num num r]
  by (simp add: read_text_def text_code_def read_num comp_def)

fun depth :: "json \<Rightarrow> nat" where
  "depth (JArray vs) = Suc (sum_list (map depth vs))"
| "depth (JObject ms) = Suc (sum_list (map (\<lambda>(n, v). depth v) ms))"
| "depth v = 1"

lemma depth_array: "v \<in> set vs \<Longrightarrow> depth v \<le> sum_list (map depth vs)"
  by (induction vs) auto

lemma depth_object: "(n, v) \<in> set ms \<Longrightarrow> depth v \<le> sum_list (map (\<lambda>(n, v). depth v) ms)"
  by (induction ms) auto

lemma depth_le: "depth v \<le> length (sample_write v)"
proof (induction v)
  case (JArray vs)
  then have "sum_list (map depth vs) \<le> sum_list (map (length \<circ> sample_write) vs)"
    by (intro sum_list_mono) simp
  then show ?case by (simp add: num_def length_concat comp_def)
next
  case (JObject ms)
  then have "sum_list (map (\<lambda>(n, v). depth v) ms)
      \<le> sum_list (map (\<lambda>m. length (text_code (fst m) @ sample_write (snd m))) ms)"
    by (intro sum_list_mono) (fastforce simp: trans_le_add2)
  then show ?case by (simp add: num_def length_concat comp_def case_prod_beta)
qed auto

lemma read_value: "depth v \<le> k \<Longrightarrow> read_value k (sample_write v @ r) = Some (v, r)"
proof (induction v arbitrary: k r)
  case (JArray vs)
  then obtain j where k: "k = Suc j" "sum_list (map depth vs) \<le> j" by (cases k) auto
  have "read_value j (sample_write v @ r) = Some (v, r)" if "v \<in> set vs" for v r
    using JArray.IH [OF that] depth_array [OF that] k(2) by simp
  from read_many [of vs, OF this] show ?case by (simp add: k(1) read_num)
next
  case (JObject ms)
  then obtain j where k: "k = Suc j" "sum_list (map (\<lambda>(n, v). depth v) ms) \<le> j" by (cases k) auto
  let ?w = "\<lambda>m. text_code (fst m) @ sample_write (snd m)"
  have "read_member (read_value j) (?w m @ r) = Some (m, r)" if m: "m \<in> set ms" for m r
  proof -
    have "depth (snd m) \<le> j" using depth_object [of "fst m" "snd m" ms] m k(2) by simp
    with JObject.IH [OF m, of "snd m" j r] show ?thesis
      by (cases m) (simp add: read_member_def read_text)
  qed
  from read_many [of ms, OF this] show ?case by (simp add: k(1) read_num case_prod_beta')
qed (auto simp: gr0_conv_Suc Suc_le_eq read_num read_text)

lemma sample_parse: "sample_parse (sample_write v) = Some v"
  using read_value [of v "length (sample_write v)" "[]"] depth_le [of v] by (simp add: sample_parse_def)

definition code_char :: "char \<Rightarrow> bool" where
  "code_char c \<longleftrightarrow> is_digit c \<or> c \<in> set '';ntfpmdsao''"

lemma code_char_tags: "code_char c \<longleftrightarrow> True" if "c \<in> set '';ntfpmdsao''"
  using that by (simp add: code_char_def)

lemma not_code_char: "\<not> code_char newline" "\<not> code_char CHR 0x00"
  by (simp_all add: code_char_def newline_def is_digit_def digits_def)

lemma code_char_num: "list_all code_char (num n)"
proof -
  have "code_char c" if "is_digit c" for c
    using that by (simp add: code_char_def)
  then show ?thesis using dec_digits [of n] by (auto simp: num_def list_all_iff code_char_tags)
qed

lemma code_char_text: "list_all code_char (text_code s)"
  using code_char_num by (auto simp: text_code_def list_all_iff)

lemma sample_chars: "list_all code_char (sample_write v)"
proof (induction v)
  case (JArray vs)
  then show ?case using code_char_num [of "length vs"] by (auto simp: list_all_iff code_char_tags)
next
  case (JObject ms)
  then have "list_all code_char (text_code n @ sample_write w)" if "(n, w) \<in> set ms" for n w
    using that code_char_text [of n] by (fastforce simp: list_all_iff)
  then show ?case using code_char_num [of "length ms"]
    by (auto simp: list_all_iff code_char_tags)
qed (simp_all add: code_char_num code_char_text code_char_tags)

lemma sample_codec: "json_codec sample_parse sample_write"
  unfolding json_codec_def
proof (intro allI impI conjI)
  fix v
  show "sample_parse (sample_write v) = Some v" by (rule sample_parse)
  show "newline \<notin> set (sample_write v)" "CHR 0x00 \<notin> set (sample_write v)"
    using sample_chars [of v] not_code_char unfolding list_all_iff by blast+
  show "2 \<le> length (sample_write v)" if "is_object v"
    using that by (cases v) (auto simp: num_def Suc_le_eq)
qed

end
