(* ===== verification/ArrowTypes.thy ===== *)
theory ArrowTypes
  imports Prelude "HOL-Library.Word"
begin

text \<open>
  Arrow tables as the sources use them: the types of columns with their fields, the values of an
  array element by element (a null element is \<open>AV_NULL\<close>; an element of a struct has the names of
  its fields), and a table as its columns in chunks.
\<close>

datatype time_unit = SECOND | MILLI | MICRO | NANO

datatype arrow_type =
    T_NA | T_BOOL
  | T_INT8 | T_INT16 | T_INT32 | T_INT64 | T_UINT8 | T_UINT16 | T_UINT32 | T_UINT64
  | T_FLOAT | T_DOUBLE
  | T_STRING | T_LARGE_STRING | T_BINARY | T_LARGE_BINARY | T_FIXED_SIZE_BINARY nat
  | T_DATE32 | T_TIMESTAMP time_unit string | T_DECIMAL128 int int
  | T_DICTIONARY arrow_type
  | T_LIST arrow_field | T_LARGE_LIST arrow_field
  | T_MAP arrow_field arrow_field
  | T_STRUCT "arrow_field list"
  | T_OTHER nat
and arrow_field =
    Field (f_name: string) (f_type: arrow_type) (f_nullable: bool) (f_metadata: "(string \<times> string) list")

lemma size_f_type [simp, termination_simp]: "size (f_type f) < size f"
  by (cases f) simp

lemma size_f_type_member [termination_simp]: "f \<in> set fs \<Longrightarrow> size (f_type f) < Suc (size_list size fs)"
  using size_list_estimation' [of f fs "size f" size] size_f_type [of f] by linarith

datatype arrow_value =
    AV_NULL
  | AV_BOOL bool
  | AV_INT int
  | AV_UINT nat
  | AV_FLOAT "64 word" \<comment> \<open>as the double of the same value\<close>
  | AV_DOUBLE "64 word"
  | AV_STRING string
  | AV_TIMESTAMP int \<comment> \<open>the count of units\<close>
  | AV_STRUCT "(string \<times> arrow_value) list"
  | AV_LIST "arrow_value list"
  | AV_MAP "(arrow_value \<times> arrow_value) list"
  | AV_OTHER nat

record table_column =
  col_field :: arrow_field
  col_chunks :: "arrow_value list list"

type_synonym arrow_table = "table_column list"

definition col_values :: "table_column \<Rightarrow> arrow_value list" where
  "col_values c = concat (col_chunks c)"

definition num_rows :: "arrow_table \<Rightarrow> nat" where
  "num_rows t = (case t of [] \<Rightarrow> 0 | c # _ \<Rightarrow> length (col_values c))"

end
