(* ===== verification/Arrow.thy ===== *)
theory Arrow
  imports SampleCodec ArrowTypes
begin

text \<open>
  Columns and fields of Arrow tables by name, the values of a type, and the conversions between JSON
  values and array elements of \<open>Helpers/Helper.cpp\<close>: \<open>arrow_to_json\<close> and \<open>append_json\<close>, which is the
  left inverse on the values that fit a type.
\<close>

text \<open>\<open>arrow::field\<close> without further arguments: nullable, no metadata; \<open>arrow::list\<close> and
  \<open>arrow::map\<close> of types.\<close>

definition field :: "string \<Rightarrow> arrow_type \<Rightarrow> arrow_field" where
  "field name ty = Field name ty True []"

definition list_of :: "arrow_type \<Rightarrow> arrow_type" where
  "list_of ty = T_LIST (field ''item'' ty)"

definition map_type :: "arrow_type \<Rightarrow> arrow_type \<Rightarrow> arrow_type" where
  "map_type k v = T_MAP (Field ''key'' k False []) (field ''value'' v)"

text \<open>Lookup of a column or of a field by name finds nothing when the name is not unique.\<close>

definition unique :: "('a \<Rightarrow> bool) \<Rightarrow> 'a list \<Rightarrow> 'a option" where
  "unique P xs = (case filter P xs of [x] \<Rightarrow> Some x | _ \<Rightarrow> None)"

definition get_column :: "string \<Rightarrow> arrow_table \<Rightarrow> table_column option" where
  "get_column name t = unique (\<lambda>c. f_name (col_field c) = name) t"

fun struct_fields :: "arrow_type \<Rightarrow> arrow_field list option" where
  "struct_fields (T_STRUCT fs) = Some fs"
| "struct_fields _ = None"

text \<open>The child of a struct element; the child array is its values over all elements.\<close>

fun child :: "string \<Rightarrow> arrow_value \<Rightarrow> arrow_value" where
  "child name (AV_STRUCT ms) = (case map_of ms name of Some v \<Rightarrow> v | None \<Rightarrow> AV_NULL)"
| "child name _ = AV_NULL"

definition get_field :: "arrow_field list \<Rightarrow> string \<Rightarrow> (arrow_value \<Rightarrow> arrow_value) option" where
  "get_field fs name = map_option (\<lambda>_. child name) (unique (\<lambda>f. f_name f = name) fs)"

definition struct_field :: "arrow_field list \<Rightarrow> string \<Rightarrow> arrow_type \<Rightarrow> (arrow_value \<Rightarrow> arrow_value) option" where
  "struct_field fs name ty =
     (case unique (\<lambda>f. f_name f = name) fs of
        Some f \<Rightarrow> if f_type f = ty then Some (child name) else None
      | None \<Rightarrow> None)"

section \<open>Values of a type\<close>

text \<open>The types whose values the sources do not read.\<close>

fun opaque :: "arrow_type \<Rightarrow> bool" where
  "opaque T_BINARY = True"
| "opaque T_LARGE_BINARY = True"
| "opaque (T_FIXED_SIZE_BINARY n) = True"
| "opaque T_DATE32 = True"
| "opaque (T_DECIMAL128 p s) = True"
| "opaque (T_DICTIONARY ty) = True"
| "opaque (T_LARGE_LIST f) = True"
| "opaque (T_OTHER n) = True"
| "opaque _ = False"

fun has_type :: "arrow_value \<Rightarrow> arrow_type \<Rightarrow> bool" where
  "has_type AV_NULL ty = True"
| "has_type (AV_BOOL b) ty = (ty = T_BOOL)"
| "has_type (AV_INT i) ty =
     ((ty = T_INT32 \<and> in_int32 i) \<or> (ty = T_INT64 \<and> in_int64 i) \<or>
      (ty = T_INT8 \<and> - 128 \<le> i \<and> i < 128) \<or> (ty = T_INT16 \<and> - 32768 \<le> i \<and> i < 32768))"
| "has_type (AV_UINT n) ty =
     ((ty = T_UINT8 \<and> n < 2 ^ 8) \<or> (ty = T_UINT16 \<and> n < 2 ^ 16) \<or>
      (ty = T_UINT32 \<and> n < 2 ^ 32) \<or> (ty = T_UINT64 \<and> n < 2 ^ 64))"
| "has_type (AV_FLOAT w) ty = (ty = T_FLOAT)"
| "has_type (AV_DOUBLE w) ty = (ty = T_DOUBLE)"
| "has_type (AV_STRING s) ty = (ty = T_STRING \<or> ty = T_LARGE_STRING)"
| "has_type (AV_TIMESTAMP i) ty = (in_int64 i \<and> (case ty of T_TIMESTAMP u z \<Rightarrow> True | _ \<Rightarrow> False))"
| "has_type (AV_STRUCT ms) ty =
     (case ty of
        T_STRUCT fs \<Rightarrow> list_all2 (\<lambda>m f. fst m = f_name f \<and> has_type (snd m) (f_type f)) ms fs
      | _ \<Rightarrow> False)"
| "has_type (AV_LIST vs) ty =
     (case ty of T_LIST f \<Rightarrow> (\<forall>v \<in> set vs. has_type v (f_type f)) | _ \<Rightarrow> False)"
| "has_type (AV_MAP ms) ty =
     (case ty of
        T_MAP k f \<Rightarrow> (\<forall>m \<in> set ms. fst m \<noteq> AV_NULL \<and> has_type (fst m) (f_type k) \<and> has_type (snd m) (f_type f))
      | _ \<Rightarrow> False)"
| "has_type (AV_OTHER n) ty = opaque ty"

section \<open>JSON values and array elements\<close>

fun arrow_to_json :: "arrow_value \<Rightarrow> json" where
  "arrow_to_json AV_NULL = JNull"
| "arrow_to_json (AV_STRING s) = JString s"
| "arrow_to_json (AV_BOOL b) = JBool b"
| "arrow_to_json (AV_INT i) = JInt i"
| "arrow_to_json (AV_DOUBLE w) = JDouble w"
| "arrow_to_json (AV_STRUCT ms) =
     JObject (map (\<lambda>m. (c_str (fst m), arrow_to_json (snd m))) (filter (\<lambda>m. snd m \<noteq> AV_NULL) ms))"
| "arrow_to_json (AV_LIST vs) = JArray (map arrow_to_json vs)"
| "arrow_to_json (AV_MAP ms) =
     JObject (concat (map (\<lambda>m. case arrow_to_json (fst m) of
                                  JString k \<Rightarrow> [(k, arrow_to_json (snd m))] | _ \<Rightarrow> []) ms))"
| "arrow_to_json _ = JNull"

definition int_element :: "int option \<Rightarrow> arrow_value" where
  "int_element v = (case v of Some i \<Rightarrow> AV_INT i | None \<Rightarrow> AV_NULL)"

function append_json :: "json_writer \<Rightarrow> arrow_type \<Rightarrow> json option \<Rightarrow> arrow_value" where
  "append_json write ty v =
     (case v of
        None \<Rightarrow> AV_NULL
      | Some val \<Rightarrow>
          if val = JNull then AV_NULL
          else (case ty of
             T_STRING \<Rightarrow> AV_STRING (case as_string val of Some s \<Rightarrow> s | None \<Rightarrow> write val)
           | T_INT32 \<Rightarrow> int_element (as_int val)
           | T_INT64 \<Rightarrow> int_element (as_int64 val)
           | T_BOOL \<Rightarrow> (case as_bool val of Some b \<Rightarrow> AV_BOOL b | None \<Rightarrow> AV_NULL)
           | T_STRUCT fs \<Rightarrow>
               if is_object val
               then AV_STRUCT (map (\<lambda>f. (f_name f,
                      append_json write (f_type f) (find_member (c_str (f_name f)) val))) fs)
               else AV_NULL
           | T_LIST f \<Rightarrow>
               (case as_array val of
                  Some vs \<Rightarrow> AV_LIST (map (\<lambda>x. append_json write (f_type f) (Some x)) vs)
                | None \<Rightarrow> AV_NULL)
           | T_MAP k f \<Rightarrow>
               (case as_object val of
                  Some ms \<Rightarrow> AV_MAP (map (\<lambda>m. (AV_STRING (fst m),
                               append_json write (f_type f) (Some (snd m)))) ms)
                | None \<Rightarrow> AV_NULL)
           | _ \<Rightarrow> AV_NULL))"
  by pat_completeness auto
termination
proof (relation "measure (\<lambda>(_, ty, _). size ty)")
qed (simp_all add: size_f_type_member less_SucI trans_less_add2)

declare append_json.simps [simp del]

lemma append_json_null [simp]:
  "append_json write ty None = AV_NULL" "append_json write ty (Some JNull) = AV_NULL"
  by (simp_all add: append_json.simps)

text \<open>What is appended has the type of the builder.\<close>

fun builder_type :: "arrow_type \<Rightarrow> bool" where
  "builder_type T_STRING = True"
| "builder_type T_INT32 = True"
| "builder_type T_INT64 = True"
| "builder_type T_BOOL = True"
| "builder_type (T_STRUCT fs) = (fs \<noteq> [] \<and> distinct (map f_name fs) \<and> list_all (\<lambda>f. builder_type (f_type f)) fs)"
| "builder_type (T_LIST f) = builder_type (f_type f)"
| "builder_type (T_MAP k f) = (f_type k = T_STRING \<and> builder_type (f_type f))"
| "builder_type _ = False"

lemma append_json_typed: "builder_type ty \<Longrightarrow> has_type (append_json w ty v) ty"
proof (induction w ty v rule: append_json.induct)
  case (1 w ty v)
  show ?case
  proof (cases "v = None \<or> v = Some JNull")
    case False
    then obtain val where v: "v = Some val" "val \<noteq> JNull" by auto
    note IH = "1.IH" [OF v]
    show ?thesis
    proof (cases ty)
      case (T_STRUCT fs)
      with IH(3) "1.prems" v show ?thesis
        by (auto simp: append_json.simps [of w "T_STRUCT fs"] list_all2_conv_all_nth list_all_length)
    next
      case (T_LIST f)
      with IH(1) "1.prems" v show ?thesis
        by (auto simp: append_json.simps [of w "T_LIST f"] split: option.splits)
    next
      case (T_MAP k f)
      with IH(2) "1.prems" v show ?thesis
        by (auto simp: append_json.simps [of w "T_MAP k f"] split: option.splits)
    next
      case T_INT32
      with v show ?thesis by (cases val) (auto simp: append_json.simps int_element_def)
    next
      case T_INT64
      with v show ?thesis by (cases val) (auto simp: append_json.simps int_element_def)
    next
      case T_BOOL
      with v show ?thesis by (cases val) (auto simp: append_json.simps)
    qed (auto simp: append_json.simps v)
  qed auto
qed

text \<open>The JSON values that a column of a type keeps: an object has members of the fields only, in
  their order.\<close>

function fits :: "arrow_type \<Rightarrow> json \<Rightarrow> bool" where
  "fits ty v =
     (case ty of
        T_STRING \<Rightarrow> is_string v
      | T_INT32 \<Rightarrow> as_int v \<noteq> None
      | T_INT64 \<Rightarrow> as_int64 v \<noteq> None
      | T_BOOL \<Rightarrow> as_bool v \<noteq> None
      | T_STRUCT fs \<Rightarrow> is_object v \<and>
          v = JObject (concat (map (\<lambda>f. case find_member (f_name f) v of
                                          Some x \<Rightarrow> [(f_name f, x)] | None \<Rightarrow> []) fs)) \<and>
          (\<forall>f \<in> set fs. c_str (f_name f) = f_name f \<and>
             (case find_member (f_name f) v of Some x \<Rightarrow> x \<noteq> JNull \<and> fits (f_type f) x | None \<Rightarrow> True))
      | T_LIST f \<Rightarrow>
          (case as_array v of Some vs \<Rightarrow> (\<forall>x \<in> set vs. x = JNull \<or> fits (f_type f) x) | None \<Rightarrow> False)
      | T_MAP k f \<Rightarrow>
          (case as_object v of
             Some ms \<Rightarrow> (\<forall>m \<in> set ms. snd m = JNull \<or> fits (f_type f) (snd m)) | None \<Rightarrow> False)
      | _ \<Rightarrow> False)"
  by pat_completeness auto
termination
  by (relation "measure (\<lambda>(ty, _). size ty)")
     (simp_all add: size_f_type_member less_SucI trans_less_add2)

declare fits.simps [simp del]

lemma append_json_not_null: "fits ty v \<Longrightarrow> append_json write ty (Some v) \<noteq> AV_NULL"
  by (cases ty; cases v) (auto simp: fits.simps append_json.simps int_element_def split: if_splits)

lemma append_json_fits: "fits ty v \<Longrightarrow> arrow_to_json (append_json write ty (Some v)) = v"
proof (induction ty v rule: fits.induct)
  case (1 ty v)
  show ?case
  proof (cases ty)
    case (T_STRUCT fs)
    let ?el = "\<lambda>f. append_json write (f_type f) (find_member (f_name f) v)"
    from "1.prems" T_STRUCT have v: "is_object v"
      "v = JObject (concat (map (\<lambda>f. case find_member (f_name f) v of
                                       Some x \<Rightarrow> [(f_name f, x)] | None \<Rightarrow> []) fs))"
      and fs: "\<And>f. f \<in> set fs \<Longrightarrow> c_str (f_name f) = f_name f"
        "\<And>f x. f \<in> set fs \<Longrightarrow> find_member (f_name f) v = Some x \<Longrightarrow> x \<noteq> JNull \<and> fits (f_type f) x"
      by (auto simp: fits.simps [of "T_STRUCT fs"])
    from v(1) have "v \<noteq> JNull" by auto
    have el: "(if ?el f \<noteq> AV_NULL then [(f_name f, arrow_to_json (?el f))] else [])
        = (case find_member (f_name f) v of Some x \<Rightarrow> [(f_name f, x)] | None \<Rightarrow> [])" if "f \<in> set fs" for f
    proof (cases "find_member (f_name f) v")
      case (Some x)
      with fs(2) [OF that] have "x \<noteq> JNull" "fits (f_type f) x" by auto
      with Some "1.IH"(3) [OF T_STRUCT that Some] v append_json_not_null show ?thesis by auto
    qed simp
    have "map (\<lambda>m. (c_str (fst m), arrow_to_json (snd m)))
        (filter (\<lambda>m. snd m \<noteq> AV_NULL) (map (\<lambda>f. (f_name f, ?el f)) gs))
      = concat (map (\<lambda>f. case find_member (f_name f) v of Some x \<Rightarrow> [(f_name f, x)] | None \<Rightarrow> []) gs)"
      if "set gs \<subseteq> set fs" for gs
      using that
    proof (induction gs)
      case (Cons f gs)
      with el [of f] fs(1) [of f] show ?case by (auto split: if_splits)
    qed simp
    from this [of fs] v fs(1) \<open>v \<noteq> JNull\<close> show ?thesis
      by (simp add: T_STRUCT append_json.simps [of "write" "T_STRUCT fs"] cong: map_cong)
  next
    case (T_LIST f)
    with "1.prems" obtain vs where vs: "v = JArray vs" "\<forall>x \<in> set vs. x = JNull \<or> fits (f_type f) x"
      by (cases v) (auto simp: fits.simps [of "T_LIST f"])
    with "1.IH"(1) [OF T_LIST] show ?thesis
      by (auto simp: T_LIST append_json.simps [of "write" "T_LIST f"] intro!: map_idI)
  next
    case (T_MAP k f)
    with "1.prems" obtain ms where ms: "v = JObject ms" "\<forall>m \<in> set ms. snd m = JNull \<or> fits (f_type f) (snd m)"
      by (cases v) (auto simp: fits.simps [of "T_MAP k f"])
    have "concat (map (\<lambda>m. [(fst m, arrow_to_json (append_json write (f_type f) (Some (snd m))))]) ns) = ns"
      if "set ns \<subseteq> set ms" for ns
      using that
    proof (induction ns)
      case (Cons m ns)
      with ms "1.IH"(2) [OF T_MAP, of ms m] show ?case by (cases m) auto
    qed simp
    from this [of ms] ms show ?thesis
      by (simp add: T_MAP append_json.simps [of "write" "T_MAP k f"] comp_def)
  qed (use "1.prems" in \<open>cases v; auto simp: fits.simps append_json.simps int_element_def split: if_splits\<close>)+
qed

end
