(* ===== verification/StoreClock.thy ===== *)
theory StoreClock
  imports Prelude
begin

text \<open>
  \<open>Connectors/StoreClock\<close>: the time of the object store with its uncertainty, and the
  estimate of the offset between the local clock and the store's clock from responses whose
  store time is truncated to whole seconds.  Times are milliseconds; the sums stay far from
  the bounds of int64_t and are taken without wrap-around.  The mutex makes each operation
  one step.
\<close>

record store_time =
  now_ms :: int
  uncertainty_ms :: int

definition earliest :: "store_time \<Rightarrow> int" where
  "earliest t = now_ms t - uncertainty_ms t"

definition latest :: "store_time \<Rightarrow> int" where
  "latest t = now_ms t + uncertainty_ms t"

record offset_clock =
  oc_valid :: bool
  oc_low :: int
  oc_high :: int
  last_sample :: int

definition offset_clock_init :: offset_clock where
  "offset_clock_init = \<lparr>oc_valid = False, oc_low = 0, oc_high = 0, last_sample = 0\<rparr>"

definition add_sample :: "int \<Rightarrow> int \<Rightarrow> int \<Rightarrow> int \<Rightarrow> offset_clock \<Rightarrow> offset_clock" where
  "add_sample store_ms sent_local_ms received_local_ms resolution_ms c =
     (let sample_low = store_ms - received_local_ms;
          sample_high = store_ms + resolution_ms - sent_local_ms;
          c = c\<lparr>last_sample := received_local_ms\<rparr>
      in if oc_valid c \<and> sample_low \<le> oc_high c \<and> sample_high \<ge> oc_low c
         then c\<lparr>oc_low := max (oc_low c) sample_low, oc_high := min (oc_high c) sample_high\<rparr>
         else c\<lparr>oc_low := sample_low, oc_high := sample_high, oc_valid := True\<rparr>)"

definition clock_now :: "int \<Rightarrow> offset_clock \<Rightarrow> store_time" where
  "clock_now local_ms c =
     (if \<not> oc_valid c then \<lparr>now_ms = local_ms, uncertainty_ms = 0\<rparr>
      else let offset = oc_low c + (oc_high c - oc_low c) sdiv 2
           in \<lparr>now_ms = local_ms + offset, uncertainty_ms = (oc_high c - oc_low c + 1) sdiv 2\<rparr>)"

definition has_samples :: "offset_clock \<Rightarrow> bool" where
  "has_samples c \<longleftrightarrow> oc_valid c"

definition last_sample_local_ms :: "offset_clock \<Rightarrow> int" where
  "last_sample_local_ms c = last_sample c"

section \<open>The estimate holds the true offset\<close>

text \<open>A sample is honest for the offset \<open>\<theta>\<close> of the store's clock: the store answered at
  some local time between sending and receiving, and reported its time truncated to the
  resolution.\<close>

type_synonym clock_sample = "int \<times> int \<times> int \<times> int"

definition honest :: "int \<Rightarrow> clock_sample \<Rightarrow> bool" where
  "honest \<theta> = (\<lambda>(d, s, r, res).
     \<exists>t. s \<le> t \<and> t \<le> r \<and> d \<le> t + \<theta> \<and> t + \<theta> < d + res)"

definition add_samples :: "clock_sample list \<Rightarrow> offset_clock \<Rightarrow> offset_clock" where
  "add_samples xs c = fold (\<lambda>(d, s, r, res). add_sample d s r res) xs c"

definition holds_offset :: "int \<Rightarrow> offset_clock \<Rightarrow> bool" where
  "holds_offset \<theta> c \<longleftrightarrow> oc_valid c \<and> oc_low c \<le> \<theta> \<and> \<theta> \<le> oc_high c"

lemma sdiv_2: "0 \<le> a \<Longrightarrow> (a::int) sdiv 2 = a div 2"
  by (cases "a = 0") (simp_all add: signed_divide_int_def sgn_if)

lemma honest_interval: "honest \<theta> (d, s, r, res) \<Longrightarrow> d - r \<le> \<theta> \<and> \<theta> \<le> d + res - s"
  by (auto simp: honest_def)

lemma add_sample_holds:
  assumes "honest \<theta> (d, s, r, res)" and "oc_valid c \<longrightarrow> holds_offset \<theta> c"
  shows "holds_offset \<theta> (add_sample d s r res c)"
  using honest_interval [OF assms(1)] assms(2)
  by (auto simp: add_sample_def holds_offset_def Let_def)

lemma add_samples_holds:
  "list_all (honest \<theta>) xs \<Longrightarrow> xs \<noteq> [] \<or> oc_valid c \<Longrightarrow> oc_valid c \<longrightarrow> holds_offset \<theta> c \<Longrightarrow>
   holds_offset \<theta> (add_samples xs c)"
proof (induction xs arbitrary: c)
  case Nil
  then show ?case by (simp add: add_samples_def)
next
  case (Cons x xs)
  obtain d s r res where x: "x = (d, s, r, res)" by (cases x) auto
  have h: "holds_offset \<theta> (add_sample d s r res c)"
    using Cons.prems x by (intro add_sample_holds) auto
  then have "oc_valid (add_sample d s r res c)" by (simp add: holds_offset_def)
  with h Cons.IH [of "add_sample d s r res c"] Cons.prems x show ?case
    by (simp add: add_samples_def)
qed

lemma clock_now_bounds:
  assumes "holds_offset \<theta> c"
  shows "earliest (clock_now l c) \<le> l + \<theta> \<and> l + \<theta> \<le> latest (clock_now l c)"
proof -
  from assms have v: "oc_valid c" and b: "oc_low c \<le> \<theta>" "\<theta> \<le> oc_high c"
    by (auto simp: holds_offset_def)
  then have "0 \<le> oc_high c - oc_low c" by simp
  then show ?thesis using v b
    by (simp add: clock_now_def earliest_def latest_def sdiv_2 Let_def) presburger
qed

text \<open>A sample that agrees with the estimate never widens it.\<close>

lemma add_sample_narrows:
  assumes "oc_valid c" "d - r \<le> oc_high c" "oc_low c \<le> d + res - s"
  shows "oc_low c \<le> oc_low (add_sample d s r res c)
    \<and> oc_high (add_sample d s r res c) \<le> oc_high c"
  using assms by (simp add: add_sample_def Let_def)

section \<open>Properties\<close>

text \<open>C40: The store time the connector reports is right: after any number of honest samples - the
  store answered between sending and receiving and reported its time cut to the resolution -
  the store's true time lies between the earliest and the latest time of the estimate.\<close>

theorem store_time_bounds:
  assumes "list_all (honest offset) samples" and "samples \<noteq> []"
  shows "earliest (clock_now local_ms (add_samples samples offset_clock_init)) \<le> local_ms + offset
    \<and> local_ms + offset \<le> latest (clock_now local_ms (add_samples samples offset_clock_init))"
  using add_samples_holds [OF assms(1), of offset_clock_init] assms(2)
  by (intro clock_now_bounds) (simp add: offset_clock_init_def)

lemma store_time_bounds_witness:
  "earliest (clock_now 9000 (add_samples [(5000, 1100, 1300, 1000), (7000, 3010, 3020, 1000)] offset_clock_init))
      \<le> 9000 + 4000
   \<and> 9000 + 4000 \<le> latest (clock_now 9000
        (add_samples [(5000, 1100, 1300, 1000), (7000, 3010, 3020, 1000)] offset_clock_init))"
proof (rule store_time_bounds)
  have "honest 4000 (5000, 1100, 1300, 1000)" unfolding honest_def by (auto intro: exI [of _ 1200])
  moreover have "honest 4000 (7000, 3010, 3020, 1000)" unfolding honest_def by (auto intro: exI [of _ 3015])
  ultimately show "list_all (honest 4000) [(5000, 1100, 1300, 1000), (7000, 3010, 3020, 1000)]" by simp
qed simp

end
