(* ===== verification/ObjectStore.thy ===== *)
theory ObjectStore
  imports StoreClock Json
begin

text \<open>
  \<open>Connectors/Connector.hpp\<close> and \<open>Connectors/MemoryConnector\<close>: the object store the
  transaction manager works on, with S3 semantics (atomic PUT, put-if-absent, put-if-match,
  sorted prefix listings).  \<open>fail_hook\<close> is the code's std::function: it runs before every
  operation, decides whether the operation fails and may itself change the objects (the
  tests call \<open>put\<close> in it).  It is therefore an arbitrary function of the number of its
  calls, the operation, the path and the objects: it stands for the faults of the store and for
  everything other clients do between two operations.  The mutex makes the rest of each
  operation one step.  Clock readings are a function of their number.
\<close>

datatype write_status = Ok | AlreadyExists | PreconditionFailed | Error

record object_version =
  ov_etag :: string
  last_modified_ms :: int

record object_info =
  oi_key :: string
  oi_size :: nat

datatype conn_op = Op_Write | Op_WriteAtomic | Op_WriteIfMatch | Op_Read | Op_List | Op_Check | Op_Delete

record mem_object =
  obj_content :: string
  obj_etag :: string
  modified_ms :: int

record mem_store =
  objects :: "(string \<times> mem_object) list"
  next_etag :: nat

type_synonym hook = "nat \<Rightarrow> conn_op \<Rightarrow> string \<Rightarrow> mem_store \<Rightarrow> bool \<times> mem_store"

record connector =
  mem :: mem_store
  fail_hook :: "hook option"
  hook_calls :: nat
  clock :: "(nat \<Rightarrow> int) option"
  local_clock :: "nat \<Rightarrow> int"
  clock_reads :: nat
  clock_uncertainty_ms :: int
  bytes_read :: nat
  bytes_write :: nat

definition should_fail :: "conn_op \<Rightarrow> string \<Rightarrow> connector \<Rightarrow> bool \<times> connector" where
  "should_fail op path c =
     (case fail_hook c of
        None \<Rightarrow> (False, c)
      | Some h \<Rightarrow>
          (let (b, m) = h (hook_calls c) op path (mem c)
           in (b, c\<lparr>mem := m, hook_calls := Suc (hook_calls c)\<rparr>)))"

definition local_time_ms :: "connector \<Rightarrow> int \<times> connector" where
  "local_time_ms c = (local_clock c (clock_reads c), c\<lparr>clock_reads := Suc (clock_reads c)\<rparr>)"

definition clock_time :: "connector \<Rightarrow> int \<times> connector" where
  "clock_time c =
     (case clock c of
        Some f \<Rightarrow> (f (clock_reads c), c\<lparr>clock_reads := Suc (clock_reads c)\<rparr>)
      | None \<Rightarrow> local_time_ms c)"

definition store_time :: "connector \<Rightarrow> store_time \<times> connector" where
  "store_time c =
     (let (t, c) = clock_time c
      in (\<lparr>now_ms = t, uncertainty_ms = clock_uncertainty_ms c\<rparr>, c))"

section \<open>Storing an object\<close>

definition etag_text :: "nat \<Rightarrow> string" where
  "etag_text n = CHR 0x22 # ''etag-'' @ dec n @ [CHR 0x22]"

definition put_object :: "string \<Rightarrow> string \<Rightarrow> int \<Rightarrow> mem_store \<Rightarrow> mem_store" where
  "put_object path text t m =
     m\<lparr>objects := smap_put path
           \<lparr>obj_content = text, obj_etag = etag_text (next_etag m + 1), modified_ms = t\<rparr>
           (objects m),
       next_etag := next_etag m + 1\<rparr>"

definition store :: "string \<Rightarrow> string \<Rightarrow> connector \<Rightarrow> connector" where
  "store path text c = (let (t, c) = clock_time c in c\<lparr>mem := put_object path text t (mem c)\<rparr>)"

definition lookup_object :: "string \<Rightarrow> connector \<Rightarrow> mem_object option" where
  "lookup_object path c = map_of (objects (mem c)) path"

section \<open>The operations\<close>

definition mc_write :: "string \<Rightarrow> string \<Rightarrow> connector \<Rightarrow> bool \<times> connector" where
  "mc_write path data c =
     (let (fails, c) = should_fail Op_Write path c
      in if fails then (False, c)
         else let c = store path data c
              in (True, c\<lparr>bytes_write := u64 (bytes_write c + length data)\<rparr>))"

text \<open>\<open>write(path, file)\<close>: \<open>None\<close> when the local file cannot be opened.\<close>

definition mc_write_file :: "string \<Rightarrow> string option \<Rightarrow> connector \<Rightarrow> bool \<times> connector" where
  "mc_write_file path file c =
     (case file of None \<Rightarrow> (False, c) | Some text \<Rightarrow> mc_write path text c)"

text \<open>The ETag out-parameter is set only when the object was created.\<close>

definition mc_write_atomic ::
    "string \<Rightarrow> string \<Rightarrow> connector \<Rightarrow> (write_status \<times> string option) \<times> connector" where
  "mc_write_atomic path data c =
     (let (fails, c) = should_fail Op_WriteAtomic path c
      in if fails then ((Error, None), c)
         else if lookup_object path c \<noteq> None then ((AlreadyExists, None), c)
         else let c = store path data c;
                  etag = map_option obj_etag (lookup_object path c)
              in ((Ok, etag), c\<lparr>bytes_write := u64 (bytes_write c + length data)\<rparr>))"

definition mc_read2 :: "string \<Rightarrow> connector \<Rightarrow> string option \<times> connector" where
  "mc_read2 path c =
     (let (fails, c) = should_fail Op_Read path c
      in if fails then (None, c)
         else (case lookup_object path c of
                 None \<Rightarrow> (None, c)
               | Some ob \<Rightarrow>
                   (Some (obj_content ob),
                    c\<lparr>bytes_read := u64 (bytes_read c + length (obj_content ob))\<rparr>)))"

definition mc_read :: "string \<Rightarrow> connector \<Rightarrow> string option \<times> connector" where
  "mc_read path c = mc_read2 path c"

definition mc_read_versioned ::
    "string \<Rightarrow> connector \<Rightarrow> (string option \<times> object_version) \<times> connector" where
  "mc_read_versioned path c =
     (let none = \<lparr>ov_etag = [], last_modified_ms = -1\<rparr>;
          (fails, c) = should_fail Op_Read path c
      in if fails then ((None, none), c)
         else (case lookup_object path c of
                 None \<Rightarrow> ((None, none), c)
               | Some ob \<Rightarrow>
                   ((Some (obj_content ob),
                     \<lparr>ov_etag = obj_etag ob, last_modified_ms = modified_ms ob\<rparr>),
                    c\<lparr>bytes_read := u64 (bytes_read c + length (obj_content ob))\<rparr>)))"

definition mc_write_if_match ::
    "string \<Rightarrow> string \<Rightarrow> string \<Rightarrow> connector \<Rightarrow> write_status \<times> connector" where
  "mc_write_if_match path data etag c =
     (let (fails, c) = should_fail Op_WriteIfMatch path c
      in if fails then (Error, c)
         else (case lookup_object path c of
                 None \<Rightarrow> (PreconditionFailed, c)
               | Some ob \<Rightarrow>
                   if obj_etag ob \<noteq> etag then (PreconditionFailed, c)
                   else let c = store path data c
                        in (Ok, c\<lparr>bytes_write := u64 (bytes_write c + length data)\<rparr>)))"

definition mc_read_mock :: "string \<Rightarrow> connector \<Rightarrow> connector" where
  "mc_read_mock path c = snd (mc_read2 path c)"

definition mc_delete_file :: "string \<Rightarrow> connector \<Rightarrow> bool \<times> connector" where
  "mc_delete_file path c =
     (let (fails, c) = should_fail Op_Delete path c
      in if fails then (False, c)
         else (True, c\<lparr>mem := (mem c)\<lparr>objects := smap_del path (objects (mem c))\<rparr>,
                      bytes_write := u64 (bytes_write c + length path)\<rparr>))"

definition sublog_name :: "string \<Rightarrow> nat \<Rightarrow> string" where
  "sublog_name path log_id = path @ ''00'' @ dec log_id @ ''.sub''"

definition mc_delete_sub_directory :: "string \<Rightarrow> nat \<Rightarrow> connector \<Rightarrow> connector" where
  "mc_delete_sub_directory path until c =
     fold (\<lambda>log_id c. snd (mc_delete_file (sublog_name path log_id) c)) [0..<until] c"

definition mc_check :: "string \<Rightarrow> connector \<Rightarrow> bool \<times> connector" where
  "mc_check path c =
     (let (fails, c) = should_fail Op_Check path c
      in if fails then (False, c)
         else (case lookup_object path c of
                 None \<Rightarrow> (False, c)
               | Some ob \<Rightarrow>
                   (True, c\<lparr>bytes_read := u64 (bytes_read c + length (obj_content ob))\<rparr>)))"

text \<open>From the lower bound of the prefix, while the key has the prefix.\<close>

definition prefix_range :: "string \<Rightarrow> (string \<times> 'a) list \<Rightarrow> (string \<times> 'a) list" where
  "prefix_range pre m =
     takeWhile (\<lambda>(k, _). starts_with pre k) (dropWhile (\<lambda>(k, _). k < pre) m)"

definition mc_list_objects ::
    "string \<Rightarrow> connector \<Rightarrow> object_info list option \<times> connector" where
  "mc_list_objects pre c =
     (let (fails, c) = should_fail Op_List pre c
      in if fails then (None, c)
         else let found = prefix_range pre (objects (mem c))
              in (Some (map (\<lambda>(k, ob). \<lparr>oi_key = k, oi_size = length (obj_content ob)\<rparr>) found),
                  c\<lparr>bytes_read := u64 (bytes_read c + sum_list (map (length \<circ> fst) found))\<rparr>))"

definition mc_list2 :: "string \<Rightarrow> connector \<Rightarrow> string option \<times> connector" where
  "mc_list2 path c =
     (let (objs, c) = mc_list_objects path c
      in (map_option (\<lambda>os. concat (map (\<lambda>ob. oi_key ob @ [newline]) os)) objs, c))"

definition mc_list :: "string \<Rightarrow> connector \<Rightarrow> string option \<times> connector" where
  "mc_list path c = mc_list2 path c"

text \<open>The test helpers.\<close>

definition mc_put :: "string \<Rightarrow> string \<Rightarrow> connector \<Rightarrow> connector" where
  "mc_put path text c = store path text c"

definition mc_get :: "string \<Rightarrow> connector \<Rightarrow> string option" where
  "mc_get path c = map_option obj_content (lookup_object path c)"

definition mc_keys :: "string \<Rightarrow> connector \<Rightarrow> string list" where
  "mc_keys pre c = map fst (prefix_range pre (objects (mem c)))"

definition mc_clear :: "connector \<Rightarrow> connector" where
  "mc_clear c = c\<lparr>mem := (mem c)\<lparr>objects := []\<rparr>\<rparr>"

end
