(* ===== verification/DeltaLog.thy ===== *)
theory DeltaLog
  imports Json "HOL-Library.Product_Lexorder" "HOL-Library.Option_ord" "HOL-Library.Multiset"
begin

text \<open>
  \<open>LakeVilla/DeltaLog\<close>: the entry of a data file (its latest action and statistics) and the
  log manager of one table, which collects the actions of the Delta log in whatever order the
  log is parsed.  An unordered_map is the list of its entries (its iteration order is
  unspecified); the mutex makes each operation one step.
\<close>

section \<open>DeltaLogEntry\<close>

datatype dl_operation = NONE | ADD | DELETE | METADATA | MARKER

record delta_log_entry =
  e_operation :: dl_operation
  e_min :: "string list"
  e_max :: "string list"
  e_min_columns :: "string list"
  e_max_columns :: "string list"
  e_num_records :: int
  e_stats :: string
  e_size :: int
  e_deletion_timestamp :: int
  e_modification_time :: int
  e_partition_values :: string
  e_tags :: string
  e_version :: int

definition entry_of :: "dl_operation \<Rightarrow> delta_log_entry" where
  "entry_of op =
     \<lparr>e_operation = op, e_min = [], e_max = [], e_min_columns = [], e_max_columns = [],
      e_num_records = -1, e_stats = '''', e_size = -1, e_deletion_timestamp = 0,
      e_modification_time = -1, e_partition_values = '''', e_tags = '''', e_version = -1\<rparr>"

definition stat_to_string :: "json_writer \<Rightarrow> json \<Rightarrow> string" where
  "stat_to_string write v =
     (case v of
        JString s \<Rightarrow> c_str s
      | JInt i \<Rightarrow> dec_int i
      | JNull \<Rightarrow> ''''
      | _ \<Rightarrow> c_str (write v))"

text \<open>The values and the columns of a member of the statistics, appended to the vectors.\<close>

definition read_stats ::
    "json_writer \<Rightarrow> json \<Rightarrow> string \<Rightarrow> string list \<times> string list \<Rightarrow> string list \<times> string list" where
  "read_stats write doc name out =
     (case member_object name doc of
        None \<Rightarrow> out
      | Some m \<Rightarrow>
          (case as_object m of
             None \<Rightarrow> out
           | Some ms \<Rightarrow> (fst out @ map (\<lambda>(n, v). stat_to_string write v) ms,
                         snd out @ map (\<lambda>(n, v). c_str n) ms)))"

definition same_name :: "string \<Rightarrow> string \<Rightarrow> bool" where
  "same_name a b \<longleftrightarrow> length a = length b \<and> list_all2 (\<lambda>x y. to_lower x = to_lower y) a b"

definition value_of :: "string list \<Rightarrow> string list \<Rightarrow> string \<Rightarrow> string option" where
  "value_of columns values column =
     (case find (\<lambda>(c, _). c = column) (zip columns values) of
        Some (_, v) \<Rightarrow> Some v
      | None \<Rightarrow> map_option snd (find (\<lambda>(c, _). same_name c column) (zip columns values)))"

definition entry_with_stats ::
    "json_parser \<Rightarrow> json_writer \<Rightarrow> dl_operation \<Rightarrow> string option \<Rightarrow> int \<Rightarrow> delta_log_entry" where
  "entry_with_stats parse write op stats len =
     (let e = (entry_of op)\<lparr>e_size := len\<rparr>
      in case stats of
           None \<Rightarrow> e
         | Some s \<Rightarrow>
             if s = [] then e
             else let e = e\<lparr>e_stats := s\<rparr>
                  in case parse s of
                       None \<Rightarrow> e
                     | Some doc \<Rightarrow>
                         if \<not> is_object doc then e
                         else let (mn, mnc) = read_stats write doc ''minValues'' ([], []);
                                  (mx, mxc) = read_stats write doc ''maxValues'' ([], []);
                                  e = e\<lparr>e_min := mn, e_min_columns := mnc,
                                        e_max := mx, e_max_columns := mxc\<rparr>
                              in case member_int64 ''numRecords'' doc of
                                   Some n \<Rightarrow> e\<lparr>e_num_records := n\<rparr>
                                 | None \<Rightarrow> e)"

definition entry_with_min_max ::
    "dl_operation \<Rightarrow> string list \<Rightarrow> string list \<Rightarrow> delta_log_entry" where
  "entry_with_min_max op mn mx = (entry_of op)\<lparr>e_min := mn, e_max := mx\<rparr>"

definition entry_of_file ::
    "dl_operation \<Rightarrow> string list \<Rightarrow> string list \<Rightarrow> string list \<Rightarrow> int \<Rightarrow> delta_log_entry" where
  "entry_of_file op columns mn mx records =
     (entry_of op)\<lparr>e_min := mn, e_max := mx, e_min_columns := columns, e_max_columns := columns,
                   e_num_records := records\<rparr>"

definition min_of :: "string \<Rightarrow> delta_log_entry \<Rightarrow> string option" where
  "min_of column e = value_of (e_min_columns e) (e_min e) column"

definition max_of :: "string \<Rightarrow> delta_log_entry \<Rightarrow> string option" where
  "max_of column e = value_of (e_max_columns e) (e_max e) column"

definition object_json :: "json_writer \<Rightarrow> json option \<Rightarrow> string" where
  "object_json write v =
     (case v of None \<Rightarrow> '''' | Some m \<Rightarrow> if is_object m then write m else '''')"

definition from_action ::
    "json_parser \<Rightarrow> json_writer \<Rightarrow> dl_operation \<Rightarrow> json \<Rightarrow> int \<Rightarrow> delta_log_entry" where
  "from_action parse write op action version =
     (let stats = (if op = ADD then member_string ''stats'' action else None);
          len = (case member_int64 ''size'' action of Some n \<Rightarrow> n | None \<Rightarrow> -1);
          e = entry_with_stats parse write op (map_option c_str stats) len;
          e = (if op = ADD
               then (case member_int64 ''modificationTime'' action of
                       Some t \<Rightarrow> e\<lparr>e_modification_time := t\<rparr> | None \<Rightarrow> e)
               else (case member_int64 ''deletionTimestamp'' action of
                       Some t \<Rightarrow> e\<lparr>e_deletion_timestamp := t\<rparr> | None \<Rightarrow> e))
      in e\<lparr>e_partition_values := object_json write (find_member ''partitionValues'' action),
           e_tags := object_json write (find_member ''tags'' action),
           e_version := version\<rparr>)"

fun ADDUpdate :: "dl_operation \<Rightarrow> dl_operation" where
  "ADDUpdate DELETE = DELETE"
| "ADDUpdate _ = ADD"

fun DELETEUpdate :: "dl_operation \<Rightarrow> dl_operation" where
  "DELETEUpdate _ = DELETE"

fun METADATAUpdate :: "dl_operation \<Rightarrow> dl_operation" where
  "METADATAUpdate _ = METADATA"

fun NONEUpdate :: "dl_operation \<Rightarrow> dl_operation" where
  "NONEUpdate ADD = ADD"
| "NONEUpdate DELETE = DELETE"
| "NONEUpdate METADATA = METADATA"
| "NONEUpdate _ = NONE"

definition entry_update :: "dl_operation \<Rightarrow> bool \<Rightarrow> delta_log_entry \<Rightarrow> delta_log_entry" where
  "entry_update op overwrite e =
     (if overwrite then e\<lparr>e_operation := op\<rparr>
      else e\<lparr>e_operation :=
             (case e_operation e of
                ADD \<Rightarrow> ADDUpdate op
              | DELETE \<Rightarrow> DELETEUpdate op
              | METADATA \<Rightarrow> METADATAUpdate op
              | NONE \<Rightarrow> NONEUpdate op
              | MARKER \<Rightarrow> MARKER)\<rparr>)"

section \<open>DeltaLogManager\<close>

record checkpoint_txn =
  txn_app_id :: string
  txn_version :: int
  txn_last_updated :: int

record checkpoint_domain =
  cd_domain :: string
  cd_configuration :: string

datatype key_match = Key_None | Key_Possible | Key_Exact

record delta_log =
  dl_base_path :: string
  dl_files :: "(string \<times> delta_log_entry) list"
  dl_read_version :: nat
  dl_write_version :: nat
  dl_protocol :: string
  dl_protocol_version :: int
  dl_metadata :: string
  dl_metadata_version :: int
  dl_unsupported :: string
  dl_transactions :: "(string \<times> checkpoint_txn \<times> nat) list"
  dl_domains :: "(string \<times> string option \<times> nat) list"

definition delta_log_new :: "string \<Rightarrow> delta_log" where
  "delta_log_new base =
     \<lparr>dl_base_path = base, dl_files = [], dl_read_version = 0, dl_write_version = u32_max,
      dl_protocol = '''', dl_protocol_version = -1, dl_metadata = '''', dl_metadata_version = -1,
      dl_unsupported = '''', dl_transactions = [], dl_domains = []\<rparr>"

definition dl_relative :: "string \<Rightarrow> bool \<Rightarrow> delta_log \<Rightarrow> string" where
  "dl_relative path use_base l =
     (if use_base \<and> starts_with (dl_base_path l) path then drop (length (dl_base_path l)) path
      else path)"

definition upsert ::
    "string \<Rightarrow> delta_log_entry \<Rightarrow> dl_operation \<Rightarrow> bool \<Rightarrow> delta_log \<Rightarrow> delta_log" where
  "upsert path e op overwrite l =
     (case map_of (dl_files l) path of
        Some cur \<Rightarrow> l\<lparr>dl_files := AList.update path (entry_update op overwrite cur) (dl_files l)\<rparr>
      | None \<Rightarrow> l\<lparr>dl_files := AList.update path e (dl_files l)\<rparr>)"

definition register_operation ::
    "dl_operation \<Rightarrow> string \<Rightarrow> bool \<Rightarrow> bool \<Rightarrow> delta_log \<Rightarrow> bool \<times> delta_log" where
  "register_operation op path use_base overwrite l =
     (True, upsert (dl_relative path use_base l) (entry_of op) op overwrite l)"

definition register_operation_doc ::
    "json_parser \<Rightarrow> json_writer \<Rightarrow> dl_operation \<Rightarrow> string \<Rightarrow> json \<Rightarrow> bool \<Rightarrow> bool \<Rightarrow> delta_log
     \<Rightarrow> bool \<times> delta_log" where
  "register_operation_doc parse write op path doc use_base overwrite l =
     (let add = member_object ''add'' doc;
          stats = Option.bind add (member_string ''stats'');
          len = (case Option.bind add (member_int64 ''size'') of Some n \<Rightarrow> n | None \<Rightarrow> -1)
      in (True, upsert (dl_relative path use_base l)
                  (entry_with_stats parse write op (map_option c_str stats) len) op overwrite l))"

definition register_operation_min_max ::
    "dl_operation \<Rightarrow> string \<Rightarrow> string list \<Rightarrow> string list \<Rightarrow> bool \<Rightarrow> bool \<Rightarrow> delta_log
     \<Rightarrow> bool \<times> delta_log" where
  "register_operation_min_max op path mn mx use_base overwrite l =
     (True, upsert (dl_relative path use_base l) (entry_with_min_max op mn mx) op overwrite l)"

definition register_operation_entry ::
    "dl_operation \<Rightarrow> string \<Rightarrow> delta_log_entry \<Rightarrow> bool \<Rightarrow> bool \<Rightarrow> delta_log \<Rightarrow> bool \<times> delta_log" where
  "register_operation_entry op path e use_base overwrite l =
     (True, upsert (dl_relative path use_base l) e op overwrite l)"

definition find_files ::
    "string \<Rightarrow> (string option \<Rightarrow> string option \<Rightarrow> int \<Rightarrow> key_match) \<Rightarrow> delta_log
     \<Rightarrow> (string \<times> key_match) list" where
  "find_files column classify l =
     concat (map (\<lambda>(path, e).
        if e_operation e \<noteq> ADD then []
        else (let m = classify (min_of column e) (max_of column e) (e_num_records e)
              in if m \<noteq> Key_None then [(dl_base_path l @ path, m)] else []))
       (dl_files l))"

definition replaces :: "delta_log_entry \<Rightarrow> delta_log_entry \<Rightarrow> bool" where
  "replaces e cur \<longleftrightarrow>
     \<not> (e_version e < e_version cur \<or>
        (e_version e = e_version cur \<and> (e_operation cur = DELETE \<or> e_operation e \<noteq> DELETE)))"

definition register_action :: "string \<Rightarrow> delta_log_entry \<Rightarrow> delta_log \<Rightarrow> delta_log" where
  "register_action path e l =
     (case map_of (dl_files l) path of
        None \<Rightarrow> l\<lparr>dl_files := AList.update path e (dl_files l)\<rparr>
      | Some cur \<Rightarrow>
          if \<not> replaces e cur then l
          else let e = (if e_operation e = DELETE \<and> e_size e < 0 \<and> e_operation cur = ADD
                        then e\<lparr>e_size := e_size cur, e_partition_values := e_partition_values cur\<rparr>
                        else e)
               in l\<lparr>dl_files := AList.update path e (dl_files l)\<rparr>)"

definition set_protocol :: "string \<Rightarrow> nat \<Rightarrow> delta_log \<Rightarrow> delta_log" where
  "set_protocol j version l =
     (if dl_protocol_version l \<le> int version
      then l\<lparr>dl_protocol := j, dl_protocol_version := int version\<rparr> else l)"

definition set_metadata :: "string \<Rightarrow> nat \<Rightarrow> delta_log \<Rightarrow> delta_log" where
  "set_metadata j version l =
     (if dl_metadata_version l \<le> int version
      then l\<lparr>dl_metadata := j, dl_metadata_version := int version\<rparr> else l)"

definition get_protocol :: "delta_log \<Rightarrow> string" where "get_protocol l = dl_protocol l"
definition get_metadata :: "delta_log \<Rightarrow> string" where "get_metadata l = dl_metadata l"
definition get_metadata_version :: "delta_log \<Rightarrow> int" where
  "get_metadata_version l = dl_metadata_version l"

definition get_partition_values ::
    "json_parser \<Rightarrow> string \<Rightarrow> bool \<Rightarrow> delta_log \<Rightarrow> (string \<times> string option) list" where
  "get_partition_values parse path use_base l =
     (case map_of (dl_files l) (dl_relative path use_base l) of
        None \<Rightarrow> []
      | Some e \<Rightarrow>
          (case Option.bind (parse (e_partition_values e)) as_object of
             None \<Rightarrow> []
           | Some ms \<Rightarrow> map (\<lambda>(n, v). (c_str n, map_option c_str (as_string v))) ms))"

definition mark_unsupported :: "string \<Rightarrow> delta_log \<Rightarrow> delta_log" where
  "mark_unsupported reason l =
     (if dl_unsupported l = [] then l\<lparr>dl_unsupported := reason\<rparr> else l)"

definition get_unsupported :: "delta_log \<Rightarrow> string" where "get_unsupported l = dl_unsupported l"

definition set_transaction :: "string \<Rightarrow> int \<Rightarrow> int \<Rightarrow> nat \<Rightarrow> delta_log \<Rightarrow> delta_log" where
  "set_transaction app_id v updated version l =
     (let t = (\<lparr>txn_app_id = app_id, txn_version = v, txn_last_updated = updated\<rparr>, version)
      in case map_of (dl_transactions l) app_id of
           Some (_, cur) \<Rightarrow>
             if version < cur then l
             else l\<lparr>dl_transactions := AList.update app_id t (dl_transactions l)\<rparr>
         | None \<Rightarrow> l\<lparr>dl_transactions := AList.update app_id t (dl_transactions l)\<rparr>)"

definition set_domain_metadata :: "string \<Rightarrow> string option \<Rightarrow> nat \<Rightarrow> delta_log \<Rightarrow> delta_log" where
  "set_domain_metadata domain configuration version l =
     (case map_of (dl_domains l) domain of
        Some (_, cur) \<Rightarrow>
          if version < cur then l
          else l\<lparr>dl_domains := AList.update domain (configuration, version) (dl_domains l)\<rparr>
      | None \<Rightarrow> l\<lparr>dl_domains := AList.update domain (configuration, version) (dl_domains l)\<rparr>)"

definition get_transactions :: "delta_log \<Rightarrow> checkpoint_txn list" where
  "get_transactions l = map (\<lambda>(_, t, _). t) (dl_transactions l)"

definition get_domain_metadata :: "delta_log \<Rightarrow> checkpoint_domain list" where
  "get_domain_metadata l =
     concat (map (\<lambda>(d, c, _). case c of
                     Some conf \<Rightarrow> [\<lparr>cd_domain = d, cd_configuration = conf\<rparr>] | None \<Rightarrow> [])
               (dl_domains l))"

definition get_tombstones :: "delta_log \<Rightarrow> (string \<times> delta_log_entry) list" where
  "get_tombstones l = filter (\<lambda>(_, e). e_operation e = DELETE) (dl_files l)"

definition get_entries :: "delta_log \<Rightarrow> (string \<times> delta_log_entry) list" where
  "get_entries l = filter (\<lambda>(_, e). e_operation e = ADD) (dl_files l)"

definition get_list_raw :: "delta_log \<Rightarrow> string list" where
  "get_list_raw l = map fst (filter (\<lambda>(_, e). e_operation e = ADD) (dl_files l))"

definition get_list :: "delta_log \<Rightarrow> string list" where
  "get_list l = map (\<lambda>(p, _). dl_base_path l @ p) (filter (\<lambda>(_, e). e_operation e = ADD) (dl_files l))"

definition get_size :: "string \<Rightarrow> bool \<Rightarrow> delta_log \<Rightarrow> int" where
  "get_size path use_base l =
     (case map_of (dl_files l) (dl_relative path use_base l) of None \<Rightarrow> -1 | Some e \<Rightarrow> e_size e)"

definition findFileWithStats :: "nat \<Rightarrow> string \<Rightarrow> bool \<Rightarrow> delta_log \<Rightarrow> string" where
  "findFileWithStats pos key use_base l =
     (let name = (case find (\<lambda>(_, e). e_operation e = ADD \<and> pos < length (e_min e)
                        \<and> pos < length (e_max e) \<and> (e_min e ! pos = key \<or> e_max e ! pos = key))
                     (dl_files l) of
                    Some (p, _) \<Rightarrow> p | None \<Rightarrow> '''')
      in if use_base \<and> name \<noteq> [] then dl_base_path l @ name else name)"

definition register_read_version :: "nat \<Rightarrow> delta_log \<Rightarrow> bool \<times> delta_log" where
  "register_read_version version l =
     (True, if dl_read_version l < version then l\<lparr>dl_read_version := version\<rparr> else l)"

definition register_write_version :: "nat \<Rightarrow> delta_log \<Rightarrow> bool \<times> delta_log" where
  "register_write_version version l =
     (if dl_read_version l < version then (True, l\<lparr>dl_write_version := version\<rparr>) else (False, l))"

definition get_write_version :: "delta_log \<Rightarrow> nat" where "get_write_version l = dl_write_version l"
definition get_read_version :: "delta_log \<Rightarrow> nat" where "get_read_version l = dl_read_version l"

section \<open>The highest action wins, in whatever order the log is parsed\<close>

text \<open>A register that keeps the action with the highest key: the final key is the maximum
  of the keys, whatever the order, and the value is one of the actions with that key.\<close>

locale max_register =
  fixes key :: "'s \<Rightarrow> 'k::linorder"
    and val :: "'s \<Rightarrow> 'v"
    and act :: "'e \<Rightarrow> 's \<Rightarrow> 's"
    and akey :: "'e \<Rightarrow> 'k"
    and aval :: "'e \<Rightarrow> 'v"
  assumes key_act: "key (act e s) = max (key s) (akey e)"
    and val_act: "(key s \<le> akey e \<and> val (act e s) = aval e)
      \<or> (akey e \<le> key s \<and> val (act e s) = val s)"
begin

lemma key_fold: "key (fold act es s) = fold (\<lambda>e. max (akey e)) es (key s)"
  by (induction es arbitrary: s) (simp_all add: key_act max.commute)

lemma key_fold_Max: "key (fold act es s) = Max (insert (key s) (akey ` set es))"
proof (induction es arbitrary: s)
  case (Cons e es)
  have "Max (insert (max (key s) (akey e)) (akey ` set es))
      = Max (insert (key s) (insert (akey e) (akey ` set es)))"
    by (cases "set es = {}") (auto simp: max.assoc)
  with Cons show ?case by (simp add: key_act)
qed simp

lemma key_order_independent: "set es = set es' \<Longrightarrow> key (fold act es s) = key (fold act es' s)"
  by (simp add: key_fold_Max)

lemma key_fold_ge: "e \<in> set es \<Longrightarrow> akey e \<le> key (fold act es s)"
  by (simp add: key_fold_Max)

lemma val_fold:
  "(\<exists>e \<in> set es. akey e = key (fold act es s) \<and> val (fold act es s) = aval e)
   \<or> (key (fold act es s) = key s \<and> val (fold act es s) = val s)"
proof (induction es rule: rev_induct)
  case (snoc e es)
  let ?s = "fold act es s"
  from val_act [of ?s e] show ?case
  proof
    assume "key ?s \<le> akey e \<and> val (act e ?s) = aval e"
    then have "akey e = key (act e ?s) \<and> val (act e ?s) = aval e" by (simp add: key_act max_absorb2)
    then show ?thesis by auto
  next
    assume a: "akey e \<le> key ?s \<and> val (act e ?s) = val ?s"
    then have "key (act e ?s) = key ?s" by (simp add: key_act max_absorb1)
    with a snoc show ?thesis by auto
  qed
qed simp

lemma val_is_latest:
  assumes "e \<in> set es" "key s < akey e" "\<And>e'. e' \<in> set es \<Longrightarrow> akey e' < akey e \<or> aval e' = aval e"
    and "\<And>e'. e' \<in> set es \<Longrightarrow> akey e' \<le> akey e"
  shows "val (fold act es s) = aval e"
proof -
  have "key (fold act es s) = akey e"
    unfolding key_fold_Max using assms by (intro Max_eqI) auto
  with val_fold [of es s] assms show ?thesis by fastforce
qed

end

text \<open>Each kind of action is such a register, the files one per path.\<close>

definition entry_key :: "delta_log_entry \<Rightarrow> int \<times> bool" where
  "entry_key e = (e_version e, e_operation e = DELETE)"

definition file_key :: "string \<Rightarrow> delta_log \<Rightarrow> (int \<times> bool) option" where
  "file_key path l = map_option entry_key (map_of (dl_files l) path)"

definition file_operation :: "string \<Rightarrow> delta_log \<Rightarrow> dl_operation option" where
  "file_operation path l = map_option e_operation (map_of (dl_files l) path)"

definition at_path :: "string \<Rightarrow> ('e \<Rightarrow> 'a) \<Rightarrow> string \<times> 'e \<Rightarrow> 'a option" where
  "at_path path f a = (if fst a = path then Some (f (snd a)) else None)"

lemma max_None [simp]: "max None (x :: ('a::linorder) option) = x" "max x None = x"
  by (cases x; simp add: max_def)+

lemma replaces_key: "replaces e cur \<longleftrightarrow> entry_key cur < entry_key e"
  by (auto simp: replaces_def entry_key_def less_prod_def)

lemma map_of_register_action:
  "map_of (dl_files (register_action p e l)) q =
     (if q = p \<and> (\<forall>cur. map_of (dl_files l) p = Some cur \<longrightarrow> replaces e cur)
      then (case map_of (dl_files l) p of
              None \<Rightarrow> Some e
            | Some cur \<Rightarrow> Some (if e_operation e = DELETE \<and> e_size e < 0 \<and> e_operation cur = ADD
                then e\<lparr>e_size := e_size cur, e_partition_values := e_partition_values cur\<rparr> else e))
      else map_of (dl_files l) q)"
  by (auto simp: register_action_def Let_def update_conv' split: option.splits)

lemma base_path_register_action [simp]: "dl_base_path (register_action p e l) = dl_base_path l"
  by (simp add: register_action_def Let_def split: option.splits)

lemma register_action_key:
  "file_key q (register_action p e l) = max (file_key q l) (at_path q entry_key (p, e))"
proof (cases "q = p")
  case True
  show ?thesis
  proof (cases "map_of (dl_files l) p")
    case None
    with True show ?thesis by (simp add: file_key_def map_of_register_action at_path_def)
  next
    case (Some cur)
    with True show ?thesis
      by (auto simp: file_key_def map_of_register_action at_path_def replaces_key entry_key_def max_def)
  qed
next
  case False
  then show ?thesis by (auto simp: file_key_def map_of_register_action at_path_def)
qed

lemma register_action_operation:
  "(file_key q l \<le> at_path q entry_key (p, e) \<and>
      file_operation q (register_action p e l) = at_path q e_operation (p, e))
   \<or> (at_path q entry_key (p, e) \<le> file_key q l \<and>
      file_operation q (register_action p e l) = file_operation q l)"
proof (cases "q = p")
  case True
  then show ?thesis
    by (cases "map_of (dl_files l) p")
      (auto simp: file_key_def file_operation_def at_path_def map_of_register_action replaces_key)
next
  case False
  then show ?thesis by (auto simp: file_operation_def map_of_register_action at_path_def)
qed

interpretation files: max_register "file_key path" "file_operation path"
    "\<lambda>a. register_action (fst a) (snd a)" "at_path path entry_key" "at_path path e_operation"
  for path
proof
  fix a :: "string \<times> delta_log_entry" and l
  show "file_key path (register_action (fst a) (snd a) l) = max (file_key path l) (at_path path entry_key a)"
    using register_action_key [of path "fst a" "snd a" l] by simp
  show "file_key path l \<le> at_path path entry_key a \<and>
      file_operation path (register_action (fst a) (snd a) l) = at_path path e_operation a \<or>
      at_path path entry_key a \<le> file_key path l \<and>
      file_operation path (register_action (fst a) (snd a) l) = file_operation path l"
    using register_action_operation [of path l "fst a" "snd a"] by simp
qed

interpretation metadata: max_register dl_metadata_version dl_metadata
    "\<lambda>a. set_metadata (fst a) (snd a)" "\<lambda>a. int (snd a)" fst
  by unfold_locales (auto simp: set_metadata_def)

interpretation protocol: max_register dl_protocol_version dl_protocol
    "\<lambda>a. set_protocol (fst a) (snd a)" "\<lambda>a. int (snd a)" fst
  by unfold_locales (auto simp: set_protocol_def)

definition txn_at :: "string \<Rightarrow> delta_log \<Rightarrow> (checkpoint_txn \<times> nat) option" where
  "txn_at app l = map_of (dl_transactions l) app"

definition domain_at :: "string \<Rightarrow> delta_log \<Rightarrow> (string option \<times> nat) option" where
  "domain_at d l = map_of (dl_domains l) d"

lemma txn_at_set:
  "txn_at app (set_transaction a v u ver l) =
     (if app = a \<and> (\<forall>t cur. txn_at a l = Some (t, cur) \<longrightarrow> cur \<le> ver)
      then Some (\<lparr>txn_app_id = a, txn_version = v, txn_last_updated = u\<rparr>, ver) else txn_at app l)"
  by (cases "map_of (dl_transactions l) a")
     (auto simp: set_transaction_def txn_at_def update_conv' Let_def)

lemma domain_at_set:
  "domain_at d (set_domain_metadata n c ver l) =
     (if d = n \<and> (\<forall>t cur. domain_at n l = Some (t, cur) \<longrightarrow> cur \<le> ver)
      then Some (c, ver) else domain_at d l)"
  by (cases "map_of (dl_domains l) n")
     (auto simp: set_domain_metadata_def domain_at_def update_conv' Let_def)

definition txn_act :: "checkpoint_txn \<times> nat \<Rightarrow> delta_log \<Rightarrow> delta_log" where
  "txn_act a = set_transaction (txn_app_id (fst a)) (txn_version (fst a)) (txn_last_updated (fst a)) (snd a)"

definition domain_act :: "string \<times> string option \<times> nat \<Rightarrow> delta_log \<Rightarrow> delta_log" where
  "domain_act a = set_domain_metadata (fst a) (fst (snd a)) (snd (snd a))"

interpretation txns: max_register "\<lambda>l. map_option snd (txn_at app l)" "\<lambda>l. map_option fst (txn_at app l)"
    txn_act "\<lambda>a. if txn_app_id (fst a) = app then Some (snd a) else None"
    "\<lambda>a. if txn_app_id (fst a) = app then Some (fst a) else None"
  for app
proof
  fix a :: "checkpoint_txn \<times> nat" and l
  show "map_option snd (txn_at app (txn_act a l)) =
      max (map_option snd (txn_at app l)) (if txn_app_id (fst a) = app then Some (snd a) else None)"
    by (cases "txn_at app l") (auto simp: txn_act_def txn_at_set max_def)
  show "map_option snd (txn_at app l) \<le> (if txn_app_id (fst a) = app then Some (snd a) else None) \<and>
      map_option fst (txn_at app (txn_act a l)) = (if txn_app_id (fst a) = app then Some (fst a) else None) \<or>
      (if txn_app_id (fst a) = app then Some (snd a) else None) \<le> map_option snd (txn_at app l) \<and>
      map_option fst (txn_at app (txn_act a l)) = map_option fst (txn_at app l)"
    by (cases "txn_at app l") (auto simp: txn_act_def txn_at_set)
qed

interpretation domains: max_register "\<lambda>l. map_option snd (domain_at d l)" "\<lambda>l. map_option fst (domain_at d l)"
    domain_act "\<lambda>a. if fst a = d then Some (snd (snd a)) else None"
    "\<lambda>a. if fst a = d then Some (fst (snd a)) else None"
  for d
proof
  fix a :: "string \<times> string option \<times> nat" and l
  show "map_option snd (domain_at d (domain_act a l)) =
      max (map_option snd (domain_at d l)) (if fst a = d then Some (snd (snd a)) else None)"
    by (cases "domain_at d l") (auto simp: domain_act_def domain_at_set max_def prod_eq_iff)
  show "map_option snd (domain_at d l) \<le> (if fst a = d then Some (snd (snd a)) else None) \<and>
      map_option fst (domain_at d (domain_act a l)) = (if fst a = d then Some (fst (snd a)) else None) \<or>
      (if fst a = d then Some (snd (snd a)) else None) \<le> map_option snd (domain_at d l) \<and>
      map_option fst (domain_at d (domain_act a l)) = map_option fst (domain_at d l)"
    by (cases a; cases "domain_at d l") (auto simp: domain_act_def domain_at_set)
qed

section \<open>The files of the snapshot\<close>

text \<open>The Delta protocol's definition of a snapshot: a file is active if the latest of its
  actions is an add, where a remove comes after an add of the same version.\<close>

definition active :: "(string \<times> delta_log_entry) list \<Rightarrow> string \<Rightarrow> bool" where
  "active acts path \<longleftrightarrow>
     (\<exists>a \<in> set acts. fst a = path \<and> e_operation (snd a) = ADD \<and>
        (\<forall>b \<in> set acts. fst b = path \<longrightarrow> entry_key (snd b) \<le> entry_key (snd a)))"

definition register_actions :: "(string \<times> delta_log_entry) list \<Rightarrow> delta_log \<Rightarrow> delta_log" where
  "register_actions acts l = fold (\<lambda>a. register_action (fst a) (snd a)) acts l"

definition add_or_remove :: "string \<times> delta_log_entry \<Rightarrow> bool" where
  "add_or_remove a \<longleftrightarrow> e_operation (snd a) = ADD \<or> e_operation (snd a) = DELETE"

lemma distinct_register_action:
  "distinct (map fst (dl_files l)) \<Longrightarrow> distinct (map fst (dl_files (register_action p e l)))"
  by (auto simp: register_action_def Let_def distinct_update split: option.splits)

lemma distinct_register_actions:
  "distinct (map fst (dl_files l)) \<Longrightarrow> distinct (map fst (dl_files (register_actions acts l)))"
  unfolding register_actions_def
  by (induction acts arbitrary: l) (auto simp: distinct_register_action)

lemma base_path_register_actions [simp]: "dl_base_path (register_actions acts l) = dl_base_path l"
  unfolding register_actions_def by (induction acts arbitrary: l) auto

lemma set_get_list_raw:
  "distinct (map fst (dl_files l)) \<Longrightarrow> set (get_list_raw l) = {p. file_operation p l = Some ADD}"
  by (force simp: get_list_raw_def file_operation_def)

lemma register_actions_active:
  assumes "\<forall>a \<in> set acts. add_or_remove a"
  shows "file_operation path (register_actions acts (delta_log_new base)) = Some ADD \<longleftrightarrow> active acts path"
    (is "?op = _ \<longleftrightarrow> _")
proof -
  let ?l = "register_actions acts (delta_log_new base)"
  have init: "file_key path (delta_log_new base) = None"
    "file_operation path (delta_log_new base) = None"
    by (simp_all add: delta_log_new_def file_key_def file_operation_def)
  note ge = files.key_fold_ge [of _ acts path "delta_log_new base", folded register_actions_def]
  note val = files.val_fold [of acts path "delta_log_new base", folded register_actions_def, unfolded init]
  show ?thesis
  proof
    assume op: "?op = Some ADD"
    with val obtain a where a: "a \<in> set acts" "at_path path entry_key a = file_key path ?l"
      "?op = at_path path e_operation a" by auto
    with op have "fst a = path" "e_operation (snd a) = ADD" by (auto simp: at_path_def split: if_splits)
    moreover have "entry_key (snd b) \<le> entry_key (snd a)" if "b \<in> set acts" "fst b = path" for b
      using ge [OF that(1)] a(2) that(2) \<open>fst a = path\<close> by (simp add: at_path_def flip: a(2))
    ultimately show "active acts path" using a(1) by (auto simp: active_def)
  next
    assume "active acts path"
    then obtain a where a: "a \<in> set acts" "fst a = path" "e_operation (snd a) = ADD"
      "\<And>b. b \<in> set acts \<Longrightarrow> fst b = path \<Longrightarrow> entry_key (snd b) \<le> entry_key (snd a)"
      by (auto simp: active_def)
    from ge [OF a(1)] a(2) have "file_key path ?l \<noteq> None"
      by (cases "file_key path ?l") (auto simp: at_path_def)
    with val obtain b where b: "b \<in> set acts" "at_path path entry_key b = file_key path ?l"
      "?op = at_path path e_operation b" by auto
    with \<open>file_key path ?l \<noteq> None\<close> have p: "fst b = path" by (auto simp: at_path_def split: if_splits)
    have "entry_key (snd a) \<le> entry_key (snd b)"
      using ge [OF a(1)] a(2) b(2) p by (simp add: at_path_def flip: b(2))
    with a(4) [OF b(1) p] have "entry_key (snd b) = entry_key (snd a)" by simp
    with a(3) have "e_operation (snd b) \<noteq> DELETE" by (simp add: entry_key_def)
    with assms b(1) have "e_operation (snd b) = ADD" by (auto simp: add_or_remove_def)
    with b(3) p show "?op = Some ADD" by (simp add: at_path_def)
  qed
qed

lemma set_get_list: "set (get_list l) = (@) (dl_base_path l) ` set (get_list_raw l)"
  by (simp add: get_list_def get_list_raw_def image_image case_prod_beta)

section \<open>Properties\<close>

text \<open>C17: Parsing the add and remove actions of a Delta log in any order, with any
  repetitions, gives the files of the snapshot as the Delta protocol defines it: the data
  files listed are exactly those whose latest action is an add, where a remove comes after an
  add of the same version.\<close>

theorem snapshot_files:
  assumes "\<forall>a \<in> set acts. add_or_remove a"
  shows "set (get_list (register_actions acts (delta_log_new base))) = {base @ p | p. active acts p}"
proof -
  have "distinct (map fst (dl_files (register_actions acts (delta_log_new base))))"
    by (rule distinct_register_actions) (simp add: delta_log_new_def)
  then have "set (get_list_raw (register_actions acts (delta_log_new base))) = {p. active acts p}"
    using register_actions_active [OF assms] by (simp add: set_get_list_raw)
  then show ?thesis by (auto simp: set_get_list delta_log_new_def)
qed

definition demo_actions :: "(string \<times> delta_log_entry) list" where
  "demo_actions =
     [(''b'', (entry_of ADD)\<lparr>e_version := 2\<rparr>), (''a'', (entry_of DELETE)\<lparr>e_version := 3\<rparr>),
      (''a'', (entry_of ADD)\<lparr>e_version := 1\<rparr>)]"

lemma snapshot_files_witness:
  "set (get_list (register_actions demo_actions (delta_log_new ''t/'')))
     = {''t/'' @ p | p. active demo_actions p}
   \<and> get_list (register_actions demo_actions (delta_log_new ''t/'')) = [''t/b'']"
proof
  show "set (get_list (register_actions demo_actions (delta_log_new ''t/'')))
     = {''t/'' @ p | p. active demo_actions p}"
    by (rule snapshot_files) (simp add: demo_actions_def add_or_remove_def entry_of_def)
  show "get_list (register_actions demo_actions (delta_log_new ''t/'')) = [''t/b'']"
    by (simp add: demo_actions_def register_actions_def register_action_def get_list_def
        delta_log_new_def entry_of_def replaces_def)
qed

text \<open>The metadata of a table is that of the highest log version that has a metaData
  action, whatever the order in which the logs are parsed (the log of a version has at most
  one such action).\<close>

lemma metadata_is_latest:
  assumes "(j, v) \<in> set acts" and "\<forall>(j', v') \<in> set acts. v' < v \<or> (j', v') = (j, v)"
  shows "get_metadata (fold (\<lambda>(j, v). set_metadata j v) acts (delta_log_new base)) = j
    \<and> get_metadata_version (fold (\<lambda>(j, v). set_metadata j v) acts (delta_log_new base)) = int v"
proof -
  let ?l = "fold (\<lambda>a. set_metadata (fst a) (snd a)) acts (delta_log_new base)"
  have "dl_metadata ?l = fst (j, v)"
    using assms by (intro metadata.val_is_latest) (auto simp: delta_log_new_def)
  moreover have "dl_metadata_version ?l = int v"
    unfolding metadata.key_fold_Max using assms
    by (intro Max_eqI) (auto simp: delta_log_new_def image_iff intro: bexI [of _ "(j, v)"])
  ultimately show ?thesis by (simp add: get_metadata_def get_metadata_version_def case_prod_beta')
qed

lemma metadata_is_latest_witness:
  "get_metadata (fold (\<lambda>(j, v). set_metadata j v) [(''m1'', 4), (''m0'', 0)] (delta_log_new [])) = ''m1''
   \<and> get_metadata_version (fold (\<lambda>(j, v). set_metadata j v) [(''m1'', 4), (''m0'', 0)] (delta_log_new []))
     = int 4"
  by (rule metadata_is_latest) auto

end
