(* ===== verification/StoreLaws.thy ===== *)
theory StoreLaws
  imports ObjectStore
begin

text \<open>
  The contract of the object store that the lease protocol rests on, as a locale over its
  conditional writes: an ETag that was issued and is gone never comes back, so at most one
  conditional write per ETag succeeds, whatever other clients write or delete in between.
  The memory connector provides it, with a hook that itself only acts through the store.
\<close>

section \<open>The interface\<close>

locale etag_store =
  fixes etag_at :: "'s \<Rightarrow> string \<Rightarrow> string option"
    and issued :: "'s \<Rightarrow> string \<Rightarrow> bool"
    and step :: "'s \<Rightarrow> 's \<Rightarrow> bool"
    and put_match :: "string \<Rightarrow> string \<Rightarrow> string \<Rightarrow> int \<Rightarrow> 's \<Rightarrow> write_status \<times> 's"
    and invar :: "'s \<Rightarrow> bool"
  assumes invar_step: "invar s \<Longrightarrow> step s s' \<Longrightarrow> invar s'"
    and issued_step: "invar s \<Longrightarrow> step s s' \<Longrightarrow> issued s e \<Longrightarrow> issued s' e"
    and etag_fresh: "invar s \<Longrightarrow> step s s' \<Longrightarrow> etag_at s' p = Some e \<Longrightarrow>
      etag_at s p = Some e \<or> \<not> issued s e"
    and etag_issued: "invar s \<Longrightarrow> etag_at s p = Some e \<Longrightarrow> issued s e"
    and etag_unique: "invar s \<Longrightarrow> etag_at s p = Some e \<Longrightarrow> etag_at s q = Some e \<Longrightarrow> p = q"
    and match_Ok: "invar s \<Longrightarrow> put_match p d e t s = (Ok, s') \<Longrightarrow>
      etag_at s p = Some e \<and> step s s' \<and> etag_at s' p \<noteq> Some e"
    and match_refused: "put_match p d e t s = (r, s') \<Longrightarrow> r \<noteq> Ok \<Longrightarrow> s' = s"
begin

lemma steps_invar: "step\<^sup>*\<^sup>* s s' \<Longrightarrow> invar s \<Longrightarrow> invar s'"
  by (induction rule: rtranclp_induct) (auto intro: invar_step)

lemma steps_issued: "step\<^sup>*\<^sup>* s s' \<Longrightarrow> invar s \<Longrightarrow> issued s e \<Longrightarrow> issued s' e"
  by (induction rule: rtranclp_induct) (auto intro: issued_step dest: steps_invar)

lemma gone_stays_gone:
  assumes "step\<^sup>*\<^sup>* s s'" "invar s" "issued s e" "\<forall>p. etag_at s p \<noteq> Some e"
  shows "\<forall>p. etag_at s' p \<noteq> Some e"
  using assms
proof (induction rule: rtranclp_induct)
  case (step y z)
  then have "invar y" "issued y e" by (auto dest: steps_invar steps_issued)
  with step show ?case by (auto dest: etag_fresh)
qed

lemma match_removes_etag:
  assumes "invar s" "put_match p d e t s = (Ok, s')"
  shows "issued s' e \<and> (\<forall>q. etag_at s' q \<noteq> Some e)"
proof -
  from match_Ok [OF assms] have a: "etag_at s p = Some e" "step s s'" "etag_at s' p \<noteq> Some e"
    by auto
  then have i: "issued s e" using assms(1) by (auto dest: etag_issued)
  have "etag_at s' q \<noteq> Some e" for q
  proof
    assume "etag_at s' q = Some e"
    with etag_fresh [OF assms(1) a(2)] i have "etag_at s q = Some e" by auto
    with etag_unique [OF assms(1) a(1)] have "q = p" by auto
    with a(3) \<open>etag_at s' q = Some e\<close> show False by simp
  qed
  with i a assms(1) show ?thesis by (auto dest: issued_step)
qed

lemma one_match_per_etag:
  assumes "invar s" "put_match p d e t s = (Ok, s1)" "step\<^sup>*\<^sup>* s1 s2"
    and "put_match q d' e t' s2 = (r, s3)"
  shows "r \<noteq> Ok \<and> s3 = s2"
proof -
  from match_Ok [OF assms(1,2)] assms(1) have "invar s1" by (auto dest: invar_step)
  moreover from match_removes_etag [OF assms(1,2)]
  have "issued s1 e" "\<forall>q. etag_at s1 q \<noteq> Some e" by auto
  ultimately have gone: "\<forall>q. etag_at s2 q \<noteq> Some e" and "invar s2"
    using gone_stays_gone [OF assms(3)] steps_invar [OF assms(3)] by auto
  then have "r \<noteq> Ok" using match_Ok [of s2 q d' e t' s3] assms(4) by blast
  with match_refused [OF assms(4)] show ?thesis by auto
qed

end

section \<open>The memory store provides it\<close>

definition put_match :: "string \<Rightarrow> string \<Rightarrow> string \<Rightarrow> int \<Rightarrow> mem_store \<Rightarrow> write_status \<times> mem_store" where
  "put_match path data etag t m =
     (case map_of (objects m) path of
        None \<Rightarrow> (PreconditionFailed, m)
      | Some ob \<Rightarrow> if obj_etag ob \<noteq> etag then (PreconditionFailed, m)
                   else (Ok, put_object path data t m))"

definition put_absent :: "string \<Rightarrow> string \<Rightarrow> int \<Rightarrow> mem_store \<Rightarrow> write_status \<times> mem_store" where
  "put_absent path data t m =
     (if map_of (objects m) path \<noteq> None then (AlreadyExists, m) else (Ok, put_object path data t m))"

text \<open>Everything that can happen to the objects: a PUT, a DELETE, or emptying the store.\<close>

inductive store_step :: "mem_store \<Rightarrow> mem_store \<Rightarrow> bool" where
  step_put: "store_step m (put_object path data t m)"
| step_del: "store_step m (m\<lparr>objects := smap_del path (objects m)\<rparr>)"
| step_clear: "store_step m (m\<lparr>objects := []\<rparr>)"

definition etag_at :: "mem_store \<Rightarrow> string \<Rightarrow> string option" where
  "etag_at m path = map_option obj_etag (map_of (objects m) path)"

definition etag_issued :: "mem_store \<Rightarrow> string \<Rightarrow> bool" where
  "etag_issued m e \<longleftrightarrow> (\<exists>n \<le> next_etag m. e = etag_text n)"

definition store_ok :: "mem_store \<Rightarrow> bool" where
  "store_ok m \<longleftrightarrow> smap_ok (objects m)
     \<and> (\<forall>p e. etag_at m p = Some e \<longrightarrow> etag_issued m e)
     \<and> (\<forall>p q e. etag_at m p = Some e \<longrightarrow> etag_at m q = Some e \<longrightarrow> p = q)"

lemma etag_text_inj [simp]: "etag_text a = etag_text b \<longleftrightarrow> a = b"
proof
  assume "etag_text a = etag_text b"
  then have "dec a = dec b" by (simp add: etag_text_def)
  then have "undec (dec a) = undec (dec b)" by simp
  then show "a = b" by simp
qed simp

lemma etag_text_nonempty [simp]: "etag_text n \<noteq> []"
  by (simp add: etag_text_def)

lemma etag_at_put:
  "etag_at (put_object p d t m) q = (if q = p then Some (etag_text (next_etag m + 1)) else etag_at m q)"
  by (simp add: etag_at_def put_object_def)

lemma etag_at_del:
  "smap_ok (objects m) \<Longrightarrow>
   etag_at (m\<lparr>objects := smap_del p (objects m)\<rparr>) q = (if q = p then None else etag_at m q)"
  by (simp add: etag_at_def)

lemma etag_issued_put: "etag_issued m e \<Longrightarrow> etag_issued (put_object p d t m) e"
  by (auto simp: etag_issued_def put_object_def intro: le_SucI)

lemma fresh_not_issued: "\<not> etag_issued m (etag_text (Suc (next_etag m)))"
  by (auto simp: etag_issued_def)

lemma store_ok_put: "store_ok m \<Longrightarrow> store_ok (put_object p d t m)"
proof -
  assume ok: "store_ok m"
  have n: "etag_issued (put_object p d t m) (etag_text (next_etag m + 1))"
    by (auto simp: etag_issued_def put_object_def)
  have f: "etag_at m q \<noteq> Some (etag_text (next_etag m + 1))" for q
    using ok fresh_not_issued [of m] by (simp add: store_ok_def) blast
  from ok n f show ?thesis
    by (auto simp: store_ok_def etag_at_put etag_issued_put split: if_splits)
       (simp add: put_object_def)
qed

lemma store_ok_del: "store_ok m \<Longrightarrow> store_ok (m\<lparr>objects := smap_del p (objects m)\<rparr>)"
  by (auto simp: store_ok_def etag_at_del etag_issued_def split: if_splits)

lemma store_ok_clear: "store_ok (m\<lparr>objects := []\<rparr>)"
  by (simp add: store_ok_def etag_at_def)

lemma store_step_ok: "store_step m m' \<Longrightarrow> store_ok m \<Longrightarrow> store_ok m'"
  by (induction rule: store_step.induct) (simp_all add: store_ok_put store_ok_del store_ok_clear)

lemma store_step_fresh:
  "store_step m m' \<Longrightarrow> store_ok m \<Longrightarrow> etag_at m' p = Some e \<Longrightarrow>
   etag_at m p = Some e \<or> \<not> etag_issued m e"
  by (induction rule: store_step.induct)
     (auto simp: etag_at_put etag_at_del store_ok_def fresh_not_issued
        etag_at_def [of "_\<lparr>objects := []\<rparr>"] split: if_splits)

lemma put_match_Ok:
  assumes "store_ok m" "put_match p d e t m = (Ok, m')"
  shows "etag_at m p = Some e \<and> m' = put_object p d t m"
  using assms by (auto simp: put_match_def etag_at_def split: option.splits if_splits)

interpretation memory: etag_store etag_at etag_issued store_step put_match store_ok
proof unfold_locales
  fix m m' p d e t
  assume a: "store_ok m" "put_match p d e t m = (Ok, m')"
  then have m': "etag_at m p = Some e" "m' = put_object p d t m" by (auto dest: put_match_Ok)
  then have "e \<noteq> etag_text (next_etag m + 1)"
    using a(1) fresh_not_issued [of m] by (auto simp: store_ok_def simp del: etag_text_inj)
  with m' show "etag_at m p = Some e \<and> store_step m m' \<and> etag_at m' p \<noteq> Some e"
    by (auto simp: etag_at_put intro: store_step.intros)
next
  fix m m' e
  assume "store_step m m'" "etag_issued m e"
  then show "etag_issued m' e"
    by (induction rule: store_step.induct)
       (auto simp: etag_issued_def put_object_def intro: le_SucI)
next
  fix m m'
  assume "store_ok m" "store_step m m'"
  then show "store_ok m'" by (auto intro: store_step_ok)
next
  fix m m' p e
  assume "store_ok m" "store_step m m'" "etag_at m' p = Some e"
  then show "etag_at m p = Some e \<or> \<not> etag_issued m e" by (auto dest: store_step_fresh)
next
  fix m p e
  assume "store_ok m" "etag_at m p = Some e"
  then show "etag_issued m e" by (simp add: store_ok_def)
next
  fix m p q e
  assume "store_ok m" "etag_at m p = Some e" "etag_at m q = Some e"
  then show "p = q" by (simp add: store_ok_def)
next
  fix m m' p d e t r
  assume "put_match p d e t m = (r, m')" "r \<noteq> Ok"
  then show "m' = m" by (auto simp: put_match_def split: option.splits if_splits)
qed

section \<open>The connector's operations as steps of the store\<close>

text \<open>A hook that acts on the objects only through the store's operations.\<close>

definition hook_ok :: "connector \<Rightarrow> bool" where
  "hook_ok c \<longleftrightarrow> (\<forall>h n op p m b m'. fail_hook c = Some h \<longrightarrow> h n op p m = (b, m') \<longrightarrow> store_step\<^sup>*\<^sup>* m m')"

abbreviation store_steps :: "connector \<Rightarrow> connector \<Rightarrow> bool" where
  "store_steps c c' \<equiv> store_step\<^sup>*\<^sup>* (mem c) (mem c')"

definition same_env :: "connector \<Rightarrow> connector \<Rightarrow> bool" where
  "same_env c c' \<longleftrightarrow> fail_hook c' = fail_hook c \<and> clock c' = clock c
     \<and> local_clock c' = local_clock c \<and> clock_uncertainty_ms c' = clock_uncertainty_ms c"

lemma same_env_refl [simp]: "same_env c c" by (simp add: same_env_def)

lemma same_env_trans: "same_env a b \<Longrightarrow> same_env b c \<Longrightarrow> same_env a c"
  by (simp add: same_env_def)

lemma same_env_hook_ok: "same_env c c' \<Longrightarrow> hook_ok c \<Longrightarrow> hook_ok c'"
  by (simp add: same_env_def hook_ok_def)

lemma should_fail_env: "should_fail op p c = (b, c') \<Longrightarrow> same_env c c'"
  by (auto simp: should_fail_def same_env_def split: option.splits prod.splits)

lemma should_fail_steps: "hook_ok c \<Longrightarrow> should_fail op p c = (b, c') \<Longrightarrow> store_steps c c'"
  by (auto simp: should_fail_def hook_ok_def split: option.splits prod.splits)

lemma clock_time_mem [simp]: "mem (snd (clock_time c)) = mem c"
  by (simp add: clock_time_def local_time_ms_def split: option.splits)

lemma clock_time_env: "same_env c (snd (clock_time c))"
  by (simp add: clock_time_def local_time_ms_def same_env_def split: option.splits)

lemma store_mem: "\<exists>t. mem (store p d c) = put_object p d t (mem c)"
proof -
  have "mem (store p d c) = put_object p d (fst (clock_time c)) (mem (snd (clock_time c)))"
    by (simp add: store_def split_beta Let_def)
  then show ?thesis by auto
qed

lemma store_env: "same_env c (store p d c)"
  using clock_time_env [of c] by (auto simp: store_def same_env_def split: prod.splits)

lemma store_steps_store: "store_steps c (store p d c)"
proof -
  obtain t where "mem (store p d c) = put_object p d t (mem c)" using store_mem by blast
  then show ?thesis by (auto intro: store_step.step_put)
qed

text \<open>A conditional write that succeeds is a \<open>put_match\<close> on the objects the hook left; one
  that does not leaves these objects as they are.\<close>

lemma mc_write_if_match_put_match:
  assumes "mc_write_if_match p d e c = (r, c')" "hook_ok c"
  shows "\<exists>m. store_step\<^sup>*\<^sup>* (mem c) m \<and>
    (if r = Ok then (\<exists>t. put_match p d e t m = (Ok, mem c')) else mem c' = m)"
proof -
  obtain b c1 where f: "should_fail Op_WriteIfMatch p c = (b, c1)" by (cases "should_fail Op_WriteIfMatch p c")
  have s: "store_step\<^sup>*\<^sup>* (mem c) (mem c1)" using should_fail_steps [OF assms(2) f] .
  show ?thesis
  proof (cases "r = Ok")
    case True
    with assms(1) f obtain ob where ob: "map_of (objects (mem c1)) p = Some ob" "obj_etag ob = e"
      and m: "mem c' = mem (store p d c1)"
      by (auto simp: mc_write_if_match_def lookup_object_def Let_def split: option.splits if_splits)
    from store_mem [of p d c1] obtain t where "mem c' = put_object p d t (mem c1)" using m by auto
    with ob have "put_match p d e t (mem c1) = (Ok, mem c')" by (simp add: put_match_def)
    with s True show ?thesis by auto
  next
    case False
    with assms(1) f have "mem c' = mem c1"
      by (auto simp: mc_write_if_match_def Let_def split: option.splits if_splits)
    with s False show ?thesis by auto
  qed
qed

lemma mc_write_atomic_put_absent:
  assumes "mc_write_atomic p d c = ((r, e), c')" "hook_ok c"
  shows "\<exists>m. store_step\<^sup>*\<^sup>* (mem c) m \<and>
    (if r = Ok then (\<exists>t. put_absent p d t m = (Ok, mem c')) \<and> e = etag_at (mem c') p
     else mem c' = m \<and> (r = AlreadyExists \<longrightarrow> map_of (objects m) p \<noteq> None))"
proof -
  obtain b c1 where f: "should_fail Op_WriteAtomic p c = (b, c1)" by (cases "should_fail Op_WriteAtomic p c")
  have s: "store_step\<^sup>*\<^sup>* (mem c) (mem c1)" using should_fail_steps [OF assms(2) f] .
  show ?thesis
  proof (cases "r = Ok")
    case True
    with assms(1) f have a: "map_of (objects (mem c1)) p = None"
      and m: "mem c' = mem (store p d c1)" and e: "e = etag_at (mem c') p"
      by (auto simp: mc_write_atomic_def lookup_object_def etag_at_def Let_def split: if_splits)
    from store_mem [of p d c1] obtain t where "mem c' = put_object p d t (mem c1)" using m by auto
    with a have "put_absent p d t (mem c1) = (Ok, mem c')" by (simp add: put_absent_def)
    with s True e show ?thesis by auto
  next
    case False
    with assms(1) f have "mem c' = mem c1 \<and> (r = AlreadyExists \<longrightarrow> map_of (objects (mem c1)) p \<noteq> None)"
      by (auto simp: mc_write_atomic_def lookup_object_def Let_def split: if_splits)
    with s False show ?thesis by auto
  qed
qed

text \<open>Two conditional writes with the same ETag, by the same or by different clients: the
  second one is refused.\<close>

lemma one_conditional_write:
  assumes "store_ok (mem c)" "hook_ok c" "mc_write_if_match p d e c = (Ok, c1)"
    and "store_step\<^sup>*\<^sup>* (mem c1) (mem c2)" "hook_ok c2" "mc_write_if_match q d' e c2 = (r, c3)"
  shows "r \<noteq> Ok"
proof -
  from mc_write_if_match_put_match [OF assms(3,2)] obtain m t
    where m: "store_step\<^sup>*\<^sup>* (mem c) m" "put_match p d e t m = (Ok, mem c1)" by auto
  from m(1) assms(1) have "store_ok m" by (rule memory.steps_invar)
  from mc_write_if_match_put_match [OF assms(6,5)] obtain m2
    where m2: "store_step\<^sup>*\<^sup>* (mem c2) m2"
      "if r = Ok then (\<exists>t. put_match q d' e t m2 = (Ok, mem c3)) else mem c3 = m2" by auto
  have "store_step\<^sup>*\<^sup>* (mem c1) m2" using assms(4) m2(1) by (rule rtranclp_trans)
  note no_match = memory.one_match_per_etag [OF \<open>store_ok m\<close> m(2) this]
  show ?thesis
  proof
    assume "r = Ok"
    with m2(2) obtain t' where "put_match q d' e t' m2 = (Ok, mem c3)" by auto
    from no_match [OF this] show False by simp
  qed
qed

section \<open>Listings\<close>

lemma starts_with_le: "starts_with p k \<Longrightarrow> p \<le> k"
proof (induction p arbitrary: k)
  case (Cons a p)
  then obtain k' where "k = a # k'" "starts_with p k'"
    by (auto simp: starts_with_conv)
  with Cons.IH show ?case by simp
qed simp

lemma starts_with_between:
  "p \<le> a \<Longrightarrow> a \<le> b \<Longrightarrow> starts_with p b \<Longrightarrow> starts_with p a"
proof (induction p arbitrary: a b)
  case (Cons x p)
  then obtain b' where b: "b = x # b'" "starts_with p b'" by (auto simp: starts_with_conv)
  from Cons.prems(1) obtain y a' where a: "a = y # a'" by (cases a) auto
  with Cons.prems b have y: "y = x" by auto
  with Cons.prems a b have "p \<le> a'" "a' \<le> b'" by auto
  with Cons.IH b(2) have "starts_with p a'" by blast
  with a y show ?case by (simp add: starts_with_def)
qed simp

lemma takeWhile_filter_sorted:
  assumes "smap_ok m" "\<forall>k \<in> fst ` set m. p \<le> k"
  shows "takeWhile (\<lambda>(k, _). starts_with p k) m = filter (\<lambda>(k, _). starts_with p k) m"
  using assms
proof (induction m)
  case (Cons x m)
  obtain k v where x: "x = (k, v)" by (cases x)
  have "filter (\<lambda>(k, _). starts_with p k) m = []" if "\<not> starts_with p k"
  proof -
    have "\<not> starts_with p k'" if "(k', v') \<in> set m" for k' v'
    proof -
      from that Cons.prems x have "k < k'" "p \<le> k" by force+
      then show ?thesis
        using starts_with_between [of p k k'] \<open>\<not> starts_with p k\<close> less_imp_le [of k k'] by blast
    qed
    then show ?thesis by (auto simp: filter_empty_conv)
  qed
  with Cons x show ?case by auto
qed simp

text \<open>A listing holds exactly the objects with the prefix, in key order.\<close>

lemma prefix_range_filter:
  assumes "smap_ok m"
  shows "prefix_range p m = filter (\<lambda>(k, _). starts_with p k) m"
  using assms
proof (induction m)
  case (Cons x m)
  obtain k v where x: "x = (k, v)" by (cases x)
  show ?case
  proof (cases "k < p")
    case True
    then have "\<not> starts_with p k" using starts_with_le [of p k] by auto
    with True Cons x show ?thesis by (simp add: prefix_range_def)
  next
    case False
    with Cons.prems x have "\<forall>k' \<in> fst ` set ((k, v) # m). p \<le> k'"
      by (auto simp: not_less intro: less_imp_le order_trans)
    with takeWhile_filter_sorted [of "(k, v) # m" p] Cons.prems x False show ?thesis
      by (simp add: prefix_range_def)
  qed
qed (simp add: prefix_range_def)

end
