(* ===== verification/KeyMatcher.thy ===== *)
theory KeyMatcher
  imports StoreLaws DeltaLog ArrowTypes
begin

text \<open>
  \<open>KeyMatcher\<close> and the row helpers of \<open>ManagerDeltaLake.cpp\<close>: which data files may hold a key of
  the table's first column, which rows of a file do, and the rows that stay when they are
  removed.  A column is a list of chunks of cells, a table a list of rows; parsing a scalar of
  an Arrow type, parsing a date and concatenating tables are functions of the Arrow library
  and parameters here.
\<close>

datatype col_type = INT8 | INT16 | INT32 | INT64 | DATE32 | STRING | LARGE_STRING | OTHER arrow_type

datatype cell = Cell_null | Cell_int int | Cell_string string | Cell_other arrow_value

definition string_stats_prefix :: nat where "string_stats_prefix = 32"

text \<open>\<open>(c & 0xC0) != 0x80\<close>: the byte starts a code point of a UTF-8 text.\<close>

definition starts_code_point :: "char \<Rightarrow> bool" where
  "starts_code_point c \<longleftrightarrow> of_char c div 64 \<noteq> (2 :: nat)"

definition code_points :: "string \<Rightarrow> nat" where
  "code_points s = length (filter starts_code_point s)"

fun first_code_points_from :: "string \<Rightarrow> nat \<Rightarrow> nat \<Rightarrow> string" where
  "first_code_points_from [] n seen = []"
| "first_code_points_from (c # s) n seen =
     (if starts_code_point c
      then (if seen = n then [] else c # first_code_points_from s n (seen + 1))
      else c # first_code_points_from s n seen)"

definition first_code_points :: "string \<Rightarrow> nat \<Rightarrow> string" where
  "first_code_points s n = first_code_points_from s n 0"

text \<open>\<open>std::from_chars\<close> for int64_t over the whole text: a minus sign and digits.\<close>

definition parse_integer :: "string \<Rightarrow> int option" where
  "parse_integer s =
     (let neg = (s \<noteq> [] \<and> hd s = CHR ''-''); ds = (if neg then tl s else s);
          v = (if neg then - int (undec ds) else int (undec ds))
      in if ds = [] \<or> \<not> list_all is_digit ds \<or> \<not> in_int64 v then None else Some v)"

datatype key_kind = Kind_Integer | Kind_String | Kind_Date | Kind_Other

record key_matcher =
  km_kind :: key_kind
  km_key :: string
  km_number :: int
  km_scalar :: cell
  km_valid :: bool

definition cell_number :: "cell \<Rightarrow> int" where
  "cell_number c = (case c of Cell_int n \<Rightarrow> n | _ \<Rightarrow> 0)"

definition key_matcher_new :: "(col_type \<Rightarrow> string \<Rightarrow> cell option) \<Rightarrow> col_type \<Rightarrow> string \<Rightarrow> key_matcher" where
  "key_matcher_new arrow_parse type key =
     (let m = \<lparr>km_kind = Kind_Other, km_key = key, km_number = 0, km_scalar = Cell_null,
               km_valid = False\<rparr>
      in case arrow_parse type key of
           None \<Rightarrow> m
         | Some parsed \<Rightarrow>
             (let m = m\<lparr>km_scalar := parsed, km_valid := True\<rparr>
              in case type of
                   INT8 \<Rightarrow> m\<lparr>km_number := cell_number parsed, km_kind := Kind_Integer\<rparr>
                 | INT16 \<Rightarrow> m\<lparr>km_number := cell_number parsed, km_kind := Kind_Integer\<rparr>
                 | INT32 \<Rightarrow> m\<lparr>km_number := cell_number parsed, km_kind := Kind_Integer\<rparr>
                 | INT64 \<Rightarrow> m\<lparr>km_number := cell_number parsed, km_kind := Kind_Integer\<rparr>
                 | DATE32 \<Rightarrow> m\<lparr>km_number := cell_number parsed, km_kind := Kind_Date\<rparr>
                 | STRING \<Rightarrow> m\<lparr>km_kind := Kind_String\<rparr>
                 | LARGE_STRING \<Rightarrow> m\<lparr>km_kind := Kind_String\<rparr>
                 | OTHER _ \<Rightarrow> m))"

definition classify_number ::
    "(string \<Rightarrow> int option) \<Rightarrow> string \<Rightarrow> string \<Rightarrow> int \<Rightarrow> key_matcher \<Rightarrow> key_match" where
  "classify_number parse mn mx records m =
     (case (parse mn, parse mx) of
        (Some low, Some high) \<Rightarrow>
          if km_number m < low \<or> high < km_number m then Key_None
          else if records = 1 \<and> low = km_number m \<and> high = km_number m then Key_Exact
          else Key_Possible
      | _ \<Rightarrow> Key_Possible)"

definition classify_string :: "string \<Rightarrow> string \<Rightarrow> int \<Rightarrow> key_matcher \<Rightarrow> key_match" where
  "classify_string mn mx records m =
     (if km_key m < mn then Key_None
      else if mx < km_key m \<and>
              (code_points mx < string_stats_prefix \<or>
               \<not> starts_with (first_code_points mx string_stats_prefix) (km_key m))
      then Key_None
      else if records = 1 \<and> mn = km_key m \<and> mx = km_key m
              \<and> code_points (km_key m) < string_stats_prefix
      then Key_Exact else Key_Possible)"

definition classify ::
    "(string \<Rightarrow> int option) \<Rightarrow> key_matcher \<Rightarrow> string option \<Rightarrow> string option \<Rightarrow> int \<Rightarrow> key_match" where
  "classify parse_date m mn mx records =
     (if \<not> km_valid m \<or> records = 0 then Key_None
      else case (mn, mx) of
             (Some mn, Some mx) \<Rightarrow>
               (case km_kind m of
                  Kind_Integer \<Rightarrow> classify_number parse_integer mn mx records m
                | Kind_Date \<Rightarrow> classify_number parse_date mn mx records m
                | Kind_String \<Rightarrow> classify_string mn mx records m
                | Kind_Other \<Rightarrow> Key_Possible)
           | _ \<Rightarrow> Key_Possible)"

text \<open>\<open>equals\<close> for a cell that is not null, by the type of the array.\<close>

definition key_equals :: "col_type \<Rightarrow> key_matcher \<Rightarrow> cell \<Rightarrow> bool" where
  "key_equals type m c =
     (case type of
        STRING \<Rightarrow> c = Cell_string (km_key m)
      | LARGE_STRING \<Rightarrow> c = Cell_string (km_key m)
      | OTHER _ \<Rightarrow> c = km_scalar m
      | _ \<Rightarrow> c = Cell_int (km_number m))"

fun rows_of_chunks :: "col_type \<Rightarrow> key_matcher \<Rightarrow> nat \<Rightarrow> cell list list \<Rightarrow> nat list" where
  "rows_of_chunks type m offset [] = []"
| "rows_of_chunks type m offset (chunk # chunks) =
     map ((+) offset) (filter (\<lambda>i. chunk ! i \<noteq> Cell_null \<and> key_equals type m (chunk ! i)) [0..<length chunk])
     @ rows_of_chunks type m (offset + length chunk) chunks"

definition rows_of :: "col_type \<Rightarrow> key_matcher \<Rightarrow> cell list list \<Rightarrow> nat list" where
  "rows_of type m chunks = rows_of_chunks type m 0 chunks"

section \<open>Rows of a table\<close>

text \<open>The length of the run of consecutive indices at the head.\<close>

fun run_length :: "nat \<Rightarrow> nat list \<Rightarrow> nat" where
  "run_length r [] = 0"
| "run_length r (q # rows) = (if q = r + 1 then 1 + run_length q rows else 0)"

function row_slices :: "'r list \<Rightarrow> nat list \<Rightarrow> 'r list list" where
  "row_slices table [] = []"
| "row_slices table (r # rows) =
     (let n = run_length r rows
      in take (n + 1) (drop r table) # row_slices table (drop n rows))"
  by pat_completeness auto
termination by (relation "measure (\<lambda>(table, rows). length rows)") auto

definition select_rows ::
    "('r list list \<Rightarrow> 'r list option) \<Rightarrow> 'r list \<Rightarrow> nat list \<Rightarrow> 'r list option" where
  "select_rows concat_tables table rows =
     (if length rows = length table then Some table
      else let parts = row_slices table rows
           in if parts = [] then Some [] else concat_tables parts)"

fun other_rows_from :: "nat \<Rightarrow> nat \<Rightarrow> nat list \<Rightarrow> nat list" where
  "other_rows_from i 0 rows = []"
| "other_rows_from i (Suc n) rows =
     (if rows \<noteq> [] \<and> hd rows = i then other_rows_from (Suc i) n (tl rows)
      else i # other_rows_from (Suc i) n rows)"

definition other_rows :: "nat \<Rightarrow> nat list \<Rightarrow> nat list" where
  "other_rows n rows = other_rows_from 0 n rows"

section \<open>The rows of a key\<close>

lemma map_plus_upt: "map ((+) k) [0..<n] = [k..<k + n]"
  by (induction n) auto

lemma upt_step: "[i..<i + Suc n] = i # [Suc i..<Suc i + n]"
  by (simp add: upt_conv_Cons)

lemma rows_of_chunks_conv:
  "rows_of_chunks type m offset chunks =
     map ((+) offset) (filter (\<lambda>i. concat chunks ! i \<noteq> Cell_null \<and> key_equals type m (concat chunks ! i))
       [0..<length (concat chunks)])"
proof (induction chunks arbitrary: offset)
  case (Cons chunk chunks)
  let ?P = "\<lambda>cs i. cs ! i \<noteq> Cell_null \<and> key_equals type m (cs ! i)"
  let ?c = "concat chunks" and ?k = "length chunk"
  have up: "[0..<length (chunk @ ?c)] = [0..<?k] @ map ((+) ?k) [0..<length ?c]"
    by (simp add: upt_add_eq_append [of 0 ?k "length ?c"] map_plus_upt del: length_concat)
  have l: "filter (?P (chunk @ ?c)) [0..<?k] = filter (?P chunk) [0..<?k]"
    by (rule filter_cong) (auto simp: nth_append)
  have r: "filter (?P (chunk @ ?c)) (map ((+) ?k) [0..<length ?c]) = map ((+) ?k) (filter (?P ?c) [0..<length ?c])"
    by (simp add: filter_map comp_def nth_append)
  show ?case
    unfolding rows_of_chunks.simps Cons.IH concat.simps up filter_append l r
    by (simp add: comp_def add.assoc)
qed simp

lemma rows_of_conv:
  "rows_of type m chunks =
     filter (\<lambda>i. concat chunks ! i \<noteq> Cell_null \<and> key_equals type m (concat chunks ! i))
       [0..<length (concat chunks)]"
  by (simp add: rows_of_def rows_of_chunks_conv map_idI)

text \<open>The row list is what the row helpers expect: ascending indices of the table.\<close>

definition row_list :: "nat \<Rightarrow> nat list \<Rightarrow> bool" where
  "row_list n rows \<longleftrightarrow> sorted_wrt (<) rows \<and> (\<forall>r \<in> set rows. r < n)"

lemma row_list_rows_of: "row_list (length (concat chunks)) (rows_of type m chunks)"
  by (simp add: row_list_def rows_of_conv sorted_wrt_filter)

lemma run_length_le: "run_length r rows \<le> length rows"
  by (induction r rows rule: run_length.induct) auto

lemma run_length_take: "take (run_length r rows) rows = map ((+) (r + 1)) [0..<run_length r rows]"
proof (induction r rows rule: run_length.induct)
  case (2 r q rows)
  show ?case
  proof (cases "q = r + 1")
    case True
    have "[0..<Suc (run_length q rows)] = 0 # map Suc [0..<run_length q rows]"
      by (simp only: upt_conv_Cons [of 0] map_Suc_upt)
    with 2 True show ?thesis by (simp add: comp_def)
  qed simp
qed simp

lemma slice_rows: "r + n < length table \<Longrightarrow> take (n + 1) (drop r table) = map (nth table) (r # map ((+) (r + 1)) [0..<n])"
  by (intro nth_equalityI) (auto simp: nth_Cons split: nat.split)

lemma row_slices_concat:
  "row_list (length table) rows \<Longrightarrow> concat (row_slices table rows) = map (nth table) rows"
proof (induction table rows rule: row_slices.induct)
  case (2 table r rows)
  define n where "n = run_length r rows"
  have t: "take n rows = map ((+) (r + 1)) [0..<n]"
    unfolding n_def by (rule run_length_take)
  have n: "n \<le> length rows" unfolding n_def by (rule run_length_le)
  have "r + n < length table"
  proof (cases n)
    case 0
    with 2 show ?thesis by (simp add: row_list_def)
  next
    case (Suc k)
    with t n have "rows ! k = r + 1 + k"
      by (metis add_0 diff_zero length_map length_upt lessI nth_map nth_take nth_upt)
    moreover have "rows ! k \<in> set rows" using Suc n by simp
    ultimately show ?thesis using 2 Suc by (auto simp: row_list_def)
  qed
  then have h: "take (n + 1) (drop r table) = map (nth table) (r # take n rows)"
    using slice_rows t by metis
  have "sorted_wrt (<) (take n rows @ drop n rows)" using "2.prems" by (simp add: row_list_def)
  then have "row_list (length table) (drop n rows)"
    using "2.prems" by (simp only: sorted_wrt_append) (auto simp: row_list_def dest: in_set_dropD)
  with "2.IH" [OF n_def] have "concat (row_slices table (drop n rows)) = map (nth table) (drop n rows)"
    by (simp add: n_def)
  then have "concat (row_slices table (r # rows)) = map (nth table) (r # take n rows @ drop n rows)"
    using h by (simp add: Let_def n_def [symmetric] del: append_take_drop_id)
  then show ?case by simp
qed simp

lemma row_list_full:
  assumes "row_list n rows" "length rows = n"
  shows "rows = [0..<n]"
proof -
  from assms have "distinct rows" "set rows \<subseteq> {..<n}"
    by (auto simp: row_list_def strict_sorted_iff)
  then have "set rows = {..<n}"
    using assms(2) by (intro card_subset_eq) (auto simp: distinct_card)
  with assms(1) show ?thesis
    by (intro strict_sorted_equal) (auto simp: row_list_def atLeast0LessThan)
qed

lemma select_rows_nth:
  assumes "row_list (length table) rows" "\<And>parts. concat_tables parts = Some (concat parts)"
  shows "select_rows concat_tables table rows = Some (map (nth table) rows)"
proof (cases "length rows = length table")
  case True
  with row_list_full [OF assms(1)] show ?thesis by (simp add: select_rows_def map_nth)
next
  case False
  have "row_slices table rows = [] \<longleftrightarrow> rows = []" by (cases rows) (simp_all add: Let_def)
  with False assms row_slices_concat [OF assms(1)] show ?thesis
    by (auto simp: select_rows_def Let_def)
qed

lemma other_rows_from_conv:
  "sorted_wrt (<) rows \<Longrightarrow> (\<forall>r \<in> set rows. i \<le> r) \<Longrightarrow>
   other_rows_from i n rows = filter (\<lambda>j. j \<notin> set rows) [i..<i + n]"
proof (induction n arbitrary: i rows)
  case (Suc n)
  show ?case
  proof (cases "rows \<noteq> [] \<and> hd rows = i")
    case True
    then obtain rs where rs: "rows = i # rs" by (cases rows) auto
    with Suc.prems have "\<forall>r \<in> set rs. Suc i \<le> r" by auto
    with Suc rs have "other_rows_from (Suc i) n rs = filter (\<lambda>j. j \<notin> set rs) [Suc i..<Suc i + n]" by simp
    moreover have "filter (\<lambda>j. j \<notin> set rs) [Suc i..<Suc i + n] = filter (\<lambda>j. j \<notin> set rows) [Suc i..<Suc i + n]"
      using rs by (intro filter_cong) auto
    ultimately show ?thesis using rs by (simp add: upt_conv_Cons)
  next
    case False
    have "\<forall>r \<in> set rows. Suc i \<le> r"
      using False Suc.prems by (cases rows) (auto simp: Suc_le_eq dest: le_neq_trans)
    then have "i \<notin> set rows" by auto
    have "other_rows_from i (Suc n) rows = i # other_rows_from (Suc i) n rows"
      using False by (simp only: other_rows_from.simps if_False)
    moreover have "other_rows_from (Suc i) n rows = filter (\<lambda>j. j \<notin> set rows) [Suc i..<Suc i + n]"
      using Suc.prems(1) \<open>\<forall>r \<in> set rows. Suc i \<le> r\<close> by (intro Suc.IH)
    ultimately show ?thesis unfolding upt_step using \<open>i \<notin> set rows\<close> by (simp only: filter.simps if_True not_False_eq_True)
  qed
qed simp

lemma other_rows_conv:
  "row_list n rows \<Longrightarrow> other_rows n rows = filter (\<lambda>j. j \<notin> set rows) [0..<n]"
  by (simp add: other_rows_def other_rows_from_conv row_list_def)

lemma row_list_other: "row_list n rows \<Longrightarrow> row_list n (other_rows n rows)"
  by (simp add: other_rows_conv row_list_def sorted_wrt_filter)

lemma map_nth_filter: "map (nth xs) (filter (\<lambda>i. P (xs ! i)) [0..<length xs]) = filter P xs"
proof -
  have "filter P (map (nth xs) [0..<length xs]) = map (nth xs) (filter (P \<circ> nth xs) [0..<length xs])"
    by (rule filter_map)
  then show ?thesis by (simp add: map_nth comp_def)
qed

section \<open>Honest statistics\<close>

text \<open>What the Delta protocol promises about the statistics of a file: numRecords is the number of
  rows, min and max are there only when the column has a value, and bound every value; those of
  a string column may be cut to 32 characters, the maximum to a text that starts like the real
  one.\<close>

definition typed_cells :: "col_type \<Rightarrow> cell list \<Rightarrow> bool" where
  "typed_cells type cells \<longleftrightarrow>
     (\<forall>c \<in> set cells. c = Cell_null \<or>
        (case type of STRING \<Rightarrow> \<exists>s. c = Cell_string s | LARGE_STRING \<Rightarrow> \<exists>s. c = Cell_string s
         | OTHER _ \<Rightarrow> True | _ \<Rightarrow> \<exists>n. c = Cell_int n))"

definition bounds_numbers :: "(string \<Rightarrow> int option) \<Rightarrow> string \<Rightarrow> string \<Rightarrow> cell list \<Rightarrow> bool" where
  "bounds_numbers parse mn mx cells \<longleftrightarrow>
     (\<forall>n low. Cell_int n \<in> set cells \<longrightarrow> parse mn = Some low \<longrightarrow> low \<le> n) \<and>
     (\<forall>n high. Cell_int n \<in> set cells \<longrightarrow> parse mx = Some high \<longrightarrow> n \<le> high)"

definition bounds_strings :: "string \<Rightarrow> string \<Rightarrow> cell list \<Rightarrow> bool" where
  "bounds_strings mn mx cells \<longleftrightarrow>
     (\<forall>s. Cell_string s \<in> set cells \<longrightarrow> mn \<le> s) \<and>
     ((\<forall>s. Cell_string s \<in> set cells \<longrightarrow> s \<le> mx) \<or>
      string_stats_prefix \<le> code_points mx \<and>
      (\<exists>real_max. starts_with (first_code_points mx string_stats_prefix) real_max \<and>
         (\<forall>s. Cell_string s \<in> set cells \<longrightarrow> s \<le> real_max)))"

definition honest_stats ::
    "(string \<Rightarrow> int option) \<Rightarrow> col_type \<Rightarrow> string option \<Rightarrow> string option \<Rightarrow> int \<Rightarrow> cell list \<Rightarrow> bool" where
  "honest_stats parse_date type mn mx records cells \<longleftrightarrow>
     typed_cells type cells \<and> (0 \<le> records \<longrightarrow> records = int (length cells)) \<and>
     (\<forall>a z. mn = Some a \<longrightarrow> mx = Some z \<longrightarrow>
        (\<exists>c \<in> set cells. c \<noteq> Cell_null) \<and>
        (case type of STRING \<Rightarrow> bounds_strings a z cells | LARGE_STRING \<Rightarrow> bounds_strings a z cells
         | OTHER _ \<Rightarrow> True | DATE32 \<Rightarrow> bounds_numbers parse_date a z cells
         | _ \<Rightarrow> bounds_numbers parse_integer a z cells))"

lemma first_code_points_prefix: "starts_with (first_code_points s n) s"
proof -
  have "starts_with (first_code_points_from s n k) s" for k
    by (induction s n k rule: first_code_points_from.induct) (auto simp: starts_with_def)
  then show ?thesis by (simp add: first_code_points_def)
qed

lemma classify_string_sound:
  assumes b: "bounds_strings mn mx cells" and c: "Cell_string s \<in> set cells"
  shows "classify_string mn mx records m = Key_None \<Longrightarrow> s \<noteq> km_key m"
    and "classify_string mn mx records m = Key_Exact \<Longrightarrow> records = 1 \<and> s = km_key m"
proof -
  let ?p = "first_code_points mx string_stats_prefix"
  from b c have low: "mn \<le> s" by (auto simp: bounds_strings_def)
  from b c have high: "s \<le> mx \<or> string_stats_prefix \<le> code_points mx \<and>
      (\<exists>real_max. starts_with ?p real_max \<and> s \<le> real_max)" by (auto simp: bounds_strings_def)
  show "s \<noteq> km_key m" if "classify_string mn mx records m = Key_None"
  proof
    assume s: "s = km_key m"
    with low that have lt: "mx < s"
      and p: "code_points mx < string_stats_prefix \<or> \<not> starts_with ?p s"
      by (auto simp: classify_string_def split: if_splits)
    with high obtain real_max where r: "string_stats_prefix \<le> code_points mx" "starts_with ?p real_max"
      "s \<le> real_max" by auto
    have "?p \<le> mx" by (rule starts_with_le [OF first_code_points_prefix])
    with lt have "?p \<le> s" by simp
    from starts_with_between [OF this r(3,2)] p r(1) show False by simp
  qed
  show "records = 1 \<and> s = km_key m" if "classify_string mn mx records m = Key_Exact"
    using that low high by (auto simp: classify_string_def split: if_splits)
qed

lemma classify_number_sound:
  assumes b: "bounds_numbers parse mn mx cells" and c: "Cell_int n \<in> set cells"
  shows "classify_number parse mn mx records m = Key_None \<Longrightarrow> n \<noteq> km_number m"
    and "classify_number parse mn mx records m = Key_Exact \<Longrightarrow> records = 1 \<and> n = km_number m"
  using assms
  by (fastforce simp: classify_number_def bounds_numbers_def split: option.splits if_splits)+

lemma key_matcher_kind:
  "km_valid (key_matcher_new ap type key) \<Longrightarrow> km_kind (key_matcher_new ap type key) =
     (case type of STRING \<Rightarrow> Kind_String | LARGE_STRING \<Rightarrow> Kind_String | DATE32 \<Rightarrow> Kind_Date
      | OTHER _ \<Rightarrow> Kind_Other | _ \<Rightarrow> Kind_Integer)"
  by (auto simp: key_matcher_new_def Let_def split: option.splits col_type.splits)

lemma classify_cell:
  assumes h: "honest_stats pd type (Some a) (Some z) records cells"
    and c: "c \<in> set cells" "c \<noteq> Cell_null"
    and m: "m = key_matcher_new ap type key" "km_valid m"
  shows "classify pd m (Some a) (Some z) records = Key_None \<Longrightarrow> records \<noteq> 0 \<Longrightarrow> \<not> key_equals type m c"
    and "classify pd m (Some a) (Some z) records = Key_Exact \<Longrightarrow> records = 1 \<and> key_equals type m c"
proof -
  note defs = classify_def honest_stats_def typed_cells_def key_equals_def
  have k: "km_kind m = (case type of STRING \<Rightarrow> Kind_String | LARGE_STRING \<Rightarrow> Kind_String
      | DATE32 \<Rightarrow> Kind_Date | OTHER _ \<Rightarrow> Kind_Other | _ \<Rightarrow> Kind_Integer)"
    using m key_matcher_kind by simp
  note num = classify_number_sound [of _ a z cells _ records m]
  note str = classify_string_sound [of a z cells _ records m]
  show "\<not> key_equals type m c" if "classify pd m (Some a) (Some z) records = Key_None" "records \<noteq> 0"
    using that h c m(2) k num(1) str(1)
    by (cases type) (fastforce simp: defs)+
  show "records = 1 \<and> key_equals type m c" if "classify pd m (Some a) (Some z) records = Key_Exact"
  proof (cases "records = 0")
    case True
    with that show ?thesis by (simp add: classify_def)
  next
    case False
    with that h c m(2) k num(2) str(2) show ?thesis
      by (cases type) (fastforce simp: defs)+
  qed
qed

lemma classify_missing:
  "mn = None \<or> mx = None \<Longrightarrow> km_valid m \<Longrightarrow> records \<noteq> 0 \<Longrightarrow> classify pd m mn mx records = Key_Possible"
  by (auto simp: classify_def split: option.splits)

section \<open>Properties\<close>

text \<open>C38: Files are skipped and taken without reading them only when that is right: for honest
  statistics, a file the key matcher rules out has no row with the key, and a file it calls an
  exact match is a single row with the key; integer and date bounds as well as string bounds that
  Delta cut to 32 characters are covered.\<close>

theorem classify_sound:
  assumes "honest_stats parse_date type mn mx records (concat chunks)"
    and "m = key_matcher_new arrow_parse type key" and "km_valid m"
  shows "(classify parse_date m mn mx records = Key_None \<longrightarrow> rows_of type m chunks = [])
    \<and> (classify parse_date m mn mx records = Key_Exact \<longrightarrow>
         length (concat chunks) = 1 \<and> rows_of type m chunks = [0])"
proof -
  let ?cs = "concat chunks"
  have len: "0 \<le> records \<Longrightarrow> records = int (length ?cs)" using assms(1) by (simp add: honest_stats_def)
  have none: "rows_of type m chunks = []" if "\<And>c. c \<in> set ?cs \<Longrightarrow> c \<noteq> Cell_null \<Longrightarrow> \<not> key_equals type m c"
    using that nth_mem [of _ ?cs] by (fastforce simp: rows_of_conv filter_empty_conv simp del: set_concat)
  show ?thesis
  proof (cases "records = 0")
    case True
    with len have "?cs = []" by simp
    with True none show ?thesis by (simp add: classify_def del: concat_eq_Nil_conv)
  next
    case False
    show ?thesis
    proof (cases "mn = None \<or> mx = None")
      case True
      with False classify_missing [OF True assms(3)] show ?thesis by simp
    next
      case bounds: False
      then obtain a z where az: "mn = Some a" "mx = Some z" by auto
      note cell = classify_cell [OF assms(1) [unfolded az] _ _ assms(2,3)]
      from assms(1) az obtain c where c: "c \<in> set ?cs" "c \<noteq> Cell_null"
        by (auto simp: honest_stats_def simp del: set_concat)
      have "length ?cs = 1 \<and> rows_of type m chunks = [0]"
        if "classify parse_date m mn mx records = Key_Exact"
      proof -
        from cell(2) [OF c] that az have "records = 1" "key_equals type m c" by auto
        with len c have "?cs = [c]" by (cases ?cs) auto
        with c \<open>key_equals type m c\<close> show ?thesis by (simp add: rows_of_conv)
      qed
      with none cell(1) False az show ?thesis by auto
    qed
  qed
qed

definition no_date :: "string \<Rightarrow> int option" where "no_date s = None"

lemma classify_sound_witness:
  "let m = key_matcher_new (\<lambda>_ _. Some (Cell_int 7)) INT64 ''7'';
       cells = [[Cell_int 3], [Cell_null, Cell_int 5]]
   in classify no_date m (Some ''3'') (Some ''5'') 3 = Key_None \<and> rows_of INT64 m cells = []"
proof -
  let ?m = "key_matcher_new (\<lambda>_ _. Some (Cell_int 7)) INT64 ''7''"
  have "parse_integer ''3'' = Some 3" "parse_integer ''5'' = Some 5" by code_simp+
  then have "honest_stats no_date INT64 (Some ''3'') (Some ''5'') 3 (concat [[Cell_int 3], [Cell_null, Cell_int 5]])"
    and c: "classify no_date ?m (Some ''3'') (Some ''5'') 3 = Key_None"
    by (auto simp: honest_stats_def typed_cells_def bounds_numbers_def classify_def key_matcher_new_def
        classify_number_def cell_number_def)
  with classify_sound [OF this(1) refl, of "\<lambda>_ _. Some (Cell_int 7)" "''7''"]
  show ?thesis by (simp add: Let_def key_matcher_new_def)
qed

text \<open>Removing or reading a key splits a file exactly: the rows selected are the rows whose first
  column holds the key, in order, and the rows written to the new file are all the others, in
  order; no row is lost, duplicated or moved.\<close>

lemma key_rows_partition:
  assumes "map col table = concat chunks" and "\<And>parts. concat_tables parts = Some (concat parts)"
  shows "select_rows concat_tables table (rows_of type m chunks)
      = Some (filter (\<lambda>r. col r \<noteq> Cell_null \<and> key_equals type m (col r)) table)
    \<and> select_rows concat_tables table (other_rows (length table) (rows_of type m chunks))
      = Some (filter (\<lambda>r. \<not> (col r \<noteq> Cell_null \<and> key_equals type m (col r))) table)"
proof -
  let ?P = "\<lambda>r. col r \<noteq> Cell_null \<and> key_equals type m (col r)"
  have len: "length (concat chunks) = length table" using assms(1) by (metis length_map)
  have rows: "rows_of type m chunks = filter (\<lambda>i. ?P (table ! i)) [0..<length table]"
    unfolding rows_of_conv len assms(1) [symmetric] by (rule filter_cong) auto
  have rl: "row_list (length table) (rows_of type m chunks)"
    using row_list_rows_of [of chunks type m] len by simp
  have "other_rows (length table) (rows_of type m chunks) = filter (\<lambda>i. \<not> ?P (table ! i)) [0..<length table]"
    unfolding other_rows_conv [OF rl] unfolding rows by (rule filter_cong) auto
  with select_rows_nth [OF rl assms(2)] select_rows_nth [OF row_list_other [OF rl] assms(2)] rows
  show ?thesis by (simp only: map_nth_filter [of table ?P] map_nth_filter [of table "\<lambda>r. \<not> ?P r"])
qed

lemma key_rows_partition_witness:
  "let m = key_matcher_new (\<lambda>_ _. Some (Cell_int 7)) INT64 ''7''
   in select_rows (\<lambda>ps. Some (concat ps)) [Cell_int 7, Cell_int 5] (rows_of INT64 m [[Cell_int 7], [Cell_int 5]])
        = Some [Cell_int 7]
      \<and> select_rows (\<lambda>ps. Some (concat ps)) [Cell_int 7, Cell_int 5]
          (other_rows (length [Cell_int 7, Cell_int 5]) (rows_of INT64 m [[Cell_int 7], [Cell_int 5]]))
        = Some [Cell_int 5]"
  using key_rows_partition [of id "[Cell_int 7, Cell_int 5]" "[[Cell_int 7], [Cell_int 5]]"
      "\<lambda>ps. Some (concat ps)" INT64 "key_matcher_new (\<lambda>_ _. Some (Cell_int 7)) INT64 ''7''"]
  by (simp add: Let_def key_matcher_new_def key_equals_def cell_number_def)

end
