(* ===== verification/ManagerState.thy ===== *)
theory ManagerState
  imports ObjectStore Settings DeltaLog KeyMatcher
begin

text \<open>
  The state of a transaction manager (\<open>Manager.hpp\<close>, \<open>ManagerDeltaLake.hpp\<close>): the files, tables
  and markers of a transaction, and the members of \<open>TransactionManagerDeltaLake\<close>, with the
  connector it works on.  Mutexes are not modelled: each operation is one step.  The schema
  cache of a table is not kept, its schema is computed from the metadata.
\<close>

text \<open>What the definitions use of code outside the repository: the parser and writer of rapidjson
  and the bits of the double that std::stod reads (\<open>None\<close>: it throws).\<close>

record sys =
  sy_parse :: json_parser
  sy_write :: json_writer
  sy_stod :: "string \<Rightarrow> 64 word option"

record column_statistics =
  cs_name :: string
  cs_has_min_max :: bool
  cs_numeric :: bool
  cs_min :: string
  cs_max :: string
  cs_null_count :: int

record table_statistics =
  st_num_records :: int
  st_columns :: "column_statistics list"

definition no_statistics :: table_statistics where
  "no_statistics = \<lparr>st_num_records = -1, st_columns = []\<rparr>"

record file_stats =
  fs_path :: string
  fs_size :: int
  fs_stats :: table_statistics
  fs_valid :: bool
  fs_update_id :: nat

definition file_stats_new :: file_stats where
  "file_stats_new =
     \<lparr>fs_path = '''', fs_size = -1, fs_stats = no_statistics, fs_valid = True, fs_update_id = u32_max\<rparr>"

definition min_values :: "file_stats \<Rightarrow> string list" where
  "min_values f = map cs_min (filter cs_has_min_max (st_columns (fs_stats f)))"

definition max_values :: "file_stats \<Rightarrow> string list" where
  "max_values f = map cs_max (filter cs_has_min_max (st_columns (fs_stats f)))"

datatype update_operation = Upd_NONE | Upd_REP | Upd_ADD | Upd_SUB | Upd_MUL | Upd_DIV

datatype sub_op = Sub_READ | Sub_ADD | Sub_DELETE

record marker =
  marker_path :: string
  marker_etag :: string
  deadline_ms :: int
  marker_valid :: bool

definition marker_new :: "string \<Rightarrow> string \<Rightarrow> int \<Rightarrow> marker" where
  "marker_new path etag deadline =
     \<lparr>marker_path = path, marker_etag = etag, deadline_ms = deadline, marker_valid = True\<rparr>"

definition set_invalid :: "marker \<Rightarrow> marker" where "set_invalid mk = mk\<lparr>marker_valid := False\<rparr>"

record table_stats =
  t_base_path :: string
  t_delta_log :: delta_log
  t_marker :: "marker option"
  t_in_bytes :: nat
  t_out_bytes :: nat
  t_file_num :: nat
  t_read_version :: nat
  t_marker_version :: nat
  t_created_files :: "(string \<times> file_stats) list"
  t_deleted_files :: "(string \<times> file_stats) list"
  t_committed :: bool
  t_was_read :: bool
  t_concurrent_change :: bool
  t_concurrent_removes :: "string list"
  t_table_id :: nat

definition table_stats_new :: "string \<Rightarrow> table_stats" where
  "table_stats_new base =
     \<lparr>t_base_path = base, t_delta_log = delta_log_new base, t_marker = None, t_in_bytes = 0,
      t_out_bytes = 0, t_file_num = 0, t_read_version = 0, t_marker_version = 0,
      t_created_files = [], t_deleted_files = [], t_committed = False, t_was_read = False,
      t_concurrent_change = False, t_concurrent_removes = [], t_table_id = 0\<rparr>"

section \<open>The relation to concurrent transactions\<close>

record global_relation =
  precedence :: "(nat \<times> nat) list"
  dependency :: "(nat \<times> nat) list"

definition global_relation_new :: global_relation where
  "global_relation_new = \<lparr>precedence = [], dependency = []\<rparr>"

definition register_precedence :: "nat \<Rightarrow> global_relation \<Rightarrow> bool \<times> global_relation" where
  "register_precedence txn r =
     (if map_of (dependency r) txn \<noteq> None then (False, r)
      else (True, case map_of (precedence r) txn of
                    Some n \<Rightarrow> r\<lparr>precedence := AList.update txn (u32 (n + 1)) (precedence r)\<rparr>
                  | None \<Rightarrow> r\<lparr>precedence := AList.update txn 1 (precedence r)\<rparr>))"

definition register_dependency :: "nat \<Rightarrow> global_relation \<Rightarrow> bool \<times> global_relation" where
  "register_dependency txn r =
     (case map_of (dependency r) txn of
        Some n \<Rightarrow> (True, r\<lparr>dependency := AList.update txn (u32 (n + 1)) (dependency r)\<rparr>)
      | None \<Rightarrow> (False, r\<lparr>dependency := AList.update txn 1 (dependency r)\<rparr>))"

definition get_dependencies :: "global_relation \<Rightarrow> nat list" where
  "get_dependencies r = map fst (dependency r)"

section \<open>The manager\<close>

text \<open>A key file is a data file with rows of a key.\<close>

record key_file =
  kf_path :: string
  kf_data :: "arrow_table option"
  kf_rows :: "nat list"
  kf_exact :: bool

definition all_rows :: "key_file \<Rightarrow> bool" where
  "all_rows f \<longleftrightarrow> kf_exact f \<or>
     (case kf_data f of None \<Rightarrow> False | Some d \<Rightarrow> length (kf_rows f) = num_rows d)"

record manager =
  conn :: connector
  level0 :: bool
  level1 :: bool
  level2 :: bool
  options :: protocol_options
  storage_retries :: nat
  m_base_path :: string
  tables :: "table_stats list"
  working_dir :: string
  next_step :: nat
  explicit_log :: bool
  file_num :: nat
  transaction_id :: nat
  times_redo :: nat
  global_log_path :: string
  global_tmp_log_path :: string
  global_lock_token :: string
  global_lock_lease_ms :: nat
  global_lock_timeout_ms :: nat
  relation :: global_relation
  update_vals :: "(string \<times> string) list list"
  update_ops :: "update_operation list"
  prev_markers :: "string list"
  found :: "string \<times> string"
  local_log :: "(string \<times> nat) list"
  found_files :: "key_file list"
  retired_files :: "string list"

text \<open>The constructor: missing levels are off.\<close>

definition level_of :: "bool list \<Rightarrow> nat \<Rightarrow> bool" where
  "level_of levels i = (if i < length levels then levels ! i else False)"

definition manager_new ::
    "bool list \<Rightarrow> string \<Rightarrow> connector \<Rightarrow> nat \<Rightarrow> manager_defaults \<Rightarrow> manager" where
  "manager_new levels path c txn d =
     \<lparr>conn = c, level0 = level_of levels 0, level1 = level_of levels 1, level2 = level_of levels 2,
      options = default_protocol d, storage_retries = 8, m_base_path = path, tables = [],
      working_dir = '''', next_step = 0, explicit_log = True, file_num = 0, transaction_id = txn,
      times_redo = 0, global_log_path = default_global_log d,
      global_tmp_log_path = default_global_tmp_log d, global_lock_token = '''',
      global_lock_lease_ms = 30000, global_lock_timeout_ms = 120000,
      relation = global_relation_new, update_vals = [], update_ops = [], prev_markers = [],
      found = ('''', ''''), local_log = [], found_files = [], retired_files = []\<rparr>"

definition set_global_lock_timing :: "nat \<Rightarrow> nat \<Rightarrow> manager \<Rightarrow> manager" where
  "set_global_lock_timing lease timeout m =
     m\<lparr>global_lock_lease_ms := lease, global_lock_timeout_ms := timeout\<rparr>"

definition set_storage_retries :: "nat \<Rightarrow> manager \<Rightarrow> manager" where
  "set_storage_retries retries m = m\<lparr>storage_retries := max 1 retries\<rparr>"

definition with_markers :: "manager \<Rightarrow> bool" where
  "with_markers m \<longleftrightarrow> level0 m \<or> level1 m"

definition get_table :: "nat \<Rightarrow> manager \<Rightarrow> table_stats option" where
  "get_table table_id m = (if length (tables m) \<le> table_id then None else Some (tables m ! table_id))"

definition set_table :: "nat \<Rightarrow> table_stats \<Rightarrow> manager \<Rightarrow> manager" where
  "set_table i t m = m\<lparr>tables := (tables m)[i := t]\<rparr>"

definition get_table_for_read :: "nat \<Rightarrow> manager \<Rightarrow> table_stats option \<times> manager" where
  "get_table_for_read table_id m =
     (case get_table table_id m of
        None \<Rightarrow> (None, m)
      | Some t \<Rightarrow> (let t = t\<lparr>t_was_read := True\<rparr> in (Some t, set_table table_id t m)))"

text \<open>Running an operation of the connector.\<close>

definition with_conn :: "(connector \<Rightarrow> 'a \<times> connector) \<Rightarrow> manager \<Rightarrow> 'a \<times> manager" where
  "with_conn f m = (let (r, c) = f (conn m) in (r, m\<lparr>conn := c\<rparr>))"

lemma with_conn_eq: "f (conn m) = (r, c) \<Longrightarrow> with_conn f m = (r, m\<lparr>conn := c\<rparr>)"
  by (simp add: with_conn_def)

section \<open>A manager for the witnesses\<close>

definition demo_connector :: connector where
  "demo_connector =
     \<lparr>mem = \<lparr>objects = [], next_etag = 0\<rparr>, fail_hook = None, hook_calls = 0, clock = None,
      local_clock = int, clock_reads = 0, clock_uncertainty_ms = 0, bytes_read = 0, bytes_write = 0\<rparr>"

definition demo_manager :: manager where
  "demo_manager =
     manager_new [True] ''wh/'' demo_connector 7
       \<lparr>default_global_log = ''g'', default_global_tmp_log = ''g.tmp'', default_protocol = default_options\<rparr>"

end
