(* ===== verification/Checkpoints.thy ===== *)
theory Checkpoints
  imports Arrow ManagerState
begin

text \<open>
  The content of a Delta checkpoint (\<open>Helpers/Helper.hpp\<close>) and its conversion from and to Parquet
  (\<open>readDLCheckpointContent\<close>, \<open>generateCheckpoint\<close> of \<open>Helpers/Helper.cpp\<close>).  Reading and
  writing Parquet files is Arrow's: a parameter.  What is read from a generated checkpoint is the
  content it was generated from.
\<close>

record checkpoint_entry =
  ce_path :: string
  ce_stats :: string
  ce_size :: int
  ce_modification_time :: int
  ce_partition_values :: string
  ce_tags :: string

record checkpoint_remove =
  cr_path :: string
  cr_deletion_timestamp :: int
  cr_size :: int
  cr_partition_values :: string

record checkpoint_content =
  cc_adds :: "checkpoint_entry list"
  cc_removes :: "checkpoint_remove list"
  cc_txns :: "checkpoint_txn list"
  cc_domains :: "checkpoint_domain list"
  cc_protocol :: string
  cc_metadata :: string
  cc_unsupported :: string

text \<open>Reading (\<open>None\<close>: an error) and writing of Parquet files, with the rows of a row group.\<close>

record parquet =
  pq_read :: "string \<Rightarrow> arrow_table option"
  pq_write :: "arrow_table \<Rightarrow> nat \<Rightarrow> string"

definition readParquetAsTable :: "parquet \<Rightarrow> string \<Rightarrow> arrow_table option" where
  "readParquetAsTable pq data = (if data = [] then None else pq_read pq data)"

section \<open>Reading\<close>

definition first_action_json :: "sys \<Rightarrow> arrow_table \<Rightarrow> string \<Rightarrow> string" where
  "first_action_json sy t name =
     (case get_column name t of
        None \<Rightarrow> ''''
      | Some c \<Rightarrow>
          (case find (\<lambda>v. v \<noteq> AV_NULL) (col_values c) of
             None \<Rightarrow> '''' | Some v \<Rightarrow> sy_write sy (arrow_to_json v)))"

definition element_json :: "sys \<Rightarrow> (arrow_value \<Rightarrow> arrow_value) option \<Rightarrow> arrow_value \<Rightarrow> string" where
  "element_json sy f v =
     (case f of
        None \<Rightarrow> ''''
      | Some g \<Rightarrow> if g v = AV_NULL then '''' else sy_write sy (arrow_to_json (g v)))"

definition string_at :: "(arrow_value \<Rightarrow> arrow_value) option \<Rightarrow> arrow_value \<Rightarrow> string option" where
  "string_at f v = (case f of Some g \<Rightarrow> (case g v of AV_STRING s \<Rightarrow> Some s | _ \<Rightarrow> None) | None \<Rightarrow> None)"

definition int_at :: "(arrow_value \<Rightarrow> arrow_value) option \<Rightarrow> arrow_value \<Rightarrow> int option" where
  "int_at f v = (case f of Some g \<Rightarrow> (case g v of AV_INT i \<Rightarrow> Some i | _ \<Rightarrow> None) | None \<Rightarrow> None)"

definition bool_at :: "(arrow_value \<Rightarrow> arrow_value) option \<Rightarrow> arrow_value \<Rightarrow> bool option" where
  "bool_at f v = (case f of Some g \<Rightarrow> (case g v of AV_BOOL b \<Rightarrow> Some b | _ \<Rightarrow> None) | None \<Rightarrow> None)"

definition or_else :: "'a option \<Rightarrow> 'a \<Rightarrow> 'a" where
  "or_else v d = (case v of Some x \<Rightarrow> x | None \<Rightarrow> d)"

lemma or_else_simps [simp]: "or_else (Some x) d = x" "or_else None d = d"
  by (simp_all add: or_else_def)

text \<open>The fields of a struct column; another column has no actions.\<close>

definition column_fields :: "arrow_table \<Rightarrow> string \<Rightarrow> (arrow_field list \<times> table_column) option" where
  "column_fields t name =
     (case get_column name t of
        None \<Rightarrow> None
      | Some c \<Rightarrow> map_option (\<lambda>fs. (fs, c)) (struct_fields (f_type (col_field c))))"

definition read_add :: "sys \<Rightarrow> arrow_field list \<Rightarrow> arrow_value \<Rightarrow> checkpoint_entry option" where
  "read_add sy fs v =
     (if v = AV_NULL then None
      else map_option (\<lambda>path.
             \<lparr>ce_path = path, ce_stats = or_else (string_at (struct_field fs ''stats'' T_STRING) v) '''',
              ce_size = or_else (int_at (struct_field fs ''size'' T_INT64) v) (-1),
              ce_modification_time = or_else (int_at (struct_field fs ''modificationTime'' T_INT64) v) (-1),
              ce_partition_values = element_json sy (get_field fs ''partitionValues'') v,
              ce_tags = element_json sy (get_field fs ''tags'') v\<rparr>)
           (string_at (struct_field fs ''path'' T_STRING) v))"

definition has_vector :: "arrow_field list \<Rightarrow> arrow_value \<Rightarrow> bool" where
  "has_vector fs v \<longleftrightarrow>
     v \<noteq> AV_NULL \<and> string_at (struct_field fs ''path'' T_STRING) v \<noteq> None \<and>
     (case get_field fs ''deletionVector'' of Some g \<Rightarrow> g v \<noteq> AV_NULL | None \<Rightarrow> False)"

definition read_adds :: "sys \<Rightarrow> arrow_table \<Rightarrow> (checkpoint_entry list \<times> bool) option" where
  "read_adds sy t =
     (case column_fields t ''add'' of
        None \<Rightarrow> Some ([], False)
      | Some (fs, c) \<Rightarrow>
          if col_chunks c \<noteq> [] \<and> struct_field fs ''path'' T_STRING = None then None
          else Some (List.map_filter (read_add sy fs) (col_values c), list_ex (has_vector fs) (col_values c)))"

definition read_remove :: "sys \<Rightarrow> arrow_field list \<Rightarrow> arrow_value \<Rightarrow> checkpoint_remove option" where
  "read_remove sy fs v =
     (if v = AV_NULL then None
      else map_option (\<lambda>path.
             \<lparr>cr_path = path,
              cr_deletion_timestamp = or_else (int_at (struct_field fs ''deletionTimestamp'' T_INT64) v) 0,
              cr_size = or_else (int_at (struct_field fs ''size'' T_INT64) v) (-1),
              cr_partition_values = element_json sy (get_field fs ''partitionValues'') v\<rparr>)
           (string_at (struct_field fs ''path'' T_STRING) v))"

definition read_removes :: "sys \<Rightarrow> arrow_table \<Rightarrow> checkpoint_remove list" where
  "read_removes sy t =
     (case column_fields t ''remove'' of
        None \<Rightarrow> [] | Some (fs, c) \<Rightarrow> List.map_filter (read_remove sy fs) (col_values c))"

text \<open>A row of the txn or domainMetadata column: nothing, an invalid action (\<open>None\<close>), or the action.\<close>

definition read_txn :: "arrow_field list \<Rightarrow> arrow_value \<Rightarrow> checkpoint_txn option option" where
  "read_txn fs v =
     (if v = AV_NULL then None
      else case (string_at (struct_field fs ''appId'' T_STRING) v, int_at (struct_field fs ''version'' T_INT64) v) of
             (Some app, Some version) \<Rightarrow>
               Some (Some \<lparr>txn_app_id = app, txn_version = version,
                 txn_last_updated = or_else (int_at (struct_field fs ''lastUpdated'' T_INT64) v) (-1)\<rparr>)
           | _ \<Rightarrow> Some None)"

definition read_domain :: "arrow_field list \<Rightarrow> arrow_value \<Rightarrow> checkpoint_domain option option" where
  "read_domain fs v =
     (if v = AV_NULL then None
      else case string_at (struct_field fs ''domain'' T_STRING) v of
             None \<Rightarrow> Some None
           | Some name \<Rightarrow>
               if bool_at (struct_field fs ''removed'' T_BOOL) v = Some True then None
               else Some (Some \<lparr>cd_domain = name,
                 cd_configuration = or_else (string_at (struct_field fs ''configuration'' T_STRING) v) ''''\<rparr>))"

definition column_actions ::
    "arrow_table \<Rightarrow> string \<Rightarrow> (arrow_field list \<Rightarrow> arrow_value \<Rightarrow> 'a option option) \<Rightarrow> 'a option list" where
  "column_actions t name read =
     (case column_fields t name of
        None \<Rightarrow> [] | Some (fs, c) \<Rightarrow> List.map_filter (read fs) (col_values c))"

definition valid_actions :: "'a option list \<Rightarrow> 'a list" where
  "valid_actions xs = List.map_filter id xs"

definition readDLCheckpointContent :: "sys \<Rightarrow> parquet \<Rightarrow> string \<Rightarrow> checkpoint_content option" where
  "readDLCheckpointContent sy pq data =
     (case readParquetAsTable pq data of
        None \<Rightarrow> None
      | Some t \<Rightarrow>
          (case read_adds sy t of
             None \<Rightarrow> None
           | Some (adds, vectors) \<Rightarrow>
               (let txns = column_actions t ''txn'' read_txn;
                    domains = column_actions t ''domainMetadata'' read_domain
                in Some
                     \<lparr>cc_adds = adds, cc_removes = read_removes sy t, cc_txns = valid_actions txns,
                      cc_domains = valid_actions domains,
                      cc_protocol = first_action_json sy t ''protocol'',
                      cc_metadata = first_action_json sy t ''metaData'',
                      cc_unsupported =
                        (if None \<in> set domains then ''invalid domainMetadata action''
                         else if None \<in> set txns then ''invalid txn action''
                         else if vectors then ''deletion vectors'' else '''')\<rparr>)))"

definition readDLCheckpointEntries :: "sys \<Rightarrow> parquet \<Rightarrow> string \<Rightarrow> checkpoint_entry list option" where
  "readDLCheckpointEntries sy pq data = map_option cc_adds (readDLCheckpointContent sy pq data)"

definition readDLCheckpoint :: "sys \<Rightarrow> parquet \<Rightarrow> string \<Rightarrow> string list" where
  "readDLCheckpoint sy pq data = map ce_path (or_else (readDLCheckpointEntries sy pq data) [])"

section \<open>Writing\<close>

definition string_map :: arrow_type where "string_map = map_type T_STRING T_STRING"

definition string_list :: arrow_type where "string_list = list_of T_STRING"

definition protocol_fields :: "arrow_field list" where
  "protocol_fields =
     [field ''minReaderVersion'' T_INT32, field ''minWriterVersion'' T_INT32,
      field ''readerFeatures'' string_list, field ''writerFeatures'' string_list]"

definition metadata_fields :: "arrow_field list" where
  "metadata_fields =
     [field ''id'' T_STRING, field ''name'' T_STRING, field ''description'' T_STRING,
      field ''format'' (T_STRUCT [field ''provider'' T_STRING, field ''options'' string_map]),
      field ''schemaString'' T_STRING, field ''partitionColumns'' string_list,
      field ''configuration'' string_map, field ''createdTime'' T_INT64]"

definition add_fields :: "arrow_field list" where
  "add_fields =
     [field ''path'' T_STRING, field ''partitionValues'' string_map, field ''size'' T_INT64,
      field ''modificationTime'' T_INT64, field ''dataChange'' T_BOOL, field ''stats'' T_STRING,
      field ''tags'' string_map]"

definition remove_fields :: "arrow_field list" where
  "remove_fields =
     [field ''path'' T_STRING, field ''deletionTimestamp'' T_INT64, field ''dataChange'' T_BOOL,
      field ''extendedFileMetadata'' T_BOOL, field ''partitionValues'' string_map, field ''size'' T_INT64]"

definition txn_fields :: "arrow_field list" where
  "txn_fields = [field ''appId'' T_STRING, field ''version'' T_INT64, field ''lastUpdated'' T_INT64]"

definition domain_fields :: "arrow_field list" where
  "domain_fields =
     [field ''domain'' T_STRING, field ''configuration'' T_STRING, field ''removed'' T_BOOL]"

definition checkpoint_schema :: "arrow_field list" where
  "checkpoint_schema =
     [field ''txn'' (T_STRUCT txn_fields), field ''add'' (T_STRUCT add_fields),
      field ''remove'' (T_STRUCT remove_fields), field ''metaData'' (T_STRUCT metadata_fields),
      field ''protocol'' (T_STRUCT protocol_fields),
      field ''domainMetadata'' (T_STRUCT domain_fields)]"

text \<open>The rows; \<open>None\<close> is the exception \<open>invalid_argument\<close>.\<close>

definition parse_object :: "sys \<Rightarrow> string \<Rightarrow> json option" where
  "parse_object sy text =
     (case sy_parse sy (c_str text) of
        Some v \<Rightarrow> if is_object v then Some v else None
      | None \<Rightarrow> None)"

definition add_action_row :: "sys \<Rightarrow> string \<Rightarrow> string \<Rightarrow> json option" where
  "add_action_row sy action text = map_option (\<lambda>v. JObject [(action, v)]) (parse_object sy text)"

definition json_object :: "sys \<Rightarrow> string \<Rightarrow> json option" where
  "json_object sy text = (if text = [] then Some (JObject []) else parse_object sy text)"

definition txn_row :: "checkpoint_txn \<Rightarrow> json" where
  "txn_row t = JObject [(''txn'', JObject
     ([(''appId'', JString (c_str (txn_app_id t))), (''version'', JInt (txn_version t))] @
      (if 0 \<le> txn_last_updated t then [(''lastUpdated'', JInt (txn_last_updated t))] else [])))]"

definition domain_row :: "checkpoint_domain \<Rightarrow> json" where
  "domain_row d = JObject [(''domainMetadata'', JObject
     [(''domain'', JString (c_str (cd_domain d))),
      (''configuration'', JString (c_str (cd_configuration d))), (''removed'', JBool False)])]"

definition remove_row :: "sys \<Rightarrow> checkpoint_remove \<Rightarrow> json option" where
  "remove_row sy r =
     (let base = [(''path'', JString (c_str (cr_path r))),
                  (''deletionTimestamp'', JInt (cr_deletion_timestamp r)), (''dataChange'', JBool False),
                  (''extendedFileMetadata'', JBool (0 \<le> cr_size r))]
      in if 0 \<le> cr_size r
         then map_option (\<lambda>pv. JObject [(''remove'', JObject
                  (base @ [(''partitionValues'', pv), (''size'', JInt (cr_size r))]))])
                (json_object sy (cr_partition_values r))
         else Some (JObject [(''remove'', JObject base)]))"

definition add_row :: "sys \<Rightarrow> int \<Rightarrow> checkpoint_entry \<Rightarrow> json option" where
  "add_row sy now e =
     (case (json_object sy (ce_partition_values e),
            if ce_tags e = [] then Some [] else map_option (\<lambda>v. [(''tags'', v)]) (json_object sy (ce_tags e))) of
        (Some pv, Some tags) \<Rightarrow>
          Some (JObject [(''add'', JObject
            ([(''path'', JString (c_str (ce_path e))), (''partitionValues'', pv),
              (''size'', JInt (if ce_size e < 0 then 0 else ce_size e)),
              (''modificationTime'', JInt (if ce_modification_time e < 0 then now else ce_modification_time e)),
              (''dataChange'', JBool False)] @ tags @
             (if ce_stats e = [] then [] else [(''stats'', JString (c_str (ce_stats e)))])))])
      | _ \<Rightarrow> None)"

definition checkpoint_rows :: "sys \<Rightarrow> checkpoint_content \<Rightarrow> int \<Rightarrow> json list option" where
  "checkpoint_rows sy content now =
     (case (add_action_row sy ''protocol'' (cc_protocol content), add_action_row sy ''metaData'' (cc_metadata content),
            those (map (remove_row sy) (cc_removes content)), those (map (add_row sy now) (cc_adds content))) of
        (Some p, Some m, Some removes, Some adds) \<Rightarrow>
          Some ([p, m] @ map txn_row (cc_txns content) @ map domain_row (cc_domains content) @ removes @ adds)
      | _ \<Rightarrow> None)"

definition rows_table :: "sys \<Rightarrow> arrow_field list \<Rightarrow> json list \<Rightarrow> arrow_table" where
  "rows_table sy schema rows =
     map (\<lambda>f. \<lparr>col_field = f,
               col_chunks = [map (\<lambda>row. append_json (sy_write sy) (f_type f) (find_member (c_str (f_name f)) row)) rows]\<rparr>)
       schema"

definition generateCheckpoint :: "sys \<Rightarrow> parquet \<Rightarrow> checkpoint_content \<Rightarrow> int \<Rightarrow> string option" where
  "generateCheckpoint sy pq content now =
     map_option (\<lambda>rows. pq_write pq (rows_table sy checkpoint_schema rows) (max 1 (length rows)))
       (checkpoint_rows sy content now)"


section \<open>What is read back\<close>

text \<open>The documented behaviour the sources rely on: a table of struct columns that was written is
  read back with the same fields and elements, in chunks of any size; only the names of the
  fields inside lists and maps may differ.\<close>

fun same_type :: "arrow_type \<Rightarrow> arrow_type \<Rightarrow> bool" where
  "same_type (T_STRUCT fs) ty =
     (case ty of
        T_STRUCT gs \<Rightarrow> list_all2 (\<lambda>f g. f_name f = f_name g \<and> same_type (f_type f) (f_type g)) fs gs
      | _ \<Rightarrow> False)"
| "same_type (T_LIST f) ty = (case ty of T_LIST g \<Rightarrow> same_type (f_type f) (f_type g) | _ \<Rightarrow> False)"
| "same_type (T_MAP k f) ty =
     (case ty of T_MAP l g \<Rightarrow> same_type (f_type k) (f_type l) \<and> same_type (f_type f) (f_type g) | _ \<Rightarrow> False)"
| "same_type a b = (a = b)"

definition same_column :: "table_column \<Rightarrow> table_column \<Rightarrow> bool" where
  "same_column c d \<longleftrightarrow>
     f_name (col_field c) = f_name (col_field d) \<and> same_type (f_type (col_field c)) (f_type (col_field d)) \<and>
     col_values c = col_values d"

definition table_ok :: "arrow_table \<Rightarrow> bool" where
  "table_ok t \<longleftrightarrow>
     distinct (map (\<lambda>c. f_name (col_field c)) t) \<and>
     (\<exists>n. \<forall>c \<in> set t. length (col_values c) = n \<and> builder_type (f_type (col_field c)) \<and>
        (\<forall>v \<in> set (col_values c). has_type v (f_type (col_field c))))"

definition parquet_ok :: "parquet \<Rightarrow> bool" where
  "parquet_ok pq \<longleftrightarrow>
     (\<forall>t n. table_ok t \<longrightarrow> 0 < n \<longrightarrow>
        pq_write pq t n \<noteq> [] \<and> (\<exists>t'. pq_read pq (pq_write pq t n) = Some t' \<and> list_all2 same_column t t'))"

lemma list_all2_filter:
  "list_all2 R xs ys \<Longrightarrow> (\<And>x y. R x y \<Longrightarrow> P x = Q y) \<Longrightarrow> list_all2 R (filter P xs) (filter Q ys)"
  by (induction rule: list_all2_induct) auto

lemma unique_list_all2:
  assumes "list_all2 R xs ys" "\<And>x y. R x y \<Longrightarrow> P x = Q y" "unique P xs = Some x"
  shows "\<exists>y. unique Q ys = Some y \<and> R x y"
proof -
  from assms(3) have "filter P xs = [x]" by (auto simp: unique_def split: list.splits)
  with list_all2_filter [of R xs ys P Q, OF assms(1,2)] show ?thesis
    by (auto simp: unique_def list_all2_Cons1)
qed

lemma unique_list_all2_None:
  assumes "list_all2 R xs ys" "\<And>x y. R x y \<Longrightarrow> P x = Q y" "unique P xs = None"
  shows "unique Q ys = None"
  using list_all2_filter [of R xs ys P Q, OF assms(1,2)] assms(3)
  by (auto simp: unique_def split: list.splits simp: list_all2_Cons1 list_all2_Cons2)

definition same_fields :: "arrow_field list \<Rightarrow> arrow_field list \<Rightarrow> bool" where
  "same_fields = list_all2 (\<lambda>f g. f_name f = f_name g \<and> same_type (f_type f) (f_type g))"

lemma same_type_primitive:
  "ty \<in> {T_STRING, T_INT64, T_BOOL} \<Longrightarrow> same_type a b \<Longrightarrow> a = ty \<longleftrightarrow> b = ty"
  by (cases a) (auto split: arrow_type.splits)

lemma unique_field_same:
  assumes "same_fields fs gs"
  shows "unique (\<lambda>f. f_name f = name) fs = Some f \<Longrightarrow>
      \<exists>g. unique (\<lambda>f. f_name f = name) gs = Some g \<and> same_type (f_type f) (f_type g)"
    and "unique (\<lambda>f. f_name f = name) fs = None \<Longrightarrow> unique (\<lambda>f. f_name f = name) gs = None"
  using unique_list_all2 [OF assms [unfolded same_fields_def],
      of "\<lambda>f. f_name f = name" "\<lambda>f. f_name f = name" f]
    unique_list_all2_None [OF assms [unfolded same_fields_def],
      of "\<lambda>f. f_name f = name" "\<lambda>f. f_name f = name"]
  by auto

lemma struct_field_same:
  assumes "same_fields fs gs" "ty \<in> {T_STRING, T_INT64, T_BOOL}"
  shows "struct_field gs name ty = struct_field fs name ty"
  using unique_field_same [OF assms(1), of name] same_type_primitive [OF assms(2)]
  by (cases "unique (\<lambda>f. f_name f = name) fs") (fastforce simp: struct_field_def)+

lemma get_field_same:
  assumes "same_fields fs gs"
  shows "get_field gs name = get_field fs name"
  using unique_field_same [OF assms, of name]
  by (cases "unique (\<lambda>f. f_name f = name) fs") (fastforce simp: get_field_def)+

lemmas read_same = struct_field_same get_field_same

lemma same_read:
  assumes "same_fields fs gs"
  shows "read_add sy gs = read_add sy fs" "has_vector gs = has_vector fs"
    "read_remove sy gs = read_remove sy fs" "read_txn gs = read_txn fs" "read_domain gs = read_domain fs"
proof -
  have e: "struct_field gs n T_STRING = struct_field fs n T_STRING"
    "struct_field gs n T_INT64 = struct_field fs n T_INT64"
    "struct_field gs n T_BOOL = struct_field fs n T_BOOL" "get_field gs n = get_field fs n" for n
    using read_same [OF assms] by simp_all
  show "read_add sy gs = read_add sy fs" "has_vector gs = has_vector fs"
    "read_remove sy gs = read_remove sy fs" "read_txn gs = read_txn fs" "read_domain gs = read_domain fs"
    unfolding fun_eq_iff read_add_def has_vector_def read_remove_def read_txn_def read_domain_def e
    by (rule allI refl)+
qed

section \<open>The columns of a written checkpoint\<close>

definition action_fields :: "(string \<times> arrow_field list) list" where
  "action_fields =
     [(''txn'', txn_fields), (''add'', add_fields), (''remove'', remove_fields), (''metaData'', metadata_fields),
      (''protocol'', protocol_fields), (''domainMetadata'', domain_fields)]"

lemma schema_conv: "checkpoint_schema = map (\<lambda>(a, fs). field a (T_STRUCT fs)) action_fields"
  by (simp add: checkpoint_schema_def action_fields_def)

lemma field_simps [simp]: "f_name (field a ty) = a" "f_type (field a ty) = ty"
  by (simp_all add: field_def)

lemma action_fields_ok:
  "(a, fs) \<in> set action_fields \<Longrightarrow> builder_type (T_STRUCT fs) \<and> c_str a = a"
  by (auto simp: action_fields_def txn_fields_def add_fields_def remove_fields_def metadata_fields_def
      protocol_fields_def domain_fields_def string_map_def string_list_def map_type_def list_of_def c_str_def)

lemma distinct_actions: "distinct (map fst action_fields)"
  by (simp add: action_fields_def)

lemma rows_table_ok: "table_ok (rows_table sy checkpoint_schema rows)"
  unfolding table_ok_def
proof (intro conjI exI ballI)
  show "distinct (map (\<lambda>c. f_name (col_field c)) (rows_table sy checkpoint_schema rows))"
    using distinct_actions by (simp add: rows_table_def schema_conv comp_def case_prod_beta')
next
  fix c assume "c \<in> set (rows_table sy checkpoint_schema rows)"
  then obtain a fs where c: "(a, fs) \<in> set action_fields" "col_field c = field a (T_STRUCT fs)"
    "col_values c = map (\<lambda>row. append_json (sy_write sy) (T_STRUCT fs) (find_member (c_str a) row)) rows"
    by (auto simp: rows_table_def schema_conv col_values_def)
  with action_fields_ok [OF c(1)] show "length (col_values c) = length rows"
    "builder_type (f_type (col_field c))" by simp_all
  fix v assume "v \<in> set (col_values c)"
  with c action_fields_ok [OF c(1)] append_json_typed show "has_type v (f_type (col_field c))" by auto
qed

definition row_values :: "sys \<Rightarrow> arrow_field list \<Rightarrow> string \<Rightarrow> json list \<Rightarrow> arrow_value list" where
  "row_values sy fs a rows = map (\<lambda>row. append_json (sy_write sy) (T_STRUCT fs) (find_member a row)) rows"

lemma unique_distinct:
  "distinct (map g xs) \<Longrightarrow> x \<in> set xs \<Longrightarrow> unique (\<lambda>y. g y = g x) xs = Some x"
proof (induction xs)
  case (Cons y ys)
  show ?case
  proof (cases "x = y")
    case True
    from Cons.prems have "g z \<noteq> g y" if "z \<in> set ys" for z using that by (metis distinct.simps(2) image_eqI list.set_map list.simps(9))
    then have "filter (\<lambda>z. g z = g y) ys = []" by (simp add: filter_empty_conv)
    with True show ?thesis by (simp add: unique_def)
  next
    case False
    with Cons show ?thesis by (auto simp: unique_def)
  qed
qed simp

lemma written_table:
  assumes "parquet_ok pq" "0 < n"
  obtains t where "readParquetAsTable pq (pq_write pq (rows_table sy checkpoint_schema rows) n) = Some t"
    "\<And>a fs. (a, fs) \<in> set action_fields \<Longrightarrow> \<exists>gs c. column_fields t a = Some (gs, c) \<and> same_fields fs gs
       \<and> get_column a t = Some c \<and> col_values c = row_values sy fs a rows"
proof -
  from assms rows_table_ok [of sy rows] obtain t
    where t: "readParquetAsTable pq (pq_write pq (rows_table sy checkpoint_schema rows) n) = Some t"
      "list_all2 same_column (rows_table sy checkpoint_schema rows) t"
    unfolding parquet_ok_def readParquetAsTable_def by (metis (no_types, lifting))
  have "\<exists>gs c. column_fields t a = Some (gs, c) \<and> same_fields fs gs
       \<and> get_column a t = Some c \<and> col_values c = row_values sy fs a rows"
    if a: "(a, fs) \<in> set action_fields" for a fs
  proof -
    let ?c = "\<lparr>col_field = field a (T_STRUCT fs), col_chunks = [row_values sy fs a rows]\<rparr>"
    have m: "?c \<in> set (rows_table sy checkpoint_schema rows)"
      using a action_fields_ok [OF a] by (force simp: rows_table_def schema_conv row_values_def)
    have d: "distinct (map (\<lambda>c. f_name (col_field c)) (rows_table sy checkpoint_schema rows))"
      using rows_table_ok [of sy rows] by (simp add: table_ok_def)
    have "get_column a (rows_table sy checkpoint_schema rows) = Some ?c"
      using unique_distinct [OF d m] by (simp add: get_column_def)
    then obtain c where c: "get_column a t = Some c" "same_column ?c c"
      using unique_list_all2 [OF t(2), of "\<lambda>c. f_name (col_field c) = a" "\<lambda>c. f_name (col_field c) = a" ?c]
      by (auto simp: get_column_def same_column_def)
    then have ty: "same_type (T_STRUCT fs) (f_type (col_field c))" and v: "col_values c = row_values sy fs a rows"
      by (auto simp: same_column_def col_values_def)
    from ty obtain gs where gs: "f_type (col_field c) = T_STRUCT gs" "same_fields fs gs"
      by (auto simp: same_fields_def split: arrow_type.splits)
    with c v show ?thesis by (simp add: column_fields_def)
  qed
  with t(1) that show ?thesis by blast
qed

section \<open>The content read back\<close>

text \<open>A JSON object as the columns keep it.\<close>

definition stored_object :: "sys \<Rightarrow> string \<Rightarrow> string" where
  "stored_object sy text = sy_write sy (arrow_to_json (append_json (sy_write sy) string_map (json_object sy text)))"

definition stored_action :: "sys \<Rightarrow> arrow_field list \<Rightarrow> string \<Rightarrow> string" where
  "stored_action sy fs text =
     sy_write sy (arrow_to_json (append_json (sy_write sy) (T_STRUCT fs) (parse_object sy text)))"

definition stored_add :: "sys \<Rightarrow> int \<Rightarrow> checkpoint_entry \<Rightarrow> checkpoint_entry" where
  "stored_add sy now e =
     \<lparr>ce_path = c_str (ce_path e), ce_stats = c_str (ce_stats e),
      ce_size = (if ce_size e < 0 then 0 else ce_size e),
      ce_modification_time = (if ce_modification_time e < 0 then now else ce_modification_time e),
      ce_partition_values = stored_object sy (ce_partition_values e),
      ce_tags = (if ce_tags e = [] then [] else stored_object sy (ce_tags e))\<rparr>"

definition stored_remove :: "sys \<Rightarrow> checkpoint_remove \<Rightarrow> checkpoint_remove" where
  "stored_remove sy r =
     \<lparr>cr_path = c_str (cr_path r), cr_deletion_timestamp = cr_deletion_timestamp r,
      cr_size = (if cr_size r < 0 then -1 else cr_size r),
      cr_partition_values = (if cr_size r < 0 then [] else stored_object sy (cr_partition_values r))\<rparr>"

definition stored_txn :: "checkpoint_txn \<Rightarrow> checkpoint_txn" where
  "stored_txn t =
     \<lparr>txn_app_id = c_str (txn_app_id t), txn_version = txn_version t,
      txn_last_updated = (if txn_last_updated t < 0 then -1 else txn_last_updated t)\<rparr>"

definition stored_domain :: "checkpoint_domain \<Rightarrow> checkpoint_domain" where
  "stored_domain d = \<lparr>cd_domain = c_str (cd_domain d), cd_configuration = c_str (cd_configuration d)\<rparr>"

definition stored_content :: "sys \<Rightarrow> int \<Rightarrow> checkpoint_content \<Rightarrow> checkpoint_content" where
  "stored_content sy now content =
     \<lparr>cc_adds = map (stored_add sy now) (cc_adds content), cc_removes = map (stored_remove sy) (cc_removes content),
      cc_txns = map stored_txn (cc_txns content), cc_domains = map stored_domain (cc_domains content),
      cc_protocol = stored_action sy protocol_fields (cc_protocol content),
      cc_metadata = stored_action sy metadata_fields (cc_metadata content), cc_unsupported = ''''\<rparr>"

definition content_ok :: "checkpoint_content \<Rightarrow> bool" where
  "content_ok content \<longleftrightarrow>
     (\<forall>e \<in> set (cc_adds content). in_int64 (ce_size e) \<and> in_int64 (ce_modification_time e)) \<and>
     (\<forall>r \<in> set (cc_removes content). in_int64 (cr_size r) \<and> in_int64 (cr_deletion_timestamp r)) \<and>
     (\<forall>t \<in> set (cc_txns content). in_int64 (txn_version t) \<and> in_int64 (txn_last_updated t))"

lemma fields_found:
  "struct_field add_fields ''path'' T_STRING = Some (child ''path'')"
  "struct_field add_fields ''stats'' T_STRING = Some (child ''stats'')"
  "struct_field add_fields ''size'' T_INT64 = Some (child ''size'')"
  "struct_field add_fields ''modificationTime'' T_INT64 = Some (child ''modificationTime'')"
  "get_field add_fields ''partitionValues'' = Some (child ''partitionValues'')"
  "get_field add_fields ''tags'' = Some (child ''tags'')"
  "get_field add_fields ''deletionVector'' = None"
  "struct_field remove_fields ''path'' T_STRING = Some (child ''path'')"
  "struct_field remove_fields ''deletionTimestamp'' T_INT64 = Some (child ''deletionTimestamp'')"
  "struct_field remove_fields ''size'' T_INT64 = Some (child ''size'')"
  "get_field remove_fields ''partitionValues'' = Some (child ''partitionValues'')"
  "struct_field txn_fields ''appId'' T_STRING = Some (child ''appId'')"
  "struct_field txn_fields ''version'' T_INT64 = Some (child ''version'')"
  "struct_field txn_fields ''lastUpdated'' T_INT64 = Some (child ''lastUpdated'')"
  "struct_field domain_fields ''domain'' T_STRING = Some (child ''domain'')"
  "struct_field domain_fields ''configuration'' T_STRING = Some (child ''configuration'')"
  "struct_field domain_fields ''removed'' T_BOOL = Some (child ''removed'')"
  by (simp_all add: struct_field_def get_field_def unique_def add_fields_def remove_fields_def
      txn_fields_def domain_fields_def)

lemma append_primitive [simp]:
  "append_json w T_STRING (Some (JString s)) = AV_STRING s"
  "in_int64 i \<Longrightarrow> append_json w T_INT64 (Some (JInt i)) = AV_INT i"
  "append_json w T_BOOL (Some (JBool b)) = AV_BOOL b"
  by (simp_all add: append_json.simps int_element_def)

lemma append_struct:
  "append_json w (T_STRUCT fs) (Some (JObject ms))
     = AV_STRUCT (map (\<lambda>f. (f_name f, append_json w (f_type f) (map_of ms (c_str (f_name f))))) fs)"
  by (simp add: append_json.simps [of w "T_STRUCT fs"])

lemma append_map_not_null: "is_object v \<Longrightarrow> append_json w string_map (Some v) \<noteq> AV_NULL"
  by (cases v) (simp_all add: string_map_def map_type_def append_json.simps)

lemma json_object_object: "json_object sy text = Some v \<Longrightarrow> is_object v"
  by (auto simp: json_object_def parse_object_def split: if_splits option.splits)

lemma stored_objectI:
  "json_object sy text = Some v \<Longrightarrow>
   sy_write sy (arrow_to_json (append_json (sy_write sy) string_map (Some v))) = stored_object sy text"
  by (simp add: stored_object_def)

lemma c_str_names [simp]: "c_str (CHR 0x00 # s) = []" "c \<noteq> CHR 0x00 \<Longrightarrow> c_str (c # s) = c # c_str s" "c_str [] = []"
  by (simp_all add: c_str_def)

lemma read_txn_row:
  assumes "in_int64 (txn_version t)" "in_int64 (txn_last_updated t)"
  shows "read_txn txn_fields (append_json w (T_STRUCT txn_fields) (find_member ''txn'' (txn_row t))) = Some (Some (stored_txn t))"
  unfolding read_txn_def fields_found txn_row_def using assms
  by (simp add: append_struct txn_fields_def string_at_def int_at_def stored_txn_def)

lemma read_domain_row:
  "read_domain domain_fields (append_json w (T_STRUCT domain_fields) (find_member ''domainMetadata'' (domain_row d)))
     = Some (Some (stored_domain d))"
  unfolding read_domain_def fields_found domain_row_def
  by (simp add: append_struct domain_fields_def string_at_def bool_at_def stored_domain_def)

lemma read_remove_row:
  assumes "in_int64 (cr_size r)" "in_int64 (cr_deletion_timestamp r)" "remove_row sy r = Some row"
  shows "read_remove sy remove_fields
      (append_json (sy_write sy) (T_STRUCT remove_fields) (find_member ''remove'' row)) = Some (stored_remove sy r)"
proof (cases "0 \<le> cr_size r")
  case True
  with assms(3) obtain pv where pv: "json_object sy (cr_partition_values r) = Some pv"
    and row: "row = JObject [(''remove'', JObject
       [(''path'', JString (c_str (cr_path r))), (''deletionTimestamp'', JInt (cr_deletion_timestamp r)),
        (''dataChange'', JBool False), (''extendedFileMetadata'', JBool True),
        (''partitionValues'', pv), (''size'', JInt (cr_size r))])]"
    by (auto simp: remove_row_def)
  show ?thesis
    unfolding read_remove_def fields_found row using True assms(1,2) stored_objectI [OF pv]
      append_map_not_null [OF json_object_object [OF pv]]
    by (simp add: append_struct remove_fields_def string_at_def int_at_def element_json_def stored_remove_def)
next
  case False
  with assms(3) have row: "row = JObject [(''remove'', JObject
       [(''path'', JString (c_str (cr_path r))), (''deletionTimestamp'', JInt (cr_deletion_timestamp r)),
        (''dataChange'', JBool False), (''extendedFileMetadata'', JBool False)])]"
    by (simp add: remove_row_def)
  show ?thesis
    unfolding read_remove_def fields_found row using False assms(2)
    by (simp add: append_struct remove_fields_def string_at_def int_at_def element_json_def stored_remove_def)
qed

lemma read_add_row:
  assumes "in_int64 (ce_size e)" "in_int64 (ce_modification_time e)" "in_int64 now" "add_row sy now e = Some row"
  shows "read_add sy add_fields
      (append_json (sy_write sy) (T_STRUCT add_fields) (find_member ''add'' row)) = Some (stored_add sy now e)"
    and "\<not> has_vector add_fields (append_json (sy_write sy) (T_STRUCT add_fields) v)"
proof -
  show "\<not> has_vector add_fields (append_json (sy_write sy) (T_STRUCT add_fields) v)"
    by (simp add: has_vector_def fields_found)
  from assms(4) obtain pv tags where pv: "json_object sy (ce_partition_values e) = Some pv"
    and tags: "(if ce_tags e = [] then Some [] else map_option (\<lambda>v. [(''tags'', v)]) (json_object sy (ce_tags e))) = Some tags"
    and row: "row = JObject [(''add'', JObject
       ([(''path'', JString (c_str (ce_path e))), (''partitionValues'', pv),
         (''size'', JInt (if ce_size e < 0 then 0 else ce_size e)),
         (''modificationTime'', JInt (if ce_modification_time e < 0 then now else ce_modification_time e)),
         (''dataChange'', JBool False)] @ tags @
        (if ce_stats e = [] then [] else [(''stats'', JString (c_str (ce_stats e)))])))]"
    by (auto simp: add_row_def split: option.splits)
  have n: "append_json (sy_write sy) string_map (Some pv) \<noteq> AV_NULL"
    "\<And>v. json_object sy (ce_tags e) = Some v \<Longrightarrow> append_json (sy_write sy) string_map (Some v) \<noteq> AV_NULL"
    using append_map_not_null json_object_object pv by blast+
  have i: "in_int64 (if ce_size e < 0 then 0 else ce_size e)"
    "in_int64 (if ce_modification_time e < 0 then now else ce_modification_time e)"
    using assms by (auto simp: in_int64_def)
  show "read_add sy add_fields
      (append_json (sy_write sy) (T_STRUCT add_fields) (find_member ''add'' row)) = Some (stored_add sy now e)"
    unfolding read_add_def fields_found row using n i stored_objectI [OF pv] tags
    by (auto simp: append_struct add_fields_def string_at_def int_at_def element_json_def stored_add_def stored_objectI
        split: if_splits simp del: if_split)
qed

text \<open>A row has the element of its action's column only.\<close>

definition row_of :: "string \<Rightarrow> json \<Rightarrow> bool" where
  "row_of a row \<longleftrightarrow> (\<exists>v. row = JObject [(a, v)])"

lemma row_of_rows:
  "add_action_row sy a text = Some row \<Longrightarrow> row_of a row"
  "row_of ''txn'' (txn_row t)" "row_of ''domainMetadata'' (domain_row d)"
  "remove_row sy r = Some row \<Longrightarrow> row_of ''remove'' row"
  "add_row sy now e = Some row \<Longrightarrow> row_of ''add'' row"
  by (auto simp: row_of_def add_action_row_def txn_row_def domain_row_def remove_row_def add_row_def Let_def
      split: if_splits option.splits)

lemma other_row: "row_of a row \<Longrightarrow> a \<noteq> b \<Longrightarrow> find_member b row = None"
  by (auto simp: row_of_def)

lemma map_filter_append: "List.map_filter f (xs @ ys) = List.map_filter f xs @ List.map_filter f ys"
  by (simp add: List.map_filter_def)

lemma map_filter_none: "(\<And>x. x \<in> set xs \<Longrightarrow> f x = None) \<Longrightarrow> List.map_filter f xs = []"
  by (induction xs) (auto simp: List.map_filter_simps)

lemma map_filter_some: "list_all2 (\<lambda>x y. f x = Some y) xs ys \<Longrightarrow> List.map_filter f xs = ys"
  by (induction rule: list_all2_induct) (auto simp: List.map_filter_simps)

lemma those_list_all2: "those (map f xs) = Some ys \<Longrightarrow> list_all2 (\<lambda>x y. f x = Some y) xs ys"
  by (induction xs arbitrary: ys) (auto split: option.splits)

lemma map_filter_map: "List.map_filter f (map g xs) = List.map_filter (\<lambda>x. f (g x)) xs"
  by (simp add: List.map_filter_def comp_def filter_map)

lemma read_none [simp]:
  "read_add sy fs AV_NULL = None" "read_remove sy fs AV_NULL = None" "read_txn fs AV_NULL = None"
  "read_domain fs AV_NULL = None"
  by (simp_all add: read_add_def read_remove_def read_txn_def read_domain_def)

definition rows_split :: "json list \<Rightarrow> json \<Rightarrow> json \<Rightarrow> json list \<Rightarrow> json list \<Rightarrow> json list \<Rightarrow> json list \<Rightarrow> bool" where
  "rows_split rows p m txns domains removes adds \<longleftrightarrow>
     rows = [p, m] @ txns @ domains @ removes @ adds \<and> row_of ''protocol'' p \<and> row_of ''metaData'' m \<and>
     list_all (row_of ''txn'') txns \<and> list_all (row_of ''domainMetadata'') domains \<and>
     list_all (row_of ''remove'') removes \<and> list_all (row_of ''add'') adds"

lemma other_rows:
  assumes "list_all (row_of a) rows" "a \<noteq> b" "f AV_NULL = None"
  shows "List.map_filter f (row_values sy fs b rows) = []"
proof (rule map_filter_none)
  fix v assume "v \<in> set (row_values sy fs b rows)"
  then obtain row where row: "row \<in> set rows" "v = append_json (sy_write sy) (T_STRUCT fs) (find_member b row)"
    by (auto simp: row_values_def)
  with assms have "v = AV_NULL" using other_row [of a row b] by (simp add: list_all_iff)
  with assms(3) show "f v = None" by simp
qed

lemma own_rows:
  assumes "list_all2 (\<lambda>row y. f (append_json (sy_write sy) (T_STRUCT fs) (find_member b row)) = Some y) rows ys"
  shows "List.map_filter f (row_values sy fs b rows) = ys"
  unfolding row_values_def map_filter_map using assms by (rule map_filter_some)

lemma row_values_split:
  "row_values sy fs a (xs @ ys) = row_values sy fs a xs @ row_values sy fs a ys"
  "row_values sy fs a (x # xs) = row_values sy fs a [x] @ row_values sy fs a xs"
  by (simp_all add: row_values_def)

lemma checkpoint_rows_split:
  assumes "checkpoint_rows sy content now = Some rows"
  obtains p m removes adds where
    "rows_split rows p m (map txn_row (cc_txns content)) (map domain_row (cc_domains content)) removes adds"
    "add_action_row sy ''protocol'' (cc_protocol content) = Some p"
    "add_action_row sy ''metaData'' (cc_metadata content) = Some m"
    "list_all2 (\<lambda>r row. remove_row sy r = Some row) (cc_removes content) removes"
    "list_all2 (\<lambda>e row. add_row sy now e = Some row) (cc_adds content) adds"
proof -
  from assms obtain p m removes adds where r: "add_action_row sy ''protocol'' (cc_protocol content) = Some p"
    "add_action_row sy ''metaData'' (cc_metadata content) = Some m"
    "those (map (remove_row sy) (cc_removes content)) = Some removes"
    "those (map (add_row sy now) (cc_adds content)) = Some adds"
    "rows = [p, m] @ map txn_row (cc_txns content) @ map domain_row (cc_domains content) @ removes @ adds"
    by (auto simp: checkpoint_rows_def split: option.splits)
  have "list_all (row_of ''remove'') removes" "list_all (row_of ''add'') adds"
    using those_list_all2 [OF r(3)] those_list_all2 [OF r(4)] row_of_rows(4,5)
    by (fastforce simp: list_all2_conv_all_nth list_all_length)+
  then have "rows_split rows p m (map txn_row (cc_txns content)) (map domain_row (cc_domains content)) removes adds"
    using r(1,2,5) row_of_rows(1) [of sy] row_of_rows(2,3) by (auto simp: rows_split_def list_all_iff)
  then show ?thesis using r(1,2) those_list_all2 [OF r(3)] those_list_all2 [OF r(4)] by (rule that)
qed

lemma rows_split_read:
  assumes "rows_split rows p m txns domains removes adds" "f AV_NULL = None"
  shows "List.map_filter f (row_values sy fs ''txn'' rows) = List.map_filter f (row_values sy fs ''txn'' txns)"
    and "List.map_filter f (row_values sy fs ''domainMetadata'' rows)
      = List.map_filter f (row_values sy fs ''domainMetadata'' domains)"
    and "List.map_filter f (row_values sy fs ''remove'' rows) = List.map_filter f (row_values sy fs ''remove'' removes)"
    and "List.map_filter f (row_values sy fs ''add'' rows) = List.map_filter f (row_values sy fs ''add'' adds)"
proof -
  from assms(1) have r: "rows = [p, m] @ txns @ domains @ removes @ adds"
    and o: "list_all (row_of ''protocol'') [p]" "list_all (row_of ''metaData'') [m]" "list_all (row_of ''txn'') txns"
      "list_all (row_of ''domainMetadata'') domains" "list_all (row_of ''remove'') removes"
      "list_all (row_of ''add'') adds"
    by (simp_all add: rows_split_def)
  have split: "List.map_filter f (row_values sy fs b rows)
      = concat (map (\<lambda>rs. List.map_filter f (row_values sy fs b rs)) [[p], [m], txns, domains, removes, adds])" for b
    unfolding r using row_values_split(2) [of sy fs b p "m # txns @ domains @ removes @ adds"]
      row_values_split(2) [of sy fs b m "txns @ domains @ removes @ adds"]
    by (simp add: row_values_split(1) map_filter_append del: append_assoc flip: append_assoc)
  note other = other_rows [of _ _ _ f sy fs, OF _ _ assms(2)]
  show "List.map_filter f (row_values sy fs ''txn'' rows) = List.map_filter f (row_values sy fs ''txn'' txns)"
    unfolding split using o by (simp add: other [OF o(1)] other [OF o(2)] other [OF o(4)] other [OF o(5)] other [OF o(6)])
  show "List.map_filter f (row_values sy fs ''domainMetadata'' rows)
      = List.map_filter f (row_values sy fs ''domainMetadata'' domains)"
    unfolding split using o by (simp add: other [OF o(1)] other [OF o(2)] other [OF o(3)] other [OF o(5)] other [OF o(6)])
  show "List.map_filter f (row_values sy fs ''remove'' rows) = List.map_filter f (row_values sy fs ''remove'' removes)"
    unfolding split using o by (simp add: other [OF o(1)] other [OF o(2)] other [OF o(3)] other [OF o(4)] other [OF o(6)])
  show "List.map_filter f (row_values sy fs ''add'' rows) = List.map_filter f (row_values sy fs ''add'' adds)"
    unfolding split using o by (simp add: other [OF o(1)] other [OF o(2)] other [OF o(3)] other [OF o(4)] other [OF o(5)])
qed

lemma action_not_null: "is_object v \<Longrightarrow> append_json w (T_STRUCT fs) (Some v) \<noteq> AV_NULL"
  by (cases v) (simp_all add: append_struct)

lemma first_action:
  assumes "rows_split rows p m txns domains removes adds"
  shows "add_action_row sy ''protocol'' text = Some p \<Longrightarrow>
      find (\<lambda>v. v \<noteq> AV_NULL) (row_values sy fs ''protocol'' rows)
        = Some (append_json (sy_write sy) (T_STRUCT fs) (parse_object sy text))"
    and "add_action_row sy ''metaData'' text = Some m \<Longrightarrow>
      find (\<lambda>v. v \<noteq> AV_NULL) (row_values sy fs ''metaData'' rows)
        = Some (append_json (sy_write sy) (T_STRUCT fs) (parse_object sy text))"
proof -
  from assms have r: "rows = [p, m] @ txns @ domains @ removes @ adds" and p: "row_of ''protocol'' p"
    by (simp_all add: rows_split_def)
  { assume "add_action_row sy ''protocol'' text = Some p"
    then obtain v where v: "parse_object sy text = Some v" "p = JObject [(''protocol'', v)]" "is_object v"
      by (auto simp: add_action_row_def parse_object_def split: option.splits if_splits)
    with action_not_null [OF v(3)] show "find (\<lambda>v. v \<noteq> AV_NULL) (row_values sy fs ''protocol'' rows)
        = Some (append_json (sy_write sy) (T_STRUCT fs) (parse_object sy text))"
      by (simp add: r row_values_def) }
  { assume "add_action_row sy ''metaData'' text = Some m"
    then obtain v where v: "parse_object sy text = Some v" "m = JObject [(''metaData'', v)]" "is_object v"
      by (auto simp: add_action_row_def parse_object_def split: option.splits if_splits)
    with action_not_null [OF v(3)] other_row [OF p, of "''metaData''"]
    show "find (\<lambda>v. v \<noteq> AV_NULL) (row_values sy fs ''metaData'' rows)
        = Some (append_json (sy_write sy) (T_STRUCT fs) (parse_object sy text))"
      by (simp add: r row_values_def) }
qed

lemma valid_actions_some: "valid_actions (map Some xs) = xs"
  by (induction xs) (simp_all add: valid_actions_def List.map_filter_simps)

lemma generated_read:
  assumes pq: "parquet_ok pq" and ok: "content_ok content" "in_int64 now"
    and gen: "generateCheckpoint sy pq content now = Some bytes"
  shows "readDLCheckpointContent sy pq bytes = Some (stored_content sy now content)"
proof -
  from gen obtain rows where rows: "checkpoint_rows sy content now = Some rows"
    "bytes = pq_write pq (rows_table sy checkpoint_schema rows) (max 1 (length rows))"
    by (auto simp: generateCheckpoint_def)
  obtain p m removes adds where sp:
      "rows_split rows p m (map txn_row (cc_txns content)) (map domain_row (cc_domains content)) removes adds"
    and p: "add_action_row sy ''protocol'' (cc_protocol content) = Some p"
    and m: "add_action_row sy ''metaData'' (cc_metadata content) = Some m"
    and rem: "list_all2 (\<lambda>r row. remove_row sy r = Some row) (cc_removes content) removes"
    and add: "list_all2 (\<lambda>e row. add_row sy now e = Some row) (cc_adds content) adds"
    by (rule checkpoint_rows_split [OF rows(1)])
  obtain t where t: "readParquetAsTable pq bytes = Some t"
    and cols: "\<And>a fs. (a, fs) \<in> set action_fields \<Longrightarrow> \<exists>gs c. column_fields t a = Some (gs, c) \<and> same_fields fs gs
       \<and> get_column a t = Some c \<and> col_values c = row_values sy fs a rows"
    using written_table [OF pq, of "max 1 (length rows)" sy rows] rows(2) by (metis less_max_iff_disj zero_less_one)
  obtain ags ac where a: "column_fields t ''add'' = Some (ags, ac)" "same_fields add_fields ags"
    "col_values ac = row_values sy add_fields ''add'' rows"
    using cols [of "''add''" add_fields] by (auto simp: action_fields_def)
  have adds: "List.map_filter (read_add sy add_fields) (row_values sy add_fields ''add'' adds)
      = map (stored_add sy now) (cc_adds content)"
    using add ok read_add_row(1) [OF _ _ ok(2)]
    by (intro own_rows) (auto simp: list_all2_conv_all_nth content_ok_def)
  have "read_adds sy t = Some (map (stored_add sy now) (cc_adds content), False)"
    using a read_same [OF a(2)] adds rows_split_read(4) [OF sp, of "read_add sy add_fields" sy add_fields]
    by (auto simp: read_adds_def same_read [OF a(2)] fields_found list_ex_iff row_values_def has_vector_def)
  moreover
  obtain rgs rc where r: "column_fields t ''remove'' = Some (rgs, rc)" "same_fields remove_fields rgs"
    "col_values rc = row_values sy remove_fields ''remove'' rows"
    using cols [of "''remove''" remove_fields] by (auto simp: action_fields_def)
  have "List.map_filter (read_remove sy remove_fields) (row_values sy remove_fields ''remove'' removes)
      = map (stored_remove sy) (cc_removes content)"
    using rem ok read_remove_row by (intro own_rows) (auto simp: list_all2_conv_all_nth content_ok_def)
  then have "read_removes sy t = map (stored_remove sy) (cc_removes content)"
    using r rows_split_read(3) [OF sp, of "read_remove sy remove_fields" sy remove_fields]
    by (simp add: read_removes_def same_read [OF r(2)])
  moreover
  obtain tgs tc where tx: "column_fields t ''txn'' = Some (tgs, tc)" "same_fields txn_fields tgs"
    "col_values tc = row_values sy txn_fields ''txn'' rows"
    using cols [of "''txn''" txn_fields] by (auto simp: action_fields_def)
  have "List.map_filter (read_txn txn_fields) (row_values sy txn_fields ''txn'' (map txn_row (cc_txns content)))
      = map Some (map stored_txn (cc_txns content))"
    using ok read_txn_row by (intro own_rows) (auto simp: list_all2_conv_all_nth content_ok_def)
  then have "column_actions t ''txn'' read_txn = map Some (map stored_txn (cc_txns content))"
    using tx rows_split_read(1) [OF sp, of "read_txn txn_fields" sy txn_fields]
    by (simp add: column_actions_def same_read [OF tx(2)])
  moreover
  obtain dgs dc where d: "column_fields t ''domainMetadata'' = Some (dgs, dc)" "same_fields domain_fields dgs"
    "col_values dc = row_values sy domain_fields ''domainMetadata'' rows"
    using cols [of "''domainMetadata''" domain_fields] by (auto simp: action_fields_def)
  have "List.map_filter (read_domain domain_fields) (row_values sy domain_fields ''domainMetadata'' (map domain_row (cc_domains content)))
      = map Some (map stored_domain (cc_domains content))"
    using read_domain_row by (intro own_rows) (auto simp: list_all2_conv_all_nth)
  then have "column_actions t ''domainMetadata'' read_domain = map Some (map stored_domain (cc_domains content))"
    using d rows_split_read(2) [OF sp, of "read_domain domain_fields" sy domain_fields]
    by (simp add: column_actions_def same_read [OF d(2)])
  moreover
  have "first_action_json sy t ''protocol'' = stored_action sy protocol_fields (cc_protocol content)"
    using cols [of "''protocol''" protocol_fields] first_action(1) [OF sp p, of protocol_fields]
    by (auto simp: action_fields_def first_action_json_def stored_action_def)
  moreover
  have "first_action_json sy t ''metaData'' = stored_action sy metadata_fields (cc_metadata content)"
    using cols [of "''metaData''" metadata_fields] first_action(2) [OF sp m, of metadata_fields]
    by (auto simp: action_fields_def first_action_json_def stored_action_def)
  ultimately show ?thesis
    by (simp add: readDLCheckpointContent_def t stored_content_def valid_actions_some Let_def image_iff del: map_map)
qed

end
