(* ===== verification/LogActions.thy ===== *)
theory LogActions
  imports ManagerState SampleCodec
begin

text \<open>
  Reading and writing the actions of a Delta log: \<open>apply_log_action\<close>, \<open>parseEntry\<close>, the entries of
  a marker and of a commit (\<open>createHeaderMarker\<close> ... \<open>createOperationDeleteEntry\<close>,
  \<open>build_commit_log\<close>) and the empty commit that releases a version.  The wall clock
  (\<open>now_ms\<close>) is an argument.
\<close>

section \<open>Reading an action\<close>

definition apply_metadata :: "sys \<Rightarrow> json \<Rightarrow> nat \<Rightarrow> delta_log \<Rightarrow> delta_log" where
  "apply_metadata sy val version l =
     (case member_object ''metaData'' val of
        None \<Rightarrow> l | Some md \<Rightarrow> set_metadata (sy_write sy md) version l)"

definition apply_protocol :: "sys \<Rightarrow> json \<Rightarrow> nat \<Rightarrow> delta_log \<Rightarrow> delta_log" where
  "apply_protocol sy val version l =
     (case member_object ''protocol'' val of
        None \<Rightarrow> l | Some p \<Rightarrow> set_protocol (sy_write sy p) version l)"

definition apply_txn :: "json \<Rightarrow> nat \<Rightarrow> delta_log \<Rightarrow> delta_log" where
  "apply_txn val version l =
     (case member_object ''txn'' val of
        None \<Rightarrow> l
      | Some txn \<Rightarrow>
          (case (member_string ''appId'' txn, member_int64 ''version'' txn) of
             (Some app_id, Some v) \<Rightarrow>
               set_transaction (c_str app_id) v
                 (case member_int64 ''lastUpdated'' txn of Some u \<Rightarrow> u | None \<Rightarrow> -1) version l
           | _ \<Rightarrow> mark_unsupported ''invalid txn action'' l))"

definition apply_domain :: "json \<Rightarrow> nat \<Rightarrow> delta_log \<Rightarrow> delta_log" where
  "apply_domain val version l =
     (case member_object ''domainMetadata'' val of
        None \<Rightarrow> l
      | Some domain \<Rightarrow>
          (case member_string ''domain'' domain of
             None \<Rightarrow> mark_unsupported ''invalid domainMetadata action'' l
           | Some name \<Rightarrow>
               if Option.bind (find_member ''removed'' domain) as_bool = Some True
               then set_domain_metadata (c_str name) None version l
               else set_domain_metadata (c_str name)
                      (Some (case member_string ''configuration'' domain of
                               Some c \<Rightarrow> c_str c | None \<Rightarrow> '''')) version l))"

definition apply_add :: "sys \<Rightarrow> json \<Rightarrow> nat \<Rightarrow> delta_log \<Rightarrow> delta_log" where
  "apply_add sy val version l =
     (case member_object ''add'' val of
        None \<Rightarrow> l
      | Some add \<Rightarrow>
          (case member_string ''path'' add of
             None \<Rightarrow> l
           | Some path \<Rightarrow>
               (let l = (case find_member ''deletionVector'' add of
                           None \<Rightarrow> l
                         | Some v \<Rightarrow> if v = JNull then l else mark_unsupported ''deletion vectors'' l)
                in register_action (c_str path)
                     (from_action (sy_parse sy) (sy_write sy) ADD add (int version)) l)))"

definition apply_remove :: "sys \<Rightarrow> json \<Rightarrow> nat \<Rightarrow> delta_log \<Rightarrow> delta_log" where
  "apply_remove sy val version l =
     (case member_object ''remove'' val of
        None \<Rightarrow> l
      | Some remove \<Rightarrow>
          (case member_string ''path'' remove of
             None \<Rightarrow> l
           | Some path \<Rightarrow>
               register_action (c_str path)
                 (from_action (sy_parse sy) (sy_write sy) DELETE remove (int version)) l))"

definition apply_log_action :: "sys \<Rightarrow> json \<Rightarrow> nat \<Rightarrow> delta_log \<Rightarrow> delta_log" where
  "apply_log_action sy val version l =
     (let l = apply_metadata sy val version l;
          l = apply_protocol sy val version l;
          l = apply_txn val version l;
          l = apply_domain val version l;
          l = apply_add sy val version l
      in apply_remove sy val version l)"

text \<open>The result is the transaction id of a running marker, or UINT32_MAX.\<close>

definition parseEntry ::
    "sys \<Rightarrow> json \<Rightarrow> delta_log \<Rightarrow> nat \<Rightarrow> manager \<Rightarrow> (nat \<times> delta_log) \<times> manager" where
  "parseEntry sy val l version m =
     (let l = apply_log_action sy val version l
      in case member_object ''marker'' val of
           None \<Rightarrow> ((u32_max, l), m)
         | Some mk \<Rightarrow>
             if \<not> has_member ''running'' mk then ((u32_max, l), m)
             else let m = (if level0 m then m\<lparr>explicit_log := False\<rparr> else m)
                  in case Option.bind (find_member ''txnid'' mk) as_uint of
                       Some txn \<Rightarrow> ((txn, l), m)
                     | None \<Rightarrow> ((u32_max, l), m))"

section \<open>Entries of a marker and of a commit\<close>

definition engine_info :: string where "engine_info = ''LHTransactions 0.1 - Delta Lake 3.0''"

definition commit_info :: "json \<Rightarrow> string \<Rightarrow> json list \<Rightarrow> bool \<Rightarrow> int \<Rightarrow> int \<Rightarrow> json" where
  "commit_info txn mode metrics blind read_v now =
     JObject [(''commitInfo'', JObject
       [(''txnId'', txn), (''engineInfo'', JString engine_info),
        (''operationMetrics'', JObject
           (zip [''numOutputBytes'', ''numOutputRows'', ''numFiles''] metrics)),
        (''isBlindAppend'', JBool blind), (''isolationLevel'', JString ''Serializable''),
        (''readVersion'', JInt read_v),
        (''operationParameters'', JObject [(''mode'', JString mode), (''partitionBy'', JString ''[]'')]),
        (''operation'', JString ''WRITE''), (''timestamp'', JInt now)])]"

definition empty_commit :: "sys \<Rightarrow> string \<Rightarrow> int \<Rightarrow> string" where
  "empty_commit sy mode now =
     sy_write sy (commit_info (JString ''1234'') mode [JInt 0, JInt 0, JInt 0] False 0 now)"

definition createHeaderMarker :: "sys \<Rightarrow> manager \<Rightarrow> int \<Rightarrow> string" where
  "createHeaderMarker sy m now =
     sy_write sy (commit_info (JInt (int (transaction_id m))) ''Marker''
       [JString ''0'', JString ''0'', JString ''0''] True 0 now)"

definition createMarkerEntry :: "sys \<Rightarrow> manager \<Rightarrow> int \<Rightarrow> string" where
  "createMarkerEntry sy m deadline =
     sy_write sy (JObject [(''marker'', JObject
       [(''workDir'', JString (working_dir m)), (''running'', JBool True),
        (''dependencies'', JArray (map (\<lambda>d. JInt (int d)) (get_dependencies (relation m)))),
        (''txnid'', JInt (int (transaction_id m))), (''deadline'', JInt deadline)])])"

definition createHeaderCommit :: "sys \<Rightarrow> manager \<Rightarrow> table_stats \<Rightarrow> int \<Rightarrow> string" where
  "createHeaderCommit sy m t now =
     sy_write sy (commit_info (JInt (int (transaction_id m))) ''MultiQuery''
       [JInt (int (t_out_bytes t)), JInt (int (t_in_bytes t)), JInt (int (t_file_num t))] False
       (int (t_read_version t)) now)"

definition relative_path :: "string \<Rightarrow> string \<Rightarrow> string" where
  "relative_path path base = (if starts_with base path then drop (length base) path else path)"

text \<open>std::stoll: \<open>None\<close> is an exception.\<close>

definition stoll :: "string \<Rightarrow> int option" where
  "stoll s =
     (let (neg, r) = sign_of (dropWhile is_space s); ds = takeWhile is_digit r;
          v = (if neg then - int (undec ds) else int (undec ds))
      in if ds = [] \<or> \<not> in_int64 v then None else Some v)"

definition stat_value :: "sys \<Rightarrow> column_statistics \<Rightarrow> string \<Rightarrow> json option" where
  "stat_value sy column value =
     (if cs_numeric column
      then (if list_ex (\<lambda>c. c \<in> set ''.eE'') value then map_option JDouble (sy_stod sy value)
            else map_option JInt (stoll value))
      else Some (JString value))"

fun stat_values :: "sys \<Rightarrow> (column_statistics \<Rightarrow> string) \<Rightarrow> column_statistics list \<Rightarrow> (string \<times> json) list option" where
  "stat_values sy f [] = Some []"
| "stat_values sy f (column # columns) =
     (if \<not> cs_has_min_max column then stat_values sy f columns
      else case (stat_value sy column (f column), stat_values sy f columns) of
             (Some v, Some vs) \<Rightarrow> Some ((c_str (cs_name column), v) # vs)
           | _ \<Rightarrow> None)"

definition stats_json :: "sys \<Rightarrow> table_statistics \<Rightarrow> json option" where
  "stats_json sy stats =
     (let records = (if 0 \<le> st_num_records stats
                     then [(''numRecords'', JInt (st_num_records stats))] else [])
      in if st_columns stats = [] then Some (JObject records)
         else case (stat_values sy cs_min (st_columns stats), stat_values sy cs_max (st_columns stats)) of
                (Some mn, Some mx) \<Rightarrow>
                  Some (JObject (records @
                    [(''minValues'', JObject mn), (''maxValues'', JObject mx),
                     (''nullCount'', JObject (map (\<lambda>c. (c_str (cs_name c), JInt (cs_null_count c)))
                        (st_columns stats)))]))
              | _ \<Rightarrow> None)"

definition add_action :: "sys \<Rightarrow> file_stats \<Rightarrow> string \<Rightarrow> int \<Rightarrow> json option" where
  "add_action sy file base now =
     (let fields =
            [(''path'', JString (relative_path (fs_path file) base)),
             (''partitionValues'', JObject []),
             (''size'', JInt (if fs_size file < 0 then 0 else fs_size file)),
             (''modificationTime'', JInt now), (''dataChange'', JBool True)]
      in if 0 \<le> st_num_records (fs_stats file) \<or> st_columns (fs_stats file) \<noteq> []
         then map_option (\<lambda>s. JObject [(''add'', JObject (fields @ [(''stats'', JString (sy_write sy s))]))])
                (stats_json sy (fs_stats file))
         else Some (JObject [(''add'', JObject fields)]))"

definition createOperationAddEntry :: "sys \<Rightarrow> file_stats \<Rightarrow> string \<Rightarrow> int \<Rightarrow> string option" where
  "createOperationAddEntry sy file base now = map_option (sy_write sy) (add_action sy file base now)"

definition remove_action :: "file_stats \<Rightarrow> string \<Rightarrow> int \<Rightarrow> json" where
  "remove_action file base now =
     JObject [(''remove'', JObject
       ([(''path'', JString (relative_path (fs_path file) base)),
         (''deletionTimestamp'', JInt now), (''dataChange'', JBool True),
         (''partitionValues'', JObject [])] @
        (if 0 \<le> fs_size file
         then [(''extendedFileMetadata'', JBool True), (''size'', JInt (fs_size file))]
         else [(''extendedFileMetadata'', JBool False)])))]"

definition createOperationDeleteEntry :: "sys \<Rightarrow> file_stats \<Rightarrow> string \<Rightarrow> int \<Rightarrow> string" where
  "createOperationDeleteEntry sy file base now = sy_write sy (remove_action file base now)"

text \<open>The log of a commit: \<open>None\<close> when a statistics value makes std::stod or std::stoll throw.\<close>

definition log_files :: "(string \<times> file_stats) list \<Rightarrow> file_stats list" where
  "log_files fs = map snd (filter (\<lambda>(path, f). fs_valid f \<and> path \<noteq> []) fs)"

definition build_commit_log :: "sys \<Rightarrow> manager \<Rightarrow> table_stats \<Rightarrow> int \<Rightarrow> string option" where
  "build_commit_log sy m t now =
     map_option (\<lambda>adds.
         createHeaderCommit sy m t now
         @ concat (map (\<lambda>e. newline # e) adds)
         @ concat (map (\<lambda>f. newline # createOperationDeleteEntry sy f (t_base_path t) now)
             (log_files (t_deleted_files t))))
       (those (map (\<lambda>f. createOperationAddEntry sy f (t_base_path t) now)
         (log_files (t_created_files t))))"

section \<open>A commit is read back as the changes of its transaction\<close>

definition commit_actions :: "sys \<Rightarrow> manager \<Rightarrow> table_stats \<Rightarrow> int \<Rightarrow> json list option" where
  "commit_actions sy m t now =
     map_option (\<lambda>adds.
         commit_info (JInt (int (transaction_id m))) ''MultiQuery''
           [JInt (int (t_out_bytes t)), JInt (int (t_in_bytes t)), JInt (int (t_file_num t))] False
           (int (t_read_version t)) now
         # adds @ map (\<lambda>f. remove_action f (t_base_path t) now) (log_files (t_deleted_files t)))
       (those (map (\<lambda>f. add_action sy f (t_base_path t) now) (log_files (t_created_files t))))"

lemma those_map_option: "those (map (\<lambda>x. map_option g (f x)) xs) = map_option (map g) (those (map f xs))"
proof (induction xs)
  case (Cons x xs)
  then show ?case by (cases "f x"; cases "those (map f xs)") auto
qed simp

lemma build_commit_log_conv:
  "build_commit_log sy m t now = map_option
     (\<lambda>vs. sy_write sy (hd vs) @ concat (map (\<lambda>v. newline # sy_write sy v) (tl vs)))
     (commit_actions sy m t now)"
  by (cases "those (map (\<lambda>f. add_action sy f (t_base_path t) now) (log_files (t_created_files t)))")
     (simp_all add: build_commit_log_def commit_actions_def createOperationAddEntry_def
        those_map_option createHeaderCommit_def createOperationDeleteEntry_def comp_def)

lemma getlines_sep:
  "newline \<notin> set l \<Longrightarrow> l \<noteq> [] \<Longrightarrow> \<forall>k \<in> set ls. newline \<notin> set k \<and> k \<noteq> [] \<Longrightarrow>
   getlines (l @ concat (map ((#) newline) ls)) = l # ls"
proof (induction ls arbitrary: l)
  case (Cons k ls)
  then show ?case by simp
qed (simp add: getlines_single)

lemma json_objects_sep:
  assumes codec: "json_codec parse write" and ok: "\<And>v. v \<in> set (v0 # vs) \<Longrightarrow> json_ok v \<and> is_object v"
  shows "json_objects parse (write v0 @ concat (map (\<lambda>v. newline # write v) vs)) = v0 # vs"
proof -
  have w: "newline \<notin> set (write v) \<and> write v \<noteq> []" if "v \<in> set (v0 # vs)" for v
    using json_codecD(2,4) [OF codec] ok [OF that] by fastforce
  have "getlines (write v0 @ concat (map (\<lambda>v. newline # write v) vs))
      = getlines (concat (map (\<lambda>v. write v @ [newline]) (v0 # vs)))"
    using getlines_sep [of "write v0" "map write vs"] getlines_concat [of "map write (v0 # vs)"] w
    by (fastforce simp: comp_def)
  with json_objects_lines [OF codec ok, where vs = "v0 # vs"] show ?thesis
    by (simp add: json_objects_def)
qed

lemma from_action_op [simp]: "e_operation (from_action p w op a v) = op"
  and from_action_version [simp]: "e_version (from_action p w op a v) = v"
  by (auto simp: from_action_def entry_with_stats_def entry_of_def Let_def
      split: option.splits prod.splits)

lemma apply_commit_info [simp]: "apply_log_action sy (commit_info a b c d e f) v l = l"
  by (simp add: apply_log_action_def apply_metadata_def apply_protocol_def apply_txn_def
      apply_domain_def apply_add_def apply_remove_def commit_info_def member_object_def Let_def)

lemma apply_add_action:
  assumes "add_action sy f base now = Some a"
  shows "\<exists>add. (\<forall>l. apply_log_action sy a v l = register_action (c_str (relative_path (fs_path f) base))
      (from_action (sy_parse sy) (sy_write sy) ADD add (int v)) l) \<and> is_object a"
  using assms
  by (auto simp: add_action_def apply_log_action_def apply_metadata_def apply_protocol_def apply_txn_def
      apply_domain_def apply_add_def apply_remove_def member_object_def member_string_def Let_def
      split: if_splits)

lemma apply_remove_action:
  "\<exists>rm. \<forall>l. apply_log_action sy (remove_action f base now) v l =
      register_action (c_str (relative_path (fs_path f) base))
        (from_action (sy_parse sy) (sy_write sy) DELETE rm (int v)) l"
  by (auto simp: remove_action_def apply_log_action_def apply_metadata_def apply_protocol_def apply_txn_def
      apply_domain_def apply_add_def apply_remove_def member_object_def member_string_def Let_def)

definition log_path :: "string \<Rightarrow> file_stats \<Rightarrow> string" where
  "log_path base f = c_str (relative_path (fs_path f) base)"

definition acts_of :: "dl_operation \<Rightarrow> nat \<Rightarrow> string list \<Rightarrow> (string \<times> delta_log_entry) list \<Rightarrow> bool" where
  "acts_of op v paths acts \<longleftrightarrow> map fst acts = paths
     \<and> (\<forall>a \<in> set acts. e_operation (snd a) = op \<and> e_version (snd a) = int v)"

lemma acts_of_Nil [simp]: "acts_of op v [] []"
  by (simp add: acts_of_def)

lemma acts_of_Cons:
  "acts_of op v ps acts \<Longrightarrow> e_operation e = op \<Longrightarrow> e_version e = int v \<Longrightarrow> acts_of op v (p # ps) ((p, e) # acts)"
  by (simp add: acts_of_def)

lemma fold_adds:
  "those (map (\<lambda>f. add_action sy f base now) fs) = Some adds \<Longrightarrow>
   \<exists>acts. acts_of ADD v (map (log_path base) fs) acts
     \<and> (\<forall>l. fold (\<lambda>a. apply_log_action sy a v) adds l = register_actions acts l)
     \<and> (\<forall>a \<in> set adds. is_object a)"
proof (induction fs arbitrary: adds)
  case Nil
  then show ?case by (intro exI [of _ "[]"]) (simp add: register_actions_def)
next
  case (Cons f fs)
  then obtain a as where a: "add_action sy f base now = Some a"
    "those (map (\<lambda>f. add_action sy f base now) fs) = Some as" "adds = a # as"
    by (auto split: option.splits)
  from Cons.IH [OF a(2)] obtain acts where acts: "acts_of ADD v (map (log_path base) fs) acts"
    "\<forall>l. fold (\<lambda>a. apply_log_action sy a v) as l = register_actions acts l" "\<forall>a \<in> set as. is_object a"
    by blast
  from apply_add_action [OF a(1), of v] obtain add where
    add: "\<forall>l. apply_log_action sy a v l = register_action (log_path base f)
      (from_action (sy_parse sy) (sy_write sy) ADD add (int v)) l" "is_object a"
    unfolding log_path_def by blast
  show ?case
    using acts add a(3)
    by (intro exI [of _ "(log_path base f, from_action (sy_parse sy) (sy_write sy) ADD add (int v)) # acts"])
       (simp add: acts_of_Cons register_actions_def)
qed

lemma fold_removes:
  "\<exists>acts. acts_of DELETE v (map (log_path base) fs) acts
     \<and> (\<forall>l. fold (\<lambda>a. apply_log_action sy a v) (map (\<lambda>f. remove_action f base now) fs) l
          = register_actions acts l)"
proof (induction fs)
  case Nil
  then show ?case by (intro exI [of _ "[]"]) (simp add: register_actions_def)
next
  case (Cons f fs)
  then obtain acts where acts: "acts_of DELETE v (map (log_path base) fs) acts"
    "\<forall>l. fold (\<lambda>a. apply_log_action sy a v) (map (\<lambda>f. remove_action f base now) fs) l = register_actions acts l"
    by blast
  from apply_remove_action [of sy f base now v] obtain rm where
    rm: "\<forall>l. apply_log_action sy (remove_action f base now) v l = register_action (log_path base f)
      (from_action (sy_parse sy) (sy_write sy) DELETE rm (int v)) l"
    unfolding log_path_def by blast
  show ?case
    using acts rm
    by (intro exI [of _ "(log_path base f, from_action (sy_parse sy) (sy_write sy) DELETE rm (int v)) # acts"])
       (simp add: acts_of_Cons register_actions_def)
qed

lemma register_actions_other:
  "\<forall>a \<in> set acts. fst a \<noteq> p \<Longrightarrow> file_operation p (register_actions acts l) = file_operation p l
     \<and> file_key p (register_actions acts l) = file_key p l"
  unfolding register_actions_def
  by (induction acts arbitrary: l)
     (auto simp: file_operation_def file_key_def map_of_register_action)

lemma register_actions_new:
  assumes "acts_of op v paths acts" "p \<in> set paths" "op = ADD \<or> op = DELETE"
    and "file_key p l < Some (int v, op = DELETE)"
  shows "file_operation p (register_actions acts l) = Some op
    \<and> file_key p (register_actions acts l) = Some (int v, op = DELETE)"
proof -
  from assms(1) have a: "\<And>a. a \<in> set acts \<Longrightarrow> entry_key (snd a) = (int v, op = DELETE)"
    "\<And>a. a \<in> set acts \<Longrightarrow> e_operation (snd a) = op"
    by (auto simp: acts_of_def entry_key_def)
  from assms(1,2) have "p \<in> fst ` set acts" by (auto simp: acts_of_def simp flip: set_map)
  then obtain b where b: "b \<in> set acts" "fst b = p" by auto
  note ge = files.key_fold_ge [OF b(1), of p l, folded register_actions_def]
  from ge b a assms(4) have "file_key p (register_actions acts l) \<noteq> file_key p l"
    by (auto simp: at_path_def)
  with files.val_fold [of acts p l, folded register_actions_def] obtain c where c: "c \<in> set acts"
    "at_path p entry_key c = file_key p (register_actions acts l)"
    "file_operation p (register_actions acts l) = at_path p e_operation c" by auto
  moreover from this ge b have "fst c = p"
    by (cases "fst c = p") (auto simp: at_path_def)
  ultimately show ?thesis using a by (auto simp: at_path_def simp flip: c(2))
qed

lemma register_actions_step:
  assumes "acts_of op v paths acts" "op = ADD \<or> op = DELETE" "file_key p l < Some (int v, op = DELETE)"
  shows "file_operation p (register_actions acts l) = (if p \<in> set paths then Some op else file_operation p l)
    \<and> file_key p (register_actions acts l) \<le> Some (int v, op = DELETE)"
proof (cases "p \<in> set paths")
  case True
  with register_actions_new [OF assms(1) _ assms(2,3)] show ?thesis by simp
next
  case False
  then have "\<forall>a \<in> set acts. fst a \<noteq> p" using assms(1) by (force simp: acts_of_def)
  with register_actions_other [OF this, of l] False assms(3) show ?thesis by simp
qed

section \<open>Properties\<close>

text \<open>C33: What a commit writes is what every reader of the log applies: reading the log of a commit
  of version \<open>v\<close> line by line on a snapshot of older versions removes exactly the files the
  transaction removed, adds exactly the files it created and did not remove, and leaves every other
  file as it was; a remove of a path beats an add of it in the same commit.\<close>

theorem commit_read_back:
  assumes "json_codec (sy_parse sy) (sy_write sy)"
    and "commit_actions sy m t now = Some vs" and "list_all json_ok vs"
    and "build_commit_log sy m t now = Some log"
    and "\<forall>p. file_key p l < Some (int v, False)"
  shows "file_operation p (fold (\<lambda>a. apply_log_action sy a v) (json_objects (sy_parse sy) log) l) =
    (if p \<in> log_path (t_base_path t) ` set (log_files (t_deleted_files t)) then Some DELETE
     else if p \<in> log_path (t_base_path t) ` set (log_files (t_created_files t)) then Some ADD
     else file_operation p l)"
proof -
  let ?b = "t_base_path t" and ?C = "log_files (t_created_files t)" and ?D = "log_files (t_deleted_files t)"
  let ?h = "commit_info (JInt (int (transaction_id m))) ''MultiQuery''
    [JInt (int (t_out_bytes t)), JInt (int (t_in_bytes t)), JInt (int (t_file_num t))] False
    (int (t_read_version t)) now"
  from assms(2) obtain adds where adds: "those (map (\<lambda>f. add_action sy f ?b now) ?C) = Some adds"
    and vs: "vs = ?h # adds @ map (\<lambda>f. remove_action f ?b now) ?D"
    unfolding commit_actions_def map_option_eq_Some by blast
  from fold_adds [OF adds, of v] obtain A where A: "acts_of ADD v (map (log_path ?b) ?C) A"
    "\<forall>l. fold (\<lambda>a. apply_log_action sy a v) adds l = register_actions A l" "\<forall>a \<in> set adds. is_object a"
    by blast
  from fold_removes [of v ?b ?D sy now] obtain R where R: "acts_of DELETE v (map (log_path ?b) ?D) R"
    "\<forall>l. fold (\<lambda>a. apply_log_action sy a v) (map (\<lambda>f. remove_action f ?b now) ?D) l = register_actions R l"
    by blast
  have "is_object ?h" "\<And>f. is_object (remove_action f ?b now)"
    by (simp_all add: commit_info_def remove_action_def)
  then have ok: "json_ok a \<and> is_object a" if "a \<in> set vs" for a
    using that assms(3) A(3) by (auto simp: list_all_iff vs)
  have "log = sy_write sy ?h @ concat (map (\<lambda>v. newline # sy_write sy v) (tl vs))"
    using assms(2,4) by (simp add: build_commit_log_conv vs)
  then have "json_objects (sy_parse sy) log = vs"
    using json_objects_sep [OF assms(1), of ?h "tl vs"] ok by (simp add: vs)
  then have f: "fold (\<lambda>a. apply_log_action sy a v) (json_objects (sy_parse sy) log) l
      = register_actions R (register_actions A l)" by (simp add: vs A(2) R(2))
  let ?l = "register_actions A l"
  have "file_key p l < Some (int v, False)" using assms(5) by simp
  with register_actions_step [OF A(1), of p l]
  have A': "file_operation p ?l = (if p \<in> log_path ?b ` set ?C then Some ADD else file_operation p l)"
    "file_key p ?l \<le> Some (int v, False)" by simp_all
  then have "file_key p ?l < Some (int v, DELETE = DELETE)"
    by (auto intro: le_less_trans [OF A'(2)])
  with register_actions_step [OF R(1), of p ?l] A'(1) show ?thesis by (simp add: f)
qed

definition demo_sys :: sys where
  "demo_sys = \<lparr>sy_parse = sample_parse, sy_write = sample_write, sy_stod = (\<lambda>_. None)\<rparr>"

lemma demo_codec: "json_codec (sy_parse demo_sys) (sy_write demo_sys)"
  by (simp add: demo_sys_def sample_codec)

definition demo_table :: table_stats where
  "demo_table = (table_stats_new ''t/'')
     \<lparr>t_created_files := [(''t/a'', file_stats_new\<lparr>fs_path := ''t/a'', fs_size := 9\<rparr>)],
      t_deleted_files := [(''t/b'', file_stats_new\<lparr>fs_path := ''t/b''\<rparr>)]\<rparr>"

lemma commit_read_back_witness:
  "\<exists>log. build_commit_log demo_sys demo_manager demo_table 5 = Some log
     \<and> file_operation ''a'' (fold (\<lambda>a. apply_log_action demo_sys a 3)
          (json_objects sample_parse log) (delta_log_new ''t/'')) = Some ADD"
proof -
  obtain vs where vs: "commit_actions demo_sys demo_manager demo_table 5 = Some vs" and ok: "list_all json_ok vs"
    by (simp add: commit_actions_def demo_manager_def manager_new_def demo_table_def table_stats_new_def
        log_files_def add_action_def remove_action_def commit_info_def file_stats_new_def no_statistics_def)
  then obtain log where log: "build_commit_log demo_sys demo_manager demo_table 5 = Some log"
    by (simp add: build_commit_log_conv)
  have "\<forall>p. file_key p (delta_log_new ''t/'') < Some (int 3, False)"
    by (simp add: file_key_def delta_log_new_def)
  from commit_read_back [OF demo_codec vs ok log this, of "''a''"]
  have "file_operation ''a'' (fold (\<lambda>a. apply_log_action demo_sys a 3)
      (json_objects sample_parse log) (delta_log_new ''t/'')) = Some ADD"
    by (simp add: demo_sys_def demo_table_def table_stats_new_def log_files_def file_stats_new_def
        log_path_def relative_path_def starts_with_def c_str_def)
  with log show ?thesis by blast
qed

end
