(* ===== verification/SampleParquet.thy ===== *)
theory SampleParquet
  imports Checkpoints LogActions
begin

text \<open>
  A concrete file format with the behaviour that \<open>parquet_ok\<close> states of Parquet: a table is
  written as a JSON text with the types and values of its columns.  The witnesses use it.
\<close>

fun type_json :: "arrow_type \<Rightarrow> json" where
  "type_json T_STRING = JNull"
| "type_json T_BOOL = JBool True"
| "type_json T_INT32 = JBool False"
| "type_json T_INT64 = JInt 0"
| "type_json (T_STRUCT fs) = JObject (map (\<lambda>f. (f_name f, type_json (f_type f))) fs)"
| "type_json (T_LIST f) = JArray [type_json (f_type f)]"
| "type_json (T_MAP k f) = JArray [JNull, type_json (f_type f)]"
| "type_json _ = JString []"

fun json_type :: "json \<Rightarrow> arrow_type" where
  "json_type JNull = T_STRING"
| "json_type (JBool b) = (if b then T_BOOL else T_INT32)"
| "json_type (JInt i) = T_INT64"
| "json_type (JObject ms) = T_STRUCT (map (\<lambda>m. field (fst m) (json_type (snd m))) ms)"
| "json_type (JArray [t]) = list_of (json_type t)"
| "json_type (JArray [k, t]) = map_type T_STRING (json_type t)"
| "json_type _ = T_NA"

lemma json_type: "builder_type ty \<Longrightarrow> same_type ty (json_type (type_json ty))"
  by (induction ty rule: builder_type.induct)
     (auto simp: list_all2_conv_all_nth list_all_length list_of_def map_type_def)

fun value_json :: "arrow_value \<Rightarrow> json" where
  "value_json AV_NULL = JNull"
| "value_json (AV_BOOL b) = JBool b"
| "value_json (AV_INT i) = JInt i"
| "value_json (AV_STRING s) = JString s"
| "value_json (AV_STRUCT ms) = JObject (map (\<lambda>m. (fst m, value_json (snd m))) ms)"
| "value_json (AV_LIST vs) = JArray [JArray (map value_json vs)]"
| "value_json (AV_MAP ms) = JArray [JNull, JArray (map (\<lambda>m. JArray [value_json (fst m), value_json (snd m)]) ms)]"
| "value_json _ = JArray []"

fun json_value :: "json \<Rightarrow> arrow_value" and json_entry :: "json \<Rightarrow> arrow_value \<times> arrow_value" where
  "json_value JNull = AV_NULL"
| "json_value (JBool b) = AV_BOOL b"
| "json_value (JInt i) = AV_INT i"
| "json_value (JString s) = AV_STRING s"
| "json_value (JObject ms) = AV_STRUCT (map (\<lambda>m. (fst m, json_value (snd m))) ms)"
| "json_value (JArray [JArray vs]) = AV_LIST (map json_value vs)"
| "json_value (JArray [JNull, JArray ms]) = AV_MAP (map json_entry ms)"
| "json_value _ = AV_NULL"
| "json_entry (JArray [k, v]) = (json_value k, json_value v)"
| "json_entry _ = (AV_NULL, AV_NULL)"

lemma json_value: "builder_type ty \<Longrightarrow> has_type v ty \<Longrightarrow> json_value (value_json v) = v"
proof (induction v arbitrary: ty)
  case (AV_STRUCT ms)
  then obtain fs where ty: "ty = T_STRUCT fs" by (cases ty) auto
  have "json_value (value_json (snd m)) = snd m" if m: "m \<in> set ms" for m
  proof -
    from AV_STRUCT.prems ty m obtain f where "f \<in> set fs" "has_type (snd m) (f_type f)"
      by (fastforce simp: list_all2_conv_all_nth in_set_conv_nth)
    with AV_STRUCT.prems ty AV_STRUCT.IH [OF m, of "snd m" "f_type f"] show ?thesis
      by (cases m) (auto simp: list_all_iff)
  qed
  then show ?case by (auto intro!: map_idI)
next
  case (AV_LIST vs)
  then show ?case by (cases ty) (auto intro!: map_idI)
next
  case (AV_MAP ms)
  then obtain k f where ty: "ty = T_MAP k f" by (cases ty) auto
  have "json_value (value_json (fst m)) = fst m \<and> json_value (value_json (snd m)) = snd m" if m: "m \<in> set ms" for m
    using AV_MAP.prems ty m AV_MAP.IH(1) [OF m, of "fst m" "f_type k"] AV_MAP.IH(2) [OF m, of "snd m" "f_type f"]
    by (cases m) auto
  then show ?case by (auto intro!: map_idI)
next
  case (AV_OTHER n)
  then show ?case by (cases ty) auto
qed (auto split: arrow_type.splits)

definition column_json :: "table_column \<Rightarrow> json" where
  "column_json c =
     JArray [JString (f_name (col_field c)), type_json (f_type (col_field c)), JArray (map value_json (col_values c))]"

fun json_column :: "json \<Rightarrow> table_column" where
  "json_column (JArray [JString name, ty, JArray vs]) =
     \<lparr>col_field = field name (json_type ty), col_chunks = [map json_value vs]\<rparr>"
| "json_column _ = \<lparr>col_field = field [] T_NA, col_chunks = []\<rparr>"

definition sample_parquet :: parquet where
  "sample_parquet =
     \<lparr>pq_read = (\<lambda>data. Option.bind (sample_parse data) (\<lambda>v. map_option (map json_column) (as_array v))),
      pq_write = (\<lambda>t n. sample_write (JArray (map column_json t)))\<rparr>"

lemma sample_write_nonempty: "sample_write (JArray vs) \<noteq> []"
  by simp

lemma sample_parquet_ok: "parquet_ok sample_parquet"
  unfolding parquet_ok_def
proof (intro allI impI conjI)
  fix t and n :: nat
  assume t: "table_ok t"
  show "pq_write sample_parquet t n \<noteq> []"
    unfolding sample_parquet_def by (simp add: sample_write_nonempty del: sample_write.simps)
  have "same_column c (json_column (column_json c))" if c: "c \<in> set t" for c
  proof -
    from t c have b: "builder_type (f_type (col_field c))"
      and v: "\<And>v. v \<in> set (col_values c) \<Longrightarrow> has_type v (f_type (col_field c))"
      by (auto simp: table_ok_def)
    have "map json_value (map value_json (col_values c)) = col_values c"
      using json_value [OF b v] by (auto intro: map_idI)
    then show ?thesis
      using json_type [OF b]
      by (simp add: same_column_def column_json_def col_values_def)
  qed
  then have "list_all2 same_column t (map (\<lambda>c. json_column (column_json c)) t)"
    by (simp add: list_all2_conv_all_nth)
  then show "\<exists>t'. pq_read sample_parquet (pq_write sample_parquet t n) = Some t' \<and> list_all2 same_column t t'"
    unfolding sample_parquet_def by (simp add: sample_parse comp_def del: sample_write.simps)
qed

section \<open>A checkpoint is read back as it was written\<close>

text \<open>The contents LakeVilla writes: JSON texts as the writer gives them, with the members of the
  columns only; paths without NUL, sizes and times known.\<close>

definition canonical_text :: "sys \<Rightarrow> arrow_type \<Rightarrow> string \<Rightarrow> bool" where
  "canonical_text sy ty text \<longleftrightarrow> (\<exists>v. json_ok v \<and> is_object v \<and> fits ty v \<and> text = sy_write sy v)"

definition no_nul :: "string \<Rightarrow> bool" where "no_nul s \<longleftrightarrow> CHR 0x00 \<notin> set s"

definition canonical_content :: "sys \<Rightarrow> checkpoint_content \<Rightarrow> bool" where
  "canonical_content sy content \<longleftrightarrow>
     canonical_text sy (T_STRUCT protocol_fields) (cc_protocol content) \<and>
     canonical_text sy (T_STRUCT metadata_fields) (cc_metadata content) \<and> cc_unsupported content = [] \<and>
     (\<forall>e \<in> set (cc_adds content). no_nul (ce_path e) \<and> no_nul (ce_stats e) \<and> 0 \<le> ce_size e \<and>
        0 \<le> ce_modification_time e \<and> canonical_text sy string_map (ce_partition_values e) \<and>
        (ce_tags e = [] \<or> canonical_text sy string_map (ce_tags e))) \<and>
     (\<forall>r \<in> set (cc_removes content). no_nul (cr_path r) \<and>
        (if cr_size r < 0 then cr_size r = -1 \<and> cr_partition_values r = []
         else canonical_text sy string_map (cr_partition_values r))) \<and>
     (\<forall>t \<in> set (cc_txns content). no_nul (txn_app_id t) \<and> -1 \<le> txn_last_updated t) \<and>
     (\<forall>d \<in> set (cc_domains content). no_nul (cd_domain d) \<and> no_nul (cd_configuration d))"

lemma canonical_parsed:
  assumes "json_codec (sy_parse sy) (sy_write sy)" "canonical_text sy ty text"
  obtains v where "parse_object sy text = Some v" "is_object v"
    "sy_write sy (arrow_to_json (append_json (sy_write sy) ty (Some v))) = text" "text \<noteq> []"
proof -
  from assms(2) obtain v where v: "json_ok v" "is_object v" "fits ty v" "text = sy_write sy v"
    by (auto simp: canonical_text_def)
  note w = json_codecD [OF assms(1) v(1)]
  from v(2) w have "parse_object sy text = Some v" "text \<noteq> []" by (auto simp: parse_object_def v(4) c_str_id)
  with v(2,4) append_json_fits [OF v(3), of "sy_write sy"] that show ?thesis by simp
qed

lemma canonical_object:
  assumes "json_codec (sy_parse sy) (sy_write sy)" "canonical_text sy string_map text"
  shows "json_object sy text \<noteq> None" "stored_object sy text = text"
  by (rule canonical_parsed [OF assms], simp add: json_object_def)
     (rule canonical_parsed [OF assms], simp add: stored_object_def json_object_def)

lemma canonical_action:
  assumes "json_codec (sy_parse sy) (sy_write sy)" "canonical_text sy (T_STRUCT fs) text"
  shows "add_action_row sy a text \<noteq> None" "stored_action sy fs text = text"
  by (rule canonical_parsed [OF assms], simp add: add_action_row_def)
     (rule canonical_parsed [OF assms], simp add: stored_action_def)

lemma those_not_None: "(\<And>x. x \<in> set xs \<Longrightarrow> f x \<noteq> None) \<Longrightarrow> those (map f xs) \<noteq> None"
proof (induction xs)
  case (Cons x xs)
  from Cons.prems [of x] obtain y where "f x = Some y" by auto
  moreover from Cons obtain ys where "those (map f xs) = Some ys" by fastforce
  ultimately show ?case by simp
qed simp

lemma canonical_generated:
  assumes "json_codec (sy_parse sy) (sy_write sy)" "canonical_content sy content"
  obtains bytes where "generateCheckpoint sy pq content now = Some bytes"
proof -
  have "remove_row sy r \<noteq> None" if "r \<in> set (cc_removes content)" for r
    using assms(2) that canonical_object(1) [OF assms(1)]
    by (auto simp: canonical_content_def remove_row_def Let_def)
  moreover have "add_row sy now e \<noteq> None" if "e \<in> set (cc_adds content)" for e
    using assms(2) that canonical_object(1) [OF assms(1)]
    by (fastforce simp: canonical_content_def add_row_def split: option.splits)
  moreover have "add_action_row sy ''protocol'' (cc_protocol content) \<noteq> None"
    "add_action_row sy ''metaData'' (cc_metadata content) \<noteq> None"
    using assms(2) canonical_action(1) [OF assms(1)] by (auto simp: canonical_content_def)
  ultimately have "checkpoint_rows sy content now \<noteq> None"
    using those_not_None [of "cc_removes content" "remove_row sy"] those_not_None [of "cc_adds content" "add_row sy now"]
    by (auto simp: checkpoint_rows_def split: option.splits)
  with that show ?thesis by (auto simp: generateCheckpoint_def)
qed

lemma canonical_stored:
  assumes "json_codec (sy_parse sy) (sy_write sy)" "canonical_content sy content"
  shows "stored_content sy now content = content"
proof -
  have add: "map (stored_add sy now) (cc_adds content) = cc_adds content"
    using assms(2) canonical_object(2) [OF assms(1)]
    by (intro map_idI) (auto simp: canonical_content_def stored_add_def no_nul_def c_str_id)
  have remove: "map (stored_remove sy) (cc_removes content) = cc_removes content"
    using assms(2) canonical_object(2) [OF assms(1)]
    by (intro map_idI) (auto simp: canonical_content_def stored_remove_def no_nul_def c_str_id split: if_splits)
  have txn: "map stored_txn (cc_txns content) = cc_txns content"
    using assms(2) by (intro map_idI) (force simp: canonical_content_def stored_txn_def no_nul_def c_str_id)
  have "map stored_domain (cc_domains content) = cc_domains content"
    using assms(2) by (intro map_idI) (auto simp: canonical_content_def stored_domain_def no_nul_def c_str_id)
  with add remove txn assms(2) canonical_action(2) [OF assms(1)] show ?thesis
    by (simp add: stored_content_def canonical_content_def)
qed

text \<open>A checkpoint file of LakeVilla describes exactly the snapshot it was generated from: for every
  content with the JSON texts LakeVilla keeps, the generated Parquet file can be read, and reading gives
  the same adds, removes, transactions, domains, protocol and metadata.\<close>

lemma checkpoint_roundtrip:
  assumes "json_codec (sy_parse sy) (sy_write sy)" "parquet_ok pq"
    and "canonical_content sy content" "content_ok content" "in_int64 now"
  shows "\<exists>bytes. generateCheckpoint sy pq content now = Some bytes \<and>
           readDLCheckpointContent sy pq bytes = Some content"
proof -
  obtain bytes where gen: "generateCheckpoint sy pq content now = Some bytes"
    using canonical_generated [OF assms(1,3)] .
  from generated_read [OF assms(2,4,5) gen] canonical_stored [OF assms(1,3)] gen show ?thesis by simp
qed

definition demo_content :: checkpoint_content where
  "demo_content =
     \<lparr>cc_adds = [\<lparr>ce_path = ''a.parquet'', ce_stats = [], ce_size = 10, ce_modification_time = 3,
                 ce_partition_values = sample_write (JObject []), ce_tags = []\<rparr>],
      cc_removes = [\<lparr>cr_path = ''b.parquet'', cr_deletion_timestamp = 2, cr_size = -1,
                    cr_partition_values = []\<rparr>],
      cc_txns = [], cc_domains = [\<lparr>cd_domain = ''d'', cd_configuration = ''c''\<rparr>],
      cc_protocol = sample_write (JObject [(''minReaderVersion'', JInt 1), (''minWriterVersion'', JInt 2)]),
      cc_metadata = sample_write (JObject [(''id'', JString ''x'')]), cc_unsupported = []\<rparr>"

lemma demo_content_ok: "content_ok demo_content" "canonical_content demo_sys demo_content"
proof -
  show "content_ok demo_content" by (simp add: content_ok_def demo_content_def in_int64_def)
  have "canonical_text demo_sys (T_STRUCT protocol_fields)
      (sample_write (JObject [(''minReaderVersion'', JInt 1), (''minWriterVersion'', JInt 2)]))"
    unfolding canonical_text_def demo_sys_def
    by (intro exI [of _ "JObject [(''minReaderVersion'', JInt 1), (''minWriterVersion'', JInt 2)]"])
       (simp add: fits.simps protocol_fields_def in_int32_def c_str_def)
  moreover have "canonical_text demo_sys (T_STRUCT metadata_fields) (sample_write (JObject [(''id'', JString ''x'')]))"
    unfolding canonical_text_def demo_sys_def
    by (intro exI [of _ "JObject [(''id'', JString ''x'')]"])
       (simp add: fits.simps metadata_fields_def c_str_def)
  moreover have "canonical_text demo_sys string_map (sample_write (JObject []))"
    unfolding canonical_text_def demo_sys_def
    by (intro exI [of _ "JObject []"]) (simp add: fits.simps string_map_def map_type_def)
  ultimately show "canonical_content demo_sys demo_content"
    unfolding canonical_content_def by (simp add: demo_content_def no_nul_def)
qed

lemma checkpoint_roundtrip_witness:
  "\<exists>bytes. generateCheckpoint demo_sys sample_parquet demo_content 5 = Some bytes \<and>
     readDLCheckpointContent demo_sys sample_parquet bytes = Some demo_content"
  by (rule checkpoint_roundtrip) (simp_all add: demo_content_ok sample_parquet_ok demo_codec in_int64_def)

text \<open>A JSON value with the members of a column's type survives the column: converting it to an
  Arrow element and back gives the same value (null values inside lists and maps included).\<close>

lemma append_json_inverse:
  assumes "fits ty v"
  shows "arrow_to_json (append_json write ty (Some v)) = v"
  using assms by (rule append_json_fits)

lemma append_json_inverse_witness:
  "arrow_to_json (append_json sample_write (list_of string_map)
       (Some (JArray [JNull, JObject [(''k'', JNull), (''l'', JString ''x'')]])))
     = JArray [JNull, JObject [(''k'', JNull), (''l'', JString ''x'')]]"
  by (rule append_json_inverse) (simp add: fits.simps list_of_def string_map_def map_type_def)

end
