(* ===== verification/LogNames.thy ===== *)
theory LogNames
  imports ObjectStore "HOL-Library.Product_Lexorder"
begin

text \<open>
  The free functions of \<open>ManagerDeltaLake.cpp\<close> about the objects of a Delta log: names of log
  files, versions and checkpoints in a listing, the table properties that control checkpoints,
  and the split of a range of versions over threads.
\<close>

text \<open>std::stoull throws when there are no digits or the number does not fit.\<close>

datatype cxx_exception = Out_of_range | Invalid_argument

definition stoull :: "string \<Rightarrow> cxx_exception + nat" where
  "stoull s =
     (let (neg, r) = sign_of (dropWhile is_space s)
      in if takeWhile is_digit r = [] then Inl Invalid_argument
         else case stoul s of None \<Rightarrow> Inl Out_of_range | Some v \<Rightarrow> Inr v)"

definition log_dir :: string where "log_dir = ''_delta_log/''"

definition log_file_name :: "nat \<Rightarrow> string \<Rightarrow> string" where
  "log_file_name version suffix =
     (let i = dec version;
          name = (if length i < 20 then replicate (20 - length i) CHR ''0'' else '''')
      in name @ i @ suffix)"

text \<open>\<open>name.compare(pos, n, text) == 0\<close> for a position inside the string.\<close>

definition has_at :: "nat \<Rightarrow> string \<Rightarrow> string \<Rightarrow> bool" where
  "has_at pos text s \<longleftrightarrow> take (length text) (drop pos s) = text"

definition all_digits :: "string \<Rightarrow> nat \<Rightarrow> nat \<Rightarrow> bool" where
  "all_digits s pos count \<longleftrightarrow> list_all is_digit (take count (drop pos s))"

definition parse_log_version :: "string \<Rightarrow> cxx_exception + nat option" where
  "parse_log_version key =
     (case rfind_sub log_dir key of
        None \<Rightarrow> Inr None
      | Some dir_pos \<Rightarrow>
          (let name = drop (dir_pos + length log_dir) key
           in if length name \<noteq> 25 \<or> \<not> has_at 20 ''.json'' name then Inr None
              else if \<not> all_digits name 0 20 then Inr None
              else map_sum id Some (stoull (take 20 name))))"

section \<open>The newest complete checkpoint of a listing\<close>

record checkpoint_info =
  ci_version :: "nat option"
  ci_parts :: nat

definition no_checkpoint :: checkpoint_info where
  "no_checkpoint = \<lparr>ci_version = None, ci_parts = 1\<rparr>"

definition single_suffix :: string where "single_suffix = ''.checkpoint.parquet''"

type_synonym found_parts = "((nat \<times> nat) \<times> nat) list"

definition count_part :: "nat \<times> nat \<Rightarrow> found_parts \<Rightarrow> found_parts" where
  "count_part k found =
     smap_put k (u32 (case map_of found k of Some n \<Rightarrow> n + 1 | None \<Rightarrow> 1)) found"

text \<open>The body of the loop over the objects: first the text after the version, then the whole
  name.  The part count is stored as a uint32_t.\<close>

definition checkpoint_suffix :: "nat \<Rightarrow> string \<Rightarrow> found_parts \<Rightarrow> found_parts" where
  "checkpoint_suffix version suffix found =
     (if suffix = single_suffix then smap_put (version, 1) 1 found
      else if length suffix \<noteq> 41 \<or> \<not> has_at 0 ''.checkpoint.'' suffix
              \<or> \<not> all_digits suffix 12 10 \<or> suffix ! 22 \<noteq> CHR ''.''
              \<or> \<not> all_digits suffix 23 10 \<or> \<not> has_at 33 ''.parquet'' suffix
      then found
      else let part = undec (take 10 (drop 12 suffix));
               parts = undec (take 10 (drop 23 suffix))
           in if 2 \<le> parts \<and> 1 \<le> part \<and> part \<le> parts
              then count_part (version, u32 parts) found else found)"

definition checkpoint_object ::
    "nat \<Rightarrow> object_info \<Rightarrow> found_parts \<Rightarrow> cxx_exception + found_parts" where
  "checkpoint_object max_version ob found =
     (case rfind_sub log_dir (oi_key ob) of
        None \<Rightarrow> Inr found
      | Some dir_pos \<Rightarrow>
          (let name = drop (dir_pos + length log_dir) (oi_key ob)
           in if length name < 20 \<or> \<not> all_digits name 0 20 then Inr found
              else case stoull (take 20 name) of
                     Inl e \<Rightarrow> Inl e
                   | Inr version \<Rightarrow>
                       Inr (if max_version < version then found
                            else checkpoint_suffix version (drop 20 name) found)))"

fun checkpoint_objects ::
    "nat \<Rightarrow> object_info list \<Rightarrow> found_parts \<Rightarrow> cxx_exception + found_parts" where
  "checkpoint_objects mx [] found = Inr found"
| "checkpoint_objects mx (ob # obs) found =
     (case checkpoint_object mx ob found of
        Inl e \<Rightarrow> Inl e | Inr found \<Rightarrow> checkpoint_objects mx obs found)"

definition newest_found :: "found_parts \<Rightarrow> checkpoint_info" where
  "newest_found found =
     fold (\<lambda>((version, parts), count) newest.
             if count = parts \<and> (case ci_version newest of None \<Rightarrow> True | Some v \<Rightarrow> v < version)
             then newest\<lparr>ci_version := Some version, ci_parts := parts\<rparr> else newest)
       found no_checkpoint"

definition newest_checkpoint :: "object_info list \<Rightarrow> nat \<Rightarrow> cxx_exception + checkpoint_info" where
  "newest_checkpoint objs max_version =
     map_sum id newest_found (checkpoint_objects max_version objs [])"

section \<open>Table properties\<close>

definition table_property :: "json_parser \<Rightarrow> string \<Rightarrow> string \<Rightarrow> string option" where
  "table_property parse metadata key =
     Option.bind (parse (c_str metadata)) (\<lambda>doc.
     Option.bind (member_object ''configuration'' doc) (\<lambda>configuration.
     map_option c_str (member_string key configuration)))"

text \<open>Floating-point arithmetic on values of type \<open>'d\<close>: \<open>strtod\<close> with the number of
  characters it read, literals \<open>m * 10 ^ e\<close>, the test \<open>< 0\<close>, the operations and the
  conversion to int64_t.\<close>

record 'd float_unit =
  fu_strtod :: "string \<Rightarrow> 'd \<times> nat"
  fu_lit :: "int \<Rightarrow> int \<Rightarrow> 'd"
  fu_negative :: "'d \<Rightarrow> bool"
  fu_add :: "'d \<Rightarrow> 'd \<Rightarrow> 'd"
  fu_mult :: "'d \<Rightarrow> 'd \<Rightarrow> 'd"
  fu_int64 :: "'d \<Rightarrow> int"

fun words_acc :: "string \<Rightarrow> string \<Rightarrow> string list" where
  "words_acc acc [] = (if acc = [] then [] else [rev acc])"
| "words_acc acc (c # s) =
     (if is_space c then (if acc = [] then words_acc [] s else rev acc # words_acc [] s)
      else words_acc (c # acc) s)"

definition words_of :: "string \<Rightarrow> string list" where "words_of s = words_acc [] s"

definition interval_units :: "'d float_unit \<Rightarrow> (string \<times> 'd) list" where
  "interval_units fu =
     [(''week'', fu_lit fu 604800000 0), (''day'', fu_lit fu 86400000 0),
      (''hour'', fu_lit fu 3600000 0), (''minute'', fu_lit fu 60000 0),
      (''second'', fu_lit fu 1000 0), (''millisecond'', fu_lit fu 1 0),
      (''microsecond'', fu_lit fu 1 (-3))]"

fun interval_total :: "'d float_unit \<Rightarrow> 'd \<Rightarrow> string list \<Rightarrow> 'd option" where
  "interval_total fu acc (w # u # ws) =
     (let (amount, used) = fu_strtod fu w
      in if used = 0 \<or> used \<noteq> length w \<or> fu_negative fu amount then None
         else let u = (if 1 < length u \<and> last u = CHR ''s'' then butlast u else u)
              in case map_of (interval_units fu) u of
                   None \<Rightarrow> None
                 | Some f \<Rightarrow> interval_total fu (fu_add fu acc (fu_mult fu amount f)) ws)"
| "interval_total fu acc _ = Some acc"

definition parse_interval_ms :: "'d float_unit \<Rightarrow> string \<Rightarrow> int option" where
  "parse_interval_ms fu text =
     (let ws = map lower (words_of text);
          ws' = (if ws \<noteq> [] \<and> hd ws = ''interval'' then tl ws else ws)
      in if ws' = [] \<or> odd (length ws') then None
         else map_option (fu_int64 fu) (interval_total fu (fu_lit fu 0 0) ws'))"

text \<open>\<open>strtoul\<close> with the number of characters read: it saturates instead of throwing.\<close>

definition strtoul :: "string \<Rightarrow> nat \<times> nat" where
  "strtoul s =
     (let (neg, r) = sign_of (dropWhile is_space s);
          ds = takeWhile is_digit r; v = undec ds
      in if ds = [] then (0, 0)
         else (if 2 ^ 64 \<le> v then 2 ^ 64 - 1 else if neg then u64 (2 ^ 64 - v) else v,
               length s - length r + length ds))"

definition checkpoint_interval :: "json_parser \<Rightarrow> string \<Rightarrow> nat" where
  "checkpoint_interval parse metadata =
     (case table_property parse metadata ''delta.checkpointInterval'' of
        None \<Rightarrow> 10
      | Some text \<Rightarrow>
          (let (interval, used) = strtoul text
           in if used \<noteq> 0 \<and> used = length text \<and> 0 < interval \<and> interval \<le> u32_max
              then interval else 10))"

definition one_week :: int where "one_week = 7 * 24 * 3600 * 1000"

definition tombstone_retention_ms :: "'d float_unit \<Rightarrow> json_parser \<Rightarrow> string \<Rightarrow> int" where
  "tombstone_retention_ms fu parse metadata =
     (case table_property parse metadata ''delta.deletedFileRetentionDuration'' of
        None \<Rightarrow> one_week
      | Some text \<Rightarrow> (case parse_interval_ms fu text of None \<Rightarrow> one_week | Some r \<Rightarrow> r))"

section \<open>Protocols LakeVilla can checkpoint\<close>

definition reader_features :: "string list" where
  "reader_features =
     [''columnMapping'', ''timestampNtz'', ''typeWidening'', ''typeWidening-preview'',
      ''vacuumProtocolCheck'']"

definition writer_features :: "string list" where
  "writer_features =
     [''appendOnly'', ''invariants'', ''checkConstraints'', ''changeDataFeed'',
      ''generatedColumns'', ''columnMapping'', ''identityColumns'', ''timestampNtz'',
      ''domainMetadata'', ''icebergCompatV1'', ''icebergCompatV2'', ''typeWidening'',
      ''typeWidening-preview'', ''vacuumProtocolCheck'', ''allowColumnDefaults'']"

definition feature_text :: "json \<Rightarrow> string" where
  "feature_text v = (case as_string v of Some s \<Rightarrow> c_str s | None \<Rightarrow> ''?'')"

definition known_feature :: "string list \<Rightarrow> json \<Rightarrow> bool" where
  "known_feature known v \<longleftrightarrow> (case as_string v of Some s \<Rightarrow> c_str s \<in> set known | None \<Rightarrow> False)"

definition check_features :: "json \<Rightarrow> string \<Rightarrow> string list \<Rightarrow> string \<Rightarrow> string" where
  "check_features doc name known kind =
     (case Option.bind (find_member name doc) as_array of
        None \<Rightarrow> ''''
      | Some features \<Rightarrow>
          (case find (\<lambda>f. \<not> known_feature known f) features of
             None \<Rightarrow> ''''
           | Some f \<Rightarrow> kind @ '' feature '' @ feature_text f))"

definition checkpoint_blocker :: "json_parser \<Rightarrow> string \<Rightarrow> string" where
  "checkpoint_blocker parse protocol =
     (case parse (c_str protocol) of
        None \<Rightarrow> ''an unreadable protocol''
      | Some doc \<Rightarrow>
          if \<not> is_object doc then ''an unreadable protocol''
          else (let version = (\<lambda>name. case Option.bind (find_member name doc) as_int of
                                        Some v \<Rightarrow> v | None \<Rightarrow> 1)
                in if 3 < version ''minReaderVersion'' \<or> 7 < version ''minWriterVersion''
                   then ''an unknown protocol version''
                   else (let reader = check_features doc ''readerFeatures'' reader_features ''the reader''
                         in if reader = []
                            then check_features doc ''writerFeatures'' writer_features ''the writer''
                            else reader)))"

section \<open>Splitting a range of versions\<close>

function split_from :: "nat \<Rightarrow> nat \<Rightarrow> nat \<Rightarrow> nat \<Rightarrow> nat \<Rightarrow> (nat \<times> nat) list" where
  "split_from step rest parts i start =
     (if parts \<le> i then []
      else let stop = start + step + (if i < rest then 1 else 0)
           in (start, stop) # split_from step rest parts (i + 1) stop)"
  by auto
termination by (relation "measure (\<lambda>(step, rest, parts, i, start). parts - i)") auto

declare split_from.simps [simp del]

definition split_range :: "nat \<Rightarrow> nat \<Rightarrow> nat \<Rightarrow> (nat \<times> nat) list" where
  "split_range b e parts =
     (if e \<le> b then []
      else let count = e - b;
               parts = max 1 (min parts count)
           in split_from (count div parts) (count mod parts) parts 0 b)"

lemma split_from_step:
  "i < parts \<Longrightarrow> split_from step rest parts i start =
     (start, start + step + (if i < rest then 1 else 0))
     # split_from step rest parts (Suc i) (start + step + (if i < rest then 1 else 0))"
  by (subst split_from.simps) (simp add: Let_def)

lemma split_from_end: "parts \<le> i \<Longrightarrow> split_from step rest parts i start = []"
  by (subst split_from.simps) simp

lemma split_from_length: "length (split_from step rest parts i start) = parts - i"
proof (induction "parts - i" arbitrary: i start)
  case 0
  then show ?case by (simp add: split_from_end)
next
  case (Suc k)
  from Suc(2) have "k = parts - Suc i" "i < parts" by simp_all
  with Suc(1) [of "Suc i"] show ?case by (simp add: split_from_step)
qed

lemma split_from_concat:
  "i \<le> parts \<Longrightarrow> rest \<le> parts \<Longrightarrow>
   concat (map (\<lambda>(a, z). [a..<z]) (split_from step rest parts i start))
     = [start..<start + step * (parts - i) + (rest - i)]"
proof (induction "parts - i" arbitrary: i start)
  case 0
  then show ?case by (simp add: split_from_end)
next
  case (Suc k)
  let ?stop = "start + step + (if i < rest then 1 else 0)"
  from Suc have k: "k = parts - Suc i" "i < parts" by simp_all
  have e: "?stop + step * (parts - Suc i) + (rest - Suc i) = start + step * (parts - i) + (rest - i)"
  proof -
    have "step * (parts - i) = step + step * (parts - Suc i)"
      using k(2) by (metis Suc_diff_Suc mult_Suc_right)
    then show ?thesis by auto
  qed
  have "concat (map (\<lambda>(a, z). [a..<z]) (split_from step rest parts i start))
      = [start..<?stop] @ [?stop..<?stop + step * (parts - Suc i) + (rest - Suc i)]"
    using Suc(1) [OF k(1), of ?stop] k(2) Suc.prems by (simp add: split_from_step)
  also have "\<dots> = [start..<?stop + step * (parts - Suc i) + (rest - Suc i)]"
    by (metis add.assoc le_add1 upt_add_eq_append le_add_diff_inverse)
  finally show ?case by (simp only: e)
qed

lemma split_from_sizes:
  "list_all (\<lambda>(a, z). z = a + step \<or> z = a + step + 1) (split_from step rest parts i start)"
proof (induction "parts - i" arbitrary: i start)
  case 0
  then show ?case by (simp add: split_from_end)
next
  case (Suc k)
  from Suc(2) have "k = parts - Suc i" "i < parts" by simp_all
  with Suc(1) [of "Suc i"] show ?case by (simp add: split_from_step)
qed

text \<open>The ranges of versions given to the parser threads are a partition of the whole range
  in order: no version is parsed twice or left out, there are as many ranges as threads asked for
  (at least one, at most one per version), and their sizes differ by at most one.\<close>

lemma split_range_partition:
  "concat (map (\<lambda>(a, z). [a..<z]) (split_range b e parts)) = [b..<e]
   \<and> length (split_range b e parts) = (if e \<le> b then 0 else max 1 (min parts (e - b)))
   \<and> list_all (\<lambda>(a, z). z - a = (e - b) div max 1 (min parts (e - b))
                       \<or> z - a = (e - b) div max 1 (min parts (e - b)) + 1) (split_range b e parts)"
proof (cases "e \<le> b")
  case True
  then show ?thesis by (simp add: split_range_def)
next
  case False
  define n where "n = max 1 (min parts (e - b))"
  define q where "q = (e - b) div n"
  define r where "r = (e - b) mod n"
  have sr: "split_range b e parts = split_from q r n 0 b"
    using False by (simp add: split_range_def n_def q_def r_def Let_def)
  have n: "0 < n" by (simp add: n_def)
  then have r: "r \<le> n" by (simp add: r_def less_imp_le)
  have "q * n + r = e - b" unfolding q_def r_def by (rule div_mult_mod_eq)
  then have e: "b + q * n + r = e" using False by simp
  have "concat (map (\<lambda>(a, z). [a..<z]) (split_range b e parts)) = [b..<e]"
    using split_from_concat [of 0 n r q b] r e by (simp add: sr)
  moreover have "length (split_range b e parts) = n" by (simp add: sr split_from_length)
  moreover have "list_all (\<lambda>(a, z). z - a = q \<or> z - a = q + 1) (split_range b e parts)"
    unfolding sr using split_from_sizes [of q r n 0 b] by (rule list.pred_mono_strong) auto
  ultimately show ?thesis using False unfolding q_def n_def by simp
qed

section \<open>Names of log files\<close>

definition pad20 :: "nat \<Rightarrow> string" where "pad20 v = log_file_name v []"

lemma log_file_name_pad: "log_file_name v suffix = pad20 v @ suffix"
  by (simp add: pad20_def log_file_name_def Let_def)

lemma digit_of_val: "is_digit c \<Longrightarrow> digits ! digit_val c = c \<and> digit_val c < 10"
  by (auto simp: is_digit_def digits_def digit_val_def)

lemma pad_dec_undec:
  "list_all is_digit s \<Longrightarrow> s \<noteq> [] \<Longrightarrow>
   replicate (length s - length (dec (undec s))) CHR ''0'' @ dec (undec s) = s"
proof (induction s rule: rev_induct)
  case (snoc c s)
  then have c: "digits ! digit_val c = c" "digit_val c < 10" using digit_of_val by auto
  show ?case
  proof (cases "s = []")
    case True
    with c show ?thesis by (subst dec.simps, subst (2) dec.simps) (simp add: undec_def)
  next
    case False
    with snoc have IH: "replicate (length s - length (dec (undec s))) CHR ''0'' @ dec (undec s) = s"
      by simp
    show ?thesis
    proof (cases "undec s = 0")
      case True
      have "dec 0 = ''0''" by (subst dec.simps) (simp add: digits_def)
      with IH True False have "s = replicate (length s) CHR ''0''"
        by (metis One_nat_def Suc_diff_1 length_0_conv length_greater_0_conv list.size(3) list.size(4)
            plus_1_eq_Suc replicate_append_same replicate_Suc add.commute)
      moreover have "dec (undec (s @ [c])) = [c]"
        using True c by (subst dec.simps) (simp add: undec_append)
      ultimately show ?thesis by simp
    next
      case False
      have "dec (undec (s @ [c])) = dec (undec s) @ [c]"
        using False c by (subst dec.simps) (simp add: undec_append)
      with IH show ?thesis by simp
    qed
  qed
qed simp

lemma length_dec_20: "v < 2 ^ 64 \<Longrightarrow> length (dec v) \<le> 20"
  by (rule dec_length) simp_all

lemma pad20_conv: "pad20 v = replicate (20 - length (dec v)) CHR ''0'' @ dec v"
  by (simp add: pad20_def log_file_name_def Let_def)

lemma pad20_props:
  assumes "v < 2 ^ 64"
  shows "length (pad20 v) = 20" "list_all is_digit (pad20 v)" "undec (pad20 v) = v"
proof -
  show "length (pad20 v) = 20" using length_dec_20 [OF assms] by (simp add: pad20_conv)
  have "list_all is_digit (replicate n CHR ''0'')" for n
    by (induction n) (simp_all add: is_digit_def digits_def)
  then show "list_all is_digit (pad20 v)" by (simp add: pad20_conv dec_digits)
  show "undec (pad20 v) = v" by (simp add: pad20_conv)
qed

lemma pad20_undec: "list_all is_digit s \<Longrightarrow> length s = 20 \<Longrightarrow> pad20 (undec s) = s"
  using pad_dec_undec [of s] by (cases "s = []") (simp_all add: pad20_conv)

lemma stoull_digits:
  "list_all is_digit s \<Longrightarrow> s \<noteq> [] \<Longrightarrow>
   stoull s = (if undec s < 2 ^ 64 then Inr (undec s) else Inl Out_of_range)"
  by (simp add: stoull_def sign_of_digits takeWhile_digits stoul_def stoul_used_def)

lemma rfind_none: "CHR ''_'' \<notin> set s \<Longrightarrow> rfind_sub log_dir s = None"
  by (induction s) (auto simp: log_dir_def starts_with_def)

lemma rfind_log_dir: "CHR ''_'' \<notin> set n \<Longrightarrow> rfind_sub log_dir (t @ log_dir @ n) = Some (length t)"
proof -
  assume "CHR ''_'' \<notin> set n"
  note none = rfind_none [OF this]
  have "rfind_sub log_dir (log_dir @ n) = Some 0"
    using none by (simp add: log_dir_def starts_with_def)
  then show ?thesis by (simp add: rfind_sub_append)
qed

lemma rfind_split:
  assumes "rfind_sub log_dir key = Some i"
  shows "key = take i key @ log_dir @ drop (i + length log_dir) key"
proof -
  from rfind_sub_Some [OF assms] have "starts_with log_dir (drop i key)" by simp
  then obtain r where "drop i key = log_dir @ r" by (auto simp: starts_with_conv)
  then show ?thesis
    by (metis append_eq_conv_conj append_take_drop_id drop_drop add.commute)
qed

lemma pad20_chars: "v < 2 ^ 64 \<Longrightarrow> CHR ''_'' \<notin> set (pad20 v)"
  using pad20_props(2) [of v] by (auto simp: list_all_iff is_digit_def digits_def)

text \<open>Writing and parsing the names of log files are inverse: an object key is read as log
  version \<open>v\<close> exactly when it is, after its last \<open>_delta_log/\<close>, the name the writer gives to the
  log of version \<open>v\<close>, a 64-bit number in twenty digits.\<close>

lemma parse_log_version_iff:
  "parse_log_version key = Inr (Some v) \<longleftrightarrow>
     v < 2 ^ 64 \<and> (\<exists>t. key = t @ log_dir @ log_file_name v ''.json'')"
proof
  assume a: "parse_log_version key = Inr (Some v)"
  then obtain i where i: "rfind_sub log_dir key = Some i"
    by (auto simp: parse_log_version_def split: option.splits)
  define name where "name = drop (i + length log_dir) key"
  from a i have n: "length name = 25" "has_at 20 ''.json'' name" "all_digits name 0 20"
    "stoull (take 20 name) = Inr v"
    by (auto simp: parse_log_version_def Let_def map_sum_def name_def split: if_splits sum.splits)
  then have d: "list_all is_digit (take 20 name)" "length (take 20 name) = 20" "take 20 name \<noteq> []"
    by (auto simp: all_digits_def)
  with n(4) have v: "v = undec (take 20 name)" "v < 2 ^ 64"
    by (simp_all add: stoull_digits split: if_splits)
  have "drop 20 name = ''.json''" using n(1,2) by (simp add: has_at_def)
  then have "name = log_file_name v ''.json''"
    using pad20_undec [OF d(1,2)] v(1)
    by (metis append_take_drop_id log_file_name_pad)
  with rfind_split [OF i] v(2) show "v < 2 ^ 64 \<and> (\<exists>t. key = t @ log_dir @ log_file_name v ''.json'')"
    by (auto simp: name_def)
next
  assume "v < 2 ^ 64 \<and> (\<exists>t. key = t @ log_dir @ log_file_name v ''.json'')"
  then obtain t where v: "v < 2 ^ 64" and key: "key = t @ log_dir @ pad20 v @ ''.json''"
    by (auto simp: log_file_name_pad)
  note p = pad20_props [OF v]
  have r: "rfind_sub log_dir key = Some (length t)"
    unfolding key using pad20_chars [OF v] by (intro rfind_log_dir) simp
  have n: "drop (length t + length log_dir) key = pad20 v @ ''.json''" by (simp add: key)
  have "pad20 v \<noteq> []" using p(1) by auto
  with p v show "parse_log_version key = Inr (Some v)"
    by (simp add: parse_log_version_def r n Let_def has_at_def all_digits_def stoull_digits)
qed

end
