(* ===== verification/CheckpointNames.thy ===== *)
theory CheckpointNames
  imports LogNames
begin

text \<open>
  What \<open>newest_checkpoint\<close> finds in a listing: the names of checkpoint files and of their parts,
  the count of parts the loop keeps, and that the checkpoint chosen is complete and the newest.
\<close>

definition pad10 :: "nat \<Rightarrow> string" where
  "pad10 n = replicate (10 - length (dec n)) CHR ''0'' @ dec n"

definition checkpoint_name :: "nat \<Rightarrow> string" where
  "checkpoint_name v = log_file_name v single_suffix"

definition part_name :: "nat \<Rightarrow> nat \<Rightarrow> nat \<Rightarrow> string" where
  "part_name v p n = log_file_name v (''.checkpoint.'' @ pad10 p @ ''.'' @ pad10 n @ ''.parquet'')"

lemma digits_pad: "list_all is_digit (replicate k CHR ''0'' @ dec n)"
  using dec_digits [of n] by (induction k) (simp_all add: is_digit_def digits_def)

lemma digits_pad10: "list_all is_digit (pad10 n)" and digits_pad20: "list_all is_digit (pad20 n)"
  by (simp_all only: pad10_def pad20_conv digits_pad)

lemma undec_pad [simp]: "undec (pad10 n) = n" "undec (pad20 n) = n"
  by (simp_all add: pad10_def pad20_conv)

lemma length_pad10: "n < 2 ^ 32 \<Longrightarrow> length (pad10 n) = 10"
  using dec_length [of n 10] by (simp add: pad10_def)

lemma pad10_undec: "list_all is_digit s \<Longrightarrow> length s = 10 \<Longrightarrow> pad10 (undec s) = s"
  using pad_dec_undec [of s] by (cases "s = []") (simp_all add: pad10_def)

lemma no_underscore: "list_all is_digit s \<Longrightarrow> CHR ''_'' \<notin> set s"
  by (auto simp: list_all_iff is_digit_def digits_def)

lemma digits_split:
  assumes "list_all is_digit s" "list_all is_digit t" "\<not> is_digit c" "\<not> is_digit d"
    and "s @ c # x = t @ d # y"
  shows "s = t \<and> c # x = d # y"
proof -
  have "takeWhile is_digit (s @ c # x) = s"
    using assms(1,3) by (simp add: list_all_iff takeWhile_append2)
  moreover have "takeWhile is_digit (t @ d # y) = t"
    using assms(2,4) by (simp add: list_all_iff takeWhile_append2)
  ultimately show ?thesis using assms(5) by simp
qed

lemma dot_no_digit: "\<not> is_digit CHR ''.''" by (simp add: is_digit_def digits_def)

lemma checkpoint_name_inj: "checkpoint_name v = checkpoint_name w \<longleftrightarrow> v = w"
  by (auto simp: checkpoint_name_def log_file_name_pad dest!: arg_cong [of "pad20 v" "pad20 w" undec])

lemma part_name_inj: "part_name v p n = part_name w q m \<longleftrightarrow> v = w \<and> p = q \<and> n = m"
proof
  assume a: "part_name v p n = part_name w q m"
  let ?s = "\<lambda>p n. ''.checkpoint.'' @ pad10 p @ ''.'' @ pad10 n @ ''.parquet''"
  from a have "pad20 v = pad20 w \<and> ?s p n = ?s q m"
    using digits_split [of "pad20 v" "pad20 w" "CHR ''.''" "CHR ''.''" "tl (?s p n)" "tl (?s q m)"]
    by (simp add: part_name_def log_file_name_pad digits_pad20 dot_no_digit)
  then have v: "pad20 v = pad20 w" and "pad10 p @ CHR ''.'' # pad10 n = pad10 q @ CHR ''.'' # pad10 m"
    by simp_all
  then have "pad10 p = pad10 q \<and> CHR ''.'' # pad10 n = CHR ''.'' # pad10 m"
    using digits_split [of "pad10 p" "pad10 q" "CHR ''.''" "CHR ''.''"]
    by (simp add: digits_pad10 dot_no_digit)
  with v show "v = w \<and> p = q \<and> n = m" by (auto dest: arg_cong [of _ _ undec])
qed simp

lemma pad10_not_p: "pad10 p \<noteq> []" "hd (pad10 p @ s) \<noteq> CHR ''p''"
proof -
  show "pad10 p \<noteq> []" by (simp add: pad10_def)
  with digits_pad10 [of p] have "is_digit (hd (pad10 p @ s))" by (cases "pad10 p") auto
  then show "hd (pad10 p @ s) \<noteq> CHR ''p''" by (auto simp: is_digit_def digits_def)
qed

lemma checkpoint_not_part: "checkpoint_name v \<noteq> part_name w p n"
proof
  assume a: "checkpoint_name v = part_name w p n"
  let ?s = "''.checkpoint.'' @ pad10 p @ ''.'' @ pad10 n @ ''.parquet''"
  from a have "single_suffix = ?s"
    using digits_split [of "pad20 v" "pad20 w" "CHR ''.''" "CHR ''.''" "tl single_suffix" "tl ?s"]
    by (simp add: checkpoint_name_def part_name_def log_file_name_pad digits_pad20 dot_no_digit
        single_suffix_def)
  then have "''parquet'' = pad10 p @ ''.'' @ pad10 n @ ''.parquet''" by (simp add: single_suffix_def)
  then have "CHR ''p'' = hd (pad10 p @ ''.'' @ pad10 n @ ''.parquet'')"
    by (metis list.sel(1))
  with pad10_not_p(2) show False by metis
qed

section \<open>The body of the loop on each kind of name\<close>

abbreviation in_dir :: "string \<Rightarrow> string \<Rightarrow> string" where
  "in_dir dir name \<equiv> dir @ log_dir @ name"

lemma object_single:
  assumes "v < 2 ^ 64" "oi_key ob = in_dir dir (checkpoint_name v)"
  shows "checkpoint_object mx ob found =
    Inr (if mx < v then found else smap_put (v, 1) 1 found)"
proof -
  note p = pad20_props [OF assms(1)]
  have key: "oi_key ob = dir @ log_dir @ pad20 v @ single_suffix"
    using assms(2) by (simp add: checkpoint_name_def log_file_name_pad)
  have r: "rfind_sub log_dir (oi_key ob) = Some (length dir)"
    unfolding key using no_underscore [OF p(2)] by (intro rfind_log_dir) (simp add: single_suffix_def)
  have n: "drop (length dir + length log_dir) (oi_key ob) = pad20 v @ single_suffix" by (simp add: key)
  have "pad20 v \<noteq> []" using p(1) by auto
  with p assms(1) show ?thesis
    by (simp add: checkpoint_object_def checkpoint_suffix_def r n Let_def all_digits_def stoull_digits)
qed

lemma object_part:
  assumes "v < 2 ^ 64" "1 \<le> p" "p \<le> n" "2 \<le> n" "n < 2 ^ 32"
    and "oi_key ob = in_dir dir (part_name v p n)"
  shows "checkpoint_object mx ob found = Inr (if mx < v then found else count_part (v, n) found)"
proof -
  note w = pad20_props [OF assms(1)]
  define s where "s = ''.checkpoint.'' @ pad10 p @ ''.'' @ pad10 n @ ''.parquet''"
  have key: "oi_key ob = dir @ log_dir @ pad20 v @ s"
    using assms(6) by (simp add: part_name_def log_file_name_pad s_def)
  have r: "rfind_sub log_dir (oi_key ob) = Some (length dir)"
    unfolding key using no_underscore [OF w(2)] no_underscore [OF digits_pad10]
    by (intro rfind_log_dir) (simp add: s_def)
  have nm: "drop (length dir + length log_dir) (oi_key ob) = pad20 v @ s" by (simp add: key)
  have l: "length (pad10 p) = 10" "length (pad10 n) = 10"
    using assms(3,5) length_pad10 [of p] length_pad10 [of n] by auto
  then have t: "take 10 (drop 12 s) = pad10 p" "take 10 (drop 23 s) = pad10 n"
    by (simp_all add: s_def)
  have d: "all_digits s 12 10" "all_digits s 23 10"
    by (simp_all only: all_digits_def t digits_pad10)
  have s: "length s = 41" "has_at 0 ''.checkpoint.'' s" "s ! 22 = CHR ''.''" "has_at 33 ''.parquet'' s"
    using l by (simp_all add: s_def has_at_def nth_append)
  have ne: "s \<noteq> single_suffix"
  proof
    assume "s = single_suffix"
    with s(1) show False by (simp add: single_suffix_def)
  qed
  have "pad20 v \<noteq> []" using w(1) by auto
  moreover have "u32 n = n" using assms(5) by (simp add: u32_id)
  moreover have "all_digits (pad20 v @ s) 0 20" using w(1,2) by (simp add: all_digits_def)
  ultimately show ?thesis
    using w assms(1-4) s d t ne
    by (simp add: checkpoint_object_def checkpoint_suffix_def r nm Let_def stoull_digits)
qed

lemma has_at_take: "has_at pos t s \<Longrightarrow> length t = n \<Longrightarrow> take n (drop pos s) = t"
  by (simp add: has_at_def)

lemma take_drop_step: "drop n s = take k (drop n s) @ drop (n + k) s"
  by (metis add.commute append_take_drop_id drop_drop)

lemma object_other:
  assumes "checkpoint_object mx ob found = Inr found'" "mx < 2 ^ 64"
    and "oi_key ob = in_dir dir name" "rfind_sub log_dir (oi_key ob) = Some (length dir)"
    and "\<And>v p n. name = part_name v p n \<Longrightarrow> n < 2 ^ 32"
  shows "found' = found \<or> (\<exists>v \<le> mx. name = checkpoint_name v \<and> found' = smap_put (v, 1) 1 found)
    \<or> (\<exists>v \<le> mx. \<exists>p n. 1 \<le> p \<and> p \<le> n \<and> 2 \<le> n \<and> n < 2 ^ 32 \<and> name = part_name v p n
          \<and> found' = count_part (v, n) found)"
proof (cases "found' = found")
  case False
  have nm: "drop (length dir + length log_dir) (oi_key ob) = name" using assms(3) by simp
  let ?s = "drop 20 name"
  have e: "checkpoint_object mx ob found =
      (if length name < 20 \<or> \<not> all_digits name 0 20 then Inr found
       else case stoull (take 20 name) of
              Inl e \<Rightarrow> Inl e
            | Inr v \<Rightarrow> Inr (if mx < v then found else checkpoint_suffix v ?s found))"
    unfolding checkpoint_object_def assms(4) option.case Let_def nm by (rule refl)
  have n': "\<not> (length name < 20 \<or> \<not> all_digits name 0 20)"
  proof
    assume b: "length name < 20 \<or> \<not> all_digits name 0 20"
    from assms(1) have "Inr found' = (Inr found :: cxx_exception + found_parts)"
      unfolding e if_P [OF b] by (rule sym)
    with False show False by (simp only: sum.inject)
  qed
  from assms(1) obtain v where v: "stoull (take 20 name) = Inr v"
    and f': "found' = (if mx < v then found else checkpoint_suffix v ?s found)"
    unfolding e if_not_P [OF n'] by (cases "stoull (take 20 name)") (simp_all only: sum.case sum.distinct sum.inject)
  with False have "v \<le> mx" and f: "found' = checkpoint_suffix v ?s found"
    by (auto simp only: not_less split: if_splits)
  with n' v have n: "20 \<le> length name" "all_digits name 0 20"
    "stoull (take 20 name) = Inr v" "v \<le> mx" by (simp_all only: not_less de_Morgan_disj not_not)
  have c: "(?s = single_suffix \<and> found' = smap_put (v, 1) 1 found) \<or>
      (length ?s = 41 \<and> has_at 0 ''.checkpoint.'' ?s \<and> all_digits ?s 12 10 \<and> ?s ! 22 = CHR ''.''
        \<and> all_digits ?s 23 10 \<and> has_at 33 ''.parquet'' ?s
        \<and> 2 \<le> undec (take 10 (drop 23 ?s)) \<and> 1 \<le> undec (take 10 (drop 12 ?s))
        \<and> undec (take 10 (drop 12 ?s)) \<le> undec (take 10 (drop 23 ?s))
        \<and> found' = count_part (v, u32 (undec (take 10 (drop 23 ?s)))) found)"
    using False unfolding f checkpoint_suffix_def Let_def by presburger
  from n have "list_all is_digit (take 20 name)" "length (take 20 name) = 20" "take 20 name \<noteq> []"
    by (auto simp: all_digits_def)
  with n(3) have "v = undec (take 20 name)" by (simp add: stoull_digits split: if_splits)
  with \<open>list_all is_digit (take 20 name)\<close> \<open>length (take 20 name) = 20\<close>
  have p20: "take 20 name = pad20 v" by (simp add: pad20_undec)
  from c show ?thesis
  proof
    assume a: "?s = single_suffix \<and> found' = smap_put (v, 1) 1 found"
    then have "name = checkpoint_name v"
      using p20 by (metis append_take_drop_id checkpoint_name_def log_file_name_pad)
    with a n(4) show ?thesis by blast
  next
    assume a: "length ?s = 41 \<and> has_at 0 ''.checkpoint.'' ?s \<and> all_digits ?s 12 10 \<and> ?s ! 22 = CHR ''.''
        \<and> all_digits ?s 23 10 \<and> has_at 33 ''.parquet'' ?s
        \<and> 2 \<le> undec (take 10 (drop 23 ?s)) \<and> 1 \<le> undec (take 10 (drop 12 ?s))
        \<and> undec (take 10 (drop 12 ?s)) \<le> undec (take 10 (drop 23 ?s))
        \<and> found' = count_part (v, u32 (undec (take 10 (drop 23 ?s)))) found"
    define s where "s = ?s"
    define p where "p = undec (take 10 (drop 12 s))"
    define m where "m = undec (take 10 (drop 23 s))"
    note a = a [folded s_def, folded p_def m_def]
    from a have "pad10 p = take 10 (drop 12 s)" "pad10 m = take 10 (drop 23 s)"
      by (simp_all add: p_def m_def pad10_undec all_digits_def)
    moreover have "s = take 12 s @ take 10 (drop 12 s) @ [s ! 22] @ take 10 (drop 23 s) @ drop 33 s"
    proof -
      have "s = take 12 s @ drop 12 s" by simp
      also have "drop 12 s = take 10 (drop 12 s) @ drop 22 s"
        by (rule take_drop_step [of 12 s 10, simplified])
      also have "drop 22 s = [s ! 22] @ drop 23 s"
        using a Cons_nth_drop_Suc [of 22 s] by simp
      also have "drop 23 s = take 10 (drop 23 s) @ drop 33 s"
        by (rule take_drop_step [of 23 s 10, simplified])
      finally show ?thesis by simp
    qed
    moreover have "take 12 s = ''.checkpoint.''" "drop 33 s = ''.parquet''"
      using a has_at_take [of 0 "''.checkpoint.''" s 12] has_at_take [of 33 "''.parquet''" s 8] by simp_all
    ultimately have "s = ''.checkpoint.'' @ pad10 p @ ''.'' @ pad10 m @ ''.parquet''"
      using a by simp
    then have "name = part_name v p m"
      using p20 by (metis append_take_drop_id part_name_def log_file_name_pad s_def)
    moreover from assms(5) [OF this] have "m < 2 ^ 32" .
    ultimately show ?thesis using a n(4) by (auto simp: u32_id)
  qed
qed simp

section \<open>The parts counted are the parts listed\<close>

definition parts_listed :: "string set \<Rightarrow> nat \<Rightarrow> nat \<Rightarrow> nat set" where
  "parts_listed names v n = {p. 1 \<le> p \<and> p \<le> n \<and> part_name v p n \<in> names}"

definition expected_count :: "string set \<Rightarrow> nat \<Rightarrow> nat \<Rightarrow> nat \<Rightarrow> nat option" where
  "expected_count names mx v n =
     (if mx < v then None
      else if n = 1 then (if checkpoint_name v \<in> names then Some 1 else None)
      else if n < 2 \<or> parts_listed names v n = {} then None
      else Some (card (parts_listed names v n)))"

definition counts_ok :: "nat \<Rightarrow> string set \<Rightarrow> found_parts \<Rightarrow> bool" where
  "counts_ok mx names found \<longleftrightarrow>
     smap_ok found \<and> (\<forall>v n. map_of found (v, n) = expected_count names mx v n)"

lemma finite_parts [simp]: "finite (parts_listed names v n)"
  by (rule finite_subset [of _ "{..n}"]) (auto simp: parts_listed_def)

lemma card_parts: "card (parts_listed names v n) \<le> n"
  using card_mono [of "{1..n}" "parts_listed names v n"] by (fastforce simp: parts_listed_def)

lemma parts_insert_single [simp]: "parts_listed (insert (checkpoint_name w) names) v n = parts_listed names v n"
  using checkpoint_not_part by (auto simp: parts_listed_def) metis

lemma parts_insert_part:
  "1 \<le> p \<Longrightarrow> p \<le> m \<Longrightarrow> parts_listed (insert (part_name w p m) names) v n =
     (if v = w \<and> n = m then insert p (parts_listed names v n) else parts_listed names v n)"
  by (auto simp: parts_listed_def part_name_inj)

lemma counts_insert_single:
  assumes "counts_ok mx names found" "w \<le> mx"
  shows "counts_ok mx (insert (checkpoint_name w) names) (smap_put (w, 1) 1 found)"
  using assms by (auto simp: counts_ok_def expected_count_def checkpoint_name_inj)

lemma counts_insert_part:
  assumes "counts_ok mx names found" "w \<le> mx" "1 \<le> p" "p \<le> m" "2 \<le> m" "m < 2 ^ 32"
    and "part_name w p m \<notin> names"
  shows "counts_ok mx (insert (part_name w p m) names) (count_part (w, m) found)"
proof -
  let ?N = "insert (part_name w p m) names"
  have f: "map_of found (w, m) = expected_count names mx w m" and ok: "smap_ok found"
    using assms(1) by (auto simp: counts_ok_def)
  have p: "p \<notin> parts_listed names w m" using assms(7) by (simp add: parts_listed_def)
  have "card (parts_listed names w m) + 1 = card (parts_listed ?N w m)"
    using p assms(3,4) by (simp add: parts_insert_part)
  moreover from this have "card (parts_listed names w m) + 1 < 2 ^ 32"
    using card_parts [of ?N w m] assms(6) by simp
  ultimately have "u32 (case map_of found (w, m) of Some n \<Rightarrow> n + 1 | None \<Rightarrow> 1)
      = card (parts_listed ?N w m)"
    unfolding f using assms(2,5) by (auto simp: expected_count_def u32_id)
  then have c: "count_part (w, m) found = smap_put (w, m) (card (parts_listed ?N w m)) found"
    by (simp add: count_part_def)
  have "checkpoint_name v \<in> ?N \<longleftrightarrow> checkpoint_name v \<in> names" for v
    using checkpoint_not_part by auto
  moreover have "parts_listed ?N w m \<noteq> {}" using assms(3,4) by (simp add: parts_insert_part)
  ultimately show ?thesis
    using assms(1-6) unfolding counts_ok_def c
    by (auto simp: expected_count_def parts_insert_part)
qed

lemma counts_insert_other:
  assumes "counts_ok mx names found" "\<And>v. v \<le> mx \<Longrightarrow> name \<noteq> checkpoint_name v"
    "\<And>v p n. v \<le> mx \<Longrightarrow> 1 \<le> p \<Longrightarrow> p \<le> n \<Longrightarrow> 2 \<le> n \<Longrightarrow> name \<noteq> part_name v p n"
  shows "counts_ok mx (insert name names) found"
proof -
  have "parts_listed (insert name names) v n = parts_listed names v n" if "v \<le> mx" "2 \<le> n" for v n
    using assms(3) that by (auto simp: parts_listed_def)
  then have "expected_count (insert name names) mx v n = expected_count names mx v n" for v n
    using assms(2) [of v]
    by (cases "v \<le> mx"; cases "2 \<le> n"; cases "n = 1") (simp_all add: expected_count_def)
  with assms(1) show ?thesis by (simp add: counts_ok_def)
qed

definition log_listing :: "string \<Rightarrow> object_info list \<Rightarrow> bool" where
  "log_listing dir objs \<longleftrightarrow> distinct (map oi_key objs) \<and>
     (\<forall>ob \<in> set objs. \<exists>name. oi_key ob = in_dir dir name
        \<and> rfind_sub log_dir (oi_key ob) = Some (length dir)
        \<and> (\<forall>v p n. name = part_name v p n \<longrightarrow> n < 2 ^ 32))"

definition listed :: "string \<Rightarrow> object_info list \<Rightarrow> string set" where
  "listed dir objs = {name. in_dir dir name \<in> oi_key ` set objs}"

lemma listed_Cons: "oi_key ob = in_dir dir name \<Longrightarrow> listed dir (ob # objs) = insert name (listed dir objs)"
  by (auto simp: listed_def)

lemma object_counts:
  assumes "counts_ok mx names found" "mx < 2 ^ 64" "oi_key ob = in_dir dir name" "name \<notin> names"
    and "rfind_sub log_dir (oi_key ob) = Some (length dir)"
    and n32: "\<And>v p n. name = part_name v p n \<Longrightarrow> n < 2 ^ 32"
    and r: "checkpoint_object mx ob found = Inr found'"
  shows "counts_ok mx (insert name names) found'"
proof (cases "(\<exists>v \<le> mx. name = checkpoint_name v)
    \<or> (\<exists>v \<le> mx. \<exists>p n. 1 \<le> p \<and> p \<le> n \<and> 2 \<le> n \<and> name = part_name v p n)")
  case True
  then show ?thesis
  proof (elim disjE exE conjE)
    fix v assume v: "v \<le> mx" "name = checkpoint_name v"
    with r assms(2,3) have "found' = smap_put (v, 1) 1 found"
      using object_single [of v ob dir mx found] by simp
    with v counts_insert_single [OF assms(1)] show ?thesis by simp
  next
    fix v p n assume v: "v \<le> mx" "1 \<le> p" "p \<le> n" "2 \<le> n" "name = part_name v p n"
    with n32 have "n < 2 ^ 32" by blast
    with r assms(2,3) v have "found' = count_part (v, n) found"
      using object_part [of v p n ob dir mx found] by simp
    with v counts_insert_part [OF assms(1), of v p n] \<open>n < 2 ^ 32\<close> assms(4) show ?thesis by simp
  qed
next
  case False
  moreover have "found' = found \<or> (\<exists>v \<le> mx. name = checkpoint_name v \<and> found' = smap_put (v, 1) 1 found)
    \<or> (\<exists>v \<le> mx. \<exists>p n. 1 \<le> p \<and> p \<le> n \<and> 2 \<le> n \<and> n < 2 ^ 32 \<and> name = part_name v p n
          \<and> found' = count_part (v, n) found)"
    by (rule object_other [OF r assms(2,3,5)]) (rule n32)
  ultimately have "found' = found" by blast
  with False counts_insert_other [OF assms(1), of name] show ?thesis by blast
qed

lemma objects_counts:
  "checkpoint_objects mx objs found = Inr found' \<Longrightarrow> counts_ok mx names found \<Longrightarrow> mx < 2 ^ 64 \<Longrightarrow>
   log_listing dir objs \<Longrightarrow> listed dir objs \<inter> names = {} \<Longrightarrow>
   counts_ok mx (names \<union> listed dir objs) found'"
proof (induction objs arbitrary: found names)
  case Nil
  then show ?case by (simp add: listed_def)
next
  case (Cons ob objs)
  from Cons.prems(1) obtain f1 where f1: "checkpoint_object mx ob found = Inr f1"
    and r: "checkpoint_objects mx objs f1 = Inr found'" by (auto split: sum.splits)
  from Cons.prems(4) obtain name where name: "oi_key ob = in_dir dir name"
    "rfind_sub log_dir (oi_key ob) = Some (length dir)"
    "\<And>v p n. name = part_name v p n \<Longrightarrow> n < 2 ^ 32"
    by (fastforce simp: log_listing_def)
  have l: "listed dir (ob # objs) = insert name (listed dir objs)" by (rule listed_Cons [OF name(1)])
  with Cons.prems(5) have "name \<notin> names" by auto
  from object_counts [OF Cons.prems(2,3) name(1) this name(2,3) f1]
  have c: "counts_ok mx (insert name names) f1" .
  from Cons.prems(4) have ll: "log_listing dir objs" by (simp add: log_listing_def)
  have "name \<notin> listed dir objs"
    using Cons.prems(4) name(1) by (auto simp: log_listing_def listed_def)
  with Cons.prems(5) l have "listed dir objs \<inter> insert name names = {}" by auto
  from Cons.IH [OF r c Cons.prems(3) ll this] l show ?case by simp
qed

definition complete_checkpoint :: "string set \<Rightarrow> nat \<Rightarrow> nat \<Rightarrow> bool" where
  "complete_checkpoint names v n \<longleftrightarrow>
     (n = 1 \<and> checkpoint_name v \<in> names) \<or> (2 \<le> n \<and> (\<forall>p \<in> {1..n}. part_name v p n \<in> names))"

lemma expected_complete:
  "expected_count names mx v n = Some n \<longleftrightarrow> v \<le> mx \<and> complete_checkpoint names v n"
proof (cases "2 \<le> n")
  case True
  have sub: "parts_listed names v n \<subseteq> {1..n}" by (auto simp: parts_listed_def)
  have "card (parts_listed names v n) = n \<longleftrightarrow> parts_listed names v n = {1..n}"
  proof
    assume "card (parts_listed names v n) = n"
    with sub show "parts_listed names v n = {1..n}" by (intro card_subset_eq) simp_all
  qed simp
  moreover have "parts_listed names v n = {1..n} \<longleftrightarrow> (\<forall>p \<in> {1..n}. part_name v p n \<in> names)"
    by (auto simp: parts_listed_def)
  ultimately show ?thesis
    using True by (auto simp: expected_count_def complete_checkpoint_def)
next
  case False
  then show ?thesis by (auto simp: expected_count_def complete_checkpoint_def)
qed

definition newest_step :: "(nat \<times> nat) \<times> nat \<Rightarrow> checkpoint_info \<Rightarrow> checkpoint_info" where
  "newest_step = (\<lambda>((version, parts), count) newest.
     if count = parts \<and> (case ci_version newest of None \<Rightarrow> True | Some v \<Rightarrow> v < version)
     then newest\<lparr>ci_version := Some version, ci_parts := parts\<rparr> else newest)"

definition ci_le :: "checkpoint_info \<Rightarrow> checkpoint_info \<Rightarrow> bool" where
  "ci_le a b \<longleftrightarrow> (\<forall>v. ci_version a = Some v \<longrightarrow> (\<exists>w. ci_version b = Some w \<and> v \<le> w))"

lemma newest_step_le: "ci_le a (newest_step x a)"
  by (auto simp: ci_le_def newest_step_def split: prod.splits option.splits)

lemma newest_fold_le: "ci_le a (fold newest_step found a)"
proof (induction found arbitrary: a)
  case (Cons x found)
  from Cons [of "newest_step x a"] newest_step_le [of a x] show ?case
    by (fastforce simp: ci_le_def)
qed (simp add: ci_le_def)

lemma newest_fold_ge:
  "((v, n), n) \<in> set found \<Longrightarrow> \<exists>w. ci_version (fold newest_step found a) = Some w \<and> v \<le> w"
proof (induction found arbitrary: a)
  case (Cons x found)
  show ?case
  proof (cases "x = ((v, n), n)")
    case True
    then have "\<exists>w. ci_version (newest_step x a) = Some w \<and> v \<le> w"
      by (auto simp: newest_step_def not_less split: option.splits)
    with newest_fold_le [of "newest_step x a" found] show ?thesis by (fastforce simp: ci_le_def)
  next
    case False
    with Cons show ?thesis by simp
  qed
qed simp

lemma newest_fold_found:
  "fold newest_step found a = a \<or>
   (\<exists>v n. ((v, n), n) \<in> set found \<and> ci_version (fold newest_step found a) = Some v
      \<and> ci_parts (fold newest_step found a) = n)"
proof (induction found arbitrary: a)
  case (Cons x found)
  have "newest_step x a = a \<or> (\<exists>v n. x = ((v, n), n) \<and> ci_version (newest_step x a) = Some v
      \<and> ci_parts (newest_step x a) = n)"
    by (auto simp: newest_step_def split: prod.splits)
  with Cons [of "newest_step x a"] show ?case by fastforce
qed simp

section \<open>Properties\<close>

text \<open>C32: The checkpoint chosen from a listing of a log directory is at most the version asked for and
  complete - the single file is there, or every one of its parts is - and it is the newest
  complete checkpoint of the listing; when none is chosen there is none.\<close>

theorem newest_checkpoint_complete:
  assumes "log_listing dir objs" and "mx < 2 ^ 64" and "newest_checkpoint objs mx = Inr ci"
  shows "case ci_version ci of
      None \<Rightarrow> \<forall>v \<le> mx. \<forall>n. \<not> complete_checkpoint (listed dir objs) v n
    | Some v \<Rightarrow> v \<le> mx \<and> complete_checkpoint (listed dir objs) v (ci_parts ci)
        \<and> (\<forall>w \<le> mx. \<forall>n. complete_checkpoint (listed dir objs) w n \<longrightarrow> w \<le> v)"
proof -
  from assms(3) obtain found where f: "checkpoint_objects mx objs [] = Inr found"
    and ci: "ci = fold newest_step found no_checkpoint"
    by (auto simp: newest_checkpoint_def newest_found_def newest_step_def map_sum_def split: sum.splits)
  have "counts_ok mx {} []" by (auto simp: counts_ok_def expected_count_def parts_listed_def)
  from objects_counts [OF f this assms(2,1)] have c: "counts_ok mx (listed dir objs) found" by simp
  then have "((v, n), n) \<in> set found \<longleftrightarrow> map_of found (v, n) = Some n" for v n
    using map_of_eq_Some_iff [OF smap_ok_distinct, of found "(v, n)" n] by (simp add: counts_ok_def)
  with c have good: "((v, n), n) \<in> set found \<longleftrightarrow> v \<le> mx \<and> complete_checkpoint (listed dir objs) v n"
    for v n by (simp add: counts_ok_def expected_complete)
  note ge = newest_fold_ge [of _ _ found no_checkpoint, folded ci, unfolded good]
  show ?thesis
  proof (cases "ci_version ci")
    case None
    with ge show ?thesis by fastforce
  next
    case (Some v)
    with newest_fold_found [of found no_checkpoint] have "((v, ci_parts ci), ci_parts ci) \<in> set found"
      by (auto simp: ci no_checkpoint_def)
    with Some ge show ?thesis by (fastforce simp: good)
  qed
qed

definition demo_listing :: "object_info list" where
  "demo_listing =
     [\<lparr>oi_key = in_dir ''t/'' (checkpoint_name 10), oi_size = 7\<rparr>,
      \<lparr>oi_key = in_dir ''t/'' (part_name 20 1 2), oi_size = 7\<rparr>]"

lemma newest_checkpoint_complete_witness:
  "newest_checkpoint demo_listing 30 = Inr \<lparr>ci_version = Some 10, ci_parts = 1\<rparr>
   \<and> complete_checkpoint (listed ''t/'' demo_listing) 10 1
   \<and> \<not> complete_checkpoint (listed ''t/'' demo_listing) 20 2"
proof -
  have r: "rfind_sub log_dir (in_dir ''t/'' (checkpoint_name 10)) = Some (length ''t/'')"
    "rfind_sub log_dir (in_dir ''t/'' (part_name 20 1 2)) = Some (length ''t/'')" by code_simp+
  have ne: "checkpoint_name 10 \<noteq> part_name 20 1 2" by (rule checkpoint_not_part)
  have d: "distinct (map oi_key demo_listing)" using ne by (simp add: demo_listing_def)
  have "\<exists>name. oi_key ob = in_dir ''t/'' name \<and> rfind_sub log_dir (oi_key ob) = Some (length ''t/'')
      \<and> (\<forall>v p n. name = part_name v p n \<longrightarrow> n < 2 ^ 32)" if "ob \<in> set demo_listing" for ob
  proof -
    from that have "oi_key ob = in_dir ''t/'' (checkpoint_name 10)
        \<or> oi_key ob = in_dir ''t/'' (part_name 20 1 2)"
      unfolding demo_listing_def by (simp only: list.set) (elim insertE emptyE; simp only: object_info.simps simp_thms)
    then show ?thesis
    proof
      assume "oi_key ob = in_dir ''t/'' (checkpoint_name 10)"
      with r(1) show ?thesis
        by (intro exI [of _ "checkpoint_name 10"]) (simp only: checkpoint_not_part simp_thms)
    next
      assume "oi_key ob = in_dir ''t/'' (part_name 20 1 2)"
      with r(2) show ?thesis
        by (intro exI [of _ "part_name 20 1 2"]) (simp only: part_name_inj, simp)
    qed
  qed
  with d have "log_listing ''t/'' demo_listing" by (simp only: log_listing_def) blast
  moreover have e: "newest_checkpoint demo_listing 30 = Inr \<lparr>ci_version = Some 10, ci_parts = 1\<rparr>"
  proof -
    define a where "a = \<lparr>oi_key = in_dir ''t/'' (checkpoint_name 10), oi_size = 7\<rparr>"
    define b where "b = \<lparr>oi_key = in_dir ''t/'' (part_name 20 1 2), oi_size = 7\<rparr>"
    have "checkpoint_object 30 a [] = Inr [((10, 1), 1)]"
      using object_single [of 10 a "''t/''" 30 "[]"] by (simp add: a_def)
    moreover have "checkpoint_object 30 b [((10, 1), 1)] = Inr [((10, 1), 1), ((20, 2), 1)]"
      using object_part [of 20 1 2 b "''t/''" 30 "[((10, 1), 1)]"]
      by (simp add: b_def count_part_def u32_def)
    ultimately show ?thesis
      unfolding demo_listing_def a_def [symmetric] b_def [symmetric]
      by (simp add: newest_checkpoint_def newest_found_def no_checkpoint_def)
  qed
  ultimately have "case ci_version \<lparr>ci_version = Some 10, ci_parts = 1\<rparr> of
      None \<Rightarrow> \<forall>v \<le> 30. \<forall>n. \<not> complete_checkpoint (listed ''t/'' demo_listing) v n
    | Some v \<Rightarrow> v \<le> 30 \<and> complete_checkpoint (listed ''t/'' demo_listing) v
          (ci_parts \<lparr>ci_version = Some 10, ci_parts = 1\<rparr>)
        \<and> (\<forall>w \<le> 30. \<forall>n. complete_checkpoint (listed ''t/'' demo_listing) w n \<longrightarrow> w \<le> v)"
    by (intro newest_checkpoint_complete) simp_all
  then have "10 \<le> (30::nat) \<and> complete_checkpoint (listed ''t/'' demo_listing) 10 1
      \<and> (\<forall>w \<le> 30. \<forall>n. complete_checkpoint (listed ''t/'' demo_listing) w n \<longrightarrow> w \<le> 10)"
    unfolding checkpoint_info.simps option.case .
  then have c: "complete_checkpoint (listed ''t/'' demo_listing) 10 1"
    and n: "\<forall>w \<le> 30. \<forall>n. complete_checkpoint (listed ''t/'' demo_listing) w n \<longrightarrow> w \<le> 10" by blast+
  from n have "complete_checkpoint (listed ''t/'' demo_listing) 20 2 \<Longrightarrow> (20::nat) \<le> 10"
    by (elim allE [of _ 20]) simp
  with c e show ?thesis by auto
qed

end
