(* ===== verification/StoreEnv.thy ===== *)
theory StoreEnv
  imports StoreLaws
begin

text \<open>
  What one operation of the connector does to the objects, apart from what its hook (the other
  clients) does: nothing, or one put whose condition held.
\<close>

definition hook_step :: "hook option \<Rightarrow> mem_store \<Rightarrow> mem_store \<Rightarrow> bool" where
  "hook_step ho a z \<longleftrightarrow> (\<exists>h n op p b. ho = Some h \<and> h n op p a = (b, z))"

abbreviation env_steps :: "connector \<Rightarrow> mem_store \<Rightarrow> mem_store \<Rightarrow> bool" where
  "env_steps c \<equiv> (hook_step (fail_hook c))\<^sup>*\<^sup>*"

text \<open>Only other clients acted between \<open>c\<close> and \<open>c'\<close>.\<close>

definition quiet :: "connector \<Rightarrow> connector \<Rightarrow> bool" where
  "quiet c c' \<longleftrightarrow> same_env c c' \<and> env_steps c (mem c) (mem c')"

text \<open>Other clients acted and, once, this client replaced the object at \<open>p\<close>, which had the
  ETag \<open>e\<close>, by \<open>data\<close>; or created it, when it was absent.\<close>

definition one_match :: "string \<Rightarrow> string \<Rightarrow> string \<Rightarrow> connector \<Rightarrow> connector \<Rightarrow> bool" where
  "one_match p data e c c' \<longleftrightarrow> same_env c c' \<and>
     (\<exists>a z t. env_steps c (mem c) a \<and> put_match p data e t a = (Ok, z) \<and> env_steps c z (mem c'))"

definition one_create :: "string \<Rightarrow> string \<Rightarrow> connector \<Rightarrow> connector \<Rightarrow> bool" where
  "one_create p data c c' \<longleftrightarrow> same_env c c' \<and>
     (\<exists>a z t. env_steps c (mem c) a \<and> put_absent p data t a = (Ok, z) \<and> env_steps c z (mem c'))"

lemma same_env_steps: "same_env c c' \<Longrightarrow> env_steps c' = env_steps c"
  by (simp add: same_env_def)

lemma quiet_refl [simp]: "quiet c c"
  by (simp add: quiet_def)

lemma quiet_trans: "quiet a b \<Longrightarrow> quiet b c \<Longrightarrow> quiet a c"
  using same_env_steps [of a b] by (auto simp: quiet_def intro: same_env_trans rtranclp_trans)

lemma quiet_one_match: "quiet a b \<Longrightarrow> one_match p d e b c \<Longrightarrow> one_match p d e a c"
  using same_env_steps [of a b] unfolding quiet_def one_match_def
  by (metis same_env_trans rtranclp_trans)

lemma one_match_quiet: "one_match p d e a b \<Longrightarrow> quiet b c \<Longrightarrow> one_match p d e a c"
  using same_env_steps [of a b] unfolding quiet_def one_match_def
  by (metis same_env_trans rtranclp_trans)

lemma quiet_one_create: "quiet a b \<Longrightarrow> one_create p d b c \<Longrightarrow> one_create p d a c"
  using same_env_steps [of a b] unfolding quiet_def one_create_def
  by (metis same_env_trans rtranclp_trans)

lemma one_create_quiet: "one_create p d a b \<Longrightarrow> quiet b c \<Longrightarrow> one_create p d a c"
  using same_env_steps [of a b] unfolding quiet_def one_create_def
  by (metis same_env_trans rtranclp_trans)

lemma same_mem_quiet: "same_env c c' \<Longrightarrow> mem c' = mem c \<Longrightarrow> quiet c c'"
  by (simp add: quiet_def)

lemma should_fail_quiet: "should_fail op p c = (b, c') \<Longrightarrow> quiet c c'"
  using should_fail_env [of op p c b c']
  by (auto simp: quiet_def should_fail_def hook_step_def split: option.splits prod.splits)
     (metis (mono_tags, lifting) hook_step_def r_into_rtranclp)

lemma local_time_quiet: "local_time_ms c = (t, c') \<Longrightarrow> quiet c c'"
  by (auto simp: local_time_ms_def same_env_def intro: same_mem_quiet)

lemma clock_time_quiet: "clock_time c = (t, c') \<Longrightarrow> quiet c c'"
  by (auto simp: clock_time_def same_env_def dest: local_time_quiet split: option.splits intro: same_mem_quiet)

lemma store_time_quiet: "store_time c = (t, c') \<Longrightarrow> quiet c c'"
  by (auto simp: store_time_def dest: clock_time_quiet split: prod.splits)

lemma bytes_quiet: "quiet c (c\<lparr>bytes_read := n\<rparr>)" "quiet c (c\<lparr>bytes_write := n\<rparr>)"
  by (auto simp: same_env_def intro: same_mem_quiet)

lemma mc_read2_quiet: "mc_read2 p c = (r, c') \<Longrightarrow> quiet c c'"
  by (auto simp: mc_read2_def dest!: should_fail_quiet split: prod.splits if_splits option.splits
      intro: quiet_trans [OF _ bytes_quiet(1)])

lemma mc_read_versioned_quiet: "mc_read_versioned p c = (r, c') \<Longrightarrow> quiet c c'"
  by (auto simp: mc_read_versioned_def Let_def dest!: should_fail_quiet
      split: prod.splits if_splits option.splits intro: quiet_trans [OF _ bytes_quiet(1)])

lemma mc_check_quiet: "mc_check p c = (r, c') \<Longrightarrow> quiet c c'"
  by (auto simp: mc_check_def dest!: should_fail_quiet split: prod.splits if_splits option.splits
      intro: quiet_trans [OF _ bytes_quiet(1)])

lemma mc_list_objects_quiet: "mc_list_objects p c = (r, c') \<Longrightarrow> quiet c c'"
  by (auto simp: mc_list_objects_def Let_def dest!: should_fail_quiet split: prod.splits if_splits
      intro: quiet_trans [OF _ bytes_quiet(1)])

lemma mc_write_if_match_one:
  assumes "mc_write_if_match p d e c = (r, c')"
  shows "if r = Ok then one_match p d e c c' else quiet c c'"
proof -
  obtain b c1 where f: "should_fail Op_WriteIfMatch p c = (b, c1)"
    by (cases "should_fail Op_WriteIfMatch p c")
  note q = should_fail_quiet [OF f]
  show ?thesis
  proof (cases "r = Ok")
    case True
    with assms f obtain ob n where ob: "map_of (objects (mem c1)) p = Some ob" "obj_etag ob = e"
      and c': "c' = (store p d c1)\<lparr>bytes_write := n\<rparr>"
      by (auto simp: mc_write_if_match_def lookup_object_def Let_def split: option.splits if_splits)
    obtain t where t: "mem (store p d c1) = put_object p d t (mem c1)" using store_mem by blast
    with ob c' have "put_match p d e t (mem c1) = (Ok, mem c')" by (simp add: put_match_def)
    moreover have "same_env c c'"
      using q store_env [of c1 p d] c' by (auto simp: quiet_def same_env_def)
    ultimately show ?thesis using True q by (auto simp: one_match_def quiet_def)
  next
    case False
    with assms f have "c' = c1"
      by (auto simp: mc_write_if_match_def Let_def split: option.splits if_splits)
    with False q show ?thesis by simp
  qed
qed

lemma mc_write_atomic_one:
  assumes "mc_write_atomic p d c = ((r, e), c')"
  shows "(if r = Ok then one_create p d c c' \<and> e = etag_at (mem c') p \<and> e \<noteq> None else quiet c c')
    \<and> r \<noteq> PreconditionFailed"
proof -
  obtain b c1 where f: "should_fail Op_WriteAtomic p c = (b, c1)"
    by (cases "should_fail Op_WriteAtomic p c")
  note q = should_fail_quiet [OF f]
  show ?thesis
  proof (cases "r = Ok")
    case True
    with assms f obtain n where a: "map_of (objects (mem c1)) p = None"
      and c': "c' = (store p d c1)\<lparr>bytes_write := n\<rparr>" and e: "e = etag_at (mem c') p"
      by (auto simp: mc_write_atomic_def lookup_object_def etag_at_def Let_def split: if_splits)
    obtain t where t: "mem (store p d c1) = put_object p d t (mem c1)" using store_mem by blast
    with a c' have "put_absent p d t (mem c1) = (Ok, mem c')" by (simp add: put_absent_def)
    moreover have "same_env c c'"
      using q store_env [of c1 p d] c' by (auto simp: quiet_def same_env_def)
    moreover have "e \<noteq> None" using e t c' by (simp add: etag_at_put)
    ultimately show ?thesis using True q e by (auto simp: one_create_def quiet_def)
  next
    case False
    with assms f have "c' = c1 \<and> r \<noteq> PreconditionFailed"
      by (auto simp: mc_write_atomic_def Let_def split: if_splits)
    with False q show ?thesis by simp
  qed
qed

section \<open>Other clients that act through the store\<close>

lemma env_steps_store:
  assumes "hook_ok c" shows "env_steps c a z \<Longrightarrow> store_step\<^sup>*\<^sup>* a z"
proof (induction rule: rtranclp_induct)
  case (step y z)
  from step.hyps(2) assms have "store_step\<^sup>*\<^sup>* y z" by (auto simp: hook_step_def hook_ok_def)
  with step.IH show ?case by (rule rtranclp_trans)
qed simp

lemma quiet_store_steps: "hook_ok c \<Longrightarrow> quiet c c' \<Longrightarrow> store_steps c c' \<and> hook_ok c'"
  using env_steps_store same_env_hook_ok by (auto simp: quiet_def)

text \<open>An ETag that was used up by a conditional write matches nothing any more.\<close>

lemma used_etag_no_match:
  assumes "store_ok (mem c)" "hook_ok c" "mc_write_if_match p d e c = (Ok, c1)"
    and "store_steps c1 c2" "hook_ok c2"
  shows "\<not> one_match q d' e c2 c3"
proof
  assume "one_match q d' e c2 c3"
  then obtain a z t where a: "env_steps c2 (mem c2) a" "put_match q d' e t a = (Ok, z)"
    by (auto simp: one_match_def)
  from mc_write_if_match_put_match [OF assms(3,2)] obtain m t'
    where m: "store_step\<^sup>*\<^sup>* (mem c) m" "put_match p d e t' m = (Ok, mem c1)" by auto
  from m(1) assms(1) have "store_ok m" by (rule memory.steps_invar)
  have "store_step\<^sup>*\<^sup>* (mem c1) a" using assms(4) env_steps_store [OF assms(5) a(1)] by simp
  from memory.one_match_per_etag [OF \<open>store_ok m\<close> m(2) this a(2)] show False by simp
qed

lemma put_match_etag: "put_match p d e t m = (Ok, m') \<Longrightarrow> etag_at m p = Some e"
  by (auto simp: put_match_def etag_at_def split: option.splits if_splits)

section \<open>Properties\<close>

text \<open>Of two conditional writes with the same ETag at most one succeeds, whoever makes them, on
  whichever objects, and whatever other clients write, delete or clear in between: an ETag that
  a write has used up never comes back.\<close>

lemma one_write_per_etag:
  assumes "store_ok (mem c)" and "hook_ok c" and "mc_write_if_match p d e c = (Ok, c1)"
    and "store_steps c1 c2" and "hook_ok c2" and "mc_write_if_match q d' e c2 = (r, c3)"
  shows "r \<noteq> Ok"
  by (rule one_conditional_write [OF assms])

definition empty_connector :: connector where
  "empty_connector =
     \<lparr>mem = \<lparr>objects = [], next_etag = 0\<rparr>, fail_hook = None, hook_calls = 0, clock = None,
      local_clock = int, clock_reads = 0, clock_uncertainty_ms = 0, bytes_read = 0, bytes_write = 0\<rparr>"

lemma one_write_per_etag_witness:
  "\<exists>c1 r c3. mc_write_if_match ''p'' ''x'' (etag_text 1) (store ''p'' ''o'' empty_connector) = (Ok, c1)
     \<and> mc_write_if_match ''p'' ''y'' (etag_text 1) c1 = (r, c3) \<and> r \<noteq> Ok"
proof -
  let ?c = "store ''p'' ''o'' empty_connector"
  obtain t where "mem ?c = put_object ''p'' ''o'' t (mem empty_connector)" using store_mem by blast
  moreover have "store_ok (mem empty_connector)"
    by (simp add: empty_connector_def store_ok_def etag_at_def)
  ultimately have ok: "store_ok (mem ?c)" by (simp add: store_ok_put)
  obtain c1 where c1: "mc_write_if_match ''p'' ''x'' (etag_text 1) ?c = (Ok, c1)"
    and h: "hook_ok ?c" "hook_ok c1"
    by (simp add: empty_connector_def store_def clock_time_def local_time_ms_def put_object_def
        mc_write_if_match_def should_fail_def lookup_object_def Let_def hook_ok_def)
  obtain r c3 where w: "mc_write_if_match ''p'' ''y'' (etag_text 1) c1 = (r, c3)"
    by (cases "mc_write_if_match ''p'' ''y'' (etag_text 1) c1")
  have "r \<noteq> Ok" by (rule one_write_per_etag [OF ok h(1) c1 _ h(2) w]) simp
  with c1 w show ?thesis by blast
qed

text \<open>A listing that succeeds gives every object whose key has the prefix, exactly once, in the
  byte order of the keys, with its size, and no other object.\<close>

lemma listing_is_prefix_filter:
  assumes "fail_hook c = None" and "smap_ok (objects (mem c))"
  shows "fst (mc_list_objects pre c) =
    Some (map (\<lambda>(k, ob). \<lparr>oi_key = k, oi_size = length (obj_content ob)\<rparr>)
      (filter (\<lambda>(k, _). starts_with pre k) (objects (mem c))))"
  using assms by (simp add: mc_list_objects_def should_fail_def prefix_range_filter Let_def)

lemma listing_is_prefix_filter_witness:
  "map_option (map oi_key) (fst (mc_list_objects ''a''
     (store ''ab'' ''1'' (store ''b'' ''2'' (store ''aa'' ''3'' empty_connector)))))
   = Some [''aa'', ''ab'']"
proof -
  let ?c = "store ''ab'' ''1'' (store ''b'' ''2'' (store ''aa'' ''3'' empty_connector))"
  have "fail_hook ?c = None" "smap_ok (objects (mem ?c))"
    by (simp_all add: store_def clock_time_def local_time_ms_def put_object_def empty_connector_def)
  from listing_is_prefix_filter [OF this, of "''a''"] show ?thesis
    by (simp add: store_def clock_time_def local_time_ms_def put_object_def empty_connector_def
        starts_with_def)
qed

end
