(* ===== verification/Markers.thy ===== *)
theory Markers
  imports StoreEnv LogNames LogActions
begin

text \<open>
  The lease protocol (\<open>Marker.cpp\<close> and, in \<open>ManagerDeltaLake.cpp\<close>, \<open>read_retry\<close>, \<open>list_retry\<close>,
  \<open>reserve_version\<close>, \<open>lease_expiring\<close>, \<open>marker_lost\<close>, \<open>shift_marker\<close>, \<open>wait_for_marker\<close>,
  \<open>write_commit\<close>).  A transaction reserves the next log version with a marker object that carries a
  deadline in store time; the commit, the release and a takeover by a waiting transaction replace it
  conditionally on its ETag.  A function with a \<open>while (true)\<close> loop takes fuel, one unit per round,
  and gives \<open>None\<close> when the fuel ends or an exception leaves it; sleeping does nothing.
\<close>

definition version_path :: "string \<Rightarrow> nat \<Rightarrow> string" where
  "version_path base v = base @ log_dir @ log_file_name v ''.json''"

section \<open>Retries\<close>

fun read_retry_loop :: "nat \<Rightarrow> string \<Rightarrow> connector \<Rightarrow> string option \<times> connector" where
  "read_retry_loop 0 path c = (None, c)"
| "read_retry_loop (Suc n) path c =
     (case mc_read2 path c of
        (Some text, c) \<Rightarrow> (Some text, c)
      | (None, c) \<Rightarrow> read_retry_loop n path c)"

definition read_retry :: "string \<Rightarrow> manager \<Rightarrow> string option \<times> manager" where
  "read_retry path m = with_conn (read_retry_loop (storage_retries m) path) m"

fun list_retry_loop :: "nat \<Rightarrow> string \<Rightarrow> connector \<Rightarrow> object_info list option \<times> connector" where
  "list_retry_loop 0 pre c = (None, c)"
| "list_retry_loop (Suc n) pre c =
     (case mc_list_objects pre c of
        (Some objs, c) \<Rightarrow> (Some objs, c)
      | (None, c) \<Rightarrow> list_retry_loop n pre c)"

definition list_retry :: "string \<Rightarrow> manager \<Rightarrow> object_info list option \<times> manager" where
  "list_retry pre m = with_conn (list_retry_loop (storage_retries m) pre) m"

section \<open>Marker\<close>

fun release_loop :: "nat \<Rightarrow> string \<Rightarrow> marker \<Rightarrow> connector \<Rightarrow> (bool \<times> marker) \<times> connector" where
  "release_loop 0 log mk c = ((False, mk), c)"
| "release_loop (Suc n) log mk c =
     (if marker_etag mk = []
      then (case mc_write (marker_path mk) log c of
              (True, c) \<Rightarrow> ((True, set_invalid mk), c)
            | (False, c) \<Rightarrow> release_loop n log mk c)
      else (let (status, c) = mc_write_if_match (marker_path mk) log (marker_etag mk) c
            in if status = Ok \<or> status = PreconditionFailed then ((True, set_invalid mk), c)
               else release_loop n log mk c))"

definition release :: "sys \<Rightarrow> marker \<Rightarrow> connector \<Rightarrow> (bool \<times> marker) \<times> connector" where
  "release sy mk c =
     (if \<not> marker_valid mk then ((True, mk), c)
      else let (now, c) = local_time_ms c
           in release_loop 5 (empty_commit sy ''MultiQuery'' now) mk c)"

text \<open>The destructor.\<close>

definition marker_destroy :: "sys \<Rightarrow> marker option \<Rightarrow> connector \<Rightarrow> connector" where
  "marker_destroy sy mk c =
     (case mk of None \<Rightarrow> c | Some mk \<Rightarrow> if marker_valid mk then snd (release sy mk c) else c)"

section \<open>Reserving a version\<close>

text \<open>Assigning a new marker to a table destroys the old one.\<close>

definition assign_marker :: "sys \<Rightarrow> marker \<Rightarrow> table_stats \<Rightarrow> connector \<Rightarrow> table_stats \<times> connector" where
  "assign_marker sy mk t c = (t\<lparr>t_marker := Some mk\<rparr>, marker_destroy sy (t_marker t) c)"

fun reserve_version ::
    "sys \<Rightarrow> nat \<Rightarrow> table_stats \<Rightarrow> nat \<Rightarrow> manager \<Rightarrow> ((bool \<times> table_stats \<times> nat) \<times> manager) option" where
  "reserve_version sy 0 t highest m = None"
| "reserve_version sy (Suc fuel) t highest m =
     (let v = u32 (highest + 1); path = version_path (t_base_path t) v
      in if with_markers m
         then (let (exists, c) = mc_check path (conn m)
               in if exists then reserve_version sy fuel t v (m\<lparr>conn := c\<rparr>)
                  else let (now, c) = store_time c;
                           deadline = now_ms now + int (marker_lease_ms (options m));
                           (header_now, c) = local_time_ms c;
                           complete = createHeaderMarker sy m header_now @ newline
                                      # createMarkerEntry sy m deadline;
                           ((status, etag), c) = mc_write_atomic path complete c
                       in if status = Error then reserve_version sy fuel t highest (m\<lparr>conn := c\<rparr>)
                          else if status = Ok
                          then let mk = marker_new path (case etag of Some e \<Rightarrow> e | None \<Rightarrow> []) deadline;
                                   (t, c) = assign_marker sy mk t c
                               in Some ((True, t\<lparr>t_marker_version := v\<rparr>, highest), m\<lparr>conn := c\<rparr>)
                          else reserve_version sy fuel t v (m\<lparr>conn := c\<rparr>))
         else let (t, c) = assign_marker sy (set_invalid (marker_new path [] 0)) t (conn m);
                  l = snd (register_read_version highest (t_delta_log t));
                  l = snd (register_write_version v l)
              in Some ((True, t\<lparr>t_marker_version := v, t_delta_log := l\<rparr>, highest), m\<lparr>conn := c\<rparr>))"

definition lease_expiring :: "table_stats \<Rightarrow> manager \<Rightarrow> bool \<times> manager" where
  "lease_expiring t m =
     (case t_marker t of
        None \<Rightarrow> (False, m)
      | Some mk \<Rightarrow>
          if \<not> with_markers m \<or> \<not> marker_valid mk \<or> deadline_ms mk = 0 then (False, m)
          else let margin = min 500 (int (marker_lease_ms (options m) div 4));
                   (now, c) = store_time (conn m)
               in (deadline_ms mk \<le> latest now + margin, m\<lparr>conn := c\<rparr>))"

definition marker_lost :: "table_stats \<Rightarrow> manager \<Rightarrow> (bool \<times> table_stats) \<times> manager" where
  "marker_lost t m =
     (case t_marker t of
        None \<Rightarrow> ((False, t), m)
      | Some mk \<Rightarrow>
          if \<not> marker_valid mk \<or> marker_etag mk = [] then ((False, t), m)
          else let ((content, version), c) = mc_read_versioned (marker_path mk) (conn m);
                   m = m\<lparr>conn := c\<rparr>
               in if content = None then ((False, t), m)
                  else if ov_etag version \<noteq> marker_etag mk
                  then ((True, t\<lparr>t_marker := Some (set_invalid mk)\<rparr>), m)
                  else ((False, t), m))"

text \<open>\<open>None\<close> also when the table has no marker (a null dereference).\<close>

definition shift_marker ::
    "sys \<Rightarrow> nat \<Rightarrow> table_stats \<Rightarrow> manager \<Rightarrow> ((bool \<times> table_stats) \<times> manager) option" where
  "shift_marker sy fuel t m =
     (let old_version = t_marker_version t
      in case t_marker t of
           None \<Rightarrow> None
         | Some mk \<Rightarrow>
             (let ((_, mk), c) = release sy mk (conn m);
                  t = t\<lparr>t_marker := Some mk\<rparr>; m = m\<lparr>conn := c\<rparr>
              in case reserve_version sy fuel t old_version m of
                   None \<Rightarrow> None
                 | Some ((reserved, t, _), m) \<Rightarrow>
                     if \<not> reserved then Some ((False, t), m)
                     else Some ((True, t), m\<lparr>prev_markers := prev_markers m
                            @ map (version_path (t_base_path t)) [old_version + 1..<t_marker_version t]\<rparr>)))"

section \<open>Waiting for a marker\<close>

definition is_marker_line :: "json \<Rightarrow> bool" where
  "is_marker_line v \<longleftrightarrow> member_object ''marker'' v \<noteq> None"

definition marker_deadline :: "json list \<Rightarrow> int option" where
  "marker_deadline objs =
     Option.bind (find is_marker_line objs) (\<lambda>v.
     Option.bind (member_object ''marker'' v) (member_int64 ''deadline''))"

text \<open>An entry of a commit that was waited for, applied to the table.\<close>

definition apply_waited ::
    "sys \<Rightarrow> nat \<Rightarrow> json \<Rightarrow> table_stats \<times> manager \<Rightarrow> table_stats \<times> manager" where
  "apply_waited sy version v = (\<lambda>(t, m).
     (let t = (if has_member ''add'' v \<or> has_member ''remove'' v
               then t\<lparr>t_concurrent_change := True\<rparr> else t);
          ((_, l), m) = parseEntry sy v (t_delta_log t) version m;
          t = t\<lparr>t_delta_log := l\<rparr>
      in case Option.bind (member_object ''remove'' v) (member_string ''path'') of
           Some path \<Rightarrow>
             (t\<lparr>t_concurrent_removes := List.insert (c_str path) (t_concurrent_removes t)\<rparr>, m)
         | None \<Rightarrow> (t, m)))"

definition marker_table_path :: "string \<Rightarrow> string" where
  "marker_table_path path =
     (case find_sub ''/_delta_log/'' path of None \<Rightarrow> [] | Some i \<Rightarrow> take (i + 1) path)"

fun index_where :: "('a \<Rightarrow> bool) \<Rightarrow> 'a list \<Rightarrow> nat option" where
  "index_where P [] = None"
| "index_where P (x # xs) = (if P x then Some 0 else map_option Suc (index_where P xs))"

definition marker_table_id :: "string \<Rightarrow> manager \<Rightarrow> nat" where
  "marker_table_id path m =
     (case index_where (\<lambda>t. t_base_path t = marker_table_path path) (tables m) of
        Some i \<Rightarrow> i | None \<Rightarrow> 0)"

text \<open>A commit or a released version: applied to the snapshot.\<close>

definition finish_wait :: "sys \<Rightarrow> string \<Rightarrow> json list \<Rightarrow> manager \<Rightarrow> (bool \<times> manager) option" where
  "finish_wait sy path entries m =
     (let i = marker_table_id path m
      in case parse_log_version path of
           Inl _ \<Rightarrow> if entries = [] \<and> \<not> level2 m then Some (True, m) else None
         | Inr log_number \<Rightarrow>
             let version = u32 (case log_number of Some v \<Rightarrow> v | None \<Rightarrow> 0)
             in if entries \<noteq> [] \<and> get_table i m = None then None
                else let (t, m) = fold (apply_waited sy version) entries (tables m ! i, m);
                         m = (if entries = [] then m else set_table i t m);
                         table_path = marker_table_path path;
                         m = (if level2 m \<and> log_number \<noteq> None \<and> map_of (local_log m) table_path \<noteq> None
                              then m\<lparr>local_log := AList.update table_path version (local_log m)\<rparr>
                              else m)
                     in Some (True, m))"

text \<open>What a round of the wait found out and did: the marker's deadline, the time the store's
  clock surely passed, and the conditional write, if any.\<close>

definition try_takeover ::
    "sys \<Rightarrow> string \<Rightarrow> string \<Rightarrow> int \<Rightarrow> connector \<Rightarrow> (write_status option \<times> store_time) \<times> connector" where
  "try_takeover sy path etag takeover_at c =
     (let (now, c) = store_time c
      in if takeover_at < earliest now \<and> etag \<noteq> []
         then let (t, c) = local_time_ms c;
                  (status, c) = mc_write_if_match path (empty_commit sy ''MarkerTakeover'' t) etag c
              in ((Some status, now), c)
         else ((None, now), c))"

fun wait_loop ::
    "sys \<Rightarrow> nat \<Rightarrow> int \<Rightarrow> string \<Rightarrow> manager \<Rightarrow> (bool \<times> manager) option" where
  "wait_loop sy 0 start path m = None"
| "wait_loop sy (Suc fuel) start path m =
     (let ((content, version), c) = mc_read_versioned path (conn m);
          m = m\<lparr>conn := c\<rparr>
      in case content of
           None \<Rightarrow> Some (True, m)
         | Some text \<Rightarrow>
             (let objs = json_objects (sy_parse sy) text
              in if \<not> list_ex is_marker_line objs then finish_wait sy path objs m
                 else let lease = int (marker_lease_ms (options m));
                          deadline = (case marker_deadline objs of
                              Some d \<Rightarrow> d
                            | None \<Rightarrow> (if 0 \<le> last_modified_ms version then last_modified_ms version
                                       else start) + lease);
                          takeover_at = deadline + int (marker_grace_ms (options m));
                          ((status, now), c) = try_takeover sy path (ov_etag version) takeover_at (conn m);
                          m = m\<lparr>conn := c\<rparr>
                      in if status = Some Ok then Some (True, m)
                         else if status = Some PreconditionFailed then wait_loop sy fuel start path m
                         else let (t, c) = local_time_ms (conn m);
                                  m = m\<lparr>conn := c\<rparr>
                              in if lease + int (marker_grace_ms (options m)) + 60000 < t - start
                                 then Some (False, m)
                                 else wait_loop sy fuel start path m))"

definition wait_for_marker :: "sys \<Rightarrow> nat \<Rightarrow> string \<Rightarrow> manager \<Rightarrow> (bool \<times> manager) option" where
  "wait_for_marker sy fuel path m =
     (let (start, c) = local_time_ms (conn m)
      in wait_loop sy fuel start path (m\<lparr>conn := c\<rparr>))"

section \<open>Writing a commit\<close>

datatype commit_write = Commit_Ok | Commit_Lost | Commit_Taken | Commit_Failed

definition commit_attempt :: "bool \<Rightarrow> marker \<Rightarrow> string \<Rightarrow> connector \<Rightarrow> write_status \<times> connector" where
  "commit_attempt markers mk log c =
     (if markers \<and> marker_etag mk = []
      then (let (ok, c) = mc_write (marker_path mk) log c in (if ok then Ok else Error, c))
      else if markers then mc_write_if_match (marker_path mk) log (marker_etag mk) c
      else (let ((status, _), c) = mc_write_atomic (marker_path mk) log c in (status, c)))"

fun commit_loop ::
    "nat \<Rightarrow> bool \<Rightarrow> bool \<Rightarrow> marker \<Rightarrow> string \<Rightarrow> connector \<Rightarrow> (commit_write \<times> marker) \<times> connector" where
  "commit_loop 0 uncertain markers mk log c = ((Commit_Failed, mk), c)"
| "commit_loop (Suc n) uncertain markers mk log c =
     (let (status, c) = commit_attempt markers mk log c
      in if status = Ok then ((Commit_Ok, set_invalid mk), c)
         else if status = PreconditionFailed \<or> status = AlreadyExists
         then (let (by_us, c) = (if uncertain
                                 then let (content, c) = mc_read2 (marker_path mk) c
                                      in (content = Some log, c)
                                 else (False, c))
               in if by_us then ((Commit_Ok, set_invalid mk), c)
                  else if markers then ((Commit_Lost, set_invalid mk), c)
                  else ((Commit_Taken, mk), c))
         else commit_loop n True markers mk log c)"

definition write_commit ::
    "table_stats \<Rightarrow> string \<Rightarrow> manager \<Rightarrow> ((commit_write \<times> table_stats) \<times> manager) option" where
  "write_commit t log m =
     (case t_marker t of
        None \<Rightarrow> None
      | Some mk \<Rightarrow>
          (let ((r, mk), c) = commit_loop (storage_retries m) False (with_markers m) mk log (conn m)
           in Some ((r, t\<lparr>t_marker := Some mk\<rparr>), m\<lparr>conn := c\<rparr>)))"

text \<open>The release of all reserved versions in \<open>abort\<close>.\<close>

fun release_tables :: "sys \<Rightarrow> table_stats list \<Rightarrow> connector \<Rightarrow> table_stats list \<times> connector" where
  "release_tables sy [] c = ([], c)"
| "release_tables sy (t # ts) c =
     (let (t, c) = (case t_marker t of
                      None \<Rightarrow> (t, c)
                    | Some mk \<Rightarrow>
                        if marker_valid mk
                        then let ((ok, mk), c) = release sy mk c
                             in (t\<lparr>t_marker := Some (if ok then mk else set_invalid mk)\<rparr>, c)
                        else (t, c));
          (ts, c) = release_tables sy ts c
      in (t # ts, c))"

section \<open>The commit replaces nothing but its own marker\<close>

lemma commit_attempt_match:
  assumes "commit_attempt True mk log c = (status, c')" "marker_etag mk \<noteq> []"
  shows "if status = Ok then one_match (marker_path mk) log (marker_etag mk) c c' else quiet c c'"
  using assms mc_write_if_match_one by (simp add: commit_attempt_def)

lemma commit_attempt_create:
  assumes "commit_attempt False mk log c = (status, c')"
  shows "if status = Ok then one_create (marker_path mk) log c c' else quiet c c'"
  using assms mc_write_atomic_one [of "marker_path mk" log c]
  by (auto simp: commit_attempt_def split: prod.splits)

lemma commit_loop_own:
  assumes attempt: "\<And>c status c'. commit_attempt markers mk log c = (status, c') \<Longrightarrow>
      if status = Ok then own c c' else quiet c c'"
    and trans: "\<And>a b c. quiet a b \<Longrightarrow> own b c \<Longrightarrow> own a c"
  shows "commit_loop n uncertain markers mk log c = ((r, mk'), c') \<Longrightarrow>
    (r = Commit_Ok \<and> own c c') \<or> quiet c c'"
proof (induction n arbitrary: uncertain c)
  case (Suc n)
  obtain status c1 where a: "commit_attempt markers mk log c = (status, c1)"
    by (cases "commit_attempt markers mk log c")
  note o = attempt [OF a]
  consider "status = Ok" | "status = PreconditionFailed \<or> status = AlreadyExists" | "status = Error"
    by (cases status) auto
  then show ?case
  proof cases
    case 1
    with Suc.prems a o show ?thesis by simp
  next
    case 2
    then have q: "quiet c c1" using o by (auto split: if_splits)
    show ?thesis
    proof (cases uncertain)
      case True
      obtain x c2 where r: "mc_read2 (marker_path mk) c1 = (x, c2)"
        by (cases "mc_read2 (marker_path mk) c1")
      from Suc.prems a 2 True r have "c' = c2" by (auto split: if_splits)
      with q mc_read2_quiet [OF r] show ?thesis by (auto intro: quiet_trans)
    next
      case False
      with Suc.prems a 2 q show ?thesis by (auto split: if_splits)
    qed
  next
    case 3
    with o have q: "quiet c c1" by simp
    from 3 Suc.prems a have "commit_loop n True markers mk log c1 = ((r, mk'), c')" by simp
    from Suc.IH [OF this] q show ?thesis by (auto intro: trans quiet_trans)
  qed
qed simp

lemma write_commit_conn:
  assumes "write_commit t log m = Some ((r, t'), m')" "t_marker t = Some mk"
  obtains mk' where "commit_loop (storage_retries m) False (with_markers m) mk log (conn m)
      = ((r, mk'), conn m')"
  using assms by (auto simp: write_commit_def split: prod.splits)

section \<open>Properties\<close>

text \<open>C2: Writing a commit never overwrites anything but the transaction's own marker, and never a
  commit of another writer: whatever other clients do to the store meanwhile and whichever
  requests fail, this client changes the store at most once.  With markers it replaces the object at
  the reserved version while that object still has the marker's ETag, without markers it creates
  the object while it is absent; and when it does, the commit is reported as written.\<close>

theorem write_commit_own_version:
  assumes "write_commit t log m = Some ((r, t'), m')" and "t_marker t = Some mk"
    and "with_markers m \<longrightarrow> marker_etag mk \<noteq> []"
  shows "(r = Commit_Ok \<and>
      (if with_markers m then one_match (marker_path mk) log (marker_etag mk) (conn m) (conn m')
       else one_create (marker_path mk) log (conn m) (conn m')))
    \<or> quiet (conn m) (conn m')"
proof -
  from write_commit_conn [OF assms(1,2)] obtain mk' where
    l: "commit_loop (storage_retries m) False (with_markers m) mk log (conn m) = ((r, mk'), conn m')" .
  show ?thesis
  proof (cases "with_markers m")
    case True
    with assms(3) have e: "marker_etag mk \<noteq> []" by simp
    from l True have l': "commit_loop (storage_retries m) False True mk log (conn m) = ((r, mk'), conn m')"
      by simp
    have "(r = Commit_Ok \<and> one_match (marker_path mk) log (marker_etag mk) (conn m) (conn m'))
        \<or> quiet (conn m) (conn m')"
      by (rule commit_loop_own [OF commit_attempt_match [OF _ e] quiet_one_match l'])
    with True show ?thesis by simp
  next
    case False
    from l False have l': "commit_loop (storage_retries m) False False mk log (conn m) = ((r, mk'), conn m')"
      by simp
    have "(r = Commit_Ok \<and> one_create (marker_path mk) log (conn m) (conn m')) \<or> quiet (conn m) (conn m')"
      by (rule commit_loop_own [OF commit_attempt_create quiet_one_create l'])
    with False show ?thesis by simp
  qed
qed


section \<open>Witnesses\<close>

definition demo_marker_store :: connector where
  "demo_marker_store = store ''t/v1'' ''marker'' demo_connector"

definition demo_marker :: marker where
  "demo_marker = marker_new ''t/v1'' (etag_text 1) 500"

definition demo_holder :: table_stats where
  "demo_holder = (table_stats_new ''t/'')\<lparr>t_marker := Some demo_marker\<rparr>"

lemma demo_hook_ok [simp]: "hook_ok demo_connector" "hook_ok demo_marker_store"
  by (simp_all add: hook_ok_def demo_connector_def demo_marker_store_def store_def clock_time_def local_time_ms_def)

lemma demo_store_ok: "store_ok (mem demo_marker_store)"
proof -
  have "store_ok (mem demo_connector)" by (simp add: demo_connector_def store_ok_def etag_at_def)
  moreover obtain t where "mem demo_marker_store = put_object ''t/v1'' ''marker'' t (mem demo_connector)"
    unfolding demo_marker_store_def using store_mem by blast
  ultimately show ?thesis by (simp add: store_ok_put)
qed

lemma demo_if_match:
  "\<exists>c1. mc_write_if_match ''t/v1'' d (etag_text 1) demo_marker_store = (Ok, c1) \<and> hook_ok c1"
  by (simp add: demo_marker_store_def store_def demo_connector_def clock_time_def local_time_ms_def
      put_object_def mc_write_if_match_def should_fail_def lookup_object_def Let_def hook_ok_def)

lemma demo_markers: "with_markers (demo_manager\<lparr>conn := c\<rparr>)"
    "storage_retries (demo_manager\<lparr>conn := c\<rparr>) = Suc 7" "t_marker demo_holder = Some demo_marker"
    "marker_path demo_marker = ''t/v1''" "marker_etag demo_marker = etag_text 1"
  by (simp_all add: with_markers_def demo_manager_def manager_new_def level_of_def demo_holder_def
      demo_marker_def marker_new_def)

lemma write_commit_own_version_witness:
  "\<exists>t' m'. write_commit demo_holder ''log'' (demo_manager\<lparr>conn := demo_marker_store\<rparr>) = Some ((Commit_Ok, t'), m')
     \<and> (one_match ''t/v1'' ''log'' (etag_text 1) demo_marker_store (conn m') \<or> quiet demo_marker_store (conn m'))"
proof -
  let ?m = "demo_manager\<lparr>conn := demo_marker_store\<rparr>"
  obtain c1 where "mc_write_if_match ''t/v1'' ''log'' (etag_text 1) demo_marker_store = (Ok, c1)"
    using demo_if_match by blast
  then have "commit_attempt True demo_marker ''log'' demo_marker_store = (Ok, c1)"
    by (simp add: commit_attempt_def demo_markers)
  then obtain t' m' where w: "write_commit demo_holder ''log'' ?m = Some ((Commit_Ok, t'), m')"
    by (simp only: write_commit_def demo_markers option.case commit_loop.simps manager.simps) simp
  from write_commit_own_version [OF w demo_markers(3)] w show ?thesis by (auto simp: demo_markers)
qed

end
