(* ===== verification/Leases.thy ===== *)
theory Leases
  imports Markers
begin

text \<open>
  What the lease protocol guarantees about reserving and waiting: the version reserved is the
  first free one, a wait returns in bounded time, and a marker is taken over only after its lease
  and the grace period have ended in store time.
\<close>

section \<open>Reserving the next free version\<close>

text \<open>Without faults and without other clients.\<close>

definition calm :: "connector \<Rightarrow> bool" where "calm c \<longleftrightarrow> fail_hook c = None"

lemma calm_should_fail: "calm c \<Longrightarrow> should_fail op p c = (False, c)"
  by (simp add: calm_def should_fail_def)

lemma calm_quiet: "quiet c c' \<Longrightarrow> calm c \<Longrightarrow> mem c' = mem c \<and> calm c'"
proof -
  assume q: "quiet c c'" "calm c"
  then have "env_steps c (mem c) (mem c')" by (simp add: quiet_def)
  then have "mem c' = mem c"
    by (rule rtranclp.cases) (use q in \<open>auto simp: calm_def hook_step_def\<close>)
  with q show ?thesis by (simp add: quiet_def same_env_def calm_def)
qed

lemma calm_check: "calm c \<Longrightarrow> mc_check p c = (b, c') \<Longrightarrow> b \<longleftrightarrow> lookup_object p c \<noteq> None"
  by (auto simp: mc_check_def calm_should_fail split: option.splits)

lemma calm_write_atomic:
  assumes "calm c" "lookup_object p c = None" "mc_write_atomic p d c = ((s, e), c')"
  shows "s = Ok \<and> e = etag_at (mem c') p \<and> e \<noteq> None \<and> calm c'
    \<and> (\<exists>t. mem c' = put_object p d t (mem c))"
proof -
  from assms have s: "s = Ok" by (auto simp: mc_write_atomic_def calm_should_fail Let_def)
  with mc_write_atomic_one [OF assms(3)] have o: "one_create p d c c'" "e = etag_at (mem c') p" "e \<noteq> None"
    by auto
  have none: "env_steps c a z \<Longrightarrow> z = a" for a z
    by (induction rule: rtranclp_induct) (use assms(1) in \<open>auto simp: calm_def hook_step_def\<close>)
  from o(1) obtain a z t where a: "env_steps c (mem c) a" "put_absent p d t a = (Ok, z)"
      "env_steps c z (mem c')" "same_env c c'" by (auto simp: one_create_def)
  with none have "mem c' = put_object p d t (mem c)" by (auto simp: put_absent_def split: if_splits)
  with s o(2,3) a(4) assms(1) show ?thesis by (auto simp: same_env_def calm_def)
qed

text \<open>A marker that is not valid any more, or none: assigning a new one touches nothing.\<close>

definition no_live_marker :: "table_stats \<Rightarrow> bool" where
  "no_live_marker t \<longleftrightarrow> (\<forall>mk. t_marker t = Some mk \<longrightarrow> \<not> marker_valid mk)"

lemma assign_marker_dead: "no_live_marker t \<Longrightarrow> assign_marker sy mk t c = (t\<lparr>t_marker := Some mk\<rparr>, c)"
  by (auto simp: assign_marker_def marker_destroy_def no_live_marker_def split: option.splits)

lemma with_markers_conn [simp]: "with_markers (m\<lparr>conn := c\<rparr>) = with_markers m"
  by (simp add: with_markers_def)

definition version_taken :: "table_stats \<Rightarrow> manager \<Rightarrow> nat \<Rightarrow> bool" where
  "version_taken t m v \<longleftrightarrow> lookup_object (version_path (t_base_path t) v) (conn m) \<noteq> None"

lemma version_taken_mem: "mem c = mem (conn m) \<Longrightarrow> version_taken t (m\<lparr>conn := c\<rparr>) v = version_taken t m v"
  by (simp add: version_taken_def lookup_object_def)

lemma reserve_free:
  assumes "calm (conn m)" "with_markers m" "no_live_marker t" "h + 1 < 2 ^ 32" "\<not> version_taken t m (h + 1)"
  obtains mk m' where "reserve_version sy (Suc fuel) t h m =
      Some ((True, t\<lparr>t_marker := Some mk, t_marker_version := h + 1\<rparr>, h), m')"
    "marker_valid mk" "marker_path mk = version_path (t_base_path t) (h + 1)"
    "etag_at (mem (conn m')) (marker_path mk) = Some (marker_etag mk)"
    "\<exists>d ti. mem (conn m') = put_object (marker_path mk) d ti (mem (conn m))"
proof -
  let ?p = "version_path (t_base_path t) (h + 1)"
  obtain b c1 where c1: "mc_check ?p (conn m) = (b, c1)" by (cases "mc_check ?p (conn m)")
  obtain now c2 where c2: "store_time c1 = (now, c2)" by (cases "store_time c1")
  obtain hn c3 where c3: "local_time_ms c2 = (hn, c3)" by (cases "local_time_ms c2")
  define d where "d = createHeaderMarker sy m hn @ newline # createMarkerEntry sy m
      (now_ms now + int (marker_lease_ms (options m)))"
  obtain s e c4 where c4: "mc_write_atomic ?p d c3 = ((s, e), c4)" by (metis prod.collapse)
  have "quiet (conn m) c3"
    using mc_check_quiet [OF c1] store_time_quiet [OF c2] local_time_quiet [OF c3] by (blast intro: quiet_trans)
  with calm_quiet assms(1) have m3: "mem c3 = mem (conn m)" "calm c3" by auto
  have b: "\<not> b" using calm_check [OF assms(1) c1] assms(5) by (simp add: version_taken_def)
  have "lookup_object ?p c3 = None" using assms(5) m3(1) by (simp add: version_taken_def lookup_object_def)
  from calm_write_atomic [OF m3(2) this c4] m3(1) have w: "s = Ok" "e = etag_at (mem c4) ?p" "e \<noteq> None"
    "\<exists>ti. mem c4 = put_object ?p d ti (mem (conn m))" by auto
  from w(3) obtain et where et: "e = Some et" by auto
  let ?mk = "marker_new ?p et (now_ms now + int (marker_lease_ms (options m)))"
  have u: "u32 (h + 1) = h + 1" using assms(4) by (simp add: u32_id)
  have "reserve_version sy (Suc fuel) t h m =
      Some ((True, t\<lparr>t_marker := Some ?mk, t_marker_version := h + 1\<rparr>, h), m\<lparr>conn := c4\<rparr>)"
    using assms(2) b c1 c2 c3 c4 w(1) et assign_marker_dead [OF assms(3)]
    unfolding reserve_version.simps u Let_def d_def by simp
  moreover have "marker_valid ?mk" "marker_path ?mk = ?p" "marker_etag ?mk = et"
    by (simp_all add: marker_new_def)
  ultimately show ?thesis using that [of ?mk "m\<lparr>conn := c4\<rparr>"] w et by auto
qed

lemma reserve_taken:
  assumes "calm (conn m)" "with_markers m" "h + 1 < 2 ^ 32" "version_taken t m (h + 1)"
  obtains c where "reserve_version sy (Suc fuel) t h m = reserve_version sy fuel t (h + 1) (m\<lparr>conn := c\<rparr>)"
    "mem c = mem (conn m)" "calm c"
proof -
  let ?p = "version_path (t_base_path t) (h + 1)"
  obtain b c1 where c1: "mc_check ?p (conn m) = (b, c1)" by (cases "mc_check ?p (conn m)")
  have u: "u32 (h + 1) = h + 1" using assms(3) by (simp add: u32_id)
  have "b" using calm_check [OF assms(1) c1] assms(4) by (simp add: version_taken_def)
  then have "reserve_version sy (Suc fuel) t h m = reserve_version sy fuel t (h + 1) (m\<lparr>conn := c1\<rparr>)"
    using assms(2) c1 unfolding reserve_version.simps u Let_def by simp
  with calm_quiet [OF mc_check_quiet [OF c1] assms(1)] that show ?thesis by blast
qed

text \<open>C15: Reserving a version returns, and takes the first version after the given one that has no
  object: given a round of fuel per version up to it, it creates the marker there, under an ETag that
  the marker holds, and leaves every other object as it was.\<close>

theorem reserve_version_least_free:
  assumes "calm (conn m)" and "with_markers m" and "no_live_marker t"
    and "h < v" and "v < 2 ^ 32" and "v - h \<le> fuel"
    and "\<forall>u. h < u \<and> u < v \<longrightarrow> version_taken t m u" and "\<not> version_taken t m v"
  shows "\<exists>mk m'. reserve_version sy fuel t h m =
      Some ((True, t\<lparr>t_marker := Some mk, t_marker_version := v\<rparr>, v - 1), m')
    \<and> marker_valid mk \<and> marker_path mk = version_path (t_base_path t) v
    \<and> etag_at (mem (conn m')) (marker_path mk) = Some (marker_etag mk)
    \<and> (\<exists>d ti. mem (conn m') = put_object (marker_path mk) d ti (mem (conn m)))"
  using assms
proof (induction fuel arbitrary: h m)
  case (Suc fuel)
  show ?case
  proof (cases "v = h + 1")
    case True
    obtain mk m' where "reserve_version sy (Suc fuel) t h m =
        Some ((True, t\<lparr>t_marker := Some mk, t_marker_version := h + 1\<rparr>, h), m')"
      "marker_valid mk" "marker_path mk = version_path (t_base_path t) (h + 1)"
      "etag_at (mem (conn m')) (marker_path mk) = Some (marker_etag mk)"
      "\<exists>d ti. mem (conn m') = put_object (marker_path mk) d ti (mem (conn m))"
      by (rule reserve_free [of m t h sy fuel]) (use Suc.prems True in simp_all)
    moreover have "v - 1 = h" using True by simp
    ultimately show ?thesis unfolding True by (intro exI [of _ mk] exI [of _ m']) (simp only: simp_thms)
  next
    case False
    with Suc.prems have h: "h + 1 < v" "h + 1 < 2 ^ 32" "version_taken t m (h + 1)" by auto
    from reserve_taken [OF Suc.prems(1,2) h(2,3)] obtain c where
      c: "reserve_version sy (Suc fuel) t h m = reserve_version sy fuel t (h + 1) (m\<lparr>conn := c\<rparr>)"
      "mem c = mem (conn m)" "calm c" .
    have "\<forall>u. h + 1 < u \<and> u < v \<longrightarrow> version_taken t (m\<lparr>conn := c\<rparr>) u"
      "\<not> version_taken t (m\<lparr>conn := c\<rparr>) v"
      using Suc.prems(7,8) c(2) by (auto simp: version_taken_mem)
    with Suc.IH [of "m\<lparr>conn := c\<rparr>" "h + 1"] Suc.prems h c show ?thesis by simp
  qed
qed simp

lemma reserve_version_least_free_witness:
  "\<exists>mk m'. reserve_version demo_sys 1 (table_stats_new ''t/'') 0 demo_manager =
      Some ((True, (table_stats_new ''t/'')\<lparr>t_marker := Some mk, t_marker_version := 1\<rparr>, 1 - 1), m')
    \<and> marker_valid mk \<and> marker_path mk = version_path (t_base_path (table_stats_new ''t/'')) 1
    \<and> etag_at (mem (conn m')) (marker_path mk) = Some (marker_etag mk)
    \<and> (\<exists>d ti. mem (conn m') = put_object (marker_path mk) d ti (mem (conn demo_manager)))"
  by (rule reserve_version_least_free)
     (auto simp: demo_manager_def manager_new_def calm_def demo_connector_def with_markers_def
        level_of_def no_live_marker_def table_stats_new_def version_taken_def lookup_object_def)

section \<open>Taking over an expired marker\<close>

definition takeover_deadline :: "int \<Rightarrow> json list \<Rightarrow> object_version \<Rightarrow> protocol_options \<Rightarrow> int" where
  "takeover_deadline start objs version opts =
     (case marker_deadline objs of
        Some d \<Rightarrow> d
      | None \<Rightarrow> (if 0 \<le> last_modified_ms version then last_modified_ms version else start)
          + int (marker_lease_ms opts))"

text \<open>A round that takes over: the marker read, with its ETag, had a deadline that, with the grace
  period, lies before the earliest time the store's clock can show.\<close>

definition expired_takeover :: "sys \<Rightarrow> int \<Rightarrow> string \<Rightarrow> protocol_options \<Rightarrow> connector \<Rightarrow> connector \<Rightarrow> bool" where
  "expired_takeover sy start path opts c c' \<longleftrightarrow>
     (\<exists>text version c1 now c2 t c3.
        mc_read_versioned path c = ((Some text, version), c1)
      \<and> list_ex is_marker_line (json_objects (sy_parse sy) text)
      \<and> store_time c1 = (now, c2)
      \<and> takeover_deadline start (json_objects (sy_parse sy) text) version opts
          + int (marker_grace_ms opts) < earliest now
      \<and> quiet c2 c3 \<and> one_match path (empty_commit sy ''MarkerTakeover'' t) (ov_etag version) c3 c')"

lemma try_takeover_cases:
  assumes "try_takeover sy path etag at c = ((status, now), c')"
  obtains c1 where "store_time c = (now, c1)" "status = None \<and> c' = c1" |
    c1 t c2 s where "store_time c = (now, c1)" "at < earliest now" "local_time_ms c1 = (t, c2)"
      "mc_write_if_match path (empty_commit sy ''MarkerTakeover'' t) etag c2 = (s, c')" "status = Some s"
  using assms by (auto simp: try_takeover_def Let_def split: prod.splits if_splits)

lemma try_takeover_quiet:
  assumes "try_takeover sy path etag at c = ((status, now), c')" "status \<noteq> Some Ok"
  shows "quiet c c'"
  using assms(1)
proof (cases rule: try_takeover_cases)
  case (1 c1)
  then show ?thesis by (auto dest: store_time_quiet)
next
  case (2 c1 t c2 s)
  with assms(2) mc_write_if_match_one [OF 2(4)] have "quiet c2 c'" by auto
  with store_time_quiet [OF 2(1)] local_time_quiet [OF 2(3)] show ?thesis by (blast intro: quiet_trans)
qed

lemma finish_wait_conn: "finish_wait sy path entries m = Some (r, m') \<Longrightarrow> r \<and> conn m' = conn m"
proof -
  have p: "parseEntry sy v l k m = (x, m') \<Longrightarrow> conn m' = conn m" for v l k m m' x
    by (auto simp: parseEntry_def Let_def split: option.splits if_splits)
  have a: "conn (snd (apply_waited sy k v tm)) = conn (snd tm)" for k v tm
    by (cases tm) (auto simp: apply_waited_def Let_def split: prod.splits option.splits dest!: p)
  have f: "conn (snd (fold (apply_waited sy k) vs tm)) = conn (snd tm)" for k vs tm
    by (induction vs arbitrary: tm) (simp_all add: a)
  then have f': "fold (apply_waited sy k) vs (t, m) = (t', m') \<Longrightarrow> conn m' = conn m" for k vs t t' m m'
    by (metis snd_conv)
  assume "finish_wait sy path entries m = Some (r, m')"
  then show ?thesis
    by (auto simp: finish_wait_def Let_def set_table_def dest!: f'
        split: sum.splits if_splits prod.splits option.splits)
qed

lemma wait_loop_takeover:
  "wait_loop sy fuel start path m = Some (r, m') \<Longrightarrow>
   quiet (conn m) (conn m') \<or>
   (r \<and> (\<exists>c. quiet (conn m) c \<and> expired_takeover sy start path (options m) c (conn m')))"
proof (induction fuel arbitrary: m)
  case (Suc fuel)
  obtain content version c where rd: "mc_read_versioned path (conn m) = ((content, version), c)"
    by (metis prod.collapse)
  note q = mc_read_versioned_quiet [OF rd]
  show ?case
  proof (cases content)
    case None
    with Suc.prems rd q show ?thesis by auto
  next
    case (Some content_text)
    let ?objs = "json_objects (sy_parse sy) content_text"
    let ?at = "takeover_deadline start ?objs version (options m) + int (marker_grace_ms (options m))"
    show ?thesis
    proof (cases "list_ex is_marker_line ?objs")
      case False
      with Suc.prems rd Some have "finish_wait sy path ?objs (m\<lparr>conn := c\<rparr>) = Some (r, m')" by simp
      from finish_wait_conn [OF this] q show ?thesis by simp
    next
      case True
      obtain status now c' where tr: "try_takeover sy path (ov_etag version) ?at c = ((status, now), c')"
        by (metis prod.collapse)
      have loop: "wait_loop sy (Suc fuel) start path m =
        (if status = Some Ok then Some (True, m\<lparr>conn := c'\<rparr>)
         else if status = Some PreconditionFailed then wait_loop sy fuel start path (m\<lparr>conn := c'\<rparr>)
         else let (t, c'') = local_time_ms c'
              in if int (marker_lease_ms (options m)) + int (marker_grace_ms (options m)) + 60000 < t - start
                 then Some (False, m\<lparr>conn := c''\<rparr>)
                 else wait_loop sy fuel start path (m\<lparr>conn := c''\<rparr>))"
        using rd Some True tr by (simp add: takeover_deadline_def Let_def split: prod.splits)
      show ?thesis
      proof (cases "status = Some Ok")
        case ok: True
        from tr have "expired_takeover sy start path (options m) (conn m) c'"
        proof (cases rule: try_takeover_cases)
          case (1 c1)
          with ok show ?thesis by simp
        next
          case (2 c1 t c2 s)
          with ok mc_write_if_match_one [OF 2(4)]
          have "one_match path (empty_commit sy ''MarkerTakeover'' t) (ov_etag version) c2 c'" by simp
          with 2 rd Some True local_time_quiet [OF 2(3)] show ?thesis
            unfolding expired_takeover_def by blast
        qed
        with ok loop Suc.prems show ?thesis by auto
      next
        case False
        from q try_takeover_quiet [OF tr False] have q': "quiet (conn m) c'" by (rule quiet_trans)
        obtain t c'' where lt: "local_time_ms c' = (t, c'')" by (cases "local_time_ms c'")
        from q' local_time_quiet [OF lt] have q'': "quiet (conn m) c''" by (rule quiet_trans)
        consider "m' = m\<lparr>conn := c''\<rparr>" | x where "x = c' \<or> x = c''"
          "wait_loop sy fuel start path (m\<lparr>conn := x\<rparr>) = Some (r, m')"
          using Suc.prems False lt unfolding loop by (auto split: if_splits)
        then show ?thesis
        proof cases
          case 1
          with q'' show ?thesis by simp
        next
          case (2 x)
          then have "quiet (conn m) x" using q' q'' by auto
          with Suc.IH [OF 2(2)] show ?thesis by (auto intro: quiet_trans)
        qed
      qed
    qed
  qed
qed simp

text \<open>C9: A waiting transaction takes a version over only when its lease is over: if waiting for a
  marker changes the store at all, then by one conditional write, with the empty commit, of a
  marker it read under that very ETag and whose deadline plus the grace period lies before the
  earliest time the store's clock can show; in every other case the wait changes nothing.\<close>

theorem wait_takes_over_expired_only:
  assumes "wait_for_marker sy fuel path m = Some (r, m')"
  shows "quiet (conn m) (conn m') \<or>
    (r \<and> (\<exists>c. quiet (conn m) c
        \<and> expired_takeover sy (fst (local_time_ms (conn m))) path (options m) c (conn m')))"
proof -
  obtain start c where s: "local_time_ms (conn m) = (start, c)" by (cases "local_time_ms (conn m)")
  with assms have "wait_loop sy fuel start path (m\<lparr>conn := c\<rparr>) = Some (r, m')"
    by (simp add: wait_for_marker_def)
  from wait_loop_takeover [OF this] local_time_quiet [OF s] show ?thesis
    by (auto simp: s intro: quiet_trans)
qed

definition demo_old_marker :: string where
  "demo_old_marker = sample_write (JObject [(''marker'', JObject [(''deadline'', JInt 0)])])"

definition demo_waiter :: manager where
  "demo_waiter = demo_manager\<lparr>conn := store ''t/v1'' demo_old_marker
     (demo_connector\<lparr>local_clock := \<lambda>n. 1000 + int n\<rparr>)\<rparr>"

lemma demo_old_marker_objects: "json_objects sample_parse demo_old_marker
    = [JObject [(''marker'', JObject [(''deadline'', JInt 0)])]]"
  using json_objects_sep [OF sample_codec, of "JObject [(''marker'', JObject [(''deadline'', JInt 0)])]" "[]"]
  by (simp add: demo_old_marker_def del: sample_write.simps)

lemma wait_takes_over_expired_only_witness:
  "\<exists>m'. wait_for_marker demo_sys 1 ''t/v1'' demo_waiter = Some (True, m') \<and>
    (quiet (conn demo_waiter) (conn m') \<or>
     (\<exists>c. quiet (conn demo_waiter) c \<and> expired_takeover demo_sys
        (fst (local_time_ms (conn demo_waiter))) ''t/v1'' (options demo_waiter) c (conn m')))"
proof -
  have o: "json_objects (sy_parse demo_sys) demo_old_marker
      = [JObject [(''marker'', JObject [(''deadline'', JInt 0)])]]"
    using demo_old_marker_objects by (simp add: demo_sys_def)
  obtain m' where w: "wait_for_marker demo_sys 1 ''t/v1'' demo_waiter = Some (True, m')"
    using o
    by (simp add: wait_for_marker_def demo_waiter_def demo_manager_def manager_new_def store_def
        demo_connector_def clock_time_def local_time_ms_def put_object_def mc_read_versioned_def
        should_fail_def lookup_object_def is_marker_line_def member_object_def marker_deadline_def
        member_int64_def in_int64_def try_takeover_def store_time_def earliest_def default_options_def
        mc_write_if_match_def Let_def)
  from wait_takes_over_expired_only [OF w] w show ?thesis by auto
qed

section \<open>Waiting ends\<close>

lemma calm_read_versioned:
  assumes "calm c" "mc_read_versioned p c = ((content, version), c')"
  shows "mem c' = mem c \<and> calm c' \<and> clock_reads c' = clock_reads c \<and> local_clock c' = local_clock c
    \<and> (content \<noteq> None \<longrightarrow> etag_at (mem c) p = Some (ov_etag version))"
  using assms
  by (auto simp: mc_read_versioned_def calm_should_fail lookup_object_def etag_at_def calm_def
      split: option.splits)

lemma calm_try_takeover:
  assumes "calm c" "etag_at (mem c) path = Some etag" "try_takeover sy path etag at c = ((status, now), c')"
  shows "(status = None \<or> status = Some Ok) \<and> calm c' \<and> clock_reads c \<le> clock_reads c'
    \<and> local_clock c' = local_clock c"
  using assms(3)
proof (cases rule: try_takeover_cases)
  case (1 c1)
  with assms(1) show ?thesis
    by (auto simp: store_time_def clock_time_def local_time_ms_def calm_def split: option.splits)
next
  case (2 c1 t c2 s)
  have m: "mem c2 = mem c" "calm c2" "clock_reads c \<le> clock_reads c2" "local_clock c2 = local_clock c"
    using assms(1) 2
    by (auto simp: store_time_def clock_time_def local_time_ms_def calm_def split: option.splits)
  then obtain ob where "lookup_object path c2 = Some ob" "obj_etag ob = etag"
    using assms(2) by (auto simp: lookup_object_def etag_at_def)
  with 2 m show ?thesis
    by (auto simp: mc_write_if_match_def calm_should_fail Let_def store_def clock_time_def
        local_time_ms_def calm_def split: option.splits)
qed

lemma clock_gap:
  assumes "\<And>n. (f n :: int) < f (Suc n)" "a \<le> b"
  shows "f a + int (b - a) \<le> f b"
  using assms(2)
proof (induction b rule: dec_induct)
  case (step b)
  with assms(1) [of b] show ?case by simp
qed simp

lemma wait_loop_returns:
  assumes mono: "\<And>n. f n < f (Suc n)"
    and "\<And>c objs. \<exists>m'. finish_wait sy path objs (m\<lparr>conn := c\<rparr>) = Some (True, m')"
    and "calm (conn m)" "local_clock (conn m) = f" "reads \<le> clock_reads (conn m)"
    and G: "G = int (marker_lease_ms (options m)) + int (marker_grace_ms (options m)) + 60000"
    and "G + 2 \<le> int fuel + int (clock_reads (conn m) - reads)" "int (clock_reads (conn m) - reads) \<le> G + 1"
  shows "\<exists>r m'. wait_loop sy fuel (f reads) path m = Some (r, m')"
  using assms(2-)
proof (induction fuel arbitrary: m)
  case (Suc fuel)
  obtain content version c where rd: "mc_read_versioned path (conn m) = ((content, version), c)"
    by (metis prod.collapse)
  note c = calm_read_versioned [OF Suc.prems(2) rd]
  show ?case
  proof (cases content)
    case None
    with rd show ?thesis by auto
  next
    case (Some body)
    show ?thesis
    proof (cases "list_ex is_marker_line (json_objects (sy_parse sy) body)")
      case False
      with rd Some have "wait_loop sy (Suc fuel) (f reads) path m
          = finish_wait sy path (json_objects (sy_parse sy) body) (m\<lparr>conn := c\<rparr>)" by simp
      with Suc.prems(1) [of "json_objects (sy_parse sy) body" c] show ?thesis by auto
    next
      case True
      define at where "at = takeover_deadline (f reads) (json_objects (sy_parse sy) body) version (options m)
        + int (marker_grace_ms (options m))"
      obtain status now c' where tr: "try_takeover sy path (ov_etag version) at c = ((status, now), c')"
        by (metis prod.collapse)
      from c Some have e: "calm c" "etag_at (mem c) path = Some (ov_etag version)" by auto
      note t = calm_try_takeover [OF e tr]
      let ?c = "c'\<lparr>clock_reads := Suc (clock_reads c')\<rparr>"
      have lt: "local_time_ms c' = (f (clock_reads c'), ?c)"
        using t c Suc.prems(3) by (simp add: local_time_ms_def)
      have loop: "wait_loop sy (Suc fuel) (f reads) path m =
        (if status = Some Ok then Some (True, m\<lparr>conn := c'\<rparr>)
         else if G < f (clock_reads c') - f reads then Some (False, m\<lparr>conn := ?c\<rparr>)
         else wait_loop sy fuel (f reads) path (m\<lparr>conn := ?c\<rparr>))"
        using rd Some True tr t by (auto simp: takeover_deadline_def at_def Let_def lt Suc.prems(5))
      show ?thesis
      proof (cases "status = Some Ok \<or> G < f (clock_reads c') - f reads")
        case True
        then show ?thesis using loop by auto
      next
        case False
        have le: "reads \<le> clock_reads c'" using t c Suc.prems(4) by simp
        with clock_gap [of f, OF mono le] False have "int (clock_reads c' - reads) \<le> G" by simp
        moreover have "clock_reads (conn m) \<le> clock_reads c'" using t c by simp
        ultimately have "\<exists>r m'. wait_loop sy fuel (f reads) path (m\<lparr>conn := ?c\<rparr>) = Some (r, m')"
          using Suc.prems t c le
          by (intro Suc.IH) (auto simp: calm_def)
        then show ?thesis using loop False by simp
      qed
    qed
  qed
next
  case 0
  then show ?case by simp
qed

lemma parseEntry_frame:
  "parseEntry sy v l k m = (x, m') \<Longrightarrow> tables m' = tables m \<and> level2 m' = level2 m"
  by (auto simp: parseEntry_def Let_def split: option.splits if_splits)

lemma finish_wait_returns:
  assumes "parse_log_version path = Inr v" "get_table (marker_table_id path m) m \<noteq> None"
  shows "\<exists>m'. finish_wait sy path objs (m\<lparr>conn := c\<rparr>) = Some (True, m')"
proof -
  have i: "marker_table_id path (m\<lparr>conn := c\<rparr>) = marker_table_id path m"
    "get_table i (m\<lparr>conn := c\<rparr>) = get_table i m" for i
    by (simp_all add: marker_table_id_def get_table_def)
  show ?thesis
    using assms by (auto simp: finish_wait_def i Let_def split: prod.splits)
qed

text \<open>C16: Waiting for a marker always ends, even for one that is never released: without faults
  and while the local clock advances, a number of rounds that depends only on the lease and
  grace period in milliseconds is enough fuel.\<close>

theorem wait_for_marker_returns:
  assumes "calm (conn m)" and "\<And>n. local_clock (conn m) n < local_clock (conn m) (Suc n)"
    and "parse_log_version path = Inr v" and "get_table (marker_table_id path m) m \<noteq> None"
    and "marker_lease_ms (options m) + marker_grace_ms (options m) + 60002 \<le> fuel"
  shows "\<exists>r m'. wait_for_marker sy fuel path m = Some (r, m')"
proof -
  let ?f = "local_clock (conn m)" and ?n = "clock_reads (conn m)"
  let ?m = "m\<lparr>conn := (conn m)\<lparr>clock_reads := Suc ?n\<rparr>\<rparr>"
  have fin: "\<exists>m'. finish_wait sy path objs (?m\<lparr>conn := c\<rparr>) = Some (True, m')" for c objs
    using finish_wait_returns [OF assms(3,4), of sy objs c] by simp
  have loop: "\<exists>r m'. wait_loop sy fuel (?f ?n) path ?m = Some (r, m')"
    by (rule wait_loop_returns [where m = "?m" and f = "?f" and reads = "?n" and
          G = "int (marker_lease_ms (options m)) + int (marker_grace_ms (options m)) + 60000"])
       (use assms(1,2,5) fin in \<open>simp_all add: calm_def\<close>)
  show ?thesis using loop by (simp add: wait_for_marker_def local_time_ms_def)
qed

lemma wait_for_marker_returns_witness:
  "\<exists>r m'. wait_for_marker demo_sys 90102 (version_path ''t/'' 1)
     (demo_waiter\<lparr>tables := [table_stats_new ''t/'']\<rparr>) = Some (r, m')"
proof (rule wait_for_marker_returns [where v = "Some 1"])
  show "parse_log_version (version_path ''t/'' 1) = Inr (Some 1)"
    unfolding parse_log_version_iff version_path_def by auto
qed (auto simp: demo_waiter_def demo_manager_def manager_new_def demo_connector_def store_def calm_def
    clock_time_def local_time_ms_def default_options_def get_table_def marker_table_id_def)

end
