(* ===== verification/Calm.thy ===== *)
theory Calm
  imports Leases
begin

text \<open>
  The connector without faults and without other clients: every operation has its plain effect on
  the contents of the objects.
\<close>

definition calm_store :: "connector \<Rightarrow> bool" where
  "calm_store c \<longleftrightarrow> calm c \<and> smap_ok (objects (mem c))"

lemma mc_get_mem: "mem c' = mem c \<Longrightarrow> mc_get p c' = mc_get p c"
  by (simp add: mc_get_def lookup_object_def)

lemma calm_store_quiet:
  "quiet c c' \<Longrightarrow> calm_store c \<Longrightarrow> calm_store c' \<and> mem c' = mem c \<and> mc_get p c' = mc_get p c"
  using calm_quiet [of c c'] mc_get_mem [of c' c p] by (simp add: calm_store_def)

lemma mc_get_put: "mem c' = put_object p d t (mem c) \<Longrightarrow> mc_get q c' = (if q = p then Some d else mc_get q c)"
  by (simp add: mc_get_def lookup_object_def put_object_def)

lemma store_fields [simp]:
  "fail_hook (store p d c) = fail_hook c" "same_env c (store p d c)"
  using store_env [of c p d] by (auto simp: same_env_def)

lemma calm_write:
  assumes "calm_store c" "mc_write p d c = (r, c')"
  shows "r \<and> calm_store c' \<and> mc_get q c' = (if q = p then Some d else mc_get q c)"
proof -
  obtain t where t: "mem (store p d c) = put_object p d t (mem c)" using store_mem by blast
  from assms obtain n where "r" "c' = (store p d c)\<lparr>bytes_write := n\<rparr>"
    by (auto simp: mc_write_def calm_store_def calm_should_fail Let_def)
  moreover from t assms(1) have "smap_ok (objects (mem (store p d c)))"
    by (simp add: calm_store_def put_object_def)
  ultimately show ?thesis using mc_get_put [of c' p d t c] t assms(1)
    by (simp add: calm_store_def calm_def)
qed

lemma calm_create:
  assumes "calm_store c" "mc_write_atomic p d c = ((s, e), c')"
  shows "s = (if mc_get p c = None then Ok else AlreadyExists) \<and> calm_store c'
    \<and> mc_get q c' = (if q = p \<and> mc_get p c = None then Some d else mc_get q c)"
proof (cases "lookup_object p c")
  case None
  from calm_write_atomic [OF _ None assms(2)] assms(1) obtain t
    where s: "s = Ok" "calm c'" "mem c' = put_object p d t (mem c)" by (auto simp: calm_store_def)
  moreover have "smap_ok (objects (mem c'))" using s(3) assms(1) by (simp add: calm_store_def put_object_def)
  ultimately show ?thesis using None mc_get_put [OF s(3)] by (simp add: calm_store_def mc_get_def)
next
  case (Some ob)
  with assms have "s = AlreadyExists" "c' = c"
    by (auto simp: mc_write_atomic_def calm_store_def calm_should_fail)
  with Some assms(1) show ?thesis by (simp add: mc_get_def)
qed

lemma calm_read2:
  assumes "calm_store c" "mc_read2 p c = (r, c')"
  shows "r = mc_get p c \<and> calm_store c' \<and> mc_get q c' = mc_get q c"
proof -
  from assms have "r = mc_get p c"
    by (auto simp: mc_read2_def mc_get_def calm_store_def calm_should_fail split: option.splits)
  with calm_store_quiet [OF mc_read2_quiet [OF assms(2)] assms(1)] show ?thesis by simp
qed

lemma calm_exists:
  assumes "calm_store c" "mc_check p c = (r, c')"
  shows "(r \<longleftrightarrow> mc_get p c \<noteq> None) \<and> calm_store c' \<and> mc_get q c' = mc_get q c"
  using calm_check [of c p r c'] calm_store_quiet [OF mc_check_quiet [OF assms(2)] assms(1)] assms
  by (simp add: calm_store_def mc_get_def)

lemma calm_delete:
  assumes "calm_store c" "mc_delete_file p c = (r, c')"
  shows "r \<and> calm_store c' \<and> mc_get q c' = (if q = p then None else mc_get q c)"
  using assms by (auto simp: mc_delete_file_def calm_store_def calm_should_fail calm_def mc_get_def lookup_object_def)

lemma calm_time:
  assumes "calm_store c" "local_time_ms c = (t, c')"
  shows "calm_store c' \<and> mc_get q c' = mc_get q c"
  using calm_store_quiet [OF local_time_quiet [OF assms(2)] assms(1)] by simp

section \<open>On a manager\<close>

text \<open>The contents of the objects, and the operations on them.\<close>

definition contents :: "connector \<Rightarrow> string \<rightharpoonup> string" where
  "contents c = (\<lambda>p. mc_get p c)"

lemma calm_checkE:
  assumes "calm_store (conn m)"
  obtains c where "with_conn (mc_check p) m = (contents (conn m) p \<noteq> None, m\<lparr>conn := c\<rparr>)"
    "calm_store c" "contents c = contents (conn m)"
proof -
  obtain r c where c: "mc_check p (conn m) = (r, c)" by (cases "mc_check p (conn m)")
  with calm_exists [OF assms c] that show ?thesis by (simp add: with_conn_def contents_def)
qed

lemma calm_readE:
  assumes "calm_store (conn m)"
  obtains c where "with_conn (mc_read2 p) m = (contents (conn m) p, m\<lparr>conn := c\<rparr>)"
    "calm_store c" "contents c = contents (conn m)"
proof -
  obtain r c where c: "mc_read2 p (conn m) = (r, c)" by (cases "mc_read2 p (conn m)")
  with calm_read2 [OF assms c] that show ?thesis by (simp add: with_conn_def contents_def)
qed

lemma calm_timeE:
  assumes "calm_store (conn m)"
  obtains t c where "with_conn local_time_ms m = (t, m\<lparr>conn := c\<rparr>)"
    "calm_store c" "contents c = contents (conn m)"
proof -
  obtain t c where c: "local_time_ms (conn m) = (t, c)" by (cases "local_time_ms (conn m)")
  with calm_time [OF assms c] that show ?thesis by (simp add: with_conn_def contents_def)
qed

lemma calm_create_freeE:
  assumes "calm_store (conn m)" "contents (conn m) p = None"
  obtains e c where "with_conn (mc_write_atomic p d) m = ((Ok, e), m\<lparr>conn := c\<rparr>)"
    "calm_store c" "contents c = (contents (conn m))(p \<mapsto> d)"
proof -
  obtain s e c where c: "mc_write_atomic p d (conn m) = ((s, e), c)" by (metis prod.collapse)
  with calm_create [OF assms(1) c] assms(2) that show ?thesis by (simp add: with_conn_def contents_def fun_eq_iff)
qed

lemma calm_create_heldE:
  assumes "calm_store (conn m)" "contents (conn m) p = Some h"
  obtains e c where "with_conn (mc_write_atomic p d) m = ((AlreadyExists, e), m\<lparr>conn := c\<rparr>)"
    "calm_store c" "contents c = contents (conn m)"
proof -
  obtain s e c where c: "mc_write_atomic p d (conn m) = ((s, e), c)" by (metis prod.collapse)
  with calm_create [OF assms(1) c] assms(2) that show ?thesis by (simp add: with_conn_def contents_def fun_eq_iff)
qed

lemma calm_deleteE:
  assumes "calm_store (conn m)"
  obtains c where "with_conn (mc_delete_file p) m = (True, m\<lparr>conn := c\<rparr>)"
    "calm_store c" "contents c = (contents (conn m))(p := None)"
proof -
  obtain r c where c: "mc_delete_file p (conn m) = (r, c)" by (cases "mc_delete_file p (conn m)")
  with calm_delete [OF assms c] that show ?thesis by (simp add: with_conn_def contents_def fun_eq_iff)
qed

lemma read_retry_loop_calm:
  "calm_store c \<Longrightarrow> read_retry_loop n p c = (r, c') \<Longrightarrow> 0 < n \<or> mc_get p c = None \<Longrightarrow>
   r = mc_get p c \<and> calm_store c' \<and> mc_get q c' = mc_get q c"
proof (induction n arbitrary: c)
  case (Suc n)
  obtain x c1 where x: "mc_read2 p c = (x, c1)" by (cases "mc_read2 p c")
  from calm_read2 [OF Suc.prems(1) x] have c1: "x = mc_get p c" "calm_store c1" "\<And>q. mc_get q c1 = mc_get q c"
    by auto
  show ?case
  proof (cases x)
    case None
    with Suc.prems x have "read_retry_loop n p c1 = (r, c')" by simp
    from Suc.IH [OF c1(2) this] None c1 show ?thesis by simp
  next
    case (Some d)
    with Suc.prems x have "r = Some d" "c' = c1" by auto
    with Some c1 show ?thesis by simp
  qed
qed simp

lemma calm_read_retryE:
  assumes "calm_store (conn m)" "0 < storage_retries m"
  obtains c where "read_retry p m = (contents (conn m) p, m\<lparr>conn := c\<rparr>)"
    "calm_store c" "contents c = contents (conn m)"
proof -
  obtain r c where c: "read_retry_loop (storage_retries m) p (conn m) = (r, c)"
    by (cases "read_retry_loop (storage_retries m) p (conn m)")
  with read_retry_loop_calm [OF assms(1) c] assms(2) that show ?thesis
    by (simp add: with_conn_def contents_def read_retry_def)
qed

end
