(* ===== verification/GlobalLog.thy ===== *)
theory GlobalLog
  imports Calm
begin

text \<open>
  The global version log of level 2 (\<open>ManagerDeltaLake.cpp\<close>: \<open>parse_global_line\<close>,
  \<open>parse_global_snapshots\<close>, \<open>acquire_global_lock\<close>, \<open>release_global_lock\<close>, \<open>start_validation\<close>,
  \<open>create_global_snapshot\<close>, \<open>update_global_entry\<close>, \<open>classify_version\<close>, \<open>repair_global_log\<close>,
  \<open>skip_foreign_versions\<close>): an object with a line per table, its path and the last committed
  version, rewritten as a whole under a lock object.  An unordered map is the list of its entries
  in the order of insertion; the steady clock is a function of the number of its readings, in
  nanoseconds.
\<close>

text \<open>\<open>insert\<close> of an unordered map: an entry that exists is kept.\<close>

definition insert_new :: "'k \<Rightarrow> 'v \<Rightarrow> ('k \<times> 'v) list \<Rightarrow> ('k \<times> 'v) list" where
  "insert_new k v l = (if map_of l k = None then l @ [(k, v)] else l)"

lemma map_of_insert_new [simp, map_simps]:
  "map_of (insert_new k v l) q = (if q = k \<and> map_of l k = None then Some v else map_of l q)"
  by (auto simp: insert_new_def map_add_def split: option.splits)

section \<open>Lines of the global log\<close>

definition parse_global_line :: "string \<Rightarrow> (string \<times> nat) option" where
  "parse_global_line line =
     (case rfind_sub '' '' line of
        None \<Rightarrow> None
      | Some pos \<Rightarrow>
          if pos = 0 then None
          else map_option (\<lambda>version. (take pos line, u32 version)) (stoul (drop (pos + 1) line)))"

definition global_line :: "string \<times> nat \<Rightarrow> string" where
  "global_line e = fst e @ '' '' @ dec (snd e) @ [newline]"

definition global_entries :: "string \<Rightarrow> (string \<times> nat) list" where
  "global_entries text = List.map_filter parse_global_line (getlines text)"

definition parse_global_snapshots :: "manager \<Rightarrow> bool \<times> manager" where
  "parse_global_snapshots m =
     (if \<not> level2 m then (True, m)
      else let (exists, m) = with_conn (mc_check (global_log_path m)) m
           in if \<not> exists then (False, m)
              else let (content, m) = read_retry (global_log_path m) m
                   in case content of
                        None \<Rightarrow> (True, m)
                      | Some text \<Rightarrow>
                          (True, m\<lparr>local_log := fold (\<lambda>(path, v) l. insert_new path v l)
                                                 (global_entries text) (local_log m)\<rparr>))"

fun write_retry_loop :: "nat \<Rightarrow> string \<Rightarrow> string \<Rightarrow> connector \<Rightarrow> bool \<times> connector" where
  "write_retry_loop 0 path text c = (False, c)"
| "write_retry_loop (Suc n) path text c =
     (case mc_write path text c of
        (True, c) \<Rightarrow> (True, c)
      | (False, c) \<Rightarrow> write_retry_loop n path text c)"

section \<open>Rewriting one entry\<close>

definition current_entry :: "string \<Rightarrow> (string \<times> nat) list \<Rightarrow> nat option" where
  "current_entry table_path es =
     fold (\<lambda>e current. if fst e = table_path then Some (snd e) else current) es None"

text \<open>The entries written back: the first entry of the table gets the new version, further ones are
  dropped; the flag says whether it was written.\<close>

fun replaced_entries ::
    "string \<Rightarrow> nat option \<Rightarrow> bool \<Rightarrow> (string \<times> nat) list \<Rightarrow> (string \<times> nat) list \<times> bool" where
  "replaced_entries table_path next fe [] = ([], fe)"
| "replaced_entries table_path next fe (e # es) =
     (if fst e \<noteq> table_path
      then let (r, f) = replaced_entries table_path next fe es in (e # r, f)
      else case next of
             Some v \<Rightarrow>
               if \<not> fe
               then let (r, f) = replaced_entries table_path next True es in ((fst e, v) # r, f)
               else replaced_entries table_path next fe es
           | None \<Rightarrow> replaced_entries table_path next fe es)"

definition updated_entries ::
    "string \<Rightarrow> nat option \<Rightarrow> (string \<times> nat) list \<Rightarrow> (string \<times> nat) list" where
  "updated_entries table_path next es =
     (let (r, fe) = replaced_entries table_path next False es
      in case next of Some v \<Rightarrow> if fe then r else r @ [(table_path, v)] | None \<Rightarrow> r)"

definition update_global_entry ::
    "string \<Rightarrow> (nat option \<Rightarrow> nat option) \<Rightarrow> manager \<Rightarrow> bool \<times> manager" where
  "update_global_entry table_path update m =
     (let (exists, m) = with_conn (mc_check (global_log_path m)) m;
          (content, m) = (if exists then read_retry (global_log_path m) m else (Some [], m))
      in case content of
           None \<Rightarrow> (False, m)
         | Some text \<Rightarrow>
             (let es = global_entries text;
                  current = current_entry table_path es;
                  next = update current
              in if next = current then (True, m)
                 else with_conn (write_retry_loop (storage_retries m) (global_log_path m)
                        (concat (map global_line (updated_entries table_path next es)))) m))"

section \<open>The lock\<close>

definition lock_token :: "nat \<Rightarrow> nat \<Rightarrow> int \<Rightarrow> string" where
  "lock_token txn random now = dec txn @ ''-'' @ hex random @ ''-'' @ dec_int now"

text \<open>The rounds of the lock loop: \<open>steady i\<close> is reading number \<open>i\<close> of the steady clock, of which the
  first is the start; \<open>observed\<close> is the token seen last and the time it was first seen.\<close>

fun lock_loop ::
    "nat \<Rightarrow> (nat \<Rightarrow> int) \<Rightarrow> nat \<Rightarrow> string \<Rightarrow> string \<times> int \<Rightarrow> manager \<Rightarrow> (bool \<times> manager) option" where
  "lock_loop 0 steady i token observed m = None"
| "lock_loop (Suc fuel) steady i token observed m =
     (let path = global_tmp_log_path m;
          ((status, _), m) = with_conn (mc_write_atomic path token) m
      in if status = Ok then Some (True, m\<lparr>global_lock_token := token\<rparr>)
         else let now = steady i;
                  (current, m) = with_conn (mc_read2 path) m;
                  wait = (\<lambda>observed m.
                     if int (global_lock_timeout_ms m) * 1000000 < now - steady 0 then Some (False, m)
                     else lock_loop fuel steady (Suc i) token observed m)
              in case current of
                   None \<Rightarrow> wait observed m
                 | Some content \<Rightarrow>
                     if content = token then Some (True, m\<lparr>global_lock_token := token\<rparr>)
                     else if content \<noteq> fst observed then wait (content, now) m
                     else if int (global_lock_lease_ms m) * 1000000 < now - snd observed
                     then let (again, m) = with_conn (mc_read2 path) m;
                              m = (if again = Some (fst observed)
                                   then snd (with_conn (mc_delete_file path) m) else m)
                          in lock_loop fuel steady (Suc i) token ([], snd observed) m
                     else wait observed m)"

definition acquire_global_lock ::
    "nat \<Rightarrow> nat \<Rightarrow> (nat \<Rightarrow> int) \<Rightarrow> manager \<Rightarrow> (bool \<times> manager) option" where
  "acquire_global_lock fuel random steady m =
     (let (now, m) = with_conn local_time_ms m;
          token = lock_token (transaction_id m) random now
      in lock_loop fuel steady 1 token ([], steady 0) m)"

fun delete_retry_loop :: "nat \<Rightarrow> string \<Rightarrow> connector \<Rightarrow> bool \<times> connector" where
  "delete_retry_loop 0 path c = (False, c)"
| "delete_retry_loop (Suc n) path c =
     (case mc_delete_file path c of
        (True, c) \<Rightarrow> (True, c)
      | (False, c) \<Rightarrow> delete_retry_loop n path c)"

definition release_global_lock :: "manager \<Rightarrow> manager" where
  "release_global_lock m =
     (if global_lock_token m = [] then m
      else let path = global_tmp_log_path m;
               (current, m) = with_conn (mc_read2 path) m;
               m = (if current = Some (global_lock_token m)
                    then snd (with_conn (delete_retry_loop (storage_retries m) path) m) else m)
           in m\<lparr>global_lock_token := []\<rparr>)"

section \<open>Validation\<close>

datatype validation = Valid | Invalid | LockTimeout

type_synonym version_map = "(string \<times> nat) list"

definition read_versions :: "table_stats list \<Rightarrow> version_map \<Rightarrow> version_map" where
  "read_versions ts vr =
     fold (\<lambda>t l. insert_new (t_base_path t) (t_read_version t) l)
       (filter (\<lambda>t. t_created_files t = [] \<and> t_deleted_files t = []) ts) vr"

definition write_versions :: "table_stats list \<Rightarrow> version_map \<Rightarrow> version_map" where
  "write_versions ts vw =
     fold (\<lambda>t l. insert_new (t_base_path t) (t_marker_version t) l)
       (filter (\<lambda>t. \<not> (t_created_files t = [] \<and> t_deleted_files t = [])) ts) vw"

text \<open>The loop over the entries of the log; \<open>None\<close> is \<open>Invalid\<close>.\<close>

fun check_entries ::
    "bool \<Rightarrow> version_map \<Rightarrow> (string \<times> nat) list \<Rightarrow> version_map \<Rightarrow> version_map option" where
  "check_entries serializable vw [] vr = Some vr"
| "check_entries serializable vw ((path, version) # es) vr =
     (let newer = (case map_of vr path of Some v \<Rightarrow> v < version | None \<Rightarrow> False)
      in if newer \<and> serializable then None
         else let vr = (if newer then AList.update path version vr else vr)
              in case map_of vw path of
                   Some w \<Rightarrow> if w \<le> version then None else check_entries serializable vw es vr
                 | None \<Rightarrow> check_entries serializable vw es (insert_new path version vr))"

definition start_validation ::
    "nat \<Rightarrow> nat \<Rightarrow> (nat \<Rightarrow> int) \<Rightarrow> version_map \<Rightarrow> version_map \<Rightarrow> string \<Rightarrow> manager \<Rightarrow>
     ((validation \<times> version_map \<times> version_map \<times> string) \<times> manager) option" where
  "start_validation fuel random steady vr vw content m =
     (if \<not> level2 m then Some ((Valid, vr, vw, content), m)
      else let vr = read_versions (tables m) vr; vw = write_versions (tables m) vw
           in case acquire_global_lock fuel random steady m of
                None \<Rightarrow> None
              | Some (False, m) \<Rightarrow> Some ((LockTimeout, vr, vw, content), m)
              | Some (True, m) \<Rightarrow>
                  (let content = global_lock_token m;
                       (exists, m) = with_conn (mc_check (global_log_path m)) m
                   in if \<not> exists then Some ((Valid, vr, vw, content), m)
                      else let (log, m) = read_retry (global_log_path m) m
                           in case log of
                                None \<Rightarrow> Some ((Invalid, vr, vw, content), m)
                              | Some text \<Rightarrow>
                                  (case check_entries (isolation (options m) = Serializable) vw
                                          (global_entries text) vr of
                                     None \<Rightarrow> Some ((Invalid, vr, vw, content), m)
                                   | Some vr \<Rightarrow> Some ((Valid, vr, vw, content), m))))"

definition snapshot_entries :: "version_map \<Rightarrow> version_map \<Rightarrow> (string \<times> nat) list" where
  "snapshot_entries vr vw = filter (\<lambda>e. map_of vw (fst e) = None) vr @ vw"

definition create_global_snapshot ::
    "version_map \<Rightarrow> version_map \<Rightarrow> manager \<Rightarrow> bool \<times> manager" where
  "create_global_snapshot vr vw m =
     (if \<not> level2 m then (True, m)
      else let (written, m) = with_conn (write_retry_loop (storage_retries m) (global_log_path m)
                 (concat (map global_line (snapshot_entries vr vw)))) m
           in (written, release_global_lock m))"

section \<open>What a version of the log holds\<close>

datatype log_version = Missing | Marker | Empty | LakeVillaCommit | ForeignCommit

definition is_change :: "json \<Rightarrow> bool" where
  "is_change v \<longleftrightarrow> has_member ''add'' v \<or> has_member ''remove'' v"

definition by_lakevilla :: "json \<Rightarrow> bool" where
  "by_lakevilla info \<longleftrightarrow>
     (case member_string ''engineInfo'' info of
        Some name \<Rightarrow> starts_with ''LHTransactions'' (c_str name)
      | None \<Rightarrow> False)"

definition classify_lines :: "json list \<Rightarrow> log_version" where
  "classify_lines objs =
     (if list_ex (has_member ''marker'') objs then Marker
      else if \<not> list_ex is_change objs then Empty
      else if fold (\<lambda>v lakevilla. case member_object ''commitInfo'' v of
                                   Some info \<Rightarrow> by_lakevilla info
                                 | None \<Rightarrow> lakevilla) objs False
           then LakeVillaCommit else ForeignCommit)"

definition classify_version :: "sys \<Rightarrow> string \<Rightarrow> manager \<Rightarrow> log_version \<times> manager" where
  "classify_version sy path m =
     (let (content, m) = with_conn (mc_read2 path) m
      in case content of
           None \<Rightarrow> (Missing, m)
         | Some text \<Rightarrow> (classify_lines (json_objects (sy_parse sy) text), m))"

fun skip_foreign_versions ::
    "sys \<Rightarrow> nat \<Rightarrow> string \<Rightarrow> nat \<Rightarrow> manager \<Rightarrow> (nat \<times> manager) option" where
  "skip_foreign_versions sy 0 base version m = None"
| "skip_foreign_versions sy (Suc fuel) base version m =
     (let path = version_path base (u32 (version + 1));
          (exists, m) = with_conn (mc_check path) m
      in if \<not> exists then Some (version, m)
         else let (kind, m) = classify_version sy path m
              in if kind \<noteq> ForeignCommit \<and> kind \<noteq> Empty then Some (version, m)
                 else skip_foreign_versions sy fuel base (u32 (version + 1)) m)"

section \<open>Repairing the global log\<close>

definition can_repair_global_log :: "manager \<Rightarrow> bool" where
  "can_repair_global_log m \<longleftrightarrow>
     global_log_repair (options m) \<and> level2 m \<and> \<not> level0 m \<and> \<not> level1 m"

text \<open>The last version before a gap; \<open>Some None\<close> when a marker is running.\<close>

fun highest_version ::
    "sys \<Rightarrow> nat \<Rightarrow> string \<Rightarrow> nat \<Rightarrow> nat \<Rightarrow> manager \<Rightarrow> (nat option \<times> manager) option" where
  "highest_version sy 0 base v highest m = None"
| "highest_version sy (Suc fuel) base v highest m =
     (let (kind, m) = classify_version sy (version_path base v) m
      in if kind = Missing then Some (Some highest, m)
         else if kind = Marker then Some (None, m)
         else highest_version sy fuel base (u32 (v + 1)) v m)"

fun wait_for_versions ::
    "sys \<Rightarrow> nat \<Rightarrow> string \<Rightarrow> nat list \<Rightarrow> manager \<Rightarrow> manager option" where
  "wait_for_versions sy fuel base [] m = Some m"
| "wait_for_versions sy fuel base (v # vs) m =
     (case wait_for_marker sy fuel (version_path base v) m of
        None \<Rightarrow> None
      | Some (_, m) \<Rightarrow> wait_for_versions sy fuel base vs m)"

text \<open>For table \<open>i\<close>; \<open>first - 1\<close> wraps for version 0.\<close>

definition repair_global_log :: "sys \<Rightarrow> nat \<Rightarrow> nat \<Rightarrow> manager \<Rightarrow> (bool \<times> manager) option" where
  "repair_global_log sy fuel i m =
     (let first = t_marker_version (tables m ! i); base = t_base_path (tables m ! i)
      in case highest_version sy fuel base first (u32 (first + u32_max)) m of
           None \<Rightarrow> None
         | Some (None, m) \<Rightarrow> Some (False, m)
         | Some (Some highest, m) \<Rightarrow>
             if highest < first then Some (False, m)
             else let (written, m) = update_global_entry base
                        (\<lambda>current. Some (max (case current of Some v \<Rightarrow> v | None \<Rightarrow> 0) highest)) m
                  in if \<not> written then Some (False, m)
                     else (case wait_for_versions sy fuel base [first..<highest + 1] m of
                             None \<Rightarrow> None
                           | Some m \<Rightarrow>
                               (case reserve_version sy fuel ((tables m ! i)\<lparr>t_read_version := highest\<rparr>)
                                       highest m of
                                  None \<Rightarrow> None
                                | Some ((ok, t, _), m) \<Rightarrow> Some (ok, set_table i t m))))"


section \<open>Writing and reading the global log\<close>

lemma rfind_sub_absent: "c \<notin> set s \<Longrightarrow> rfind_sub [c] s = None"
  by (induction s) (auto simp: starts_with_def)

lemma rfind_sub_single: "c \<notin> set t \<Longrightarrow> rfind_sub [c] (s @ c # t) = Some (length s)"
  using rfind_sub_append [of "[c]" "c # t" 0 s] by (simp add: rfind_sub_absent starts_with_def)

lemma dec_chars: "c \<in> set (dec n) \<Longrightarrow> is_digit c"
  using dec_digits [of n] by (simp add: list_all_iff)

lemma dec_no_space [simp]: "CHR '' '' \<notin> set (dec n)" "newline \<notin> set (dec n)"
  using dec_chars [of "CHR '' ''" n] dec_chars [of newline n] by (auto simp: is_digit_def digits_def newline_def)

text \<open>An entry that can be written: its path is not empty and has no newline, and the version is
  a uint32.\<close>

definition entry_ok :: "string \<times> nat \<Rightarrow> bool" where
  "entry_ok e \<longleftrightarrow> fst e \<noteq> [] \<and> newline \<notin> set (fst e) \<and> snd e < 2 ^ 32"

lemma parse_global_line_dec:
  "entry_ok e \<Longrightarrow> parse_global_line (fst e @ '' '' @ dec (snd e)) = Some e"
  by (simp add: parse_global_line_def rfind_sub_single entry_ok_def stoul_dec u32_id)

lemma global_entries_lines: "list_all entry_ok es \<Longrightarrow> global_entries (concat (map global_line es)) = es"
proof (induction es)
  case (Cons e es)
  have l: "global_line e @ x = (fst e @ '' '' @ dec (snd e)) @ newline # x" for x
    by (simp add: global_line_def)
  from Cons.prems have "newline \<notin> set (fst e @ '' '' @ dec (snd e))"
    by (simp add: entry_ok_def) (simp add: newline_def)
  then have "getlines (global_line e @ x) = (fst e @ '' '' @ dec (snd e)) # getlines x" for x
    unfolding l by (rule getlines_line)
  with Cons show ?case by (simp add: global_entries_def List.map_filter_simps parse_global_line_dec [simplified])
qed (simp add: global_entries_def List.map_filter_simps)

lemma getlines_acc_no_newline: "newline \<notin> set acc \<Longrightarrow> l \<in> set (getlines_acc acc s) \<Longrightarrow> newline \<notin> set l"
  by (induction acc s rule: getlines_acc.induct) (auto split: if_splits)

lemma parse_global_line_ok: "newline \<notin> set l \<Longrightarrow> parse_global_line l = Some e \<Longrightarrow> entry_ok e"
  using rfind_sub_Some [of "'' ''" l]
  by (auto simp: parse_global_line_def entry_ok_def u32_def split: option.splits if_splits dest: in_set_takeD)

lemma global_entries_ok: "list_all entry_ok (global_entries text)"
  using getlines_acc_no_newline [of "[]"] parse_global_line_ok
  by (fastforce simp: global_entries_def getlines_def list_all_iff List.map_filter_def)

section \<open>One entry replaced\<close>

lemma replaced_entries_other:
  "filter (\<lambda>e. fst e \<noteq> p) (fst (replaced_entries p nx fe es)) = filter (\<lambda>e. fst e \<noteq> p) es"
  by (induction es arbitrary: fe) (auto simp: case_prod_beta' Let_def split: option.splits)

lemma replaced_entries_own:
  "replaced_entries p (Some v) fe es = (r, f) \<Longrightarrow>
   filter (\<lambda>e. fst e = p) r = (if f \<and> \<not> fe then [(p, v)] else []) \<and> (fe \<longrightarrow> f)"
  by (induction es arbitrary: r f fe) (auto split: prod.splits if_splits)

lemma replaced_entries_removed:
  "replaced_entries p None fe es = (r, f) \<Longrightarrow> filter (\<lambda>e. fst e = p) r = [] \<and> f = fe"
  by (induction es arbitrary: r f) (auto split: prod.splits if_splits)

lemma updated_entries_other:
  "filter (\<lambda>e. fst e \<noteq> p) (updated_entries p nx es) = filter (\<lambda>e. fst e \<noteq> p) es"
  using replaced_entries_other [of p nx False es]
  by (auto simp: updated_entries_def split: prod.splits option.splits)

lemma updated_entries_own:
  "filter (\<lambda>e. fst e = p) (updated_entries p nx es) = (case nx of Some v \<Rightarrow> [(p, v)] | None \<Rightarrow> [])"
proof (cases nx)
  case None
  then show ?thesis using replaced_entries_removed [of p False es]
    by (auto simp: updated_entries_def split: prod.splits)
next
  case (Some v)
  then show ?thesis using replaced_entries_own [of p v False es]
    by (auto simp: updated_entries_def split: prod.splits)
qed

lemma updated_entries_ok:
  assumes "list_all entry_ok es" "p \<noteq> []" "newline \<notin> set p" "\<And>v. nx = Some v \<Longrightarrow> v < 2 ^ 32"
  shows "list_all entry_ok (updated_entries p nx es)"
proof -
  have "entry_ok e" if e: "e \<in> set (updated_entries p nx es)" for e
  proof (cases "fst e = p")
    case True
    with e have "e \<in> set (filter (\<lambda>e. fst e = p) (updated_entries p nx es))" by simp
    with assms(2-4) show ?thesis by (auto simp: updated_entries_own entry_ok_def split: option.splits)
  next
    case False
    with e have "e \<in> set (filter (\<lambda>e. fst e \<noteq> p) (updated_entries p nx es))" by simp
    with assms(1) show ?thesis by (simp add: updated_entries_other list_all_iff)
  qed
  then show ?thesis by (simp add: list_all_iff)
qed

lemma current_entry_last:
  "current_entry p es = map_option snd (if filter (\<lambda>e. fst e = p) es = [] then None
     else Some (last (filter (\<lambda>e. fst e = p) es)))"
  unfolding current_entry_def by (induction es rule: rev_induct) auto

lemma current_entry_updated: "current_entry p (updated_entries p nx es) = nx"
  by (simp add: current_entry_last updated_entries_own split: option.splits)

lemma current_entry_filter:
  "p \<noteq> q \<Longrightarrow> filter (\<lambda>e. fst e = q) (filter (\<lambda>e. fst e \<noteq> p) es) = filter (\<lambda>e. fst e = q) es"
  by (induction es) auto

lemma current_entry_updated_other:
  "p \<noteq> q \<Longrightarrow> current_entry q (updated_entries p nx es) = current_entry q es"
  using current_entry_filter [of p q es] current_entry_filter [of p q "updated_entries p nx es"]
  by (simp add: current_entry_last updated_entries_other)


section \<open>The operations on a calm connector\<close>

lemma calm_write_retryE:
  assumes "calm_store (conn m)" "0 < n"
  obtains c where "with_conn (write_retry_loop n p d) m = (True, m\<lparr>conn := c\<rparr>)"
    "calm_store c" "contents c = (contents (conn m))(p \<mapsto> d)"
proof -
  obtain k where n: "n = Suc k" using assms(2) by (cases n) auto
  obtain b c where c: "mc_write p d (conn m) = (b, c)" by (cases "mc_write p d (conn m)")
  note w = calm_write [OF assms(1) c]
  from w have b by simp
  with c n have "with_conn (write_retry_loop n p d) m = (True, m\<lparr>conn := c\<rparr>)" by (simp add: with_conn_def)
  with w that show ?thesis by (simp add: contents_def fun_eq_iff)
qed

lemma calm_delete_retryE:
  assumes "calm_store (conn m)" "0 < n"
  obtains c where "with_conn (delete_retry_loop n p) m = (True, m\<lparr>conn := c\<rparr>)"
    "calm_store c" "contents c = (contents (conn m))(p := None)"
proof -
  obtain k where n: "n = Suc k" using assms(2) by (cases n) auto
  obtain b c where c: "mc_delete_file p (conn m) = (b, c)" by (cases "mc_delete_file p (conn m)")
  note w = calm_delete [OF assms(1) c]
  from w have b by simp
  with c n have "with_conn (delete_retry_loop n p) m = (True, m\<lparr>conn := c\<rparr>)" by (simp add: with_conn_def)
  with w that show ?thesis by (simp add: contents_def fun_eq_iff)
qed

text \<open>The entries of the global log in the store.\<close>

definition global_state :: "manager \<Rightarrow> (string \<times> nat) list" where
  "global_state m = global_entries (case contents (conn m) (global_log_path m) of Some t \<Rightarrow> t | None \<Rightarrow> [])"

lemma calm_global_readE:
  assumes "calm_store (conn m)" "0 < storage_retries m"
  obtains ex c m2 lt where "with_conn (mc_check (global_log_path m)) m = (ex, m\<lparr>conn := c\<rparr>)"
    "(if ex then read_retry (global_log_path m) (m\<lparr>conn := c\<rparr>) else (Some [], m\<lparr>conn := c\<rparr>))
       = (Some lt, m2)"
    "global_entries lt = global_state m" "ex \<longleftrightarrow> contents (conn m) (global_log_path m) \<noteq> None"
    "\<exists>c2. m2 = m\<lparr>conn := c2\<rparr> \<and> calm_store c2 \<and> contents c2 = contents (conn m)"
proof -
  let ?g = "global_log_path m"
  from calm_checkE [OF assms(1)] obtain c where c: "with_conn (mc_check ?g) m =
      (contents (conn m) ?g \<noteq> None, m\<lparr>conn := c\<rparr>)" "calm_store c" "contents c = contents (conn m)" .
  show ?thesis
  proof (cases "contents (conn m) ?g")
    case None
    with c that [of False c "[]" "m\<lparr>conn := c\<rparr>"] show ?thesis by (simp add: global_state_def) blast
  next
    case (Some t)
    from calm_read_retryE [of "m\<lparr>conn := c\<rparr>" ?g, simplified, OF c(2) assms(2)] obtain c2 where
      "read_retry ?g (m\<lparr>conn := c\<rparr>) = (contents c ?g, m\<lparr>conn := c2\<rparr>)" "calm_store c2"
      "contents c2 = contents c" .
    with Some c that [of True c t "m\<lparr>conn := c2\<rparr>"] show ?thesis by (simp add: global_state_def) blast
  qed
qed

section \<open>Rewriting an entry\<close>

lemma update_global_entry_run:
  assumes "calm_store (conn m)" and "0 < storage_retries m" and "p \<noteq> []" and "newline \<notin> set p"
    and "\<And>c v. upd c = Some v \<Longrightarrow> v < 2 ^ 32"
    and "update_global_entry p upd m = (r, m')"
  shows "r \<and> current_entry p (global_state m') = upd (current_entry p (global_state m))
    \<and> (\<forall>q. q \<noteq> p \<longrightarrow> current_entry q (global_state m') = current_entry q (global_state m))
    \<and> (\<forall>q. q \<noteq> global_log_path m \<longrightarrow> contents (conn m') q = contents (conn m) q)
    \<and> m' = m\<lparr>conn := conn m'\<rparr> \<and> calm_store (conn m')"
proof -
  let ?g = "global_log_path m" and ?es = "global_state m"
  from calm_global_readE [OF assms(1,2)] obtain ex c m2 lt where c:
    "with_conn (mc_check ?g) m = (ex, m\<lparr>conn := c\<rparr>)"
    "(if ex then read_retry ?g (m\<lparr>conn := c\<rparr>) else (Some [], m\<lparr>conn := c\<rparr>)) = (Some lt, m2)"
    "global_entries lt = ?es" "\<exists>c2. m2 = m\<lparr>conn := c2\<rparr> \<and> calm_store c2 \<and> contents c2 = contents (conn m)" .
  from c(4) obtain c2 where c2: "m2 = m\<lparr>conn := c2\<rparr>" "calm_store c2" "contents c2 = contents (conn m)" by blast
  show ?thesis
  proof (cases "upd (current_entry p ?es) = current_entry p ?es")
    case True
    with assms(6) c(1-3) c2 have "r \<and> m' = m2"
      by (cases ex) (auto simp: update_global_entry_def Let_def)
    moreover have "global_state m2 = ?es" by (simp add: global_state_def c2)
    ultimately show ?thesis using True c2 by simp
  next
    case False
    let ?new = "updated_entries p (upd (current_entry p ?es)) ?es"
    let ?d = "concat (map global_line ?new)"
    from calm_write_retryE [of m2 "storage_retries m" ?g ?d] c2 assms(2) obtain c3 where
      c3: "with_conn (write_retry_loop (storage_retries m) ?g ?d) m2 = (True, m2\<lparr>conn := c3\<rparr>)" "calm_store c3"
        "contents c3 = (contents (conn m2))(?g \<mapsto> ?d)" by auto
    with assms(6) c(1-3) c2 False have "r \<and> m' = m\<lparr>conn := c3\<rparr>"
      by (cases ex) (auto simp: update_global_entry_def Let_def)
    moreover have "global_state (m\<lparr>conn := c3\<rparr>) = ?new"
      using c3(3) global_entries_lines [OF updated_entries_ok [OF _ assms(3,4), of ?es "upd (current_entry p ?es)"]]
        global_entries_ok assms(5) by (simp add: global_state_def)
    ultimately show ?thesis using c3(2,3) c2
      by (simp add: current_entry_updated current_entry_updated_other)
  qed
qed

text \<open>Rewriting the entry of a table in the global log sets exactly that entry: without faults, and
  given a path that can be written, the log read back has the new version for the table (or no
  entry when it is removed), the version of every other table is as before, and no other object changes.\<close>

lemma update_global_entry_sets:
  assumes "calm_store (conn m)" and "0 < storage_retries m" and "p \<noteq> []" and "newline \<notin> set p"
    and "\<And>c v. upd c = Some v \<Longrightarrow> v < 2 ^ 32"
    and "update_global_entry p upd m = (r, m')"
  shows "r \<and> current_entry p (global_state m') = upd (current_entry p (global_state m))
    \<and> (\<forall>q. q \<noteq> p \<longrightarrow> current_entry q (global_state m') = current_entry q (global_state m))
    \<and> (\<forall>q. q \<noteq> global_log_path m \<longrightarrow> contents (conn m') q = contents (conn m) q)"
  using update_global_entry_run [OF assms(1-4) _ assms(6)] assms(5) by blast

definition global_manager :: "string \<Rightarrow> manager" where
  "global_manager log = demo_manager\<lparr>level2 := True, conn := mc_put ''g'' log demo_connector\<rparr>"

lemma global_manager_calm: "calm_store (conn (global_manager log))" "0 < storage_retries (global_manager log)"
  "contents (conn (global_manager log)) ''g'' = Some log"
  by (simp_all add: global_manager_def mc_put_def demo_connector_def store_def clock_time_def local_time_ms_def
      put_object_def calm_store_def calm_def contents_def mc_get_def lookup_object_def demo_manager_def manager_new_def)

lemma update_global_entry_sets_witness:
  "\<exists>r m'. update_global_entry ''a'' (\<lambda>_. Some 8) (global_manager ''a 7'') = (r, m')
     \<and> current_entry ''a'' (global_state m') = Some 8"
proof -
  obtain r m' where w: "update_global_entry ''a'' (\<lambda>_. Some 8) (global_manager ''a 7'') = (r, m')"
    by (cases "update_global_entry ''a'' (\<lambda>_. Some 8) (global_manager ''a 7'')")
  have "current_entry ''a'' (global_state m') = Some 8"
    using update_global_entry_sets [OF global_manager_calm(1,2) _ _ _ w] by (simp add: newline_def)
  with w show ?thesis by blast
qed

section \<open>The lock excludes\<close>

lemma lock_loop_live:
  assumes "\<And>i. steady i - steady 0 \<le> int (global_lock_lease_ms m0) * 1000000"
  shows "lock_loop fuel steady i token ob m = Some (b, m') \<Longrightarrow> calm_store (conn m) \<Longrightarrow>
    contents (conn m) (global_tmp_log_path m) = Some held \<Longrightarrow> held \<noteq> token \<Longrightarrow> steady 0 \<le> snd ob \<Longrightarrow>
    (\<And>i. steady 0 \<le> steady i) \<Longrightarrow> global_lock_lease_ms m = global_lock_lease_ms m0 \<Longrightarrow>
    \<not> b \<and> (\<exists>c. m' = m\<lparr>conn := c\<rparr> \<and> contents c = contents (conn m))"
proof (induction fuel arbitrary: i ob m)
  case (Suc fuel)
  let ?p = "global_tmp_log_path m"
  from calm_create_heldE [OF Suc.prems(2,3)] obtain e c where c: "with_conn (mc_write_atomic ?p token) m =
      ((AlreadyExists, e), m\<lparr>conn := c\<rparr>)" "calm_store c" "contents c = contents (conn m)" .
  from calm_readE [of "m\<lparr>conn := c\<rparr>" ?p, simplified, OF c(2)] obtain c2 where c2:
    "with_conn (mc_read2 ?p) (m\<lparr>conn := c\<rparr>) = (contents c ?p, m\<lparr>conn := c2\<rparr>)"
    "calm_store c2" "contents c2 = contents c" .
  have time: "\<not> int (global_lock_lease_ms m) * 1000000 < steady i - snd ob"
    using assms [of i] Suc.prems(5,7) by simp
  have held: "contents c ?p = Some held" using c Suc.prems(3) by simp
  let ?ob = "if held \<noteq> fst ob then (held, steady i) else ob"
  have "lock_loop (Suc fuel) steady i token ob m =
    (if int (global_lock_timeout_ms m) * 1000000 < steady i - steady 0 then Some (False, m\<lparr>conn := c2\<rparr>)
     else lock_loop fuel steady (Suc i) token ?ob (m\<lparr>conn := c2\<rparr>))"
    using Suc.prems(4) c2 c(1) time held by (simp add: Let_def)
  with Suc.prems(1) have run: "if int (global_lock_timeout_ms m) * 1000000 < steady i - steady 0
      then \<not> b \<and> m' = m\<lparr>conn := c2\<rparr>
      else lock_loop fuel steady (Suc i) token ?ob (m\<lparr>conn := c2\<rparr>) = Some (b, m')" by auto
  show ?case
  proof (cases "int (global_lock_timeout_ms m) * 1000000 < steady i - steady 0")
    case True
    with run c c2 show ?thesis by auto
  next
    case False
    with run have "lock_loop fuel steady (Suc i) token ?ob (m\<lparr>conn := c2\<rparr>) = Some (b, m')" by simp
    from Suc.IH [OF this] Suc.prems c c2 show ?thesis by auto
  qed
qed simp

lemma lock_loop_free:
  assumes "calm_store (conn m)" "contents (conn m) (global_tmp_log_path m) = None"
  obtains c where "lock_loop (Suc fuel) steady i token ob m =
      Some (True, m\<lparr>conn := c, global_lock_token := token\<rparr>)"
    "calm_store c" "contents c = (contents (conn m))(global_tmp_log_path m \<mapsto> token)"
proof -
  let ?p = "global_tmp_log_path m"
  from calm_create_freeE [OF assms] obtain e c where c: "with_conn (mc_write_atomic ?p token) m =
      ((Ok, e), m\<lparr>conn := c\<rparr>)" "calm_store c" "contents c = (contents (conn m))(?p \<mapsto> token)" .
  then have "lock_loop (Suc fuel) steady i token ob m = Some (True, m\<lparr>conn := c, global_lock_token := token\<rparr>)"
    by simp
  with c that show ?thesis by blast
qed

text \<open>With the round in which the steady clock passes the timeout, the loop has ended.\<close>

lemma lock_loop_returns:
  "calm_store (conn m) \<Longrightarrow> int (global_lock_timeout_ms m) * 1000000 < steady n - steady 0 \<Longrightarrow> i \<le> n \<Longrightarrow>
   n + 2 \<le> i + fuel \<Longrightarrow> \<exists>r m'. lock_loop fuel steady i token ob m = Some (r, m')"
proof (induction fuel arbitrary: i ob m)
  case (Suc fuel)
  let ?p = "global_tmp_log_path m"
  show ?case
  proof (cases "contents (conn m) ?p")
    case None
    from lock_loop_free [OF Suc.prems(1) this] show ?thesis by metis
  next
    case (Some held)
    from calm_create_heldE [OF Suc.prems(1) Some] obtain e c where c: "with_conn (mc_write_atomic ?p token) m =
        ((AlreadyExists, e), m\<lparr>conn := c\<rparr>)" "calm_store c" "contents c = contents (conn m)" .
    from calm_readE [of "m\<lparr>conn := c\<rparr>" ?p, simplified, OF c(2)] obtain c2 where c2:
      "with_conn (mc_read2 ?p) (m\<lparr>conn := c\<rparr>) = (contents c ?p, m\<lparr>conn := c2\<rparr>)"
      "calm_store c2" "contents c2 = contents c" .
    have held: "contents c ?p = Some held" using c Some by simp
    have next_round: "\<exists>r m'. (if int (global_lock_timeout_ms m) * 1000000 < steady i - steady 0
        then Some (False, m\<lparr>conn := c2\<rparr>) else lock_loop fuel steady (Suc i) token ob (m\<lparr>conn := c2\<rparr>)) = Some (r, m')"
      for ob
    proof (cases "i = n")
      case True
      with Suc.prems(2) show ?thesis by auto
    next
      case False
      with Suc.prems Suc.IH [of "m\<lparr>conn := c2\<rparr>" "Suc i" ob] c2(2) show ?thesis by auto
    qed
    consider "held = token" | "held \<noteq> token" "held \<noteq> fst ob"
      | "held \<noteq> token" "held = fst ob" "\<not> int (global_lock_lease_ms m) * 1000000 < steady i - snd ob"
      | "held \<noteq> token" "held = fst ob" "int (global_lock_lease_ms m) * 1000000 < steady i - snd ob" by blast
    then show ?thesis
    proof cases
      case 1
      with c c2 held show ?thesis by (auto simp: Let_def)
    next
      case 2
      with c(1) c2 held next_round [of "(held, steady i)"] show ?thesis by (simp add: Let_def)
    next
      case 3
      with c(1) c2 held next_round [of ob] show ?thesis by (simp add: Let_def)
    next
      case 4
      from calm_readE [of "m\<lparr>conn := c2\<rparr>" ?p, simplified, OF c2(2)] obtain c3 where c3:
        "with_conn (mc_read2 ?p) (m\<lparr>conn := c2\<rparr>) = (contents c2 ?p, m\<lparr>conn := c3\<rparr>)"
        "calm_store c3" "contents c3 = contents c2" .
      from calm_deleteE [of "m\<lparr>conn := c3\<rparr>" ?p, simplified, OF c3(2)] obtain c4 where c4:
        "with_conn (mc_delete_file ?p) (m\<lparr>conn := c3\<rparr>) = (True, m\<lparr>conn := c4\<rparr>)"
        "calm_store c4" "contents c4 = (contents c3)(?p := None)" .
      from 4 c(1) c2(1) c3 c4(1) held c2(3) have step: "lock_loop (Suc fuel) steady i token ob m =
          lock_loop fuel steady (Suc i) token ([], snd ob) (m\<lparr>conn := c4\<rparr>)" by (simp add: Let_def)
      obtain k where "fuel = Suc k" using Suc.prems(3,4) by (cases fuel) auto
      with lock_loop_free [of "m\<lparr>conn := c4\<rparr>" k steady "Suc i" token "([], snd ob)"] c4 step
      show ?thesis by simp metis
    qed
  qed
qed simp

text \<open>A round, whatever it finds, touches only the lock object.\<close>

lemma lock_round:
  assumes "calm_store (conn m)"
  obtains c b ob' where "calm_store c"
    "\<forall>q. q \<noteq> global_tmp_log_path m \<longrightarrow> contents c q = contents (conn m) q"
    "lock_loop (Suc fuel) steady i token ob m =
       (case b of Some True \<Rightarrow> Some (True, m\<lparr>conn := c, global_lock_token := token\<rparr>)
        | Some False \<Rightarrow> Some (False, m\<lparr>conn := c\<rparr>)
        | None \<Rightarrow> lock_loop fuel steady (Suc i) token ob' (m\<lparr>conn := c\<rparr>))"
proof (cases "contents (conn m) (global_tmp_log_path m)")
  case None
  from lock_loop_free [OF assms None] obtain c where "lock_loop (Suc fuel) steady i token ob m =
      Some (True, m\<lparr>conn := c, global_lock_token := token\<rparr>)"
    "calm_store c" "contents c = (contents (conn m))(global_tmp_log_path m \<mapsto> token)" .
  then show ?thesis using that [of c ob "Some True"] by simp
next
  case (Some held)
  let ?p = "global_tmp_log_path m"
  from calm_create_heldE [OF assms Some] obtain e c where c: "with_conn (mc_write_atomic ?p token) m =
      ((AlreadyExists, e), m\<lparr>conn := c\<rparr>)" "calm_store c" "contents c = contents (conn m)" .
  from calm_readE [of "m\<lparr>conn := c\<rparr>" ?p, simplified, OF c(2)] obtain c2 where c2:
    "with_conn (mc_read2 ?p) (m\<lparr>conn := c\<rparr>) = (contents c ?p, m\<lparr>conn := c2\<rparr>)"
    "calm_store c2" "contents c2 = contents c" .
  have held: "contents c ?p = Some held" using c Some by simp
  let ?late = "int (global_lock_timeout_ms m) * 1000000 < steady i - steady 0"
  consider "held = token" | "held \<noteq> token" "held \<noteq> fst ob"
    | "held \<noteq> token" "held = fst ob" "\<not> int (global_lock_lease_ms m) * 1000000 < steady i - snd ob"
    | "held \<noteq> token" "held = fst ob" "int (global_lock_lease_ms m) * 1000000 < steady i - snd ob" by blast
  then show ?thesis
  proof cases
    case 1
    with c c2 held that [of c2 ob "Some True"] show ?thesis by (simp add: Let_def)
  next
    case 2
    with c c2 held that [of c2 "(held, steady i)" "if ?late then Some False else None"] show ?thesis
      by (simp add: Let_def)
  next
    case 3
    with c c2 held that [of c2 ob "if ?late then Some False else None"] show ?thesis
      by (simp add: Let_def)
  next
    case 4
    from calm_readE [of "m\<lparr>conn := c2\<rparr>" ?p, simplified, OF c2(2)] obtain c3 where c3:
      "with_conn (mc_read2 ?p) (m\<lparr>conn := c2\<rparr>) = (contents c2 ?p, m\<lparr>conn := c3\<rparr>)"
      "calm_store c3" "contents c3 = contents c2" .
    from calm_deleteE [of "m\<lparr>conn := c3\<rparr>" ?p, simplified, OF c3(2)] obtain c4 where c4:
      "with_conn (mc_delete_file ?p) (m\<lparr>conn := c3\<rparr>) = (True, m\<lparr>conn := c4\<rparr>)"
      "calm_store c4" "contents c4 = (contents c3)(?p := None)" .
    from 4 c(1) c2(1) c3 c4(1) held c2(3) have "lock_loop (Suc fuel) steady i token ob m =
        lock_loop fuel steady (Suc i) token ([], snd ob) (m\<lparr>conn := c4\<rparr>)" by (simp add: Let_def)
    with that [of c4 "([], snd ob)" None] c4 c3 c2 c show ?thesis by simp
  qed
qed

lemma lock_loop_other:
  "lock_loop fuel steady i token ob m = Some (b, m') \<Longrightarrow> calm_store (conn m) \<Longrightarrow>
   \<exists>c tok. m' = m\<lparr>conn := c, global_lock_token := tok\<rparr> \<and> calm_store c
     \<and> (\<forall>q. q \<noteq> global_tmp_log_path m \<longrightarrow> contents c q = contents (conn m) q)"
proof (induction fuel arbitrary: i ob m)
  case (Suc fuel)
  from lock_round [OF Suc.prems(2)] obtain c r ob' where c: "calm_store c"
    "\<forall>q. q \<noteq> global_tmp_log_path m \<longrightarrow> contents c q = contents (conn m) q"
    "lock_loop (Suc fuel) steady i token ob m =
       (case r of Some True \<Rightarrow> Some (True, m\<lparr>conn := c, global_lock_token := token\<rparr>)
        | Some False \<Rightarrow> Some (False, m\<lparr>conn := c\<rparr>)
        | None \<Rightarrow> lock_loop fuel steady (Suc i) token ob' (m\<lparr>conn := c\<rparr>))" .
  consider "r = Some True" | "r = Some False" | "r = None" by (cases r) auto
  then show ?case
  proof cases
    case 1
    with Suc.prems(1) c show ?thesis by auto
  next
    case 2
    with Suc.prems(1) c have "m' = m\<lparr>conn := c, global_lock_token := global_lock_token m\<rparr>" by simp
    with c show ?thesis by blast
  next
    case 3
    with Suc.prems(1) c have "lock_loop fuel steady (Suc i) token ob' (m\<lparr>conn := c\<rparr>) = Some (b, m')" by simp
    from Suc.IH [OF this] c show ?thesis by auto
  qed
qed simp

lemma lock_token_nonempty [simp]: "lock_token txn random t \<noteq> []"
  by (simp add: lock_token_def)

declare lock_loop.simps [simp del]

lemma acquire_run:
  assumes "calm_store (conn m)"
  obtains t c where "acquire_global_lock fuel random steady m =
      lock_loop fuel steady 1 (lock_token (transaction_id m) random t) ([], steady 0) (m\<lparr>conn := c\<rparr>)"
    "t = fst (local_time_ms (conn m))" "calm_store c" "contents c = contents (conn m)"
proof -
  from calm_timeE [OF assms] obtain t c where t: "with_conn local_time_ms m = (t, m\<lparr>conn := c\<rparr>)"
    "calm_store c" "contents c = contents (conn m)" .
  then have "t = fst (local_time_ms (conn m))" by (auto simp: with_conn_def split: prod.splits)
  with t that show ?thesis by (simp add: acquire_global_lock_def Let_def)
qed

lemma acquire_returns:
  assumes "calm_store (conn m)"
    and "int (global_lock_timeout_ms m) * 1000000 < steady n - steady 0" and "0 < n" and "n + 1 \<le> fuel"
  shows "\<exists>r m'. acquire_global_lock fuel random steady m = Some (r, m')"
proof -
  from acquire_run [OF assms(1)] obtain t c where run: "acquire_global_lock fuel random steady m =
      lock_loop fuel steady 1 (lock_token (transaction_id m) random t) ([], steady 0) (m\<lparr>conn := c\<rparr>)"
    "calm_store c" .
  with lock_loop_returns [of "m\<lparr>conn := c\<rparr>" steady n 1 fuel "lock_token (transaction_id m) random t" "([], steady 0)"]
    assms show ?thesis by simp
qed

lemma acquire_free:
  assumes "calm_store (conn m)" and "contents (conn m) (global_tmp_log_path m) = None"
  obtains token c where "acquire_global_lock (Suc fuel) random steady m =
      Some (True, m\<lparr>conn := c, global_lock_token := token\<rparr>)" "token \<noteq> []" "calm_store c"
    "contents c = (contents (conn m))(global_tmp_log_path m \<mapsto> token)"
proof -
  from acquire_run [OF assms(1)] obtain t c where run: "acquire_global_lock (Suc fuel) random steady m =
      lock_loop (Suc fuel) steady 1 (lock_token (transaction_id m) random t) ([], steady 0) (m\<lparr>conn := c\<rparr>)"
    "calm_store c" "contents c = contents (conn m)" .
  from lock_loop_free [of "m\<lparr>conn := c\<rparr>" fuel steady 1 "lock_token (transaction_id m) random t" "([], steady 0)",
      simplified, OF run(2)] run(1,3) assms(2) obtain c2 where
    "acquire_global_lock (Suc fuel) random steady m =
      Some (True, m\<lparr>conn := c2, global_lock_token := lock_token (transaction_id m) random t\<rparr>)"
    "calm_store c2" "contents c2 = (contents c)(global_tmp_log_path m \<mapsto> lock_token (transaction_id m) random t)"
    by auto
  with that run(3) show ?thesis by simp
qed



text \<open>C39: Acquiring the lock of the global log ends: without faults, once the steady clock passes the
  timeout in round \<open>n\<close>, at most \<open>n + 2\<close> rounds decide whether the lock was acquired; and a free lock
  is acquired in the first round, with the token in the lock object.\<close>

theorem acquire_global_lock_ends:
  assumes "calm_store (conn m)"
    and "int (global_lock_timeout_ms m) * 1000000 < steady n - steady 0" and "0 < n" and "n + 1 \<le> fuel"
  shows "\<exists>r m'. acquire_global_lock fuel random steady m = Some (r, m')
    \<and> (contents (conn m) (global_tmp_log_path m) = None \<longrightarrow> r \<and> global_lock_token m' \<noteq> []
        \<and> contents (conn m') = (contents (conn m))(global_tmp_log_path m \<mapsto> global_lock_token m'))"
proof -
  obtain k where k: "fuel = Suc k" using assms(4) by (cases fuel) auto
  show ?thesis
  proof (cases "contents (conn m) (global_tmp_log_path m)")
    case None
    from acquire_free [OF assms(1) None] obtain token c where "acquire_global_lock (Suc k) random steady m =
        Some (True, m\<lparr>conn := c, global_lock_token := token\<rparr>)" "token \<noteq> []" "calm_store c"
      "contents c = (contents (conn m))(global_tmp_log_path m \<mapsto> token)" .
    with k show ?thesis by auto
  next
    case (Some h)
    with acquire_returns [OF assms] show ?thesis by simp
  qed
qed

lemma acquire_global_lock_ends_witness:
  "\<exists>r m'. acquire_global_lock 3 5 (\<lambda>i. if i = 0 then 0 else 130000000000) (global_manager []) = Some (r, m')"
proof -
  have "global_lock_timeout_ms (global_manager []) = 120000"
    by (simp add: global_manager_def demo_manager_def manager_new_def)
  with acquire_global_lock_ends [OF global_manager_calm(1) [of "[]"], where n = 1 and fuel = 3 and random = 5
      and steady = "\<lambda>i. if i = 0 then 0 else 130000000000"
] show ?thesis by auto
qed

lemma release_run:
  assumes "calm_store (conn m)" and "0 < storage_retries m"
  obtains c where "release_global_lock m = m\<lparr>conn := c, global_lock_token := []\<rparr>" "calm_store c"
    "contents c = (if global_lock_token m \<noteq> [] \<and> contents (conn m) (global_tmp_log_path m) = Some (global_lock_token m)
       then (contents (conn m))(global_tmp_log_path m := None) else contents (conn m))"
proof (cases "global_lock_token m = []")
  case True
  with assms(1) that [of "conn m"] show ?thesis by (simp add: release_global_lock_def)
next
  case False
  let ?p = "global_tmp_log_path m"
  from calm_readE [OF assms(1)] obtain c where c: "with_conn (mc_read2 ?p) m = (contents (conn m) ?p, m\<lparr>conn := c\<rparr>)"
    "calm_store c" "contents c = contents (conn m)" .
  from calm_delete_retryE [of "m\<lparr>conn := c\<rparr>" "storage_retries m" ?p, simplified, OF c(2) assms(2)] obtain c2 where
    c2: "with_conn (delete_retry_loop (storage_retries m) ?p) (m\<lparr>conn := c\<rparr>) = (True, m\<lparr>conn := c2\<rparr>)"
    "calm_store c2" "contents c2 = (contents c)(?p := None)" .
  show ?thesis
  proof (cases "contents (conn m) ?p = Some (global_lock_token m)")
    case True
    with False c c2 that [of c2] show ?thesis by (simp add: release_global_lock_def Let_def)
  next
    case nt: False
    with False c that [of c] show ?thesis by (simp add: release_global_lock_def Let_def)
  qed
qed

text \<open>Releasing the lock of the global log deletes the lock object only when it holds the
  transaction's own token; a lock that another transaction took over stays.\<close>

lemma release_global_lock_own:
  assumes "calm_store (conn m)" and "0 < storage_retries m"
  shows "contents (conn (release_global_lock m)) =
      (if global_lock_token m \<noteq> [] \<and> contents (conn m) (global_tmp_log_path m) = Some (global_lock_token m)
       then (contents (conn m))(global_tmp_log_path m := None) else contents (conn m))
    \<and> global_lock_token (release_global_lock m) = []"
proof -
  from release_run [OF assms] obtain c where "release_global_lock m = m\<lparr>conn := c, global_lock_token := []\<rparr>"
    "contents c = (if global_lock_token m \<noteq> [] \<and> contents (conn m) (global_tmp_log_path m) = Some (global_lock_token m)
       then (contents (conn m))(global_tmp_log_path m := None) else contents (conn m))" .
  then show ?thesis by simp
qed

lemma release_global_lock_own_witness:
  "contents (conn (release_global_lock ((global_manager ''t'')\<lparr>global_tmp_log_path := ''g'',
     global_lock_token := ''t''\<rparr>))) ''g'' = None"
proof -
  let ?m = "(global_manager ''t'')\<lparr>global_tmp_log_path := ''g'', global_lock_token := ''t''\<rparr>"
  have "calm_store (conn ?m)" "0 < storage_retries ?m" using global_manager_calm by simp_all
  from release_global_lock_own [OF this] global_manager_calm(3) show ?thesis by simp
qed

section \<open>Validation and the new snapshot\<close>

definition versions_ok :: "version_map \<Rightarrow> bool" where
  "versions_ok l \<longleftrightarrow> distinct (map fst l) \<and> list_all entry_ok l"

lemma versions_ok_Nil [simp]: "versions_ok []"
  by (simp add: versions_ok_def)

lemma versions_ok_insert: "versions_ok l \<Longrightarrow> entry_ok (k, v) \<Longrightarrow> versions_ok (insert_new k v l)"
  by (auto simp: versions_ok_def insert_new_def map_of_eq_None_iff)

lemma set_update_subset: "set (AList.update k v l) \<subseteq> insert (k, v) (set l)"
  by (induction l) auto

lemma versions_ok_update: "versions_ok l \<Longrightarrow> entry_ok (k, v) \<Longrightarrow> versions_ok (AList.update k v l)"
  using set_update_subset [of k v l] by (auto simp: versions_ok_def distinct_update list_all_iff)

lemma versions_ok_fold:
  "versions_ok l \<Longrightarrow> (\<And>t. t \<in> set ts \<Longrightarrow> entry_ok (f t, g t)) \<Longrightarrow>
   versions_ok (fold (\<lambda>t l. insert_new (f t) (g t) l) ts l)"
  by (induction ts arbitrary: l) (auto intro: versions_ok_insert)

lemma fold_insert_new_other:
  "k \<notin> f ` set ts \<Longrightarrow> map_of (fold (\<lambda>t l. insert_new (f t) (g t) l) ts l) k = map_of l k"
  by (induction ts arbitrary: l) auto

lemma insert_new_kept: "map_of l k = Some v \<Longrightarrow> map_of (insert_new a b l) k = Some v"
  by auto

lemma fold_insert_new_kept:
  "map_of l k = Some v \<Longrightarrow> map_of (fold (\<lambda>t l. insert_new (f t) (g t) l) ts l) k = Some v"
  by (induction ts arbitrary: l) (simp_all add: insert_new_kept del: map_of_insert_new)

lemma fold_insert_new_distinct:
  "distinct (map f ts) \<Longrightarrow> t \<in> set ts \<Longrightarrow> map_of l (f t) = None \<Longrightarrow>
   map_of (fold (\<lambda>t l. insert_new (f t) (g t) l) ts l) (f t) = Some (g t)"
proof (induction ts arbitrary: l)
  case (Cons a ts)
  show ?case
  proof (cases "t = a")
    case True
    with Cons.prems show ?thesis by (simp add: fold_insert_new_kept)
  next
    case False
    with Cons.prems have "t \<in> set ts" by simp
    with Cons.prems have "f t \<noteq> f a" by (metis distinct.simps(2) image_eqI list.simps(9) set_map)
    note \<open>t \<in> set ts\<close>
    with Cons \<open>f t \<noteq> f a\<close> show ?thesis by simp
  qed
qed simp

text \<open>A log that passes validation is below the versions kept for it.\<close>

lemma check_step:
  assumes "check_entries ser vw ((p, v) # es) vr = Some vr'"
  obtains vr1 where "check_entries ser vw es vr1 = Some vr'"
    "\<And>q a. map_of vr q = Some a \<Longrightarrow> \<exists>b. map_of vr1 q = Some b \<and> a \<le> b \<and> (ser \<longrightarrow> b = a)"
    "case map_of vw p of Some w \<Rightarrow> v < w | None \<Rightarrow> \<exists>b. map_of vr1 p = Some b \<and> v \<le> b"
    "versions_ok vr \<Longrightarrow> entry_ok (p, v) \<Longrightarrow> versions_ok vr1"
proof -
  define newer where "newer = (case map_of vr p of Some a \<Rightarrow> a < v | None \<Rightarrow> False)"
  define vr1 where "vr1 = (if newer then AList.update p v vr else vr)"
  define vr2 where "vr2 = (if map_of vw p = None then insert_new p v vr1 else vr1)"
  from assms have n: "\<not> (newer \<and> ser)" and r: "check_entries ser vw es vr2 = Some vr'"
    and w: "\<And>w. map_of vw p = Some w \<Longrightarrow> v < w"
    by (auto simp: newer_def [symmetric] vr1_def vr2_def Let_def split: if_splits option.splits)
  show ?thesis
  proof (rule that [OF r])
    show "\<exists>b. map_of vr2 q = Some b \<and> a \<le> b \<and> (ser \<longrightarrow> b = a)" if "map_of vr q = Some a" for q a
      using that n by (auto simp: vr2_def vr1_def newer_def update_conv' split: option.splits)
    show "case map_of vw p of Some w \<Rightarrow> v < w | None \<Rightarrow> \<exists>b. map_of vr2 p = Some b \<and> v \<le> b"
      using w by (auto simp: vr2_def vr1_def newer_def update_conv' split: option.splits)
    show "versions_ok vr2" if "versions_ok vr" "entry_ok (p, v)"
      using that by (simp add: vr2_def vr1_def versions_ok_update versions_ok_insert)
  qed
qed

lemma check_entries_kept:
  "check_entries ser vw es vr = Some vr' \<Longrightarrow> map_of vr p = Some a \<Longrightarrow>
   \<exists>b. map_of vr' p = Some b \<and> a \<le> b \<and> (ser \<longrightarrow> b = a)"
proof (induction es arbitrary: vr a)
  case (Cons e es)
  obtain q v where e: "e = (q, v)" by (cases e)
  from check_step [OF Cons.prems(1) [unfolded e]] obtain vr1 where
    v: "check_entries ser vw es vr1 = Some vr'"
    "\<exists>b. map_of vr1 p = Some b \<and> a \<le> b \<and> (ser \<longrightarrow> b = a)" using Cons.prems(2) by metis
  with Cons.IH [OF v(1)] show ?case by (metis le_trans)
qed simp

lemma check_entries_bound:
  "check_entries ser vw es vr = Some vr' \<Longrightarrow> (p, v) \<in> set es \<Longrightarrow>
   (case map_of vw p of Some w \<Rightarrow> v < w | None \<Rightarrow> \<exists>b. map_of vr' p = Some b \<and> v \<le> b)"
proof (induction es arbitrary: vr)
  case (Cons e es)
  obtain q u where e: "e = (q, u)" by (cases e)
  from check_step [OF Cons.prems(1) [unfolded e]] obtain vr1 where
    v: "check_entries ser vw es vr1 = Some vr'"
    "case map_of vw q of Some w \<Rightarrow> u < w | None \<Rightarrow> \<exists>b. map_of vr1 q = Some b \<and> u \<le> b" by metis
  show ?case
  proof (cases "(p, v) \<in> set es")
    case True
    from Cons.IH [OF v(1) this] show ?thesis .
  next
    case False
    with Cons.prems(2) e have "p = q" "v = u" by auto
    with v check_entries_kept [OF v(1)] show ?thesis by (auto split: option.splits) (metis le_trans)
  qed
qed simp

lemma check_entries_ok:
  "check_entries ser vw es vr = Some vr' \<Longrightarrow> versions_ok vr \<Longrightarrow> list_all entry_ok es \<Longrightarrow> versions_ok vr'"
proof (induction es arbitrary: vr)
  case (Cons e es)
  obtain q u where e: "e = (q, u)" by (cases e)
  from check_step [OF Cons.prems(1) [unfolded e]] obtain vr1 where
    "check_entries ser vw es vr1 = Some vr'" "versions_ok vr \<Longrightarrow> entry_ok (q, u) \<Longrightarrow> versions_ok vr1" by metis
  with Cons.IH Cons.prems(2,3) e show ?case by simp
qed simp

lemma snapshot_entries_ok:
  assumes "versions_ok vr" "versions_ok vw"
  shows "versions_ok (snapshot_entries vr vw)"
    and "map_of (snapshot_entries vr vw) p = (case map_of vw p of Some v \<Rightarrow> Some v | None \<Rightarrow> map_of vr p)"
proof -
  have "distinct (map fst (filter P vr))" for P using assms(1) by (simp add: versions_ok_def distinct_map_filter)
  moreover have "list_all entry_ok (filter P vr)" for P using assms(1) by (simp add: versions_ok_def list_all_iff)
  ultimately show "versions_ok (snapshot_entries vr vw)"
    using assms(2) by (auto simp: versions_ok_def snapshot_entries_def map_of_eq_None_iff)
  have "map_of (filter (\<lambda>e. map_of vw (fst e) = None) l) p = (if map_of vw p = None then map_of l p else None)" for l
    by (induction l) auto
  note f = this [of vr]
  show "map_of (snapshot_entries vr vw) p = (case map_of vw p of Some v \<Rightarrow> Some v | None \<Rightarrow> map_of vr p)"
    by (cases "map_of vw p") (use f in \<open>simp_all add: snapshot_entries_def map_add_def split: option.splits\<close>)
qed

lemma current_entry_distinct: "distinct (map fst es) \<Longrightarrow> current_entry p es = map_of es p"
proof -
  have none: "p \<notin> fst ` set es \<Longrightarrow> fold (\<lambda>e c. if fst e = p then Some (snd e) else c) es c = c" for es c
    by (induction es arbitrary: c) auto
  have "distinct (map fst es) \<Longrightarrow> fold (\<lambda>e c. if fst e = p then Some (snd e) else c) es c
      = (case map_of es p of Some v \<Rightarrow> Some v | None \<Rightarrow> c)" for c
    by (induction es arbitrary: c) (auto simp: none)
  then show "distinct (map fst es) \<Longrightarrow> ?thesis" by (simp add: current_entry_def split: option.splits)
qed

definition tables_ok :: "table_stats list \<Rightarrow> bool" where
  "tables_ok ts \<longleftrightarrow> distinct (map t_base_path ts) \<and>
     list_all (\<lambda>t. entry_ok (t_base_path t, t_read_version t) \<and> entry_ok (t_base_path t, t_marker_version t)) ts"

definition written_table :: "table_stats \<Rightarrow> bool" where
  "written_table t \<longleftrightarrow> \<not> (t_created_files t = [] \<and> t_deleted_files t = [])"

lemma validation_versions:
  assumes "tables_ok ts"
  shows "versions_ok (read_versions ts [])" "versions_ok (write_versions ts [])"
    and "t \<in> set ts \<Longrightarrow> map_of (write_versions ts []) (t_base_path t)
      = (if written_table t then Some (t_marker_version t) else None)"
    and "t \<in> set ts \<Longrightarrow> \<not> written_table t \<Longrightarrow>
      map_of (read_versions ts []) (t_base_path t) = Some (t_read_version t)"
proof -
  have d: "distinct (map t_base_path ts)" using assms by (simp add: tables_ok_def)
  show "versions_ok (read_versions ts [])" "versions_ok (write_versions ts [])"
    using assms unfolding read_versions_def write_versions_def
    by (auto intro!: versions_ok_fold simp: tables_ok_def list_all_iff)
  show "map_of (write_versions ts []) (t_base_path t) = (if written_table t then Some (t_marker_version t) else None)"
    if t: "t \<in> set ts"
  proof (cases "written_table t")
    case True
    with t d show ?thesis unfolding write_versions_def
      by (subst fold_insert_new_distinct) (auto simp: written_table_def distinct_map_filter)
  next
    case False
    have "t_base_path t \<notin> t_base_path ` set (filter (\<lambda>t. \<not> (t_created_files t = [] \<and> t_deleted_files t = [])) ts)"
    proof
      assume "t_base_path t \<in> t_base_path ` set (filter (\<lambda>t. \<not> (t_created_files t = [] \<and> t_deleted_files t = [])) ts)"
      then obtain u where "u \<in> set ts" "written_table u" "t_base_path u = t_base_path t"
        by (auto simp: written_table_def)
      with t d False show False by (metis distinct_map inj_onD)
    qed
    with False show ?thesis unfolding write_versions_def by (simp add: fold_insert_new_other)
  qed
  show "map_of (read_versions ts []) (t_base_path t) = Some (t_read_version t)"
    if "t \<in> set ts" "\<not> written_table t"
    using that d unfolding read_versions_def
    by (subst fold_insert_new_distinct) (auto simp: written_table_def distinct_map_filter)
qed

lemma start_validation_run:
  assumes "calm_store (conn m)" "0 < storage_retries m" "level2 m" "global_tmp_log_path m \<noteq> global_log_path m"
    and "start_validation fuel random steady [] [] c0 m = Some ((Valid, vr, vw, content), m1)"
  obtains c tok where "m1 = m\<lparr>conn := c, global_lock_token := tok\<rparr>" "calm_store c"
    "contents c (global_log_path m) = contents (conn m) (global_log_path m)"
    "vw = write_versions (tables m) []"
    "check_entries (isolation (options m) = Serializable) vw (global_state m) (read_versions (tables m) []) = Some vr"
proof -
  let ?g = "global_log_path m" and ?vr = "read_versions (tables m) []" and ?vw = "write_versions (tables m) []"
  from acquire_run [OF assms(1)] obtain t c where run: "acquire_global_lock fuel random steady m =
      lock_loop fuel steady 1 (lock_token (transaction_id m) random t) ([], steady 0) (m\<lparr>conn := c\<rparr>)"
    "calm_store c" "contents c = contents (conn m)" .
  from assms(3,5) obtain m2 where acq: "acquire_global_lock fuel random steady m = Some (True, m2)"
    by (auto simp: start_validation_def Let_def split: option.splits bool.splits)
  then have "lock_loop fuel steady 1 (lock_token (transaction_id m) random t) ([], steady 0) (m\<lparr>conn := c\<rparr>)
      = Some (True, m2)" using run(1) by simp
  from lock_loop_other [OF this] run(2,3) obtain c2 tok where
    m2: "m2 = m\<lparr>conn := c2, global_lock_token := tok\<rparr>" "calm_store c2" "contents c2 ?g = contents (conn m) ?g"
    using assms(4) by auto
  have gs: "global_state m2 = global_state m" using m2 by (simp add: global_state_def)
  have f: "calm_store (conn m2)" "0 < storage_retries m2" "global_log_path m2 = ?g" "conn m2 = c2"
    using m2 assms(2) by simp_all
  from calm_global_readE [OF f(1,2), unfolded f(3,4) gs] obtain ex c3 m3 lt where r:
    "with_conn (mc_check ?g) m2 = (ex, m2\<lparr>conn := c3\<rparr>)"
    "(if ex then read_retry ?g (m2\<lparr>conn := c3\<rparr>) else (Some [], m2\<lparr>conn := c3\<rparr>)) = (Some lt, m3)"
    "global_entries lt = global_state m" "ex \<longleftrightarrow> contents c2 ?g \<noteq> None"
    "\<exists>c4. m3 = m2\<lparr>conn := c4\<rparr> \<and> calm_store c4 \<and> contents c4 = contents c2" .
  from r(5) obtain c4 where c4: "m3 = m2\<lparr>conn := c4\<rparr>" "calm_store c4" "contents c4 = contents c2" by blast
  have "m1 = m3 \<and> vw = ?vw \<and>
    check_entries (isolation (options m) = Serializable) ?vw (global_state m) ?vr = Some vr"
  proof (cases ex)
    case True
    with r(2) have "read_retry ?g (m2\<lparr>conn := c3\<rparr>) = (Some lt, m3)" by simp
    moreover have "options m3 = options m" using c4(1) m2(1) by simp
    ultimately show ?thesis using True assms(3,5) acq r(1,3) f(3)
      by (simp add: start_validation_def Let_def split: option.splits)
  next
    case False
    with r(2) have m3: "lt = []" "m3 = m2\<lparr>conn := c3\<rparr>" by simp_all
    with r(3) have "global_state m = []" by (simp add: global_entries_def List.map_filter_simps)
    with False assms(3,5) acq r(1) f(3) m3(2) show ?thesis by (simp add: start_validation_def Let_def)
  qed
  with c4 m2 that [of tok c4] show ?thesis by auto
qed

text \<open>C10: The global log only moves forward: when a transaction passes validation and writes its
  snapshot, the log read back has every table of the old log at its old version or a later one, each table the
  transaction wrote at its marker version, above every version the log had for it, and, when the isolation is
  serializable, no table it only read had a version above the one it read.\<close>

theorem validated_snapshot_forward:
  assumes "calm_store (conn m)" and "0 < storage_retries m" and "level2 m"
    and "global_tmp_log_path m \<noteq> global_log_path m" and "tables_ok (tables m)"
    and "start_validation fuel random steady [] [] c0 m = Some ((Valid, vr, vw, content), m1)"
    and "create_global_snapshot vr vw m1 = (written, m2)"
  shows "written
    \<and> (\<forall>(p, v) \<in> set (global_state m). \<exists>v'. current_entry p (global_state m2) = Some v' \<and> v \<le> v')
    \<and> (\<forall>t \<in> set (tables m). written_table t \<longrightarrow>
         current_entry (t_base_path t) (global_state m2) = Some (t_marker_version t)
         \<and> (\<forall>v. (t_base_path t, v) \<in> set (global_state m) \<longrightarrow> v < t_marker_version t))
    \<and> (isolation (options m) = Serializable \<longrightarrow> (\<forall>t \<in> set (tables m). \<not> written_table t \<longrightarrow>
         (\<forall>v. (t_base_path t, v) \<in> set (global_state m) \<longrightarrow> v \<le> t_read_version t)))"
proof -
  let ?g = "global_log_path m" and ?ser = "isolation (options m) = Serializable"
  from start_validation_run [OF assms(1-4,6)] obtain c tok where m1:
    "m1 = m\<lparr>conn := c, global_lock_token := tok\<rparr>" "calm_store c"
    "vw = write_versions (tables m) []"
    "check_entries ?ser vw (global_state m) (read_versions (tables m) []) = Some vr" .
  note vv = validation_versions [OF assms(5)]
  have ok: "versions_ok vr" "versions_ok vw"
    using check_entries_ok [OF m1(4) vv(1)] global_entries_ok vv(2) m1(3) by (simp_all add: global_state_def)
  note snap = snapshot_entries_ok [OF ok]
  let ?new = "snapshot_entries vr vw"
  have "calm_store (conn m1)" using m1(1,2) by simp
  from calm_write_retryE [OF this assms(2)] obtain c2
    where w: "with_conn (write_retry_loop (storage_retries m) ?g (concat (map global_line ?new))) m1
        = (True, m1\<lparr>conn := c2\<rparr>)" "calm_store c2"
      "contents c2 = (contents (conn m1))(?g \<mapsto> concat (map global_line ?new))" .
  let ?m = "m1\<lparr>conn := c2\<rparr>"
  have "calm_store (conn ?m)" "0 < storage_retries ?m" using w(2) assms(2) m1(1) by simp_all
  from release_run [OF this] obtain c3 where
    c3: "release_global_lock ?m = ?m\<lparr>conn := c3, global_lock_token := []\<rparr>"
    "contents c3 = (if global_lock_token ?m \<noteq> [] \<and> contents (conn ?m) (global_tmp_log_path ?m) = Some (global_lock_token ?m)
       then (contents (conn ?m))(global_tmp_log_path ?m := None) else contents (conn ?m))" .
  have "contents c3 ?g = contents c2 ?g" using c3(2) m1(1) assms(4) by simp
  note c3 = c3(1) this
  have "level2 m1" "storage_retries m1 = storage_retries m" "global_log_path m1 = ?g"
    using m1(1) assms(3) by simp_all
  with assms(7) w(1) have "written" "m2 = release_global_lock ?m" by (simp_all add: create_global_snapshot_def)
  then have m2: "written" "global_log_path m2 = ?g"
      "contents (conn m2) ?g = Some (concat (map global_line ?new))"
    using c3 m1(1) w(3) by simp_all
  then have "global_state m2 = ?new"
    using global_entries_lines [of ?new] snap(1) by (simp add: global_state_def versions_ok_def)
  then have cur: "current_entry p (global_state m2) = (case map_of vw p of Some v \<Rightarrow> Some v | None \<Rightarrow> map_of vr p)" for p
    using snap by (simp add: current_entry_distinct versions_ok_def)
  note bound = check_entries_bound [OF m1(4)]
  have "\<exists>v'. current_entry p (global_state m2) = Some v' \<and> v \<le> v'" if "(p, v) \<in> set (global_state m)" for p v
    using bound [OF that] cur [of p] by (auto split: option.splits)
  moreover have "current_entry (t_base_path t) (global_state m2) = Some (t_marker_version t)
       \<and> (\<forall>v. (t_base_path t, v) \<in> set (global_state m) \<longrightarrow> v < t_marker_version t)"
    if "t \<in> set (tables m)" "written_table t" for t
    using bound [of "t_base_path t"] vv(3) [OF that(1)] that(2) m1(3) cur by simp
  moreover have "v \<le> t_read_version t"
    if "t \<in> set (tables m)" "\<not> written_table t" "?ser" "(t_base_path t, v) \<in> set (global_state m)" for t v
    using bound [OF that(4)] vv(3) [OF that(1)] that(2,3) m1(3) check_entries_kept [OF m1(4) vv(4) [OF that(1,2)]]
    by auto
  ultimately show ?thesis using m2(1) by blast
qed

lemma start_validation_valid:
  assumes "calm_store (conn m)" "0 < storage_retries m" "level2 m" "global_tmp_log_path m \<noteq> global_log_path m"
    and "contents (conn m) (global_tmp_log_path m) = None"
    and "check_entries (isolation (options m) = Serializable) (write_versions (tables m) []) (global_state m)
      (read_versions (tables m) []) = Some vr"
  shows "\<exists>content m1. start_validation (Suc fuel) random steady [] [] c0 m
    = Some ((Valid, vr, write_versions (tables m) [], content), m1)"
proof -
  let ?g = "global_log_path m"
  from acquire_free [OF assms(1,5)] obtain tok c where a: "acquire_global_lock (Suc fuel) random steady m =
      Some (True, m\<lparr>conn := c, global_lock_token := tok\<rparr>)" "calm_store c"
    "contents c = (contents (conn m))(global_tmp_log_path m \<mapsto> tok)" .
  define m2 where "m2 = m\<lparr>conn := c, global_lock_token := tok\<rparr>"
  have f: "calm_store (conn m2)" "0 < storage_retries m2" "global_log_path m2 = ?g" "options m2 = options m"
    "conn m2 = c" using a(2) assms(2) by (simp_all add: m2_def)
  have gs: "global_state m2 = global_state m" using a(3) assms(4) f(3,5) by (simp add: global_state_def)
  from calm_global_readE [OF f(1,2), unfolded f(3) gs] obtain ex c3 m3 lt where r:
    "with_conn (mc_check ?g) m2 = (ex, m2\<lparr>conn := c3\<rparr>)"
    "(if ex then read_retry ?g (m2\<lparr>conn := c3\<rparr>) else (Some [], m2\<lparr>conn := c3\<rparr>)) = (Some lt, m3)"
    "global_entries lt = global_state m" "\<exists>c4. m3 = m2\<lparr>conn := c4\<rparr> \<and> calm_store c4 \<and> contents c4 = contents (conn m2)" .
  show ?thesis
  proof (cases ex)
    case True
    with r(2) have "read_retry ?g (m2\<lparr>conn := c3\<rparr>) = (Some lt, m3)" by simp
    moreover have "options m3 = options m" using r(4) f(4) by auto
    ultimately show ?thesis using True assms(3,6) a(1) r(1,3) f(3)
      by (simp add: start_validation_def Let_def m2_def)
  next
    case False
    with r(2) have "lt = []" by simp
    with r(3) have "global_state m = []" by (simp add: global_entries_def List.map_filter_simps)
    with False assms(3,6) a(1) r(1) f(3) show ?thesis by (simp add: start_validation_def Let_def m2_def)
  qed
qed

definition snapshot_manager :: manager where
  "snapshot_manager = (global_manager (global_line (''a'', 7)))\<lparr>tables :=
     [(table_stats_new ''a'')\<lparr>t_marker_version := 8, t_created_files := [(''f'', file_stats_new)]\<rparr>]\<rparr>"

lemma snapshot_manager_simps:
  "calm_store (conn snapshot_manager)" "0 < storage_retries snapshot_manager" "level2 snapshot_manager"
  "global_tmp_log_path snapshot_manager = ''g.tmp''" "global_log_path snapshot_manager = ''g''"
  "contents (conn snapshot_manager) ''g.tmp'' = None" "global_state snapshot_manager = [(''a'', 7)]"
proof -
  show "calm_store (conn snapshot_manager)" "0 < storage_retries snapshot_manager"
    using global_manager_calm by (simp_all add: snapshot_manager_def)
  show "level2 snapshot_manager" "global_tmp_log_path snapshot_manager = ''g.tmp''"
    and g: "global_log_path snapshot_manager = ''g''"
    by (simp_all add: snapshot_manager_def global_manager_def demo_manager_def manager_new_def)
  show "contents (conn snapshot_manager) ''g.tmp'' = None"
    by (simp add: snapshot_manager_def global_manager_def mc_put_def demo_connector_def store_def
        clock_time_def local_time_ms_def put_object_def contents_def mc_get_def lookup_object_def)
  have "global_entries (global_line (''a'', 7)) = [(''a'', 7)]"
    using global_entries_lines [of "[(''a'', 7)]"] by (simp add: entry_ok_def newline_def)
  with g global_manager_calm(3) [of "global_line (''a'', 7)"] show "global_state snapshot_manager = [(''a'', 7)]"
    by (simp add: global_state_def snapshot_manager_def)
qed

lemma validated_snapshot_forward_witness:
  "\<exists>vr vw content m1 m2. start_validation 2 5 int [] [] [] snapshot_manager = Some ((Valid, vr, vw, content), m1)
     \<and> create_global_snapshot vr vw m1 = (True, m2) \<and> current_entry ''a'' (global_state m2) = Some 8"
proof -
  let ?m = snapshot_manager
  have t: "tables ?m = [(table_stats_new ''a'')\<lparr>t_marker_version := 8, t_created_files := [(''f'', file_stats_new)]\<rparr>]"
    by (simp add: snapshot_manager_def)
  then have ok: "tables_ok (tables ?m)"
    by (simp add: tables_ok_def entry_ok_def newline_def table_stats_new_def)
  have "check_entries (isolation (options ?m) = Serializable) (write_versions (tables ?m) []) (global_state ?m)
      (read_versions (tables ?m) []) = Some []"
    by (simp add: t snapshot_manager_simps write_versions_def read_versions_def insert_new_def table_stats_new_def)
  from start_validation_valid [OF snapshot_manager_simps(1-3) _ _ this, of 1 5 int "[]"] snapshot_manager_simps(4-6)
  obtain content m1 where v: "start_validation 2 5 int [] [] [] ?m = Some ((Valid, [], write_versions (tables ?m) [], content), m1)"
    by (auto simp: numeral_2_eq_2)
  obtain w m2 where c: "create_global_snapshot [] (write_versions (tables ?m) []) m1 = (w, m2)"
    by (cases "create_global_snapshot [] (write_versions (tables ?m) []) m1")
  have "global_tmp_log_path ?m \<noteq> global_log_path ?m" by (simp add: snapshot_manager_simps)
  from validated_snapshot_forward [OF snapshot_manager_simps(1-3) this ok v c]
  have "w \<and> current_entry ''a'' (global_state m2) = Some 8"
    by (simp add: t written_table_def table_stats_new_def)
  then show ?thesis using v c by auto
qed

end
