(* ===== verification/CheckpointLog.thy ===== *)
theory CheckpointLog
  imports SampleParquet CheckpointNames GlobalLog
begin

text \<open>
  Checkpoints of a table's log (\<open>ManagerDeltaLake.cpp\<close>): the hint \<open>_last_checkpoint\<close>, finding and
  parsing the checkpoint a snapshot starts from, loading a snapshot, and writing a checkpoint and the
  hint, explicitly (\<open>create_checkpoint\<close>) or after a commit.  The versions a snapshot needs are parsed by
  threads; here they are parsed in the order of their ranges (\<open>ReplayOrder\<close> shows that the order does
  not matter).  An \<open>Inl\<close> result is an exception that leaves the function.
\<close>

section \<open>The hint\<close>

definition last_checkpoint_path :: "string \<Rightarrow> string" where
  "last_checkpoint_path base = base @ log_dir @ ''_last_checkpoint''"

definition parse_last_checkpoint :: "sys \<Rightarrow> string \<Rightarrow> checkpoint_info" where
  "parse_last_checkpoint sy text =
     (case sy_parse sy (c_str text) of
        None \<Rightarrow> no_checkpoint
      | Some doc \<Rightarrow>
          (case Option.bind (find_member ''version'' doc) as_uint64 of
             Some v \<Rightarrow>
               (case Option.bind (find_member ''parts'' doc) as_uint of
                  Some parts \<Rightarrow> \<lparr>ci_version = Some v, ci_parts = parts\<rparr>
                | None \<Rightarrow> \<lparr>ci_version = Some v, ci_parts = 1\<rparr>)
           | None \<Rightarrow>
               (case as_uint64 doc of
                  Some v \<Rightarrow> \<lparr>ci_version = Some v, ci_parts = 1\<rparr>
                | None \<Rightarrow> no_checkpoint)))"

definition read_last_checkpoint :: "sys \<Rightarrow> string \<Rightarrow> manager \<Rightarrow> checkpoint_info \<times> manager" where
  "read_last_checkpoint sy base m =
     (let (exists, m) = with_conn (mc_check (last_checkpoint_path base)) m
      in if \<not> exists then (no_checkpoint, m)
         else let (content, m) = read_retry (last_checkpoint_path base) m
              in (case content of
                    None \<Rightarrow> (no_checkpoint, m) | Some text \<Rightarrow> (parse_last_checkpoint sy text, m)))"

text \<open>With the ETag of the hint (\<open>""\<close>: there is none).\<close>

definition read_last_versioned :: "sys \<Rightarrow> string \<Rightarrow> connector \<Rightarrow> (checkpoint_info \<times> string) \<times> connector" where
  "read_last_versioned sy base c =
     (let ((content, version), c) = mc_read_versioned (last_checkpoint_path base) c
      in (case content of
            None \<Rightarrow> ((no_checkpoint, []), c)
          | Some text \<Rightarrow> ((parse_last_checkpoint sy text, ov_etag version), c)))"

definition find_checkpoint ::
    "sys \<Rightarrow> string \<Rightarrow> nat \<Rightarrow> manager \<Rightarrow> (cxx_exception + checkpoint_info) \<times> manager" where
  "find_checkpoint sy base max_version m =
     (let (hint, m) = read_last_checkpoint sy base m
      in if (case ci_version hint of None \<Rightarrow> True | Some v \<Rightarrow> v \<le> max_version) then (Inr hint, m)
         else let (objs, m) = list_retry (base @ log_dir) m
              in (case objs of
                    None \<Rightarrow> (Inr no_checkpoint, m)
                  | Some objs \<Rightarrow> (newest_checkpoint objs max_version, m)))"

section \<open>Reading a checkpoint\<close>

definition checkpoint_files :: "string \<Rightarrow> nat \<Rightarrow> nat \<Rightarrow> string list" where
  "checkpoint_files base v parts =
     (if parts \<le> 1 then [base @ log_dir @ checkpoint_name v]
      else map (\<lambda>part. base @ log_dir @ part_name v part parts) [1..<parts + 1])"

text \<open>\<open>int64_t\<close> from \<open>uint64_t\<close>.\<close>

definition to_int64 :: "nat \<Rightarrow> int" where
  "to_int64 n = (if n < 2 ^ 63 then int n else int n - 2 ^ 64)"

definition checkpoint_add :: "sys \<Rightarrow> nat \<Rightarrow> checkpoint_entry \<Rightarrow> delta_log_entry" where
  "checkpoint_add sy v a =
     (entry_with_stats (sy_parse sy) (sy_write sy) ADD (Some (c_str (ce_stats a))) (ce_size a))
       \<lparr>e_modification_time := ce_modification_time a, e_partition_values := ce_partition_values a,
        e_tags := ce_tags a, e_version := to_int64 v\<rparr>"

definition checkpoint_tombstone :: "nat \<Rightarrow> checkpoint_remove \<Rightarrow> delta_log_entry" where
  "checkpoint_tombstone v r =
     (entry_of DELETE)
       \<lparr>e_deletion_timestamp := cr_deletion_timestamp r, e_size := cr_size r,
        e_partition_values := cr_partition_values r, e_version := to_int64 v\<rparr>"

definition apply_checkpoint :: "sys \<Rightarrow> nat \<Rightarrow> checkpoint_content \<Rightarrow> delta_log \<Rightarrow> delta_log" where
  "apply_checkpoint sy v content l =
     (let l = fold (\<lambda>a. register_action (ce_path a) (checkpoint_add sy v a)) (cc_adds content) l;
          l = fold (\<lambda>r. register_action (cr_path r) (checkpoint_tombstone v r)) (cc_removes content) l;
          l = fold (\<lambda>t. set_transaction (txn_app_id t) (txn_version t) (txn_last_updated t) (u32 v))
                (cc_txns content) l;
          l = fold (\<lambda>d. set_domain_metadata (cd_domain d) (Some (cd_configuration d)) (u32 v))
                (cc_domains content) l;
          l = (if cc_protocol content = [] then l else set_protocol (cc_protocol content) (u32 v) l);
          l = (if cc_metadata content = [] then l else set_metadata (cc_metadata content) (u32 v) l)
      in if cc_unsupported content = [] then l else mark_unsupported (cc_unsupported content) l)"

fun parse_checkpoint_files ::
    "sys \<Rightarrow> parquet \<Rightarrow> nat \<Rightarrow> string list \<Rightarrow> delta_log \<Rightarrow> manager \<Rightarrow> (bool \<times> delta_log) \<times> manager" where
  "parse_checkpoint_files sy pq v [] l m = ((True, l), m)"
| "parse_checkpoint_files sy pq v (file # files) l m =
     (let (content, m) = read_retry file m
      in case content of
           None \<Rightarrow> ((False, l), m)
         | Some data \<Rightarrow>
             (case readDLCheckpointContent sy pq data of
                None \<Rightarrow> ((False, l), m)
              | Some content \<Rightarrow>
                  parse_checkpoint_files sy pq v files (apply_checkpoint sy v content l) m))"

definition parse_checkpoint ::
    "sys \<Rightarrow> parquet \<Rightarrow> string \<Rightarrow> checkpoint_info \<Rightarrow> delta_log \<Rightarrow> manager \<Rightarrow> (bool \<times> delta_log) \<times> manager" where
  "parse_checkpoint sy pq base info l m =
     (case ci_version info of
        None \<Rightarrow> ((True, l), m)
      | Some v \<Rightarrow> parse_checkpoint_files sy pq v (checkpoint_files base v (ci_parts info)) l m)"

section \<open>Loading a snapshot\<close>

fun load_versions ::
    "sys \<Rightarrow> string \<Rightarrow> nat list \<Rightarrow> delta_log \<Rightarrow> manager \<Rightarrow> delta_log option \<times> manager" where
  "load_versions sy base [] l m = (Some l, m)"
| "load_versions sy base (v # vs) l m =
     (let (content, m) = read_retry (version_path base v) m
      in case content of
           None \<Rightarrow> (None, m)
         | Some text \<Rightarrow>
             (let objs = json_objects (sy_parse sy) text
              in if list_ex (has_member ''marker'') objs then (None, m)
                 else load_versions sy base vs (fold (\<lambda>val. apply_log_action sy val v) objs l) m))"

definition ranges_list :: "(nat \<times> nat) list \<Rightarrow> nat list" where
  "ranges_list rs = concat (map (\<lambda>(a, b). [a..<b]) rs)"

definition load_snapshot ::
    "sys \<Rightarrow> parquet \<Rightarrow> string \<Rightarrow> nat \<Rightarrow> manager \<Rightarrow> (cxx_exception + delta_log option) \<times> manager" where
  "load_snapshot sy pq base version m =
     (case find_checkpoint sy base version m of
        (Inl e, m) \<Rightarrow> (Inl e, m)
      | (Inr info, m) \<Rightarrow>
          (let ((ok, l), m) = parse_checkpoint sy pq base info (delta_log_new base) m
           in if \<not> ok then (Inr None, m)
              else let first = (case ci_version info of Some v \<Rightarrow> u32 (v + 1) | None \<Rightarrow> 0);
                       (r, m) = load_versions sy base
                         (ranges_list (split_range first (u32 (version + 1)) 4)) l m
                   in (Inr r, m)))"

section \<open>Writing a checkpoint\<close>

definition retained :: "int \<Rightarrow> string \<times> delta_log_entry \<Rightarrow> bool" where
  "retained start e \<longleftrightarrow> start \<le> e_deletion_timestamp (snd e)"

definition log_content :: "delta_log \<Rightarrow> int \<Rightarrow> checkpoint_content" where
  "log_content l retention_start =
     \<lparr>cc_adds = map (\<lambda>(p, e). \<lparr>ce_path = p, ce_stats = e_stats e, ce_size = e_size e,
          ce_modification_time = e_modification_time e, ce_partition_values = e_partition_values e,
          ce_tags = e_tags e\<rparr>) (get_entries l),
      cc_removes = map (\<lambda>(p, e). \<lparr>cr_path = p, cr_deletion_timestamp = e_deletion_timestamp e,
          cr_size = e_size e, cr_partition_values = e_partition_values e\<rparr>)
          (filter (retained retention_start) (get_tombstones l)),
      cc_txns = get_transactions l, cc_domains = get_domain_metadata l,
      cc_protocol = get_protocol l, cc_metadata = get_metadata l, cc_unsupported = []\<rparr>"

definition last_checkpoint_text :: "nat \<Rightarrow> checkpoint_content \<Rightarrow> nat option \<Rightarrow> string" where
  "last_checkpoint_text version content written =
     ''{\"version\":'' @ dec version @ '',\"size\":'' @
     dec (2 + length (cc_adds content) + length (cc_removes content) + length (cc_txns content)
          + length (cc_domains content)) @
     (case written of
        Some n \<Rightarrow> '',\"sizeInBytes\":'' @ dec n @ '',\"numOfAddFiles\":'' @ dec (length (cc_adds content))
      | None \<Rightarrow> []) @ ''}''"

text \<open>One attempt to move the hint: \<open>None\<close> when it has to be repeated.\<close>

definition last_attempt :: "sys \<Rightarrow> string \<Rightarrow> nat \<Rightarrow> string \<Rightarrow> connector \<Rightarrow> bool \<times> connector" where
  "last_attempt sy base version text c =
     (let ((last, etag), c) = read_last_versioned sy base c
      in if (case ci_version last of Some v \<Rightarrow> version \<le> v | None \<Rightarrow> False) then (True, c)
         else let (status, c) =
                (if etag = []
                 then (let ((status, _), c) = mc_write_atomic (last_checkpoint_path base) text c in (status, c))
                 else mc_write_if_match (last_checkpoint_path base) text etag c)
              in (status = Ok, c))"

fun update_last :: "nat \<Rightarrow> sys \<Rightarrow> string \<Rightarrow> nat \<Rightarrow> string \<Rightarrow> connector \<Rightarrow> bool \<times> connector" where
  "update_last 0 sy base version text c = (False, c)"
| "update_last (Suc n) sy base version text c =
     (let (done, c) = last_attempt sy base version text c
      in if done then (True, c) else update_last n sy base version text c)"

definition write_checkpoint ::
    "sys \<Rightarrow> 'd float_unit \<Rightarrow> parquet \<Rightarrow> string \<Rightarrow> nat \<Rightarrow> delta_log \<Rightarrow> manager \<Rightarrow> bool \<times> manager" where
  "write_checkpoint sy fu pq base version l m =
     (if get_unsupported l \<noteq> [] then (False, m)
      else if get_protocol l = [] \<or> get_metadata l = [] then (False, m)
      else if checkpoint_blocker (sy_parse sy) (get_protocol l) \<noteq> [] then (False, m)
      else let (now, m) = with_conn local_time_ms m;
               content = log_content l (now - tombstone_retention_ms fu (sy_parse sy) (get_metadata l));
               (gen_now, m) = with_conn local_time_ms m
           in case generateCheckpoint sy pq content gen_now of
                None \<Rightarrow> (False, m)
              | Some data \<Rightarrow>
                  (let ((status, _), m) = with_conn (mc_write_atomic (base @ log_dir @ checkpoint_name version) data) m
                   in if status \<noteq> Ok \<and> status \<noteq> AlreadyExists then (False, m)
                      else with_conn (update_last (storage_retries m) sy base version
                             (last_checkpoint_text version content
                                (if status = Ok then Some (length data) else None))) m))"

definition checkpoint_after_commit ::
    "sys \<Rightarrow> 'd float_unit \<Rightarrow> parquet \<Rightarrow> table_stats \<Rightarrow> nat \<Rightarrow> manager \<Rightarrow> (cxx_exception + unit) \<times> manager" where
  "checkpoint_after_commit sy fu pq t version m =
     (let interval = (if 0 < protocol_options.checkpoint_interval (options m)
                      then protocol_options.checkpoint_interval (options m)
                      else checkpoint_interval (sy_parse sy) (get_metadata (t_delta_log t)))
      in if version = 0 \<or> version mod interval \<noteq> 0 then (Inr (), m)
         else case load_snapshot sy pq (t_base_path t) version m of
                (Inl e, m) \<Rightarrow> (Inl e, m)
              | (Inr None, m) \<Rightarrow> (Inr (), m)
              | (Inr (Some l), m) \<Rightarrow>
                  (Inr (), snd (write_checkpoint sy fu pq (t_base_path t) version l m)))"

text \<open>Waiting for the versions up to the one read that other transactions had reserved.\<close>

fun wait_reserved ::
    "sys \<Rightarrow> nat \<Rightarrow> string \<Rightarrow> nat \<Rightarrow> string list \<Rightarrow> manager \<Rightarrow> (bool \<times> manager) option" where
  "wait_reserved sy fuel dir version [] m = Some (True, m)"
| "wait_reserved sy fuel dir version (mk # mks) m =
     (case parse_log_version mk of
        Inl e \<Rightarrow> None
      | Inr v \<Rightarrow>
          if \<not> starts_with dir mk \<or> (case v of None \<Rightarrow> True | Some v \<Rightarrow> version < v)
          then wait_reserved sy fuel dir version mks m
          else let (exists, m) = with_conn (mc_check mk) m
               in if \<not> exists then wait_reserved sy fuel dir version mks m
                  else (case wait_for_marker sy fuel mk m of
                          None \<Rightarrow> None
                        | Some (True, m) \<Rightarrow> wait_reserved sy fuel dir version mks m
                        | Some (False, m) \<Rightarrow> Some (False, m)))"

definition create_checkpoint ::
    "sys \<Rightarrow> 'd float_unit \<Rightarrow> parquet \<Rightarrow> nat \<Rightarrow> nat \<Rightarrow> manager \<Rightarrow> (bool \<times> manager) option" where
  "create_checkpoint sy fu pq fuel i m =
     (case get_table i m of
        None \<Rightarrow> Some (False, m)
      | Some t \<Rightarrow>
          if t_created_files t \<noteq> [] \<or> t_deleted_files t \<noteq> [] then Some (False, m)
          else case wait_reserved sy fuel (t_base_path t @ log_dir) (t_read_version t) (prev_markers m) m of
                 None \<Rightarrow> None
               | Some (False, m) \<Rightarrow> Some (False, m)
               | Some (True, m) \<Rightarrow>
                   Some (case get_table i m of
                           None \<Rightarrow> (False, m)
                         | Some t \<Rightarrow> write_checkpoint sy fu pq (t_base_path t) (t_read_version t) (t_delta_log t) m))"

section \<open>The hint moves forward only\<close>

text \<open>An object with the ETag it was read with is the object that was read.\<close>

lemma object_stable:
  assumes "store_ok m" "store_step\<^sup>*\<^sup>* m m'" "etag_at m p = Some e"
  shows "map_of (objects m') p = map_of (objects m) p \<or> (\<forall>q. etag_at m' q \<noteq> Some e)"
  using assms(2)
proof (induction rule: rtranclp_induct)
  case (step y z)
  have y: "store_ok y" "etag_issued y e"
    using memory.steps_invar [OF step.hyps(1) assms(1)] memory.steps_issued [OF step.hyps(1) assms(1)] assms
    by (auto simp: store_ok_def)
  show ?case
  proof (cases "\<forall>q. etag_at y q \<noteq> Some e")
    case True
    from memory.gone_stays_gone [OF r_into_rtranclp [of store_step, OF step.hyps(2)] y True] show ?thesis by simp
  next
    case False
    with step.IH have same: "map_of (objects y) p = map_of (objects m) p" by simp
    with assms(3) have e: "etag_at y p = Some e" by (simp add: etag_at_def)
    from step.hyps(2) show ?thesis
    proof (cases rule: store_step.cases)
      case (step_put q d t)
      show ?thesis
      proof (cases "q = p")
        case True
        have "etag_at z r \<noteq> Some e" for r
          using y(1) e fresh_not_issued [of y] y(2) unfolding step_put(1) etag_at_put True store_ok_def
          by (auto simp del: etag_text_inj)
        then show ?thesis by simp
      next
        case False
        with step_put same show ?thesis by (simp add: put_object_def)
      qed
    next
      case (step_del q)
      show ?thesis
      proof (cases "q = p")
        case True
        have "etag_at z r \<noteq> Some e" for r
          using y(1) e step_del True by (auto simp: etag_at_del store_ok_def)
        then show ?thesis by simp
      next
        case False
        with step_del same y(1) show ?thesis by (simp add: store_ok_def)
      qed
    next
      case step_clear
      then show ?thesis by (simp add: etag_at_def)
    qed
  qed
qed simp

definition hint_of :: "sys \<Rightarrow> string \<Rightarrow> mem_store \<Rightarrow> nat option" where
  "hint_of sy base m =
     Option.bind (map_of (objects m) (last_checkpoint_path base))
       (\<lambda>ob. ci_version (parse_last_checkpoint sy (obj_content ob)))"

definition below :: "nat option \<Rightarrow> nat \<Rightarrow> bool" where
  "below h v \<longleftrightarrow> (case h of None \<Rightarrow> True | Some w \<Rightarrow> w < v)"

text \<open>Other clients acted and, once, this one put the hint, over a hint below \<open>v\<close>.\<close>

definition moves_hint :: "sys \<Rightarrow> string \<Rightarrow> nat \<Rightarrow> string \<Rightarrow> connector \<Rightarrow> connector \<Rightarrow> bool" where
  "moves_hint sy base v text c c' \<longleftrightarrow>
     (\<exists>a t. store_step\<^sup>*\<^sup>* (mem c) a \<and> below (hint_of sy base a) v \<and>
        store_step\<^sup>*\<^sup>* (put_object (last_checkpoint_path base) text t a) (mem c'))"

lemma read_versioned_object:
  assumes "mc_read_versioned p c = ((content, version), c')"
  shows "content = None \<or> (\<exists>ob. map_of (objects (mem c')) p = Some ob \<and> content = Some (obj_content ob)
    \<and> ov_etag version = obj_etag ob)"
  using assms by (auto simp: mc_read_versioned_def lookup_object_def Let_def split: prod.splits if_splits option.splits)

lemma last_attempt_forward:
  assumes "store_ok (mem c)" "hook_ok c" "last_attempt sy base v text c = (r, c')"
  shows "quiet c c' \<or> (r \<and> moves_hint sy base v text c c')"
proof -
  let ?p = "last_checkpoint_path base"
  obtain last etag c1 where rd: "read_last_versioned sy base c = ((last, etag), c1)" by (metis prod.collapse)
  then obtain content version where rv: "mc_read_versioned ?p c = ((content, version), c1)"
    and le: "(last, etag) = (case content of None \<Rightarrow> (no_checkpoint, [])
        | Some text \<Rightarrow> (parse_last_checkpoint sy text, ov_etag version))"
    by (auto simp: read_last_versioned_def split: prod.splits option.splits)
  note q = mc_read_versioned_quiet [OF rv]
  from quiet_store_steps [OF assms(2) q] have c1: "store_steps c c1" "hook_ok c1" by auto
  show ?thesis
  proof (cases "below (ci_version last) v")
    case False
    with assms(3) rd have "c' = c1" by (auto simp: last_attempt_def below_def split: option.splits)
    with q show ?thesis by simp
  next
    case low: True
    show ?thesis
    proof (cases "etag = []")
      case True
      obtain s e c2 where w: "mc_write_atomic ?p text c1 = ((s, e), c2)" by (metis prod.collapse)
      with assms(3) rd True low have r: "r = (s = Ok)" "c' = c2"
        by (auto simp: last_attempt_def below_def split: option.splits)
      show ?thesis
      proof (cases "s = Ok")
        case False
        with mc_write_atomic_one [OF w] r q show ?thesis by (auto intro: quiet_trans)
      next
        case ok: True
        with mc_write_atomic_put_absent [OF w c1(2)] obtain a t
          where a: "store_step\<^sup>*\<^sup>* (mem c1) a" "put_absent ?p text t a = (Ok, mem c2)" by auto
        then have "map_of (objects a) ?p = None" "mem c2 = put_object ?p text t a"
          by (auto simp: put_absent_def split: if_splits)
        moreover from a(1) c1(1) have "store_step\<^sup>*\<^sup>* (mem c) a" by simp
        ultimately show ?thesis using r ok unfolding moves_hint_def
          by (intro disjI2 conjI exI [of _ a] exI [of _ t]) (simp_all add: hint_of_def below_def)
      qed
    next
      case False
      with le obtain old where old: "content = Some old" "last = parse_last_checkpoint sy old" "etag = ov_etag version"
        by (auto split: option.splits)
      with read_versioned_object [OF rv] obtain ob where ob: "map_of (objects (mem c1)) ?p = Some ob"
        "old = obj_content ob" "etag = obj_etag ob" by auto
      obtain s c2 where w: "mc_write_if_match ?p text etag c1 = (s, c2)" by (cases "mc_write_if_match ?p text etag c1")
      with assms(3) rd False low have r: "r = (s = Ok)" "c' = c2"
        by (auto simp: last_attempt_def below_def split: option.splits)
      show ?thesis
      proof (cases "s = Ok")
        case False
        with mc_write_if_match_one [OF w] r q show ?thesis by (auto intro: quiet_trans)
      next
        case ok: True
        with mc_write_if_match_put_match [OF w c1(2)] obtain a t
          where a: "store_step\<^sup>*\<^sup>* (mem c1) a" "put_match ?p text etag t a = (Ok, mem c2)" by auto
        have ok1: "store_ok (mem c1)" using memory.steps_invar [OF c1(1) assms(1)] .
        from put_match_etag [OF a(2)] have "etag_at a ?p = Some etag" .
        with object_stable [OF ok1 a(1), of ?p etag] ob have "map_of (objects a) ?p = Some ob"
          by (auto simp: etag_at_def)
        then have "below (hint_of sy base a) v" using low old ob by (simp add: hint_of_def)
        moreover have "mem c2 = put_object ?p text t a"
          using a(2) by (auto simp: put_match_def split: option.splits if_splits)
        moreover from a(1) c1(1) have "store_step\<^sup>*\<^sup>* (mem c) a" by simp
        ultimately show ?thesis using r ok unfolding moves_hint_def
          by (intro disjI2 conjI exI [of _ a] exI [of _ t]) simp_all
      qed
    qed
  qed
qed

lemma moves_hint_quiet:
  "hook_ok c \<Longrightarrow> quiet c c1 \<Longrightarrow> moves_hint sy base v text c1 c' \<Longrightarrow> moves_hint sy base v text c c'"
  using quiet_store_steps [of c c1] unfolding moves_hint_def by (meson rtranclp_trans)

text \<open>C20: The hint \<open>_last_checkpoint\<close> never moves backwards, whatever other clients do and whichever
  operations fail: updating it either changes nothing, or puts it once, and at that moment the
  stored hint names a lower version than the new one (or none).\<close>

theorem last_checkpoint_forward:
  assumes "store_ok (mem c)" and "hook_ok c" and "update_last n sy base v text c = (r, c')"
  shows "quiet c c' \<or> (r \<and> moves_hint sy base v text c c')"
  using assms
proof (induction n arbitrary: c)
  case (Suc n)
  obtain d c1 where d: "last_attempt sy base v text c = (d, c1)" by (cases "last_attempt sy base v text c")
  note a = last_attempt_forward [OF Suc.prems(1,2) d]
  show ?case
  proof (cases d)
    case True
    with d Suc.prems(3) have "r" "c' = c1" by auto
    with a show ?thesis by blast
  next
    case False
    with a have q: "quiet c c1" by simp
    with quiet_store_steps [OF Suc.prems(2) q] Suc.prems(1) have "store_ok (mem c1)" "hook_ok c1"
      by (auto intro: memory.steps_invar)
    moreover from False d Suc.prems(3) have "update_last n sy base v text c1 = (r, c')" by simp
    ultimately have "quiet c1 c' \<or> (r \<and> moves_hint sy base v text c1 c')" by (rule Suc.IH)
    with q Suc.prems(2) show ?thesis by (blast intro: quiet_trans moves_hint_quiet)
  qed
qed simp

definition hint_json :: "nat \<Rightarrow> string" where
  "hint_json v = sample_write (JObject [(''version'', JInt (int v))])"

lemma last_checkpoint_forward_witness:
  "\<exists>c'. update_last 1 demo_sys ''t/'' 20 (hint_json 20) demo_connector = (True, c')
     \<and> (quiet demo_connector c' \<or> moves_hint demo_sys ''t/'' 20 (hint_json 20) demo_connector c')
     \<and> mc_get ''t/_delta_log/_last_checkpoint'' c' = Some (hint_json 20)"
proof -
  have ok: "store_ok (mem demo_connector)" "hook_ok demo_connector"
    by (simp_all add: demo_connector_def store_ok_def etag_at_def hook_ok_def)
  obtain c' where c': "update_last 1 demo_sys ''t/'' 20 (hint_json 20) demo_connector = (True, c')"
    "mc_get ''t/_delta_log/_last_checkpoint'' c' = Some (hint_json 20)"
    by (simp add: last_attempt_def read_last_versioned_def mc_read_versioned_def mc_write_atomic_def
        should_fail_def demo_connector_def lookup_object_def no_checkpoint_def store_def clock_time_def
        local_time_ms_def put_object_def mc_get_def last_checkpoint_path_def log_dir_def Let_def)
  from last_checkpoint_forward [OF ok c'(1)] c' show ?thesis by blast
qed

section \<open>A checkpoint restores the log it was written from\<close>

text \<open>The logs LakeVilla builds: each path once, every file added or removed, the texts canonical.\<close>

definition log_ok :: "sys \<Rightarrow> int \<Rightarrow> delta_log \<Rightarrow> bool" where
  "log_ok sy start l \<longleftrightarrow>
     distinct (map fst (dl_files l)) \<and> distinct (map fst (dl_transactions l)) \<and>
     (\<forall>(a, t, v) \<in> set (dl_transactions l). txn_app_id t = a) \<and>
     distinct (map fst (dl_domains l)) \<and>
     canonical_content sy (log_content l start) \<and> content_ok (log_content l start)"

lemma update_new: "k \<notin> fst ` set al \<Longrightarrow> AList.update k v al = al @ [(k, v)]"
  by (induction al) auto

lemma fold_register_new:
  assumes "distinct (map path xs)" "path ` set xs \<inter> fst ` set (dl_files l) = {}"
  shows "fold (\<lambda>x. register_action (path x) (entry x)) xs l
    = l\<lparr>dl_files := dl_files l @ map (\<lambda>x. (path x, entry x)) xs\<rparr>"
  using assms
proof (induction xs arbitrary: l)
  case (Cons x xs)
  have new: "map_of (dl_files l) (path x) = None"
    using Cons.prems(2) by (simp add: map_of_eq_None_iff)
  have upd: "AList.update (path x) (entry x) (dl_files l) = dl_files l @ [(path x, entry x)]"
    using Cons.prems(2) by (intro update_new) simp
  have "fold (\<lambda>x. register_action (path x) (entry x)) (x # xs) l
      = fold (\<lambda>x. register_action (path x) (entry x)) xs (l\<lparr>dl_files := dl_files l @ [(path x, entry x)]\<rparr>)"
    using new upd by (simp add: register_action_def)
  also have "\<dots> = l\<lparr>dl_files := (dl_files l @ [(path x, entry x)]) @ map (\<lambda>x. (path x, entry x)) xs\<rparr>"
    using Cons.prems by (subst Cons.IH) auto
  finally show ?case by simp
qed simp

lemma fold_transactions_new:
  assumes "distinct (map txn_app_id xs)" "txn_app_id ` set xs \<inter> fst ` set (dl_transactions l) = {}"
  shows "fold (\<lambda>t. set_transaction (txn_app_id t) (txn_version t) (txn_last_updated t) v) xs l
    = l\<lparr>dl_transactions := dl_transactions l @ map (\<lambda>t. (txn_app_id t, t, v)) xs\<rparr>"
  using assms
proof (induction xs arbitrary: l)
  case (Cons x xs)
  have new: "map_of (dl_transactions l) (txn_app_id x) = None"
    using Cons.prems(2) by (simp add: map_of_eq_None_iff)
  have "set_transaction (txn_app_id x) (txn_version x) (txn_last_updated x) v l
      = l\<lparr>dl_transactions := dl_transactions l @ [(txn_app_id x, x, v)]\<rparr>"
    using new Cons.prems(2) by (simp add: set_transaction_def update_new)
  moreover have "fold (\<lambda>t. set_transaction (txn_app_id t) (txn_version t) (txn_last_updated t) v) xs
        (l\<lparr>dl_transactions := dl_transactions l @ [(txn_app_id x, x, v)]\<rparr>)
      = l\<lparr>dl_transactions := (dl_transactions l @ [(txn_app_id x, x, v)]) @ map (\<lambda>t. (txn_app_id t, t, v)) xs\<rparr>"
    using Cons.prems by (subst Cons.IH) auto
  ultimately show ?case by simp
qed simp

lemma fold_domains_new:
  assumes "distinct (map cd_domain xs)" "cd_domain ` set xs \<inter> fst ` set (dl_domains l) = {}"
  shows "fold (\<lambda>d. set_domain_metadata (cd_domain d) (Some (cd_configuration d)) v) xs l
    = l\<lparr>dl_domains := dl_domains l @ map (\<lambda>d. (cd_domain d, Some (cd_configuration d), v)) xs\<rparr>"
  using assms
proof (induction xs arbitrary: l)
  case (Cons x xs)
  have new: "map_of (dl_domains l) (cd_domain x) = None"
    using Cons.prems(2) by (simp add: map_of_eq_None_iff)
  have "set_domain_metadata (cd_domain x) (Some (cd_configuration x)) v l
      = l\<lparr>dl_domains := dl_domains l @ [(cd_domain x, Some (cd_configuration x), v)]\<rparr>"
    using new Cons.prems(2) by (simp add: set_domain_metadata_def update_new)
  moreover have "fold (\<lambda>d. set_domain_metadata (cd_domain d) (Some (cd_configuration d)) v) xs
        (l\<lparr>dl_domains := dl_domains l @ [(cd_domain x, Some (cd_configuration x), v)]\<rparr>)
      = l\<lparr>dl_domains := (dl_domains l @ [(cd_domain x, Some (cd_configuration x), v)])
            @ map (\<lambda>d. (cd_domain d, Some (cd_configuration d), v)) xs\<rparr>"
    using Cons.prems by (subst Cons.IH) auto
  ultimately show ?case by simp
qed simp

lemma entry_with_stats_fields [simp]:
  "e_operation (entry_with_stats p w op (Some s) n) = op" "e_stats (entry_with_stats p w op (Some s) n) = s"
  "e_size (entry_with_stats p w op (Some s) n) = n"
  by (auto simp: entry_with_stats_def entry_of_def Let_def split: option.splits prod.splits)

lemma entry_of_fields [simp]: "e_operation (entry_of op) = op" "e_stats (entry_of op) = ''''"
  by (simp_all add: entry_of_def)

text \<open>A content with each path, application and domain once, applied to an empty log.\<close>

definition content_distinct :: "checkpoint_content \<Rightarrow> bool" where
  "content_distinct c \<longleftrightarrow>
     distinct (map ce_path (cc_adds c) @ map cr_path (cc_removes c)) \<and>
     distinct (map txn_app_id (cc_txns c)) \<and> distinct (map cd_domain (cc_domains c))"

lemma apply_checkpoint_new:
  assumes "content_distinct c" "cc_protocol c \<noteq> []" "cc_metadata c \<noteq> []" "cc_unsupported c = []"
  shows "apply_checkpoint sy v c (delta_log_new base) = (delta_log_new base)
    \<lparr>dl_files := map (\<lambda>a. (ce_path a, checkpoint_add sy v a)) (cc_adds c)
                @ map (\<lambda>r. (cr_path r, checkpoint_tombstone v r)) (cc_removes c),
     dl_transactions := map (\<lambda>t. (txn_app_id t, t, u32 v)) (cc_txns c),
     dl_domains := map (\<lambda>d. (cd_domain d, Some (cd_configuration d), u32 v)) (cc_domains c),
     dl_protocol := cc_protocol c, dl_protocol_version := int (u32 v),
     dl_metadata := cc_metadata c, dl_metadata_version := int (u32 v)\<rparr>"
proof -
  let ?n = "delta_log_new base"
  have n: "dl_files ?n = []" "dl_transactions ?n = []" "dl_domains ?n = []" "dl_protocol_version ?n = -1"
    "dl_metadata_version ?n = -1"
    by (simp_all add: delta_log_new_def)
  let ?a = "map (\<lambda>a. (ce_path a, checkpoint_add sy v a)) (cc_adds c)"
  let ?r = "map (\<lambda>r. (cr_path r, checkpoint_tombstone v r)) (cc_removes c)"
  let ?t = "map (\<lambda>t. (txn_app_id t, t, u32 v)) (cc_txns c)"
  let ?d = "map (\<lambda>d. (cd_domain d, Some (cd_configuration d), u32 v)) (cc_domains c)"
  have 1: "fold (\<lambda>a. register_action (ce_path a) (checkpoint_add sy v a)) (cc_adds c) ?n = ?n\<lparr>dl_files := ?a\<rparr>"
    using assms(1) n by (subst fold_register_new) (auto simp: content_distinct_def)
  have 2: "fold (\<lambda>r. register_action (cr_path r) (checkpoint_tombstone v r)) (cc_removes c) (?n\<lparr>dl_files := ?a\<rparr>)
      = ?n\<lparr>dl_files := ?a @ ?r\<rparr>"
    using assms(1) n by (subst fold_register_new) (auto simp: content_distinct_def image_image)
  have 3: "fold (\<lambda>t. set_transaction (txn_app_id t) (txn_version t) (txn_last_updated t) (u32 v)) (cc_txns c)
      (?n\<lparr>dl_files := ?a @ ?r\<rparr>) = ?n\<lparr>dl_files := ?a @ ?r, dl_transactions := ?t\<rparr>"
    using assms(1) n by (subst fold_transactions_new) (auto simp: content_distinct_def)
  have 4: "fold (\<lambda>d. set_domain_metadata (cd_domain d) (Some (cd_configuration d)) (u32 v)) (cc_domains c)
      (?n\<lparr>dl_files := ?a @ ?r, dl_transactions := ?t\<rparr>)
      = ?n\<lparr>dl_files := ?a @ ?r, dl_transactions := ?t, dl_domains := ?d\<rparr>"
    using assms(1) n by (subst fold_domains_new) (auto simp: content_distinct_def)
  show ?thesis
    unfolding apply_checkpoint_def Let_def 1 2 3 4 using assms(2-4) n
    by (simp add: set_protocol_def set_metadata_def)
qed

lemma calm_match:
  assumes "calm_store c" "mc_write_if_match p d e c = (s, c')"
  shows "calm_store c' \<and> (q \<noteq> p \<longrightarrow> mc_get q c' = mc_get q c)"
proof (cases "s = Ok")
  case True
  with assms obtain n where c': "c' = (store p d c)\<lparr>bytes_write := n\<rparr>"
    by (auto simp: mc_write_if_match_def calm_store_def calm_should_fail Let_def split: option.splits if_splits)
  obtain t where t: "mem (store p d c) = put_object p d t (mem c)" using store_mem by blast
  with assms(1) c' have "calm_store c'" by (simp add: calm_store_def calm_def put_object_def)
  with mc_get_put [of c' p d t c q] t c' show ?thesis by simp
next
  case False
  with mc_write_if_match_one [OF assms(2)] have "quiet c c'" by simp
  with calm_store_quiet [OF _ assms(1), of c' q] show ?thesis by simp
qed

lemma last_attempt_calm:
  assumes "calm_store c" "last_attempt sy base v text c = (r, c')"
  shows "calm_store c' \<and> (q \<noteq> last_checkpoint_path base \<longrightarrow> mc_get q c' = mc_get q c)"
proof -
  let ?p = "last_checkpoint_path base"
  obtain last etag c1 where rd: "read_last_versioned sy base c = ((last, etag), c1)" by (metis prod.collapse)
  then obtain x where rv: "mc_read_versioned ?p c = (x, c1)"
    by (auto simp: read_last_versioned_def split: prod.splits option.splits)
  from calm_store_quiet [OF mc_read_versioned_quiet [OF rv] assms(1), of q]
  have c1: "calm_store c1" "mc_get q c1 = mc_get q c" by auto
  obtain s e c2 where w: "mc_write_atomic ?p text c1 = ((s, e), c2)" by (metis prod.collapse)
  obtain s' c3 where w': "mc_write_if_match ?p text etag c1 = (s', c3)" by (cases "mc_write_if_match ?p text etag c1")
  from assms(2) rd w w' have "c' = c1 \<or> c' = c2 \<or> c' = c3"
    by (auto simp: last_attempt_def split: if_splits option.splits)
  with c1 calm_create [OF c1(1) w, of q] calm_match [OF c1(1) w', of q] show ?thesis by auto
qed

lemma update_last_calm:
  "calm_store c \<Longrightarrow> update_last n sy base v text c = (r, c') \<Longrightarrow>
   calm_store c' \<and> (q \<noteq> last_checkpoint_path base \<longrightarrow> mc_get q c' = mc_get q c)"
proof (induction n arbitrary: c)
  case (Suc n)
  obtain d c1 where d: "last_attempt sy base v text c = (d, c1)" by (cases "last_attempt sy base v text c")
  from last_attempt_calm [OF Suc.prems(1) d, of q]
  have c1: "calm_store c1" "q \<noteq> last_checkpoint_path base \<longrightarrow> mc_get q c1 = mc_get q c" by auto
  from Suc.prems(2) d have "d \<and> c' = c1 \<or> update_last n sy base v text c1 = (r, c')" by (auto split: if_splits)
  with c1 Suc.IH [OF c1(1)] show ?case by auto
qed simp

lemma checkpoint_not_last: "base @ log_dir @ checkpoint_name v \<noteq> last_checkpoint_path base"
proof -
  have "hd (pad20 v) \<noteq> CHR ''_''"
  proof -
    have "pad20 v \<noteq> []" by (simp add: pad20_conv)
    then have "hd (pad20 v) \<in> set (pad20 v)" by simp
    with digits_pad20 [of v] have "is_digit (hd (pad20 v))" by (simp add: list_all_iff)
    then show ?thesis by (auto simp: is_digit_def digits_def)
  qed
  moreover have "pad20 v \<noteq> []" by (simp add: pad20_conv)
  ultimately show ?thesis
    by (cases "pad20 v") (auto simp: last_checkpoint_path_def checkpoint_name_def log_file_name_pad)
qed

lemma log_content_distinct:
  assumes "log_ok sy start l" shows "content_distinct (log_content l start)"
proof -
  from assms have d: "distinct (map fst (dl_files l))" "distinct (map fst (dl_transactions l))"
    "distinct (map fst (dl_domains l))" "\<And>a t v. (a, t, v) \<in> set (dl_transactions l) \<Longrightarrow> txn_app_id t = a"
    by (auto simp: log_ok_def)
  have "map ce_path (cc_adds (log_content l start)) = map fst (get_entries l)"
    "map cr_path (cc_removes (log_content l start)) = map fst (filter (retained start) (get_tombstones l))"
    by (auto simp: log_content_def)
  moreover have "set (map fst (get_entries l)) \<inter> set (map fst (filter (retained start) (get_tombstones l))) = {}"
    using eq_key_imp_eq_value [OF d(1)] by (fastforce simp: get_entries_def get_tombstones_def)
  moreover have "map txn_app_id (cc_txns (log_content l start)) = map fst (dl_transactions l)"
    using d(4) by (auto simp: log_content_def get_transactions_def)
  moreover have "map cd_domain (cc_domains (log_content l start))
      = map fst (filter (\<lambda>x. fst (snd x) \<noteq> None) (dl_domains l))"
  proof -
    have "map cd_domain (concat (map (\<lambda>(d, c, _). case c of Some conf \<Rightarrow> [\<lparr>cd_domain = d, cd_configuration = conf\<rparr>]
        | None \<Rightarrow> []) ds)) = map fst (filter (\<lambda>x. fst (snd x) \<noteq> None) ds)" for ds :: "(string \<times> string option \<times> nat) list"
      by (induction ds) (auto split: option.splits)
    then show ?thesis by (simp add: log_content_def get_domain_metadata_def)
  qed
  ultimately show ?thesis using d
    by (simp add: content_distinct_def distinct_map_filter get_entries_def get_tombstones_def)
qed

lemma log_content_restored:
  assumes codec: "json_codec (sy_parse sy) (sy_write sy)" and ok: "log_ok sy start l"
  shows "log_content (apply_checkpoint sy v (log_content l start) (delta_log_new base)) start = log_content l start"
proof -
  let ?c = "log_content l start"
  from ok have can: "canonical_content sy ?c" by (simp add: log_ok_def)
  have known: "cc_protocol ?c \<noteq> []" "cc_metadata ?c \<noteq> []" "cc_unsupported ?c = []"
    using can canonical_parsed [OF codec] by (auto simp: canonical_content_def)
  have stats: "c_str (ce_stats a) = ce_stats a" if "a \<in> set (cc_adds ?c)" for a
    using can that by (auto simp: canonical_content_def no_nul_def intro: c_str_id)
  have adds: "map ((\<lambda>(p, e). \<lparr>ce_path = p, ce_stats = e_stats e, ce_size = e_size e,
          ce_modification_time = e_modification_time e, ce_partition_values = e_partition_values e,
          ce_tags = e_tags e\<rparr>) \<circ> (\<lambda>a. (ce_path a, checkpoint_add sy v a))) (cc_adds ?c) = cc_adds ?c"
    using stats by (intro map_idI) (simp add: checkpoint_add_def)
  have removes: "map ((\<lambda>(p, e). \<lparr>cr_path = p, cr_deletion_timestamp = e_deletion_timestamp e,
          cr_size = e_size e, cr_partition_values = e_partition_values e\<rparr>)
        \<circ> (\<lambda>r. (cr_path r, checkpoint_tombstone v r))) (cc_removes ?c) = cc_removes ?c"
    by (intro map_idI) (simp add: checkpoint_tombstone_def)
  have ret: "filter (retained start \<circ> (\<lambda>r. (cr_path r, checkpoint_tombstone v r))) (cc_removes ?c) = cc_removes ?c"
    by (auto simp: filter_id_conv log_content_def retained_def checkpoint_tombstone_def)
  have op: "e_operation (checkpoint_add sy v a) = ADD" "e_operation (checkpoint_tombstone v r) = DELETE" for a r
    by (simp_all add: checkpoint_add_def checkpoint_tombstone_def)
  have domains: "concat (map ((\<lambda>(d, c, _). case c of Some conf \<Rightarrow> [\<lparr>cd_domain = d, cd_configuration = conf\<rparr>]
        | None \<Rightarrow> []) \<circ> (\<lambda>d. (cd_domain d, Some (cd_configuration d), u32 v))) ds) = ds" for ds
    by (induction ds) simp_all
  let ?l = "apply_checkpoint sy v ?c (delta_log_new base)"
  note new = apply_checkpoint_new [OF log_content_distinct [OF ok] known, of sy v base]
  note lc = log_content_def [of ?l start]
  have "cc_adds (log_content ?l start) = cc_adds ?c"
    unfolding lc get_entries_def unfolding new using adds by (simp add: filter_map op comp_def)
  moreover have "cc_removes (log_content ?l start) = cc_removes ?c"
    unfolding lc get_tombstones_def unfolding new using removes ret by (simp add: filter_map op comp_def)
  moreover have "cc_txns (log_content ?l start) = cc_txns ?c"
    unfolding lc get_transactions_def unfolding new by (simp add: comp_def)
  moreover have "cc_domains (log_content ?l start) = cc_domains ?c"
    unfolding lc get_domain_metadata_def unfolding new using domains by simp
  moreover have "cc_protocol (log_content ?l start) = cc_protocol ?c" "cc_metadata (log_content ?l start) = cc_metadata ?c"
    unfolding lc get_protocol_def get_metadata_def unfolding new by simp_all
  moreover have "cc_unsupported (log_content ?l start) = cc_unsupported ?c"
    unfolding lc using known(3) by simp
  ultimately show ?thesis by simp
qed

text \<open>What a successful \<open>write_checkpoint\<close> of a new version wrote.\<close>

definition retention_start :: "sys \<Rightarrow> 'd float_unit \<Rightarrow> delta_log \<Rightarrow> manager \<Rightarrow> int" where
  "retention_start sy fu l m =
     fst (local_time_ms (conn m)) - tombstone_retention_ms fu (sy_parse sy) (get_metadata l)"

lemma local_time_value: "local_time_ms c = (t, c') \<Longrightarrow> t = local_clock c (clock_reads c) \<and> local_clock c' = local_clock c \<and> clock_reads c' = Suc (clock_reads c)"
  by (auto simp: local_time_ms_def)

lemma write_checkpoint_written:
  assumes calm: "calm_store (conn m)" and new: "contents (conn m) (base @ log_dir @ checkpoint_name v) = None"
    and w: "write_checkpoint sy fu pq base v l m = (True, m')"
  obtains data c where
    "generateCheckpoint sy pq (log_content l (retention_start sy fu l m))
       (local_clock (conn m) (Suc (clock_reads (conn m)))) = Some data"
    "m' = m\<lparr>conn := c\<rparr>" "calm_store c" "contents c (base @ log_dir @ checkpoint_name v) = Some data"
proof -
  let ?p = "base @ log_dir @ checkpoint_name v"
  let ?c = "log_content l (retention_start sy fu l m)"
  obtain now c1 where t1: "local_time_ms (conn m) = (now, c1)" by (cases "local_time_ms (conn m)")
  obtain gen c2 where t2: "local_time_ms c1 = (gen, c2)" by (cases "local_time_ms c1")
  from calm_time [OF calm t1] have c1: "calm_store c1" "mc_get q c1 = mc_get q (conn m)" for q by auto
  from calm_time [OF c1(1) t2] c1(2) have c2: "calm_store c2" "mc_get q c2 = mc_get q (conn m)" for q by auto
  have start: "retention_start sy fu l m = now - tombstone_retention_ms fu (sy_parse sy) (get_metadata l)"
    by (simp add: retention_start_def t1)
  have gen: "gen = local_clock (conn m) (Suc (clock_reads (conn m)))" using local_time_value [OF t1] local_time_value [OF t2] by simp
  from w t1 t2 obtain data where data: "generateCheckpoint sy pq ?c gen = Some data"
    by (auto simp: write_checkpoint_def with_conn_def start Let_def split: if_splits option.splits)
  obtain s e c3 where w3: "mc_write_atomic ?p data c2 = ((s, e), c3)" by (metis prod.collapse)
  from calm_create [OF c2(1) w3] c2(2) new have c3: "s = Ok" "calm_store c3" "mc_get ?p c3 = Some data"
    by (auto simp: contents_def)
  obtain r c4 where u: "update_last (storage_retries m) sy base v (last_checkpoint_text v ?c (Some (length data))) c3 = (r, c4)"
    by (cases "update_last (storage_retries m) sy base v (last_checkpoint_text v ?c (Some (length data))) c3")
  from w t1 t2 data w3 c3(1) u have "m' = m\<lparr>conn := c4\<rparr>"
    by (auto simp: write_checkpoint_def with_conn_def start Let_def split: if_splits)
  moreover from update_last_calm [OF c3(2) u, of ?p] checkpoint_not_last [of base v] c3(3)
  have "calm_store c4" "contents c4 ?p = Some data" by (auto simp: contents_def)
  ultimately show ?thesis using that data unfolding gen by blast
qed

text \<open>C19: A checkpoint restores the table: when LakeVilla has written the checkpoint of a version,
  parsing it into an empty log gives a log with exactly the active files (with statistics, sizes,
  times, partition values and tags), the protocol, the metadata, the transactions and the domains of
  the log it was written from, and with its tombstones that have not expired.\<close>

theorem checkpoint_restores_log:
  assumes codec: "json_codec (sy_parse sy) (sy_write sy)" and pq: "parquet_ok pq"
    and calm: "calm_store (conn m)" and retries: "0 < storage_retries m"
    and clock: "in_int64 (local_clock (conn m) (Suc (clock_reads (conn m))))"
    and new: "contents (conn m) (base @ log_dir @ checkpoint_name v) = None"
    and ok: "log_ok sy (retention_start sy fu l m) l"
    and w: "write_checkpoint sy fu pq base v l m = (True, m')"
  shows "\<exists>l' m''. parse_checkpoint sy pq base \<lparr>ci_version = Some v, ci_parts = 1\<rparr> (delta_log_new base) m' = ((True, l'), m'')
    \<and> log_content l' (retention_start sy fu l m) = log_content l (retention_start sy fu l m)"
proof -
  let ?start = "retention_start sy fu l m"
  obtain data c where data: "generateCheckpoint sy pq (log_content l ?start)
      (local_clock (conn m) (Suc (clock_reads (conn m)))) = Some data"
    and m': "m' = m\<lparr>conn := c\<rparr>" "calm_store c" "contents c (base @ log_dir @ checkpoint_name v) = Some data"
    by (rule write_checkpoint_written [OF calm new w])
  from ok have can: "canonical_content sy (log_content l ?start)" "content_ok (log_content l ?start)"
    by (simp_all add: log_ok_def)
  from generated_read [OF pq can(2) clock data] canonical_stored [OF codec can(1)]
  have read: "readDLCheckpointContent sy pq data = Some (log_content l ?start)" by simp
  from m' retries have "calm_store (conn m')" "0 < storage_retries m'" by simp_all
  from calm_read_retryE [OF this, of "base @ log_dir @ checkpoint_name v"] obtain c'
    where "read_retry (base @ log_dir @ checkpoint_name v) m' = (Some data, m'\<lparr>conn := c'\<rparr>)"
    using m' by auto
  then have "parse_checkpoint sy pq base \<lparr>ci_version = Some v, ci_parts = 1\<rparr> (delta_log_new base) m'
      = ((True, apply_checkpoint sy v (log_content l ?start) (delta_log_new base)), m'\<lparr>conn := c'\<rparr>)"
    by (simp add: parse_checkpoint_def checkpoint_files_def read)
  with log_content_restored [OF codec ok] show ?thesis by blast
qed

definition demo_units :: "int float_unit" where
  "demo_units =
     \<lparr>fu_strtod = (\<lambda>s. (int (undec (takeWhile is_digit s)), length (takeWhile is_digit s))),
      fu_lit = (\<lambda>m e. m * 10 ^ nat e), fu_negative = (\<lambda>x. x < 0), fu_add = (+), fu_mult = (*), fu_int64 = id\<rparr>"

definition demo_protocol :: json where
  "demo_protocol = JObject [(''minReaderVersion'', JInt 1), (''minWriterVersion'', JInt 2)]"

definition demo_metadata :: json where "demo_metadata = JObject [(''id'', JString ''x'')]"

definition demo_log :: delta_log where
  "demo_log = (delta_log_new ''t/'')
     \<lparr>dl_files := [(''a'', (entry_of ADD)\<lparr>e_size := 10, e_modification_time := 3,
                            e_partition_values := sample_write (JObject [])\<rparr>)],
      dl_protocol := sample_write demo_protocol, dl_metadata := sample_write demo_metadata\<rparr>"

lemma demo_parse: "sy_parse demo_sys (c_str (sample_write v)) = Some v"
proof -
  have "CHR 0x00 \<notin> set (sample_write v)"
    using sample_chars [of v] not_code_char by (auto simp: list_all_iff)
  then show ?thesis by (simp add: demo_sys_def sample_parse c_str_id)
qed

lemma demo_canonical:
  "canonical_text demo_sys (T_STRUCT protocol_fields) (sample_write demo_protocol)"
  "canonical_text demo_sys (T_STRUCT metadata_fields) (sample_write demo_metadata)"
  "canonical_text demo_sys string_map (sample_write (JObject []))"
  unfolding canonical_text_def demo_sys_def
  by (intro exI [of _ demo_protocol], simp add: demo_protocol_def fits.simps protocol_fields_def in_int32_def c_str_def)
     (intro exI [of _ demo_metadata], simp add: demo_metadata_def fits.simps metadata_fields_def c_str_def,
      intro exI [of _ "JObject []"], simp add: fits.simps string_map_def map_type_def)

lemma demo_log_ok: "log_ok demo_sys start demo_log"
  using demo_canonical
  by (simp add: log_ok_def demo_log_def delta_log_new_def log_content_def get_entries_def get_tombstones_def
      get_transactions_def get_domain_metadata_def get_protocol_def get_metadata_def canonical_content_def
      content_ok_def in_int64_def no_nul_def entry_of_def del: sample_write.simps)

lemma demo_manager_calm: "calm_store (conn demo_manager)" "0 < storage_retries demo_manager"
  "contents (conn demo_manager) p = None"
  by (simp_all add: demo_manager_def manager_new_def demo_connector_def calm_store_def calm_def contents_def
      mc_get_def lookup_object_def)

text \<open>A log that passes the checks is written when the store does not fail.\<close>

lemma write_checkpoint_succeeds:
  assumes calm: "calm_store (conn m)" and retries: "0 < storage_retries m"
    and new: "\<And>p. contents (conn m) p = None"
    and l: "get_unsupported l = []" "get_protocol l \<noteq> []" "get_metadata l \<noteq> []"
      "checkpoint_blocker (sy_parse sy) (get_protocol l) = []"
    and gen: "\<And>content now. content = log_content l (retention_start sy fu l m) \<Longrightarrow>
      generateCheckpoint sy pq content now \<noteq> None"
  obtains m' where "write_checkpoint sy fu pq base v l m = (True, m')"
proof -
  let ?p = "base @ log_dir @ checkpoint_name v"
  let ?c = "log_content l (retention_start sy fu l m)"
  obtain now c1 where t1: "local_time_ms (conn m) = (now, c1)" by (cases "local_time_ms (conn m)")
  obtain gen_now c2 where t2: "local_time_ms c1 = (gen_now, c2)" by (cases "local_time_ms c1")
  from calm_time [OF calm t1] have c1: "calm_store c1" "mc_get q c1 = mc_get q (conn m)" for q by auto
  from calm_time [OF c1(1) t2] c1(2) have c2: "calm_store c2" "mc_get q c2 = mc_get q (conn m)" for q by auto
  have start: "retention_start sy fu l m = now - tombstone_retention_ms fu (sy_parse sy) (get_metadata l)"
    by (simp add: retention_start_def t1)
  from gen obtain data where data: "generateCheckpoint sy pq ?c gen_now = Some data" by blast
  obtain s e c3 where w3: "mc_write_atomic ?p data c2 = ((s, e), c3)" by (metis prod.collapse)
  from calm_create [OF c2(1) w3] c2(2) new have s: "s = Ok" "calm_store c3" by (auto simp: contents_def)
  let ?q = "last_checkpoint_path base"
  have q: "mc_get ?q c3 = None"
    using calm_create [OF c2(1) w3, of ?q] c2(2) new [of ?q] checkpoint_not_last [of base v]
    by (auto simp: contents_def)
  obtain x c4 where rv: "mc_read_versioned ?q c3 = (x, c4)" by (cases "mc_read_versioned ?q c3")
  have rd: "read_last_versioned sy base c3 = ((no_checkpoint, []), c4)"
    using s(2) q rv
    by (auto simp: read_last_versioned_def mc_read_versioned_def calm_store_def calm_should_fail mc_get_def
        split: option.splits)
  from calm_store_quiet [OF mc_read_versioned_quiet [OF rv] s(2), of ?q] q
  have c4: "calm_store c4" "mc_get ?q c4 = None" by auto
  let ?t = "last_checkpoint_text v ?c (Some (length data))"
  obtain s' e' c5 where w5: "mc_write_atomic ?q ?t c4 = ((s', e'), c5)" by (metis prod.collapse)
  from calm_create [OF c4(1) w5] c4(2) have "s' = Ok" by simp
  then have "last_attempt sy base v ?t c3 = (True, c5)"
    using rd w5 by (simp add: last_attempt_def no_checkpoint_def)
  moreover obtain n where "storage_retries m = Suc n" using retries by (cases "storage_retries m") auto
  ultimately have "update_last (storage_retries m) sy base v ?t c3 = (True, c5)" by simp
  with t1 t2 data w3 s(1) l have "write_checkpoint sy fu pq base v l m = (True, m\<lparr>conn := c5\<rparr>)"
    by (simp add: write_checkpoint_def with_conn_def start Let_def)
  then show ?thesis by (rule that)
qed

lemma checkpoint_restores_log_witness:
  "\<exists>m' l' m''. write_checkpoint demo_sys demo_units sample_parquet ''t/'' 10 demo_log demo_manager = (True, m')
    \<and> parse_checkpoint demo_sys sample_parquet ''t/'' \<lparr>ci_version = Some 10, ci_parts = 1\<rparr> (delta_log_new ''t/'') m'
        = ((True, l'), m'')
    \<and> log_content l' (retention_start demo_sys demo_units demo_log demo_manager)
        = log_content demo_log (retention_start demo_sys demo_units demo_log demo_manager)"
proof -
  note codec = demo_codec
  have ok: "log_ok demo_sys start demo_log" for start by (rule demo_log_ok)
  have "generateCheckpoint demo_sys sample_parquet (log_content demo_log start) now \<noteq> None" for start now
    using ok [of start] by (metis canonical_generated codec log_ok_def option.distinct(1))
  moreover have "get_unsupported demo_log = []" "get_protocol demo_log \<noteq> []" "get_metadata demo_log \<noteq> []"
    by (simp_all add: demo_log_def get_unsupported_def get_protocol_def get_metadata_def delta_log_new_def
        demo_protocol_def demo_metadata_def)
  moreover have "checkpoint_blocker (sy_parse demo_sys) (get_protocol demo_log) = []"
  proof -
    have "get_protocol demo_log = sample_write demo_protocol" by (simp add: demo_log_def get_protocol_def)
    then show ?thesis
      by (simp add: checkpoint_blocker_def demo_parse del: sample_write.simps)
         (simp add: demo_protocol_def check_features_def in_int32_def)
  qed
  ultimately obtain m' where
    w: "write_checkpoint demo_sys demo_units sample_parquet ''t/'' 10 demo_log demo_manager = (True, m')"
    using write_checkpoint_succeeds [OF demo_manager_calm(1,2,3), of demo_log demo_sys demo_units sample_parquet "''t/''" 10]
    by blast
  have "in_int64 (local_clock (conn demo_manager) (Suc (clock_reads (conn demo_manager))))"
    by (simp add: demo_manager_def manager_new_def demo_connector_def in_int64_def)
  from checkpoint_restores_log [OF codec sample_parquet_ok demo_manager_calm(1,2) this demo_manager_calm(3) ok w] w
  show ?thesis by blast
qed

end
