(* ===== verification/Snapshots.thy ===== *)
theory Snapshots
  imports CheckpointLog
begin

text \<open>
  Opening tables (\<open>ManagerDeltaLake.cpp\<close>): a transaction loads the snapshot of a table, reserves its
  next version and remembers the markers of other transactions it saw (\<open>parse_logentries2\<close>,
  \<open>load_table\<close>, \<open>open_tableV2\<close>, \<open>reopen_tables\<close>, \<open>begin\<close>, \<open>begin_transaction_ycsb\<close>,
  \<open>open_new_table\<close>), and \<open>abort\<close> with the removal of the sublog.  The threads of \<open>load_table\<close> run one
  after the other, the checkpoint first.  \<open>None\<close> is no result: an exception or the end of the fuel.
\<close>

section \<open>Ending a transaction\<close>

definition clear_subdirectory :: "manager \<Rightarrow> manager" where
  "clear_subdirectory m =
     (if \<not> level0 m then m
      else m\<lparr>conn := fold (\<lambda>i c. snd (mc_delete_file (sublog_name (working_dir m) i) c))
                       [0..<next_step m] (conn m)\<rparr>)"

definition abort_txn :: "sys \<Rightarrow> bool \<Rightarrow> manager \<Rightarrow> manager" where
  "abort_txn sy clear_subdir m =
     (let m = (if with_markers m
               then let (ts, c) = release_tables sy (tables m) (conn m) in m\<lparr>tables := ts, conn := c\<rparr>
               else m)
      in if clear_subdir then clear_subdirectory m else m)"

text \<open>Destroying the tables releases the versions they still hold.\<close>

definition clear_tables :: "sys \<Rightarrow> manager \<Rightarrow> manager" where
  "clear_tables sy m =
     m\<lparr>conn := fold (\<lambda>t c. marker_destroy sy (t_marker t) c) (tables m) (conn m), tables := []\<rparr>"

section \<open>Parsing the versions of the log\<close>

text \<open>The lines of one version; the rest of a version after a running marker is skipped.\<close>

fun parse_lines ::
    "sys \<Rightarrow> string \<Rightarrow> nat \<Rightarrow> json list \<Rightarrow> delta_log \<Rightarrow> bool \<Rightarrow> manager \<Rightarrow> (delta_log \<times> bool) \<times> manager" where
  "parse_lines sy path s [] l deps m = ((l, deps), m)"
| "parse_lines sy path s (v # vs) l deps m =
     (let ((dep, l), m) = parseEntry sy v l s m
      in if dep = u32_max then parse_lines sy path s vs l deps m
         else let m = (if with_markers m then m\<lparr>prev_markers := prev_markers m @ [path]\<rparr> else m)
              in if level1 m
                 then let (known, r) = register_dependency dep (relation m)
                      in ((l, deps \<or> known), m\<lparr>relation := r\<rparr>)
                 else ((l, deps), m))"

fun parse_logentries2 ::
    "sys \<Rightarrow> string \<Rightarrow> nat \<Rightarrow> nat list \<Rightarrow> delta_log \<Rightarrow> bool \<Rightarrow> manager \<Rightarrow> (bool \<times> delta_log \<times> bool) \<times> manager" where
  "parse_logentries2 sy base max_version [] l deps m = ((True, l, deps), m)"
| "parse_logentries2 sy base max_version (s # ss) l deps m =
     (let path = version_path base s
      in if s \<le> max_version
         then let (content, m) = read_retry path m
              in (case content of
                    None \<Rightarrow> ((False, l, deps), m)
                  | Some text \<Rightarrow>
                      (let ((l, deps), m) = parse_lines sy path s (json_objects (sy_parse sy) text) l deps m
                       in parse_logentries2 sy base max_version ss l deps m))
         else parse_logentries2 sy base max_version ss l deps
                (if with_markers m then m\<lparr>prev_markers := prev_markers m @ [path]\<rparr> else m))"

section \<open>Loading a table\<close>

text \<open>The version the global log shows for the table (\<open>UINT32_MAX\<close>: none).\<close>

definition visible_version :: "sys \<Rightarrow> nat \<Rightarrow> string \<Rightarrow> manager \<Rightarrow> (nat \<times> manager) option" where
  "visible_version sy fuel base m =
     (if \<not> level2 m then Some (u32_max, m)
      else case map_of (local_log m) base of
             None \<Rightarrow> Some (u32_max, m)
           | Some v \<Rightarrow>
               if global_log_check_at_begin (options m)
               then map_option (\<lambda>(v, m). (v, m\<lparr>local_log := AList.update base v (local_log m)\<rparr>))
                      (skip_foreign_versions sy fuel base v m)
               else Some (v, m))"

definition highest_listed :: "object_info list \<Rightarrow> cxx_exception + nat option" where
  "highest_listed objs =
     fold (\<lambda>ob acc. case acc of
               Inl e \<Rightarrow> Inl e
             | Inr h \<Rightarrow>
                 (case parse_log_version (oi_key ob) of
                    Inl e \<Rightarrow> Inl e
                  | Inr None \<Rightarrow> Inr h
                  | Inr (Some v) \<Rightarrow> Inr (if h = None \<or> the h < v then Some v else h)))
       objs (Inr None)"

text \<open>The version to read up to and the checkpoint to start from; \<open>None\<close> inside: no listing.\<close>

definition find_start ::
    "sys \<Rightarrow> string \<Rightarrow> nat \<Rightarrow> manager \<Rightarrow> ((nat option \<times> checkpoint_info) option \<times> manager) option" where
  "find_start sy base max_version m =
     (if level2 m \<and> max_version \<noteq> u32_max
      then (case find_checkpoint sy base max_version m of
              (Inl e, m) \<Rightarrow> None
            | (Inr info, m) \<Rightarrow> Some (Some (Some max_version, info), m))
      else let (objs, m) = list_retry (base @ log_dir) m
           in case objs of
                None \<Rightarrow> Some (None, m)
              | Some objs \<Rightarrow>
                  (case (highest_listed objs, newest_checkpoint objs (2 ^ 64 - 1)) of
                     (Inr h, Inr info) \<Rightarrow>
                       Some (Some (case ci_version info of
                                     Some v \<Rightarrow> if h = None \<or> the h < v then Some v else h
                                   | None \<Rightarrow> h, info), m)
                   | _ \<Rightarrow> None))"

definition load_table ::
    "sys \<Rightarrow> parquet \<Rightarrow> nat \<Rightarrow> nat \<Rightarrow> table_stats \<Rightarrow> bool \<Rightarrow> manager
     \<Rightarrow> ((bool \<times> table_stats \<times> bool) \<times> manager) option" where
  "load_table sy pq fuel threads t deps m =
     (let base = t_base_path t
      in case visible_version sy fuel base m of
           None \<Rightarrow> None
         | Some (max_version, m) \<Rightarrow>
             (let t = t\<lparr>t_delta_log := delta_log_new base, t_file_num := 0, t_in_bytes := 0,
                        t_out_bytes := 0, t_concurrent_removes := [], t_concurrent_change := False\<rparr>
              in case find_start sy base max_version m of
                   None \<Rightarrow> None
                 | Some (None, m) \<Rightarrow> Some ((False, t, deps), m)
                 | Some (Some (None, _), m) \<Rightarrow> Some ((False, t, deps), m)
                 | Some (Some (Some highest, info), m) \<Rightarrow>
                     (case reserve_version sy fuel t (u32 highest) m of
                        None \<Rightarrow> None
                      | Some ((_, t, highest), m) \<Rightarrow>
                          (let ((checkpoint_ok, l), m) = parse_checkpoint sy pq base info (t_delta_log t) m;
                               first = (case ci_version info of Some v \<Rightarrow> u32 (v + 1) | None \<Rightarrow> 0);
                               ((logs_ok, l, deps), m) = parse_logentries2 sy base max_version
                                 (ranges_list (split_range first (u32 (highest + 1)) threads)) l deps m;
                               t = t\<lparr>t_delta_log := l, t_read_version := highest\<rparr>;
                               m = (if level2 m \<and> max_version = u32_max
                                    then m\<lparr>local_log := insert_new base highest (local_log m)\<rparr> else m)
                           in Some ((checkpoint_ok \<and> logs_ok, t, deps), m)))))"

section \<open>Opening and reopening tables\<close>

fun load_tables ::
    "sys \<Rightarrow> parquet \<Rightarrow> nat \<Rightarrow> nat \<Rightarrow> nat list \<Rightarrow> bool \<Rightarrow> manager \<Rightarrow> ((bool \<times> bool) \<times> manager) option" where
  "load_tables sy pq fuel threads [] deps m = Some ((True, deps), m)"
| "load_tables sy pq fuel threads (i # is) deps m =
     (case load_table sy pq fuel threads (tables m ! i) deps m of
        None \<Rightarrow> None
      | Some ((ok, t, deps), m) \<Rightarrow>
          (let m = set_table i t m
           in if ok then load_tables sy pq fuel threads is deps m else Some ((False, deps), m)))"

fun reopen_tables :: "sys \<Rightarrow> parquet \<Rightarrow> nat \<Rightarrow> nat \<Rightarrow> manager \<Rightarrow> (bool \<times> manager) option"
  and reopen_until :: "sys \<Rightarrow> parquet \<Rightarrow> nat \<Rightarrow> nat \<Rightarrow> manager \<Rightarrow> manager option" where
  "reopen_tables sy pq 0 threads m = None"
| "reopen_tables sy pq (Suc fuel) threads m =
     (let m = m\<lparr>relation := global_relation_new\<rparr>;
          m = (if level2 m then snd (parse_global_snapshots (m\<lparr>local_log := []\<rparr>)) else m)
      in case load_tables sy pq fuel threads [0..<length (tables m)] False m of
           None \<Rightarrow> None
         | Some ((ok, deps), m) \<Rightarrow>
             if \<not> ok then Some (False, m)
             else if deps then map_option (\<lambda>m. (True, m)) (reopen_until sy pq fuel threads m)
             else Some (True, m))"
| "reopen_until sy pq 0 threads m = None"
| "reopen_until sy pq (Suc fuel) threads m =
     (case reopen_tables sy pq fuel threads m of
        None \<Rightarrow> None
      | Some (fixed, m) \<Rightarrow> if fixed then Some m else reopen_until sy pq fuel threads m)"

text \<open>The loop of \<open>open_tableV2\<close> when the snapshot has a dependency.\<close>

fun reopen_aborted :: "sys \<Rightarrow> parquet \<Rightarrow> nat \<Rightarrow> manager \<Rightarrow> manager option" where
  "reopen_aborted sy pq 0 m = None"
| "reopen_aborted sy pq (Suc fuel) m =
     (case reopen_tables sy pq fuel 2 (abort_txn sy False m) of
        None \<Rightarrow> None
      | Some (fixed, m) \<Rightarrow> if fixed then Some m else reopen_aborted sy pq fuel m)"

definition open_tableV2 ::
    "sys \<Rightarrow> parquet \<Rightarrow> nat \<Rightarrow> string \<Rightarrow> nat \<Rightarrow> manager \<Rightarrow> (table_stats option \<times> manager) option" where
  "open_tableV2 sy pq fuel path threads m =
     (case load_table sy pq fuel threads ((table_stats_new path)\<lparr>t_table_id := length (tables m)\<rparr>) False m of
        None \<Rightarrow> None
      | Some ((ok, t, deps), m) \<Rightarrow>
          if \<not> ok
          then Some (None, case t_marker t of
                 None \<Rightarrow> m
               | Some mk \<Rightarrow>
                   if with_markers m
                   then let (now, m) = with_conn local_time_ms m
                        in snd (with_conn (mc_write (marker_path mk) (createHeaderCommit sy m t now)) m)
                   else m)
          else if deps then map_option (\<lambda>m. (Some t, m)) (reopen_aborted sy pq fuel m)
          else Some (Some t, m))"

section \<open>Beginning a transaction\<close>

definition begin_txn ::
    "sys \<Rightarrow> parquet \<Rightarrow> nat \<Rightarrow> nat \<Rightarrow> string \<Rightarrow> manager \<Rightarrow> (bool \<times> manager) option" where
  "begin_txn sy pq fuel random base m =
     (let m = (clear_tables sy m)
                \<lparr>found := ([], []),
                 working_dir := base @ log_dir @ dec random @ ''-'' @ dec (transaction_id m) @ ''/''\<rparr>;
          (sublog_ok, m) = (if level0 m
             then with_conn (write_retry_loop (storage_retries m) (working_dir m @ ''000.sub'') ''init transaction'') m
             else (True, m));
          m = snd (parse_global_snapshots m)
      in case open_tableV2 sy pq fuel base 2 m of
           None \<Rightarrow> None
         | Some (None, m) \<Rightarrow> Some (False, clear_subdirectory (m\<lparr>next_step := 1\<rparr>))
         | Some (Some t, m) \<Rightarrow>
             (let m = m\<lparr>tables := tables m @ [t]\<rparr>
              in if sublog_ok then Some (True, m\<lparr>next_step := 1\<rparr>)
                 else Some (False, abort_txn sy True m)))"

fun begin_loop ::
    "nat \<Rightarrow> sys \<Rightarrow> parquet \<Rightarrow> nat \<Rightarrow> (nat \<Rightarrow> nat) \<Rightarrow> manager \<Rightarrow> (bool \<times> manager) option" where
  "begin_loop 0 sy pq fuel random m = Some (False, m)"
| "begin_loop (Suc n) sy pq fuel random m =
     (case begin_txn sy pq fuel (random n) (m_base_path m) m of
        None \<Rightarrow> None
      | Some (ok, m) \<Rightarrow> if ok then Some (True, m) else begin_loop n sy pq fuel random m)"

definition begin_transaction_ycsb ::
    "sys \<Rightarrow> parquet \<Rightarrow> nat \<Rightarrow> (nat \<Rightarrow> nat) \<Rightarrow> manager \<Rightarrow> (bool \<times> manager) option" where
  "begin_transaction_ycsb sy pq fuel random m =
     begin_loop 5 sy pq fuel random
       ((clear_tables sy m)\<lparr>relation := global_relation_new, working_dir := [], next_step := 0,
          explicit_log := True, found := ([], []), times_redo := 0, update_vals := [], update_ops := [],
          prev_markers := [], local_log := []\<rparr>)"

fun open_loop ::
    "nat \<Rightarrow> sys \<Rightarrow> parquet \<Rightarrow> nat \<Rightarrow> string \<Rightarrow> manager \<Rightarrow> (table_stats option \<times> manager) option" where
  "open_loop 0 sy pq fuel path m = Some (None, m)"
| "open_loop (Suc n) sy pq fuel path m =
     (case open_tableV2 sy pq fuel path 2 m of
        None \<Rightarrow> None
      | Some (Some t, m) \<Rightarrow> Some (Some t, m)
      | Some (None, m) \<Rightarrow> open_loop n sy pq fuel path m)"

definition open_new_table ::
    "sys \<Rightarrow> parquet \<Rightarrow> nat \<Rightarrow> string \<Rightarrow> manager \<Rightarrow> (bool \<times> manager) option" where
  "open_new_table sy pq fuel path m =
     (case open_loop 5 sy pq fuel path m of
        None \<Rightarrow> None
      | Some (Some t, m) \<Rightarrow> Some (True, m\<lparr>tables := tables m @ [t]\<rparr>)
      | Some (None, m) \<Rightarrow> Some (False, abort_txn sy True m))"

definition get_table_id :: "string \<Rightarrow> manager \<Rightarrow> nat" where
  "get_table_id key m =
     (case index_where (\<lambda>t. t_base_path t = key) (tables m) of Some i \<Rightarrow> i | None \<Rightarrow> u32_max)"

section \<open>The listing of a plain log\<close>

text \<open>A log directory with the commits of the versions below \<open>n\<close> and nothing that looks like another
  version or a checkpoint (sublogs may be there).\<close>

definition ignored_key :: "string \<Rightarrow> bool" where
  "ignored_key p \<longleftrightarrow> parse_log_version p = Inr None \<and>
     (\<forall>mx n fp. checkpoint_object mx \<lparr>oi_key = p, oi_size = n\<rparr> fp = Inr fp)"

definition plain_log :: "string \<Rightarrow> nat \<Rightarrow> (nat \<Rightarrow> string) \<Rightarrow> (string \<rightharpoonup> string) \<Rightarrow> bool" where
  "plain_log base n text objs \<longleftrightarrow>
     (\<forall>v < n. objs (version_path base v) = Some (text v)) \<and> objs (version_path base n) = None \<and>
     (\<forall>p. starts_with (base @ log_dir) p \<longrightarrow> objs p \<noteq> None \<longrightarrow>
        (\<exists>v < n. p = version_path base v) \<or> ignored_key p)"

lemma version_key:
  assumes "v < 2 ^ 64"
  shows "parse_log_version (version_path base v) = Inr (Some v)"
    and "checkpoint_object mx \<lparr>oi_key = version_path base v, oi_size = n\<rparr> fp = Inr fp"
proof -
  have key: "version_path base v = base @ log_dir @ pad20 v @ ''.json''"
    by (simp add: version_path_def log_file_name_pad)
  note p = pad20_props [OF assms]
  have r: "rfind_sub log_dir (version_path base v) = Some (length base)"
    unfolding key using pad20_chars [OF assms] by (intro rfind_log_dir) simp
  have n: "drop (length base + length log_dir) (version_path base v) = pad20 v @ ''.json''" by (simp add: key)
  have ne: "pad20 v \<noteq> []" using p(1) by auto
  with p assms show "parse_log_version (version_path base v) = Inr (Some v)"
    by (simp add: parse_log_version_def r n Let_def has_at_def all_digits_def stoull_digits)
  from ne p assms show "checkpoint_object mx \<lparr>oi_key = version_path base v, oi_size = n\<rparr> fp = Inr fp"
    by (simp add: checkpoint_object_def r n Let_def all_digits_def stoull_digits checkpoint_suffix_def single_suffix_def)
qed

lemma calm_list:
  assumes "calm_store c" "mc_list_objects pre c = (r, c')"
  shows "\<exists>objs. r = Some objs \<and> calm_store c' \<and> contents c' = contents c
    \<and> oi_key ` set objs = {p. starts_with pre p \<and> contents c p \<noteq> None}"
proof -
  from assms have r: "r = Some (map (\<lambda>(k, ob). \<lparr>oi_key = k, oi_size = length (obj_content ob)\<rparr>)
      (filter (\<lambda>(k, _). starts_with pre k) (objects (mem c))))"
    by (auto simp: mc_list_objects_def calm_store_def calm_should_fail prefix_range_filter Let_def)
  have keys: "p \<in> fst ` set (objects (mem c)) \<longleftrightarrow> contents c p \<noteq> None" for p
    by (simp add: contents_def mc_get_def lookup_object_def map_of_eq_None_iff)
  have "oi_key ` set (the r) = fst ` set (filter (\<lambda>(k, _). starts_with pre k) (objects (mem c)))"
    by (simp add: r image_image case_prod_beta)
  also have "\<dots> = {p. starts_with pre p \<and> p \<in> fst ` set (objects (mem c))}" by auto
  finally have "oi_key ` set (the r) = {p. starts_with pre p \<and> contents c p \<noteq> None}"
    unfolding keys .
  moreover from calm_store_quiet [OF mc_list_objects_quiet [OF assms(2)] assms(1)]
  have "calm_store c'" "contents c' = contents c" by (auto simp: contents_def fun_eq_iff)
  ultimately show ?thesis using r by simp
qed

lemma calm_listE:
  assumes "calm_store (conn m)" "0 < storage_retries m"
  obtains objs c where "list_retry pre m = (Some objs, m\<lparr>conn := c\<rparr>)" "calm_store c"
    "contents c = contents (conn m)" "oi_key ` set objs = {p. starts_with pre p \<and> contents (conn m) p \<noteq> None}"
proof -
  obtain r c where l: "mc_list_objects pre (conn m) = (r, c)" by (cases "mc_list_objects pre (conn m)")
  from calm_list [OF assms(1) l] obtain objs where o: "r = Some objs" "calm_store c" "contents c = contents (conn m)"
    "oi_key ` set objs = {p. starts_with pre p \<and> contents (conn m) p \<noteq> None}" by blast
  moreover from assms(2) l o(1) have "list_retry pre m = (Some objs, m\<lparr>conn := c\<rparr>)"
    by (cases "storage_retries m") (simp_all add: list_retry_def with_conn_def)
  ultimately show ?thesis using that by blast
qed

definition key_version :: "string \<Rightarrow> nat option" where
  "key_version p = (case parse_log_version p of Inr v \<Rightarrow> v | Inl _ \<Rightarrow> None)"

lemma highest_listed_fold:
  assumes "\<And>ob. ob \<in> set objs \<Longrightarrow> parse_log_version (oi_key ob) = Inr (key_version (oi_key ob))"
  shows "fold (\<lambda>ob acc. case acc of
               Inl e \<Rightarrow> Inl e
             | Inr h \<Rightarrow>
                 (case parse_log_version (oi_key ob) of
                    Inl e \<Rightarrow> Inl e
                  | Inr None \<Rightarrow> Inr h
                  | Inr (Some v) \<Rightarrow> Inr (if h = None \<or> the h < v then Some v else h))) objs (Inr h)
     = Inr (fold (\<lambda>ob. max (key_version (oi_key ob))) objs h)"
  using assms
proof (induction objs arbitrary: h)
  case (Cons ob objs)
  have "parse_log_version (oi_key ob) = Inr (key_version (oi_key ob))" using Cons.prems [of ob] by simp
  moreover have "max (Some v) h = (if h = None \<or> the h < v then Some v else h)" for v
    by (cases h) (auto simp: max_def)
  ultimately show ?case using Cons.IH Cons.prems by (cases "key_version (oi_key ob)") auto
qed simp

lemma highest_listed_max:
  assumes "\<And>ob. ob \<in> set objs \<Longrightarrow> parse_log_version (oi_key ob) = Inr (key_version (oi_key ob))"
  shows "highest_listed objs = Inr (Max (insert None ((key_version \<circ> oi_key) ` set objs)))"
proof -
  have "fold (\<lambda>ob. max (key_version (oi_key ob))) objs h = Max (insert h ((key_version \<circ> oi_key) ` set objs))" for h
  proof (induction objs arbitrary: h)
    case (Cons ob objs)
    have "Max (insert (max (key_version (oi_key ob)) h) ((key_version \<circ> oi_key) ` set objs))
        = Max (insert h (insert (key_version (oi_key ob)) ((key_version \<circ> oi_key) ` set objs)))"
      by (cases "set objs = {}") (auto simp: max.assoc max.commute max.left_commute)
    with Cons show ?case by simp
  qed simp
  then show ?thesis using highest_listed_fold [OF assms, of objs None] by (simp add: highest_listed_def)
qed

lemma checkpoint_objects_ignored:
  "(\<And>ob. ob \<in> set objs \<Longrightarrow> checkpoint_object mx ob fp = Inr fp) \<Longrightarrow> checkpoint_objects mx objs fp = Inr fp"
  by (induction objs) auto

lemma plain_log_start:
  assumes log: "plain_log base n text (contents (conn m))" and n: "0 < n" "n < 2 ^ 32"
    and calm: "calm_store (conn m)" "0 < storage_retries m" and l2: "\<not> level2 m"
  obtains c where "find_start sy base mx m = Some (Some (Some (n - 1), no_checkpoint), m\<lparr>conn := c\<rparr>)"
    "calm_store c" "contents c = contents (conn m)"
proof -
  obtain objs c where list: "list_retry (base @ log_dir) m = (Some objs, m\<lparr>conn := c\<rparr>)" "calm_store c"
    "contents c = contents (conn m)"
    "oi_key ` set objs = {p. starts_with (base @ log_dir) p \<and> contents (conn m) p \<noteq> None}"
    by (rule calm_listE [OF calm])
  have kind: "(\<exists>v < n. p = version_path base v) \<or> ignored_key p" if "p \<in> oi_key ` set objs" for p
    using that log unfolding list(4) plain_log_def by blast
  have w: "v < n \<Longrightarrow> v < 2 ^ 64" for v using n by simp
  have known: "parse_log_version p = Inr (key_version p)"
      "checkpoint_object mx \<lparr>oi_key = p, oi_size = k\<rparr> fp = Inr fp"
      "key_version p \<le> Some (n - 1)" if "p \<in> oi_key ` set objs" for p mx k fp
    using kind [OF that] version_key [OF w] by (auto simp: ignored_key_def key_version_def)
  have top: "Some (n - 1) \<in> (key_version \<circ> oi_key) ` set objs"
  proof -
    have "version_path base (n - 1) \<in> oi_key ` set objs"
      using log n by (auto simp: list(4) plain_log_def version_path_def starts_with_conv)
    moreover have "key_version (version_path base (n - 1)) = Some (n - 1)"
      using version_key(1) [OF w, of "n - 1"] n by (simp add: key_version_def)
    ultimately show ?thesis by (metis imageI image_comp)
  qed
  have "highest_listed objs = Inr (Max (insert None ((key_version \<circ> oi_key) ` set objs)))"
    using known(1) by (intro highest_listed_max) auto
  moreover have "Max (insert None ((key_version \<circ> oi_key) ` set objs)) = Some (n - 1)"
    using top known(3) by (intro Max_eqI) auto
  ultimately have h: "highest_listed objs = Inr (Some (n - 1))" by simp
  have "checkpoint_object mx ob fp = Inr fp" if "ob \<in> set objs" for ob mx fp
  proof -
    obtain k i where ob: "ob = \<lparr>oi_key = k, oi_size = i\<rparr>" by (cases ob)
    with that have "k \<in> oi_key ` set objs" by force
    from known(2) [OF this] show ?thesis unfolding ob .
  qed
  then have "newest_checkpoint objs (2 ^ 64 - 1) = Inr no_checkpoint"
    unfolding newest_checkpoint_def by (subst checkpoint_objects_ignored) (auto simp: newest_found_def)
  with h l2 list(1) have "find_start sy base mx m = Some (Some (Some (n - 1), no_checkpoint), m\<lparr>conn := c\<rparr>)"
    by (simp add: find_start_def no_checkpoint_def)
  with list(2,3) that show ?thesis by blast
qed

section \<open>Parsing a plain log\<close>

definition no_marker :: "sys \<Rightarrow> string \<Rightarrow> bool" where
  "no_marker sy text \<longleftrightarrow> \<not> list_ex (has_member ''marker'') (json_objects (sy_parse sy) text)"

text \<open>The snapshot: the actions of the versions, in order.\<close>

definition replay :: "sys \<Rightarrow> (nat \<Rightarrow> string) \<Rightarrow> nat list \<Rightarrow> delta_log \<Rightarrow> delta_log" where
  "replay sy text vs l =
     fold (\<lambda>v. fold (\<lambda>val. apply_log_action sy val v) (json_objects (sy_parse sy) (text v))) vs l"

lemma parse_entry_no_marker:
  "\<not> has_member ''marker'' v \<Longrightarrow> parseEntry sy v l s m = ((u32_max, apply_log_action sy v s l), m)"
  by (simp add: parseEntry_def Let_def member_object_def has_member_def)

lemma parse_lines_no_marker:
  "\<not> list_ex (has_member ''marker'') vals \<Longrightarrow>
   parse_lines sy path s vals l deps m = ((fold (\<lambda>val. apply_log_action sy val s) vals l, deps), m)"
  by (induction vals arbitrary: l) (simp_all add: parse_entry_no_marker)

lemma parse_logentries2_plain:
  assumes "calm_store (conn m)" "0 < storage_retries m"
    and "\<And>v. v \<in> set vs \<Longrightarrow> v \<le> mx \<and> contents (conn m) (version_path base v) = Some (text v) \<and> no_marker sy (text v)"
  shows "\<exists>c. parse_logentries2 sy base mx vs l deps m = ((True, replay sy text vs l, deps), m\<lparr>conn := c\<rparr>)
    \<and> calm_store c \<and> contents c = contents (conn m)"
  using assms
proof (induction vs arbitrary: l m)
  case Nil
  then show ?case by (auto simp: replay_def intro: exI [of _ "conn m"])
next
  case (Cons v vs)
  obtain c where c: "read_retry (version_path base v) m = (Some (text v), m\<lparr>conn := c\<rparr>)"
    "calm_store c" "contents c = contents (conn m)"
    using calm_read_retryE [OF Cons.prems(1,2), of "version_path base v"] Cons.prems(3) [of v] by auto
  have v: "v \<le> mx" "no_marker sy (text v)" using Cons.prems(3) [of v] by auto
  let ?l = "fold (\<lambda>val. apply_log_action sy val v) (json_objects (sy_parse sy) (text v)) l"
  have "parse_logentries2 sy base mx (v # vs) l deps m = parse_logentries2 sy base mx vs ?l deps (m\<lparr>conn := c\<rparr>)"
    using c(1) v by (simp add: parse_lines_no_marker no_marker_def)
  moreover have "replay sy text (v # vs) l = replay sy text vs ?l" by (simp add: replay_def)
  moreover have "\<exists>c'. parse_logentries2 sy base mx vs ?l deps (m\<lparr>conn := c\<rparr>)
      = ((True, replay sy text vs ?l, deps), (m\<lparr>conn := c\<rparr>)\<lparr>conn := c'\<rparr>)
    \<and> calm_store c' \<and> contents c' = contents (conn (m\<lparr>conn := c\<rparr>))"
    using Cons.prems c by (intro Cons.IH) auto
  ultimately show ?case using c(3) by auto
qed

lemma ranges_split: "ranges_list (split_range b e parts) = [b..<e]"
proof (cases "e \<le> b")
  case False
  define n where "n = max 1 (min parts (e - b))"
  define q where "q = (e - b) div n"
  define r where "r = (e - b) mod n"
  have sr: "split_range b e parts = split_from q r n 0 b"
    using False by (simp add: split_range_def n_def q_def r_def Let_def)
  have "0 < n" by (simp add: n_def)
  then have r: "r \<le> n" by (simp add: r_def less_imp_le)
  have "q * n + r = e - b" unfolding q_def r_def by (rule div_mult_mod_eq)
  then have "b + q * n + r = e" using False by simp
  with split_from_concat [of 0 n r q b] r show ?thesis by (simp add: sr ranges_list_def)
qed (simp add: ranges_list_def split_range_def)

lemma reserve_freeE:
  assumes "calm_store (conn m)" "with_markers m" "no_live_marker t" "h + 1 < 2 ^ 32"
    and "contents (conn m) (version_path (t_base_path t) (h + 1)) = None"
  obtains mk c d where "reserve_version sy (Suc fuel) t h m =
      Some ((True, t\<lparr>t_marker := Some mk, t_marker_version := h + 1\<rparr>, h), m\<lparr>conn := c\<rparr>)"
    "calm_store c" "marker_valid mk" "marker_path mk = version_path (t_base_path t) (h + 1)"
    "contents c = (contents (conn m))(version_path (t_base_path t) (h + 1) \<mapsto> d)"
proof -
  let ?p = "version_path (t_base_path t) (h + 1)"
  obtain b c1 where c1: "mc_check ?p (conn m) = (b, c1)" by (cases "mc_check ?p (conn m)")
  obtain now c2 where c2: "store_time c1 = (now, c2)" by (cases "store_time c1")
  obtain hn c3 where c3: "local_time_ms c2 = (hn, c3)" by (cases "local_time_ms c2")
  define d where "d = createHeaderMarker sy m hn @ newline # createMarkerEntry sy m
      (now_ms now + int (marker_lease_ms (options m)))"
  obtain s e c4 where c4: "mc_write_atomic ?p d c3 = ((s, e), c4)" by (metis prod.collapse)
  have b: "\<not> b" using calm_exists [OF assms(1) c1] assms(5) by (simp add: contents_def)
  have "quiet (conn m) c3"
    using mc_check_quiet [OF c1] store_time_quiet [OF c2] local_time_quiet [OF c3] by (blast intro: quiet_trans)
  from calm_store_quiet [OF this assms(1)] have m3: "calm_store c3" "mc_get q c3 = mc_get q (conn m)" for q by auto
  from calm_create [OF m3(1) c4] m3(2) assms(5) have w: "s = Ok" "calm_store c4"
    "contents c4 = (contents (conn m))(?p \<mapsto> d)" by (auto simp: contents_def fun_eq_iff)
  let ?mk = "marker_new ?p (case e of Some e \<Rightarrow> e | None \<Rightarrow> []) (now_ms now + int (marker_lease_ms (options m)))"
  have u: "u32 (h + 1) = h + 1" using assms(4) by (simp add: u32_id)
  have "reserve_version sy (Suc fuel) t h m =
      Some ((True, t\<lparr>t_marker := Some ?mk, t_marker_version := h + 1\<rparr>, h), m\<lparr>conn := c4\<rparr>)"
    using assms(2) b c1 c2 c3 c4 w(1) assign_marker_dead [OF assms(3)]
    unfolding reserve_version.simps u Let_def d_def by simp
  moreover have "marker_valid ?mk" "marker_path ?mk = ?p" by (simp_all add: marker_new_def)
  ultimately show ?thesis using that w by blast
qed

section \<open>Properties\<close>

text \<open>C14: Opening a table with markers gives a consistent snapshot: of a log with the commits of the
  versions below \<open>n\<close>, the transaction reserves version \<open>n\<close> with a marker of its own, its read version is
  \<open>n - 1\<close>, and its log is the replay of all actions of the versions \<open>0 .. n - 1\<close> in order, whatever the
  number of threads; apart from the marker no object changes.\<close>

theorem load_table_snapshot:
  assumes calm: "calm_store (conn m)" "0 < storage_retries m" and levels: "with_markers m" "\<not> level2 m"
    and log: "plain_log (t_base_path t) n text (contents (conn m))" and n: "0 < n" "n < 2 ^ 32 - 1"
    and commits: "\<And>v. v < n \<Longrightarrow> no_marker sy (text v)" and t: "no_live_marker t" and fuel: "0 < fuel"
  shows "\<exists>t' mk c d. load_table sy pq fuel threads t deps m = Some ((True, t', deps), m\<lparr>conn := c\<rparr>)
    \<and> t_delta_log t' = replay sy text [0..<n] (delta_log_new (t_base_path t))
    \<and> t_read_version t' = n - 1 \<and> t_marker_version t' = n
    \<and> t_marker t' = Some mk \<and> marker_valid mk \<and> marker_path mk = version_path (t_base_path t) n
    \<and> contents c = (contents (conn m))(version_path (t_base_path t) n \<mapsto> d)"
proof -
  let ?base = "t_base_path t"
  let ?t = "t\<lparr>t_delta_log := delta_log_new ?base, t_file_num := 0, t_in_bytes := 0, t_out_bytes := 0,
      t_concurrent_removes := [], t_concurrent_change := False\<rparr>"
  obtain c1 where start: "find_start sy ?base u32_max m = Some (Some (Some (n - 1), no_checkpoint), m\<lparr>conn := c1\<rparr>)"
    and c1: "calm_store c1" "contents c1 = contents (conn m)"
    using plain_log_start [OF log n(1) _ calm levels(2), of sy u32_max] n(2) by auto
  let ?m1 = "m\<lparr>conn := c1\<rparr>"
  obtain k where k: "n = Suc k" using n(1) by (cases n) auto
  have nn: "n - 1 + 1 = n" "n - 1 = k" "u32 k = k" "u32 n = n" "n < 2 ^ 32" "k + 1 = n"
    using n k by (simp_all add: u32_id)
  have free: "contents (conn ?m1) (version_path (t_base_path ?t) (n - 1 + 1)) = None"
    using log c1(2) n(1) by (simp add: plain_log_def)
  obtain f where f: "fuel = Suc f" using fuel by (cases fuel) auto
  obtain mk c2 d where res: "reserve_version sy (Suc f) ?t (n - 1) ?m1 =
      Some ((True, ?t\<lparr>t_marker := Some mk, t_marker_version := n\<rparr>, n - 1), ?m1\<lparr>conn := c2\<rparr>)"
    and c2: "calm_store c2" "marker_valid mk" "marker_path mk = version_path ?base n"
      "contents c2 = (contents (conn m))(version_path ?base n \<mapsto> d)"
    using reserve_freeE [of ?m1 ?t "n - 1" sy f] c1 levels(1) t free nn(1,5)
    by (auto simp: no_live_marker_def with_markers_def)
  let ?m2 = "m\<lparr>conn := c2\<rparr>"
  have "v < n \<Longrightarrow> version_path ?base v \<noteq> version_path ?base n" for v
    using log by (auto simp: plain_log_def)
  then have vs: "v \<in> set [0..<n] \<Longrightarrow> v \<le> u32_max \<and> contents (conn ?m2) (version_path ?base v) = Some (text v)
      \<and> no_marker sy (text v)" for v
    using log c2(4) commits n(2) by (auto simp: plain_log_def u32_max_def)
  obtain c3 where parse: "parse_logentries2 sy ?base u32_max [0..<n] (delta_log_new ?base) deps ?m2
      = ((True, replay sy text [0..<n] (delta_log_new ?base), deps), ?m2\<lparr>conn := c3\<rparr>)"
    and c3: "calm_store c3" "contents c3 = contents c2"
    using parse_logentries2_plain [of ?m2 "[0..<n]" u32_max ?base "text" sy "delta_log_new ?base" deps] c2(1) calm(2) vs
    by auto
  let ?t' = "?t\<lparr>t_marker := Some mk, t_marker_version := n,
      t_delta_log := replay sy text [0..<n] (delta_log_new ?base), t_read_version := n - 1\<rparr>"
  have "load_table sy pq fuel threads t deps m = Some ((True, ?t', deps), m\<lparr>conn := c3\<rparr>)"
    using levels(2) start [unfolded nn] res [unfolded nn] parse
    by (simp add: load_table_def visible_version_def f nn(2-6) parse_checkpoint_def no_checkpoint_def ranges_split Let_def
        del: reserve_version.simps One_nat_def add_Suc_right)
  with c2 c3 show ?thesis
    by (intro exI [of _ ?t'] exI [of _ mk] exI [of _ c3] exI [of _ d]) simp
qed

definition demo_commit :: string where
  "demo_commit = sample_write (JObject [(''add'', JObject [(''path'', JString ''a'')])]) @ [newline]"

definition demo_opener :: manager where
  "demo_opener = demo_manager\<lparr>conn := store (version_path ''t/'' 0) demo_commit demo_connector\<rparr>"

lemma contents_store: "calm_store c \<Longrightarrow> contents (store p d c) = (contents c)(p \<mapsto> d) \<and> calm_store (store p d c)"
proof -
  assume c: "calm_store c"
  obtain t where t: "mem (store p d c) = put_object p d t (mem c)" using store_mem by blast
  with mc_get_put [OF t] c show ?thesis
    by (auto simp: contents_def fun_eq_iff calm_store_def calm_def put_object_def)
qed

lemma demo_opener_calm: "calm_store (conn demo_opener)" "0 < storage_retries demo_opener" "with_markers demo_opener"
  "\<not> level2 demo_opener" "contents (conn demo_opener) = [version_path ''t/'' 0 \<mapsto> demo_commit]"
proof -
  have c: "conn demo_manager = demo_connector" by (simp add: demo_manager_def manager_new_def)
  have e: "contents demo_connector = Map.empty" using demo_manager_calm(3) unfolding c by (intro ext)
  have "calm_store demo_connector" using demo_manager_calm(1) unfolding c .
  note s = contents_store [OF this, of "version_path ''t/'' 0" demo_commit]
  have o: "conn demo_opener = store (version_path ''t/'' 0) demo_commit demo_connector" by (simp add: demo_opener_def)
  show "calm_store (conn demo_opener)" "contents (conn demo_opener) = [version_path ''t/'' 0 \<mapsto> demo_commit]"
    using s unfolding o e by blast+
qed (simp_all add: demo_opener_def demo_manager_def manager_new_def with_markers_def level_of_def)

lemma version_path_inj: "version_path base u = version_path base v \<Longrightarrow> u < 2 ^ 64 \<Longrightarrow> v < 2 ^ 64 \<Longrightarrow> u = v"
  by (metis version_key(1) sum.inject(2) option.inject)

lemma demo_commit_lines:
  "json_objects sample_parse demo_commit = [JObject [(''add'', JObject [(''path'', JString ''a'')])]]"
  using json_objects_lines [OF sample_codec, of "[JObject [(''add'', JObject [(''path'', JString ''a'')])]]"]
  by (simp add: demo_commit_def del: sample_write.simps)

lemma load_table_snapshot_witness:
  "\<exists>t' mk c d. load_table demo_sys sample_parquet 1 2 (table_stats_new ''t/'') False demo_opener
      = Some ((True, t', False), demo_opener\<lparr>conn := c\<rparr>)
    \<and> t_delta_log t' = replay demo_sys (\<lambda>_. demo_commit) [0..<1] (delta_log_new (t_base_path (table_stats_new ''t/'')))
    \<and> t_read_version t' = 1 - 1 \<and> t_marker_version t' = 1
    \<and> t_marker t' = Some mk \<and> marker_valid mk \<and> marker_path mk = version_path (t_base_path (table_stats_new ''t/'')) 1
    \<and> contents c = (contents (conn demo_opener))(version_path (t_base_path (table_stats_new ''t/'')) 1 \<mapsto> d)"
proof (rule load_table_snapshot)
  have "version_path ''t/'' 1 \<noteq> version_path ''t/'' 0" using version_path_inj [of "''t/''" 1 0] by auto
  then show "plain_log (t_base_path (table_stats_new ''t/'')) 1 (\<lambda>_. demo_commit) (contents (conn demo_opener))"
    by (simp add: plain_log_def demo_opener_calm table_stats_new_def)
  show "no_marker demo_sys demo_commit" for v :: nat
    by (simp add: no_marker_def demo_sys_def demo_commit_lines has_member_def)
  show "no_live_marker (table_stats_new ''t/'')" by (simp add: no_live_marker_def table_stats_new_def)
qed (simp_all add: demo_opener_calm)

end
