(* ===== verification/ReplayOrder.thy ===== *)
theory ReplayOrder
  imports Snapshots
begin

text \<open>
  The threads that parse the log apply their actions to one shared log, in an order the scheduler
  chooses; each thread applies the actions of a version in the order of its lines.  The snapshot they
  build does not depend on the schedule: its files with their entries, its protocol, metadata,
  transactions and domains are those of the parse in the order of the versions.
\<close>

section \<open>Registers that keep the first or the last action with the highest key\<close>

fun keep_first :: "'k::linorder \<times> 'v \<Rightarrow> ('k \<times> 'v) option \<Rightarrow> ('k \<times> 'v) option" where
  "keep_first x None = Some x"
| "keep_first x (Some y) = (if fst y < fst x then Some x else Some y)"

fun keep_last :: "'k::linorder \<times> 'v \<Rightarrow> ('k \<times> 'v) option \<Rightarrow> ('k \<times> 'v) option" where
  "keep_last x None = Some x"
| "keep_last x (Some y) = (if fst y \<le> fst x then Some x else Some y)"

definition at_key :: "('k \<times> 'v) list \<Rightarrow> 'k \<Rightarrow> ('k \<times> 'v) list" where
  "at_key xs k = filter (\<lambda>x. fst x = k) xs"

lemma at_key_top: "xs \<noteq> [] \<Longrightarrow> at_key xs (Max (fst ` set xs)) \<noteq> []"
  for xs :: "('k::linorder \<times> 'v) list"
proof -
  assume "xs \<noteq> []"
  then have "Max (fst ` set xs) \<in> fst ` set xs" by (intro Max_in) simp_all
  then obtain x where "x \<in> set xs" "Max (fst ` set xs) = fst x" by blast
  then show ?thesis by (auto simp: at_key_def filter_empty_conv)
qed

lemma at_key_above: "Max (fst ` set xs) < k \<Longrightarrow> at_key xs k = []"
  for xs :: "('k::linorder \<times> 'v) list"
proof -
  assume top: "Max (fst ` set xs) < k"
  have "fst x \<noteq> k" if "x \<in> set xs" for x
  proof -
    from that have "fst x \<le> Max (fst ` set xs)" by (intro Max_ge) simp_all
    with top show ?thesis by (meson leD order_less_le_trans)
  qed
  then show ?thesis by (simp add: at_key_def filter_empty_conv)
qed

lemma at_key_snoc: "at_key (xs @ [x]) k = at_key xs k @ (if fst x = k then [x] else [])"
  by (simp add: at_key_def)

lemma at_key_fst: "zs \<noteq> [] \<Longrightarrow> zs = at_key xs k \<Longrightarrow> fst (hd zs) = k \<and> fst (last zs) = k"
  using hd_in_set [of zs] last_in_set [of zs] by (auto simp: at_key_def)

lemma Max_snoc: "xs \<noteq> [] \<Longrightarrow> Max (fst ` set (xs @ [x])) = max (fst x) (Max (fst ` set xs))"
  for xs :: "('k::linorder \<times> 'v) list"
  by simp

definition first_top :: "('k::linorder \<times> 'v) list \<Rightarrow> ('k \<times> 'v) option" where
  "first_top xs = (if xs = [] then None else Some (hd (at_key xs (Max (fst ` set xs)))))"

definition last_top :: "('k::linorder \<times> 'v) list \<Rightarrow> ('k \<times> 'v) option" where
  "last_top xs = (if xs = [] then None else Some (last (at_key xs (Max (fst ` set xs)))))"

lemma first_top_snoc: "first_top (xs @ [x]) = keep_first x (first_top xs)"
proof (cases "xs = []")
  case False
  define top where "top = Max (fst ` set xs)"
  have ne: "at_key xs top \<noteq> []" unfolding top_def by (rule at_key_top [OF False])
  have fk: "fst (hd (at_key xs top)) = top" using at_key_fst [OF ne refl] by blast
  have new: "first_top (xs @ [x]) = Some (hd (at_key (xs @ [x]) (max (fst x) top)))"
    using Max_snoc [OF False, of x] by (simp add: first_top_def top_def)
  have old: "first_top xs = Some (hd (at_key xs top))" using False by (simp add: first_top_def top_def)
  show ?thesis
  proof (cases "top < fst x")
    case True
    then have "at_key xs (fst x) = []" unfolding top_def by (rule at_key_above)
    with True show ?thesis by (simp add: new old fk at_key_snoc max_absorb1)
  next
    case False
    then have "max (fst x) top = top" by (simp add: max_absorb2)
    with False ne show ?thesis by (simp add: new old fk at_key_snoc)
  qed
qed (simp add: first_top_def at_key_def)

lemma last_top_snoc: "last_top (xs @ [x]) = keep_last x (last_top xs)"
proof (cases "xs = []")
  case False
  define top where "top = Max (fst ` set xs)"
  have ne: "at_key xs top \<noteq> []" unfolding top_def by (rule at_key_top [OF False])
  have fk: "fst (last (at_key xs top)) = top" using at_key_fst [OF ne refl] by blast
  have new: "last_top (xs @ [x]) = Some (last (at_key (xs @ [x]) (max (fst x) top)))"
    using Max_snoc [OF False, of x] by (simp add: last_top_def top_def)
  have old: "last_top xs = Some (last (at_key xs top))" using False by (simp add: last_top_def top_def)
  show ?thesis
  proof (cases "top \<le> fst x")
    case True
    then show ?thesis by (simp add: new old fk at_key_snoc max_absorb1)
  next
    case False
    then have "max (fst x) top = top" "fst x \<noteq> top" by (auto simp: max_def)
    with False show ?thesis by (simp add: new old fk at_key_snoc)
  qed
qed (simp add: last_top_def at_key_def)

lemma keep_first_fold: "fold keep_first xs None = first_top xs"
  by (induction xs rule: rev_induct) (simp_all add: first_top_snoc first_top_def [of "[]"])

lemma keep_last_fold: "fold keep_last xs None = last_top xs"
  by (induction xs rule: rev_induct) (simp_all add: last_top_snoc last_top_def [of "[]"])

lemma same_at_keys:
  assumes "\<And>k. at_key xs k = at_key ys k"
  shows "set xs = set ys" "xs = [] \<longleftrightarrow> ys = []"
proof -
  have mem: "x \<in> set zs \<longleftrightarrow> x \<in> set (at_key zs (fst x))" for x and zs :: "('a \<times> 'b) list" by (simp add: at_key_def)
  show "set xs = set ys"
  proof (rule set_eqI)
    fix x
    show "x \<in> set xs \<longleftrightarrow> x \<in> set ys" unfolding mem [of x xs] mem [of x ys] assms by (rule refl)
  qed
  then show "xs = [] \<longleftrightarrow> ys = []" by auto
qed

lemma keep_order:
  fixes xs ys :: "('k::linorder \<times> 'v) list"
  assumes "\<And>k. at_key xs k = at_key ys k"
  shows "fold keep_first xs None = fold keep_first ys None" "fold keep_last xs None = fold keep_last ys None"
  unfolding keep_first_fold keep_last_fold first_top_def last_top_def
  unfolding same_at_keys [OF assms] assms by (rule refl)+

section \<open>The actions of a line as actions of the registers\<close>

type_synonym event = "nat \<times> json"

definition apply_events :: "sys \<Rightarrow> event list \<Rightarrow> delta_log \<Rightarrow> delta_log" where
  "apply_events sy es l = fold (\<lambda>e. apply_log_action sy (snd e) (fst e)) es l"

text \<open>A register of the log: its state, and what an event does to it, as a list of entries whose key
  determines the version.\<close>

locale log_register =
  fixes sy :: sys and st :: "delta_log \<Rightarrow> ('k::linorder \<times> 'v) option"
    and keep :: "'k \<times> 'v \<Rightarrow> ('k \<times> 'v) option \<Rightarrow> ('k \<times> 'v) option"
    and acts :: "event \<Rightarrow> ('k \<times> 'v) list" and version :: "'k \<Rightarrow> nat"
  assumes step: "st (apply_log_action sy (snd e) (fst e) l) = fold keep (acts e) (st l)"
    and keyed: "x \<in> set (acts e) \<Longrightarrow> version (fst x) = fst e"
    and order: "(\<And>k. at_key xs k = at_key ys k) \<Longrightarrow> fold keep xs None = fold keep ys None"
begin

lemma st_events: "st (apply_events sy es l) = fold keep (concat (map acts es)) (st l)"
  by (induction es arbitrary: l) (simp_all add: apply_events_def step)

lemma at_key_events: "at_key (concat (map acts es)) k = at_key (concat (map acts (filter (\<lambda>e. fst e = version k) es))) k"
proof (induction es)
  case (Cons e es)
  have "at_key (acts e) k = []" if "fst e \<noteq> version k"
    using keyed [of _ e] that by (auto simp: at_key_def filter_empty_conv)
  with Cons show ?case by (simp add: at_key_def)
qed (simp add: at_key_def)

lemma schedule_irrelevant:
  assumes "\<And>v. filter (\<lambda>e. fst e = v) es = filter (\<lambda>e. fst e = v) es'" and "st l = None"
  shows "st (apply_events sy es l) = st (apply_events sy es' l)"
proof -
  have "at_key (concat (map acts es)) k = at_key (concat (map acts es')) k" for k
    using at_key_events [of es k] at_key_events [of es' k] assms(1) by simp
  then show ?thesis unfolding st_events assms(2) by (rule order)
qed

end

section \<open>The registers of the log\<close>

definition file_state :: "string \<Rightarrow> delta_log \<Rightarrow> ((int \<times> bool) \<times> delta_log_entry option) option" where
  "file_state p l = map_option (\<lambda>e. (entry_key e, if e_operation e = ADD then Some e else None))
     (map_of (dl_files l) p)"

definition file_act :: "string \<Rightarrow> string \<times> delta_log_entry \<Rightarrow> ((int \<times> bool) \<times> delta_log_entry option) list" where
  "file_act p a =
     (if fst a = p then [(entry_key (snd a), if e_operation (snd a) = ADD then Some (snd a) else None)] else [])"

lemma file_state_register: "file_state p (register_action q e l) = fold keep_first (file_act p (q, e)) (file_state p l)"
proof (cases "q = p")
  case True
  show ?thesis
  proof (cases "map_of (dl_files l) p")
    case None
    with True show ?thesis by (simp add: file_state_def file_act_def map_of_register_action)
  next
    case (Some cur)
    with True show ?thesis
      by (auto simp: file_state_def file_act_def map_of_register_action replaces_key entry_key_def)
  qed
next
  case False
  then show ?thesis by (simp add: file_state_def file_act_def map_of_register_action)
qed

definition add_of :: "sys \<Rightarrow> event \<Rightarrow> (string \<times> delta_log_entry) list" where
  "add_of sy e =
     (case member_object ''add'' (snd e) of
        None \<Rightarrow> []
      | Some add \<Rightarrow>
          (case member_string ''path'' add of
             None \<Rightarrow> []
           | Some path \<Rightarrow> [(c_str path, from_action (sy_parse sy) (sy_write sy) ADD add (int (fst e)))]))"

definition remove_of :: "sys \<Rightarrow> event \<Rightarrow> (string \<times> delta_log_entry) list" where
  "remove_of sy e =
     (case member_object ''remove'' (snd e) of
        None \<Rightarrow> []
      | Some remove \<Rightarrow>
          (case member_string ''path'' remove of
             None \<Rightarrow> []
           | Some path \<Rightarrow> [(c_str path, from_action (sy_parse sy) (sy_write sy) DELETE remove (int (fst e)))]))"

lemma frame_files [simp]:
  "dl_files (apply_metadata sy val v l) = dl_files l" "dl_files (apply_protocol sy val v l) = dl_files l"
  "dl_files (apply_txn val v l) = dl_files l" "dl_files (apply_domain val v l) = dl_files l"
  "dl_files (mark_unsupported r l) = dl_files l"
  by (auto simp: apply_metadata_def apply_protocol_def apply_txn_def apply_domain_def set_metadata_def
      set_protocol_def set_transaction_def set_domain_metadata_def mark_unsupported_def Let_def
      split: option.splits)

lemma file_state_cong: "dl_files l = dl_files l' \<Longrightarrow> file_state p l = file_state p l'"
  by (simp add: file_state_def)

lemma file_state_add: "file_state p (apply_add sy val v l) = fold keep_first (concat (map (file_act p) (add_of sy (v, val)))) (file_state p l)"
  by (auto simp: apply_add_def add_of_def file_state_register Let_def intro!: arg_cong [of _ _ "fold keep_first _"] file_state_cong
      split: option.splits)

lemma file_state_remove: "file_state p (apply_remove sy val v l) = fold keep_first (concat (map (file_act p) (remove_of sy (v, val)))) (file_state p l)"
  by (auto simp: apply_remove_def remove_of_def file_state_register split: option.splits)

definition file_acts :: "sys \<Rightarrow> string \<Rightarrow> event \<Rightarrow> ((int \<times> bool) \<times> delta_log_entry option) list" where
  "file_acts sy p e = concat (map (file_act p) (add_of sy e @ remove_of sy e))"

interpretation file_register: log_register sy "file_state p" keep_first "file_acts sy p" "\<lambda>k. nat (fst k)"
  for sy p
proof unfold_locales
  fix e l
  have "file_state p (apply_domain (snd e) (fst e) (apply_txn (snd e) (fst e)
      (apply_protocol sy (snd e) (fst e) (apply_metadata sy (snd e) (fst e) l)))) = file_state p l"
    by (rule file_state_cong) simp
  then show "file_state p (apply_log_action sy (snd e) (fst e) l) = fold keep_first (file_acts sy p e) (file_state p l)"
    by (simp add: apply_log_action_def Let_def file_state_remove file_state_add file_acts_def)
next
  fix x e
  assume "x \<in> set (file_acts sy p e)"
  then show "nat (fst (fst x)) = fst e"
    by (auto simp: file_acts_def file_act_def add_of_def remove_of_def entry_key_def split: option.splits if_splits)
next
  fix xs ys :: "((int \<times> bool) \<times> delta_log_entry option) list"
  assume "\<And>k. at_key xs k = at_key ys k"
  then show "fold keep_first xs None = fold keep_first ys None" by (rule keep_order)
qed


definition register_of :: "int \<Rightarrow> string \<Rightarrow> (nat \<times> string) option" where
  "register_of version j = (if version < 0 then None else Some (nat version, j))"

definition metadata_state :: "delta_log \<Rightarrow> (nat \<times> string) option" where
  "metadata_state l = register_of (dl_metadata_version l) (dl_metadata l)"

definition protocol_state :: "delta_log \<Rightarrow> (nat \<times> string) option" where
  "protocol_state l = register_of (dl_protocol_version l) (dl_protocol l)"

definition txn_state :: "string \<Rightarrow> delta_log \<Rightarrow> (nat \<times> checkpoint_txn) option" where
  "txn_state app l = map_option prod.swap (txn_at app l)"

definition domain_state :: "string \<Rightarrow> delta_log \<Rightarrow> (nat \<times> string option) option" where
  "domain_state d l = map_option prod.swap (domain_at d l)"

definition json_acts :: "string \<Rightarrow> sys \<Rightarrow> event \<Rightarrow> (nat \<times> string) list" where
  "json_acts name sy e = (case member_object name (snd e) of None \<Rightarrow> [] | Some j \<Rightarrow> [(fst e, sy_write sy j)])"

definition txn_acts :: "string \<Rightarrow> event \<Rightarrow> (nat \<times> checkpoint_txn) list" where
  "txn_acts app e =
     (case member_object ''txn'' (snd e) of
        None \<Rightarrow> []
      | Some txn \<Rightarrow>
          (case (member_string ''appId'' txn, member_int64 ''version'' txn) of
             (Some a, Some v) \<Rightarrow>
               if c_str a = app
               then [(fst e, \<lparr>txn_app_id = app, txn_version = v,
                      txn_last_updated = (case member_int64 ''lastUpdated'' txn of Some u \<Rightarrow> u | None \<Rightarrow> -1)\<rparr>)]
               else []
           | _ \<Rightarrow> []))"

definition domain_acts :: "string \<Rightarrow> event \<Rightarrow> (nat \<times> string option) list" where
  "domain_acts d e =
     (case member_object ''domainMetadata'' (snd e) of
        None \<Rightarrow> []
      | Some domain \<Rightarrow>
          (case member_string ''domain'' domain of
             None \<Rightarrow> []
           | Some name \<Rightarrow>
               if c_str name = d
               then [(fst e, if Option.bind (find_member ''removed'' domain) as_bool = Some True then None
                      else Some (case member_string ''configuration'' domain of Some c \<Rightarrow> c_str c | None \<Rightarrow> ''''))]
               else []))"

text \<open>What an action leaves alone.\<close>

lemma frame_metadata [simp]:
  "metadata_state (apply_protocol sy val v l) = metadata_state l" "metadata_state (apply_txn val v l) = metadata_state l"
  "metadata_state (apply_domain val v l) = metadata_state l" "metadata_state (apply_add sy val v l) = metadata_state l"
  "metadata_state (apply_remove sy val v l) = metadata_state l"
  by (auto simp: metadata_state_def apply_protocol_def apply_txn_def apply_domain_def apply_add_def apply_remove_def
      set_protocol_def set_transaction_def set_domain_metadata_def mark_unsupported_def register_action_def Let_def
      split: option.splits)

lemma frame_protocol [simp]:
  "protocol_state (apply_metadata sy val v l) = protocol_state l" "protocol_state (apply_txn val v l) = protocol_state l"
  "protocol_state (apply_domain val v l) = protocol_state l" "protocol_state (apply_add sy val v l) = protocol_state l"
  "protocol_state (apply_remove sy val v l) = protocol_state l"
  by (auto simp: protocol_state_def apply_metadata_def apply_txn_def apply_domain_def apply_add_def apply_remove_def
      set_metadata_def set_transaction_def set_domain_metadata_def mark_unsupported_def register_action_def Let_def
      split: option.splits)

lemma frame_txn [simp]:
  "txn_state a (apply_metadata sy val v l) = txn_state a l" "txn_state a (apply_protocol sy val v l) = txn_state a l"
  "txn_state a (apply_domain val v l) = txn_state a l" "txn_state a (apply_add sy val v l) = txn_state a l"
  "txn_state a (apply_remove sy val v l) = txn_state a l"
  by (auto simp: txn_state_def txn_at_def apply_metadata_def apply_protocol_def apply_domain_def apply_add_def apply_remove_def
      set_metadata_def set_protocol_def set_domain_metadata_def mark_unsupported_def register_action_def Let_def
      split: option.splits)

lemma frame_domain [simp]:
  "domain_state d (apply_metadata sy val v l) = domain_state d l" "domain_state d (apply_protocol sy val v l) = domain_state d l"
  "domain_state d (apply_txn val v l) = domain_state d l" "domain_state d (apply_add sy val v l) = domain_state d l"
  "domain_state d (apply_remove sy val v l) = domain_state d l"
  by (auto simp: domain_state_def domain_at_def apply_metadata_def apply_protocol_def apply_txn_def apply_add_def apply_remove_def
      set_metadata_def set_protocol_def set_transaction_def mark_unsupported_def register_action_def Let_def
      split: option.splits)

lemma set_metadata_register: "metadata_state (set_metadata j v l) = keep_last (v, j) (metadata_state l)"
  by (auto simp: metadata_state_def register_of_def set_metadata_def)

lemma set_protocol_register: "protocol_state (set_protocol j v l) = keep_last (v, j) (protocol_state l)"
  by (auto simp: protocol_state_def register_of_def set_protocol_def)

lemma set_transaction_register:
  "txn_state app (set_transaction a x u v l) =
     (if app = a then keep_last (v, \<lparr>txn_app_id = a, txn_version = x, txn_last_updated = u\<rparr>) (txn_state app l)
      else txn_state app l)"
  by (cases "txn_at app l") (auto simp: txn_state_def txn_at_set)

lemma set_domain_register:
  "domain_state d (set_domain_metadata n c v l) =
     (if d = n then keep_last (v, c) (domain_state d l) else domain_state d l)"
  by (cases "domain_at d l") (auto simp: domain_state_def domain_at_set)

lemma txn_state_unsupported [simp]: "txn_state a (mark_unsupported r l) = txn_state a l"
  by (simp add: txn_state_def txn_at_def mark_unsupported_def)

lemma domain_state_unsupported [simp]: "domain_state a (mark_unsupported r l) = domain_state a l"
  by (simp add: domain_state_def domain_at_def mark_unsupported_def)

interpretation metadata_register: log_register sy metadata_state keep_last "json_acts ''metaData'' sy" "\<lambda>k. k"
  for sy
  by unfold_locales
     (auto simp: apply_log_action_def Let_def json_acts_def apply_metadata_def set_metadata_register
      split: option.splits intro: keep_order)

interpretation protocol_register: log_register sy protocol_state keep_last "json_acts ''protocol'' sy" "\<lambda>k. k"
  for sy
  by unfold_locales
     (auto simp: apply_log_action_def Let_def json_acts_def apply_protocol_def set_protocol_register
      split: option.splits intro: keep_order)

interpretation txn_register: log_register sy "txn_state app" keep_last "txn_acts app" "\<lambda>k. k"
  for sy app
  by unfold_locales
     (auto simp: apply_log_action_def Let_def txn_acts_def apply_txn_def set_transaction_register
      split: option.splits if_splits intro: keep_order)

interpretation domain_register: log_register sy "domain_state d" keep_last "domain_acts d" "\<lambda>k. k"
  for sy d
  by unfold_locales
     (auto simp: apply_log_action_def Let_def domain_acts_def apply_domain_def set_domain_register
      split: option.splits if_splits intro: keep_order)


section \<open>The snapshot does not depend on the schedule\<close>

definition same_versions :: "event list \<Rightarrow> event list \<Rightarrow> bool" where
  "same_versions es es' \<longleftrightarrow>
     (\<forall>v \<in> fst ` set es \<union> fst ` set es'. filter (\<lambda>e. fst e = v) es = filter (\<lambda>e. fst e = v) es')"

lemma same_versionsD: "same_versions es es' \<Longrightarrow> filter (\<lambda>e. fst e = v) es = filter (\<lambda>e. fst e = v) es'"
proof (cases "v \<in> fst ` set es \<union> fst ` set es'")
  case False
  then have "filter (\<lambda>e. fst e = v) es = []" "filter (\<lambda>e. fst e = v) es' = []" by (auto simp: filter_empty_conv)
  then show ?thesis by simp
qed (simp add: same_versions_def)

lemma distinct_log_action:
  "distinct (map fst (dl_files l)) \<Longrightarrow> distinct (map fst (dl_files (apply_log_action sy val v l)))"
  by (auto simp: apply_log_action_def Let_def apply_add_def apply_remove_def intro!: distinct_register_action
      split: option.splits)

lemma distinct_events: "distinct (map fst (dl_files (apply_events sy es (delta_log_new base))))"
proof -
  have "distinct (map fst (dl_files (apply_events sy es l)))" if "distinct (map fst (dl_files l))" for l
    using that by (induction es arbitrary: l) (simp_all add: apply_events_def distinct_log_action)
  then show ?thesis by (simp add: delta_log_new_def)
qed

lemma entries_state:
  assumes "distinct (map fst (dl_files l))"
  shows "(p, e) \<in> set (get_entries l) \<longleftrightarrow> map_option snd (file_state p l) = Some (Some e)"
proof -
  have "(p, e) \<in> set (get_entries l) \<longleftrightarrow> map_of (dl_files l) p = Some e \<and> e_operation e = ADD"
    using map_of_eq_Some_iff [OF assms] by (simp add: get_entries_def)
  also have "\<dots> \<longleftrightarrow> map_option snd (file_state p l) = Some (Some e)"
    by (cases "map_of (dl_files l) p") (auto simp: file_state_def)
  finally show ?thesis .
qed

definition supported_txn :: "json \<Rightarrow> bool" where
  "supported_txn val \<longleftrightarrow>
     (case member_object ''txn'' val of
        None \<Rightarrow> True | Some txn \<Rightarrow> member_string ''appId'' txn \<noteq> None \<and> member_int64 ''version'' txn \<noteq> None)"

definition supported_domain :: "json \<Rightarrow> bool" where
  "supported_domain val \<longleftrightarrow>
     (case member_object ''domainMetadata'' val of
        None \<Rightarrow> True | Some domain \<Rightarrow> member_string ''domain'' domain \<noteq> None)"

definition supported_add :: "json \<Rightarrow> bool" where
  "supported_add val \<longleftrightarrow>
     (case member_object ''add'' val of
        None \<Rightarrow> True
      | Some add \<Rightarrow> member_string ''path'' add = None \<or> find_member ''deletionVector'' add \<in> {None, Some JNull})"

lemma unsupported_mark [simp]: "dl_unsupported (mark_unsupported (c # r) l) \<noteq> []"
  by (simp add: mark_unsupported_def)

lemma unsupported_parts [simp]:
  "dl_unsupported (apply_metadata sy val v l) = dl_unsupported l" "dl_unsupported (apply_protocol sy val v l) = dl_unsupported l"
  "dl_unsupported (apply_remove sy val v l) = dl_unsupported l" "dl_unsupported (register_action q e l) = dl_unsupported l"
  by (auto simp: apply_metadata_def apply_protocol_def apply_remove_def set_metadata_def set_protocol_def
      register_action_def Let_def split: option.splits)

lemma unsupported_txn: "dl_unsupported (apply_txn val v l) = [] \<longleftrightarrow> supported_txn val \<and> dl_unsupported l = []"
  by (auto simp: apply_txn_def supported_txn_def set_transaction_def Let_def split: option.splits)

lemma unsupported_domain: "dl_unsupported (apply_domain val v l) = [] \<longleftrightarrow> supported_domain val \<and> dl_unsupported l = []"
  by (auto simp: apply_domain_def supported_domain_def set_domain_metadata_def split: option.splits)

lemma unsupported_add: "dl_unsupported (apply_add sy val v l) = [] \<longleftrightarrow> supported_add val \<and> dl_unsupported l = []"
  by (auto simp: apply_add_def supported_add_def Let_def split: option.splits)

lemma unsupported_events:
  "dl_unsupported (apply_events sy es l) = [] \<longleftrightarrow>
     (\<forall>e \<in> set es. supported_txn (snd e) \<and> supported_domain (snd e) \<and> supported_add (snd e)) \<and> dl_unsupported l = []"
  by (induction es arbitrary: l)
     (auto simp: apply_events_def apply_log_action_def Let_def unsupported_txn unsupported_domain unsupported_add)

lemma same_versions_set: "same_versions es es' \<Longrightarrow> set es = set es'"
proof (rule set_eqI)
  fix e :: event
  assume "same_versions es es'"
  then have "filter (\<lambda>x. fst x = fst e) es = filter (\<lambda>x. fst x = fst e) es'" by (rule same_versionsD)
  moreover have "e \<in> set zs \<longleftrightarrow> e \<in> set (filter (\<lambda>x. fst x = fst e) zs)" for zs :: "event list" by simp
  ultimately show "e \<in> set es \<longleftrightarrow> e \<in> set es'" by metis
qed

lemma map_swap_eq: "map_option prod.swap x = map_option prod.swap y \<Longrightarrow> x = y"
  by (cases x; cases y) auto

definition unset_registers :: "delta_log \<Rightarrow> bool" where
  "unset_registers l \<longleftrightarrow>
     (0 \<le> dl_metadata_version l \<or> (dl_metadata_version l = -1 \<and> dl_metadata l = [])) \<and>
     (0 \<le> dl_protocol_version l \<or> (dl_protocol_version l = -1 \<and> dl_protocol l = []))"

lemma unset_log_action: "unset_registers l \<Longrightarrow> unset_registers (apply_log_action sy val v l)"
proof -
  have "unset_registers l \<Longrightarrow> unset_registers (apply_metadata sy val v l)"
    "unset_registers l \<Longrightarrow> unset_registers (apply_protocol sy val v l)"
    "unset_registers l \<Longrightarrow> unset_registers (apply_txn val v l)"
    "unset_registers l \<Longrightarrow> unset_registers (apply_domain val v l)"
    "unset_registers l \<Longrightarrow> unset_registers (apply_add sy val v l)"
    "unset_registers l \<Longrightarrow> unset_registers (apply_remove sy val v l)" for l
    by (auto simp: unset_registers_def apply_metadata_def apply_protocol_def apply_txn_def apply_domain_def apply_add_def
        apply_remove_def set_metadata_def set_protocol_def set_transaction_def set_domain_metadata_def mark_unsupported_def
        register_action_def Let_def split: option.splits)
  then show "unset_registers l \<Longrightarrow> unset_registers (apply_log_action sy val v l)"
    by (simp add: apply_log_action_def Let_def)
qed

lemma unset_events: "unset_registers (apply_events sy es (delta_log_new base))"
proof -
  have "unset_registers (apply_events sy es l)" if "unset_registers l" for l
    using that by (induction es arbitrary: l) (simp_all add: apply_events_def unset_log_action)
  then show ?thesis by (simp add: delta_log_new_def unset_registers_def)
qed

lemma register_of_get:
  "register_of v j = register_of v' j' \<Longrightarrow> 0 \<le> v \<or> (v = -1 \<and> j = []) \<Longrightarrow> 0 \<le> v' \<or> (v' = -1 \<and> j' = [])
   \<Longrightarrow> j = j' \<and> v = v'"
  by (auto simp: register_of_def split: if_splits)

lemma fresh_states:
  "file_state p (delta_log_new base) = None" "metadata_state (delta_log_new base) = None"
  "protocol_state (delta_log_new base) = None" "txn_state a (delta_log_new base) = None"
  "domain_state d (delta_log_new base) = None"
  by (simp_all add: file_state_def metadata_state_def protocol_state_def register_of_def txn_state_def txn_at_def
      domain_state_def domain_at_def delta_log_new_def)

text \<open>C18: The threads that parse the log may interleave in any way: as long as the actions of one version are
  applied in the order of its lines, the snapshot has the same files with the same entries, protocol, metadata,
  transactions and domains, and the table is supported in the one case exactly when it is in the other.\<close>

theorem replay_order_irrelevant:
  assumes "same_versions es es'"
  shows "set (get_entries (apply_events sy es (delta_log_new base)))
         = set (get_entries (apply_events sy es' (delta_log_new base)))
    \<and> get_metadata (apply_events sy es (delta_log_new base)) = get_metadata (apply_events sy es' (delta_log_new base))
    \<and> get_protocol (apply_events sy es (delta_log_new base)) = get_protocol (apply_events sy es' (delta_log_new base))
    \<and> txn_at app (apply_events sy es (delta_log_new base)) = txn_at app (apply_events sy es' (delta_log_new base))
    \<and> domain_at d (apply_events sy es (delta_log_new base)) = domain_at d (apply_events sy es' (delta_log_new base))
    \<and> (get_unsupported (apply_events sy es (delta_log_new base)) = [] \<longleftrightarrow>
       get_unsupported (apply_events sy es' (delta_log_new base)) = [])"
proof -
  note same = same_versionsD [OF assms]
  let ?l = "apply_events sy es (delta_log_new base)" and ?l' = "apply_events sy es' (delta_log_new base)"
  have files: "file_state p ?l = file_state p ?l'" for p
    by (rule file_register.schedule_irrelevant [OF same fresh_states(1)])
  have "(p, e) \<in> set (get_entries ?l) \<longleftrightarrow> (p, e) \<in> set (get_entries ?l')" for p e
    unfolding entries_state [OF distinct_events] files by (rule refl)
  then have entries: "set (get_entries ?l) = set (get_entries ?l')" by auto
  have md: "get_metadata ?l = get_metadata ?l'"
    using metadata_register.schedule_irrelevant [OF same fresh_states(2)] unset_events [of sy es] unset_events [of sy es']
    unfolding metadata_state_def unset_registers_def get_metadata_def by (blast dest: register_of_get)
  have pr: "get_protocol ?l = get_protocol ?l'"
    using protocol_register.schedule_irrelevant [OF same fresh_states(3)] unset_events [of sy es] unset_events [of sy es']
    unfolding protocol_state_def unset_registers_def get_protocol_def by (blast dest: register_of_get)
  have "txn_at app ?l = txn_at app ?l'"
    using txn_register.schedule_irrelevant [OF same fresh_states(4)] unfolding txn_state_def by (rule map_swap_eq)
  moreover have "domain_at d ?l = domain_at d ?l'"
    using domain_register.schedule_irrelevant [OF same fresh_states(5)] unfolding domain_state_def by (rule map_swap_eq)
  ultimately show ?thesis
    using entries md pr same_versions_set [OF assms] by (simp add: get_unsupported_def unsupported_events)
qed

definition demo_add :: "string \<Rightarrow> json" where
  "demo_add path = JObject [(''add'', JObject [(''path'', JString path)])]"

definition demo_remove :: "string \<Rightarrow> json" where
  "demo_remove path = JObject [(''remove'', JObject [(''path'', JString path)])]"

text \<open>Two threads parse the versions 0 and 1, and 2 and 3, and their actions interleave.\<close>

definition demo_turn :: "event list" where
  "demo_turn = [(0, demo_add ''a''), (1, demo_add ''b''), (2, demo_remove ''a''), (3, demo_add ''a''), (3, demo_remove ''b'')]"

definition demo_mixed :: "event list" where
  "demo_mixed = [(2, demo_remove ''a''), (3, demo_add ''a''), (0, demo_add ''a''), (3, demo_remove ''b''), (1, demo_add ''b'')]"

lemma replay_order_irrelevant_witness:
  "demo_turn \<noteq> demo_mixed \<and> set (get_entries (apply_events demo_sys demo_turn (delta_log_new ''t/'')))
         = set (get_entries (apply_events demo_sys demo_mixed (delta_log_new ''t/'')))"
proof -
  have "same_versions demo_turn demo_mixed"
    by (simp add: same_versions_def demo_turn_def demo_mixed_def)
  from replay_order_irrelevant [OF this, of demo_sys "''t/''" "[]" "[]"]
  show ?thesis by (simp add: demo_turn_def demo_mixed_def)
qed

end
