(* ===== verification/DeltaSchema.thy ===== *)
theory DeltaSchema
  imports Arrow
begin

text \<open>
  The schemas of Delta tables (\<open>Helpers/DeltaSchema.cpp\<close>): \<open>to_delta_schema\<close> writes an Arrow schema as the
  JSON of \<open>metaData.schemaString\<close>, \<open>from_delta_schema\<close> reads it back, \<open>table_schema\<close> reads the schema of a
  \<open>metaData\<close> action, and \<open>random_uuid\<close> makes the ids of tables and transactions.  The text of an Arrow type
  in an error message (\<open>ToString\<close>) is a parameter.
\<close>

section \<open>Arrow schema to Delta schema\<close>

text \<open>A result is the first error, or the JSON value with the table features it needs.\<close>

type_synonym 'a schema_result = "string + 'a"

definition invalid_name :: "string \<Rightarrow> bool" where
  "invalid_name name \<longleftrightarrow> list_ex (\<lambda>c. c \<in> set ('' ,;{}()='' @ [newline, CHR 0x09])) name"

definition name_error :: "string \<Rightarrow> string \<Rightarrow> string list \<Rightarrow> string option" where
  "name_error prefix name names =
     (if name = [] then Some (prefix @ ''<empty>: empty column name'')
      else if invalid_name name
      then Some (prefix @ name @ '': invalid character among ' ,;{}()'' @ [CHR 0x5C] @ ''n'' @ [CHR 0x5C]
                 @ ''t=' (needs column mapping, which LakeVilla does not support)'')
      else if lower name \<in> set names then Some (prefix @ name @ '': duplicate column name'')
      else None)"

definition no_fields :: "string \<Rightarrow> string" where
  "no_fields prefix = (if prefix = [] then ''the schema has no columns'' else prefix @ '': struct without fields'')"

definition struct_json :: "json list \<Rightarrow> json" where
  "struct_json fs = JObject [(''type'', JString ''struct''), (''fields'', JArray fs)]"

definition field_json :: "string \<Rightarrow> json \<Rightarrow> bool \<Rightarrow> (string \<times> string) list \<Rightarrow> json" where
  "field_json name ty nullable metadata =
     JObject [(''name'', JString (c_str name)), (''type'', ty), (''nullable'', JBool nullable),
       (''metadata'', JObject (map (\<lambda>(k, v). (c_str k, JString (c_str v))) metadata))]"

fun type_json :: "(arrow_type \<Rightarrow> string) \<Rightarrow> arrow_type \<Rightarrow> string \<Rightarrow> (json \<times> string list) schema_result"
  and fields_json ::
    "(arrow_type \<Rightarrow> string) \<Rightarrow> arrow_field list \<Rightarrow> string \<Rightarrow> string list \<Rightarrow> (json list \<times> string list) schema_result"
where
  "type_json sh T_STRING ctx = Inr (JString ''string'', [])"
| "type_json sh T_LARGE_STRING ctx = Inr (JString ''string'', [])"
| "type_json sh T_INT8 ctx = Inr (JString ''byte'', [])"
| "type_json sh T_INT16 ctx = Inr (JString ''short'', [])"
| "type_json sh T_INT32 ctx = Inr (JString ''integer'', [])"
| "type_json sh T_INT64 ctx = Inr (JString ''long'', [])"
| "type_json sh T_FLOAT ctx = Inr (JString ''float'', [])"
| "type_json sh T_DOUBLE ctx = Inr (JString ''double'', [])"
| "type_json sh T_BOOL ctx = Inr (JString ''boolean'', [])"
| "type_json sh T_BINARY ctx = Inr (JString ''binary'', [])"
| "type_json sh T_LARGE_BINARY ctx = Inr (JString ''binary'', [])"
| "type_json sh (T_FIXED_SIZE_BINARY n) ctx = Inr (JString ''binary'', [])"
| "type_json sh T_DATE32 ctx = Inr (JString ''date'', [])"
| "type_json sh (T_TIMESTAMP u zone) ctx =
     (if zone = [] then Inr (JString ''timestamp_ntz'', [''timestampNtz'']) else Inr (JString ''timestamp'', []))"
| "type_json sh (T_DECIMAL128 p s) ctx =
     (if 38 < p then Inl (ctx @ '': decimal precision above 38'')
      else Inr (JString (''decimal('' @ dec_int p @ '','' @ dec_int s @ '')''), []))"
| "type_json sh (T_DICTIONARY ty) ctx = type_json sh ty ctx"
| "type_json sh (T_LIST f) ctx =
     map_sum id (\<lambda>(e, fs). (JObject [(''type'', JString ''array''), (''elementType'', e),
         (''containsNull'', JBool (f_nullable f))], fs))
       (type_json sh (f_type f) (ctx @ ''.element''))"
| "type_json sh (T_LARGE_LIST f) ctx =
     map_sum id (\<lambda>(e, fs). (JObject [(''type'', JString ''array''), (''elementType'', e),
         (''containsNull'', JBool (f_nullable f))], fs))
       (type_json sh (f_type f) (ctx @ ''.element''))"
| "type_json sh (T_MAP k f) ctx =
     (case type_json sh (f_type k) (ctx @ ''.key'') of
        Inl e \<Rightarrow> Inl e
      | Inr (kj, ks) \<Rightarrow>
          map_sum id (\<lambda>(vj, vs). (JObject [(''type'', JString ''map''), (''keyType'', kj), (''valueType'', vj),
              (''valueContainsNull'', JBool (f_nullable f))], ks @ vs))
            (type_json sh (f_type f) (ctx @ ''.value'')))"
| "type_json sh (T_STRUCT fs) ctx =
     (if fs = [] then Inl (no_fields (ctx @ ''.''))
      else map_sum id (\<lambda>(js, feats). (struct_json js, feats)) (fields_json sh fs (ctx @ ''.'') []))"
| "type_json sh T_NA ctx = Inl (ctx @ '': Arrow type '' @ sh T_NA @ '' has no Delta equivalent'')"
| "type_json sh T_UINT8 ctx = Inl (ctx @ '': Arrow type '' @ sh T_UINT8 @ '' has no Delta equivalent'')"
| "type_json sh T_UINT16 ctx = Inl (ctx @ '': Arrow type '' @ sh T_UINT16 @ '' has no Delta equivalent'')"
| "type_json sh T_UINT32 ctx = Inl (ctx @ '': Arrow type '' @ sh T_UINT32 @ '' has no Delta equivalent'')"
| "type_json sh T_UINT64 ctx = Inl (ctx @ '': Arrow type '' @ sh T_UINT64 @ '' has no Delta equivalent'')"
| "type_json sh (T_OTHER n) ctx = Inl (ctx @ '': Arrow type '' @ sh (T_OTHER n) @ '' has no Delta equivalent'')"
| "fields_json sh [] prefix names = Inr ([], [])"
| "fields_json sh (f # fs) prefix names =
     (case name_error prefix (f_name f) names of
        Some e \<Rightarrow> Inl e
      | None \<Rightarrow>
          (case type_json sh (f_type f) (prefix @ f_name f) of
             Inl e \<Rightarrow> Inl e
           | Inr (ty, feats) \<Rightarrow>
               map_sum id (\<lambda>(js, feats'). (field_json (f_name f) ty (f_nullable f) (f_metadata f) # js, feats @ feats'))
                 (fields_json sh fs prefix (lower (f_name f) # names))))"

record delta_schema =
  ds_schema_string :: string
  ds_features :: "string list"

text \<open>A std::set of strings gives them in order.\<close>

definition to_delta_schema ::
    "json_writer \<Rightarrow> (arrow_type \<Rightarrow> string) \<Rightarrow> arrow_field list \<Rightarrow> delta_schema schema_result" where
  "to_delta_schema write sh fs =
     (if fs = [] then Inl (no_fields [])
      else map_sum id (\<lambda>(js, feats). \<lparr>ds_schema_string = c_str (write (struct_json js)),
              ds_features = map fst (fold (\<lambda>f. smap_put f ()) feats [])\<rparr>)
             (fields_json sh fs [] []))"

section \<open>Ids\<close>

text \<open>\<open>%0<width>x\<close>: at least \<open>width\<close> digits.\<close>

definition hex_padded :: "nat \<Rightarrow> nat \<Rightarrow> string" where
  "hex_padded width n = replicate (width - length (hex n)) CHR ''0'' @ hex n"

text \<open>The two numbers of the generator are the arguments.\<close>

definition random_uuid :: "64 word \<Rightarrow> 64 word \<Rightarrow> string" where
  "random_uuid high low =
     (let high = or (and high 0xFFFFFFFFFFFF0FFF) 0x0000000000004000;
          low = or (and low 0x3FFFFFFFFFFFFFFF) 0x8000000000000000
      in hex_padded 8 (unat (drop_bit 32 high) mod 2 ^ 32) @ ''-''
         @ hex_padded 4 (unat (and (drop_bit 16 high) 0xFFFF)) @ ''-''
         @ hex_padded 4 (unat (and high 0xFFFF)) @ ''-''
         @ hex_padded 4 (unat (drop_bit 48 low) mod 2 ^ 32) @ ''-''
         @ hex_padded 12 (unat (and low 0xFFFFFFFFFFFF)))"

section \<open>Delta schema to Arrow schema\<close>

text \<open>\<open>%d\<close> of sscanf: the number and the rest, \<open>None\<close> when there is no number.\<close>

definition clamp_int64 :: "int \<Rightarrow> int" where
  "clamp_int64 i = max (- (2 ^ 63)) (min i (2 ^ 63 - 1))"

definition scan_int :: "string \<Rightarrow> (int \<times> string) option" where
  "scan_int s =
     (let (neg, r) = sign_of (dropWhile is_space s); ds = takeWhile is_digit r;
          v = (if neg then - int (undec ds) else int (undec ds))
      in if ds = [] then None
         else Some (sint (word_of_int (clamp_int64 v) :: 32 word), dropWhile is_digit r))"

text \<open>\<open>sscanf(name, "decimal(%d ,%d )", ...) == 2\<close>.\<close>

definition scan_decimal :: "string \<Rightarrow> (int \<times> int) option" where
  "scan_decimal name =
     (if \<not> starts_with ''decimal('' name then None
      else case scan_int (drop 8 name) of
             None \<Rightarrow> None
           | Some (p, r) \<Rightarrow>
               (case dropWhile is_space r of
                  c # r \<Rightarrow> if c = CHR '','' then map_option (\<lambda>(s, _). (p, s)) (scan_int r) else None
                | [] \<Rightarrow> None))"

definition primitive :: "string \<Rightarrow> string \<Rightarrow> arrow_type schema_result" where
  "primitive name ctx =
     (if name = ''string'' then Inr T_STRING
      else if name = ''long'' then Inr T_INT64
      else if name = ''integer'' then Inr T_INT32
      else if name = ''short'' then Inr T_INT16
      else if name = ''byte'' then Inr T_INT8
      else if name = ''float'' then Inr T_FLOAT
      else if name = ''double'' then Inr T_DOUBLE
      else if name = ''boolean'' then Inr T_BOOL
      else if name = ''binary'' then Inr T_BINARY
      else if name = ''date'' then Inr T_DATE32
      else if name = ''timestamp'' then Inr (T_TIMESTAMP MICRO ''UTC'')
      else if name = ''timestamp_ntz'' then Inr (T_TIMESTAMP MICRO [])
      else if name = ''void'' then Inr T_NA
      else if name = ''decimal'' then Inr (T_DECIMAL128 10 0)
      else if starts_with ''char('' name \<or> starts_with ''varchar('' name then Inr T_STRING
      else case scan_decimal name of
             Some (p, s) \<Rightarrow>
               if p < 1 \<or> 38 < p \<or> s < 0 \<or> p < s then Inl (ctx @ '': invalid '' @ name)
               else Inr (T_DECIMAL128 p s)
           | None \<Rightarrow> Inl (ctx @ '': unsupported Delta type '' @ name))"

definition flag :: "json \<Rightarrow> string \<Rightarrow> bool" where
  "flag val name = (case Option.bind (find_member name val) as_bool of Some b \<Rightarrow> b | None \<Rightarrow> True)"

definition metadata_of :: "json_writer \<Rightarrow> json \<Rightarrow> (string \<times> string) list" where
  "metadata_of write f =
     (case Option.bind (find_member ''metadata'' f) as_object of
        None \<Rightarrow> []
      | Some ms \<Rightarrow> map (\<lambda>(k, v). (c_str k, case v of JString s \<Rightarrow> c_str s | _ \<Rightarrow> write v)) ms)"

lemma size_map_of: "map_of ms name = Some v \<Longrightarrow> size v < Suc (size_list (size_prod (\<lambda>x. 0) size) ms)"
proof (induction ms)
  case (Cons a ms)
  then show ?case by (cases a) (auto split: if_splits)
qed simp

lemma size_find_member [termination_simp]: "find_member name v = Some w \<Longrightarrow> size w < size v"
  using size_map_of by (cases v) auto

lemma size_array [termination_simp]: "as_array v = Some vs \<Longrightarrow> size_list size vs < size v"
  by (cases v) auto

lemma size_element [termination_simp]: "v \<in> set vs \<Longrightarrow> size v < Suc (size_list size vs)" for v :: json
  using size_list_estimation' [of v vs "size v" size] by simp


lemma size_fields_array:
  "Option.bind (find_member name v) as_array = Some fs \<Longrightarrow> size_list size fs < size v"
  by (cases "find_member name v") (auto dest!: size_find_member size_array)

function
  parse_type :: "json_writer \<Rightarrow> json \<Rightarrow> string \<Rightarrow> arrow_type schema_result"
  and parse_fields :: "json_writer \<Rightarrow> json \<Rightarrow> string \<Rightarrow> arrow_field list schema_result"
  and parse_field_list :: "json_writer \<Rightarrow> json list \<Rightarrow> string \<Rightarrow> arrow_field list schema_result" where
  "parse_type write v ctx =
     (case (as_string v, member_string ''type'' v) of
        (Some s, _) \<Rightarrow> primitive (c_str s) ctx
      | (None, None) \<Rightarrow> Inl (ctx @ '': invalid type '' @ write v)
      | (None, Some kind) \<Rightarrow>
          if c_str kind = ''struct'' then map_sum id T_STRUCT (parse_fields write v (ctx @ ''.''))
          else if c_str kind = ''array'' \<and> has_member ''elementType'' v
          then (case find_member ''elementType'' v of
                  None \<Rightarrow> Inl ctx
                | Some e \<Rightarrow> map_sum id (\<lambda>ty. T_LIST (Field ''element'' ty (flag v ''containsNull'') []))
                    (parse_type write e (ctx @ ''.element'')))
          else if c_str kind = ''map'' \<and> has_member ''keyType'' v \<and> has_member ''valueType'' v
          then (case (find_member ''keyType'' v, find_member ''valueType'' v) of
                  (Some k, Some e) \<Rightarrow>
                    (case (parse_type write k (ctx @ ''.key''), parse_type write e (ctx @ ''.value'')) of
                       (Inl err, _) \<Rightarrow> Inl err
                     | (Inr _, Inl err) \<Rightarrow> Inl err
                     | (Inr kt, Inr vt) \<Rightarrow>
                         Inr (T_MAP (Field ''key'' kt False []) (Field ''value'' vt (flag v ''valueContainsNull'') [])))
                | _ \<Rightarrow> Inl ctx)
          else Inl (ctx @ '': unsupported Delta type '' @ c_str kind))"
| "parse_fields write v prefix =
     (case Option.bind (find_member ''fields'' v) as_array of
        None \<Rightarrow> Inl (prefix @ '': struct without fields'')
      | Some fs \<Rightarrow> parse_field_list write fs prefix)"
| "parse_field_list write [] prefix = Inr []"
| "parse_field_list write (f # fs) prefix =
     (case (member_string ''name'' f, find_member ''type'' f) of
        (Some name, Some ty) \<Rightarrow>
          (case parse_type write ty (prefix @ c_str name) of
             Inl e \<Rightarrow> Inl e
           | Inr t \<Rightarrow>
               map_sum id (\<lambda>rest. Field (c_str name) t (flag f ''nullable'') (metadata_of write f) # rest)
                 (parse_field_list write fs prefix))
      | _ \<Rightarrow> Inl (prefix @ '': invalid field '' @ write f))"
  by pat_completeness auto

termination
  by (relation "measure (\<lambda>x. case x of Inl (_, v, _) \<Rightarrow> 2 * size v + 1
        | Inr (Inl (_, v, _)) \<Rightarrow> 2 * size v | Inr (Inr (_, vs, _)) \<Rightarrow> 2 * size_list size vs)")
     (auto dest!: size_find_member size_find_member [OF sym] size_fields_array)

definition from_delta_schema :: "json_parser \<Rightarrow> json_writer \<Rightarrow> string \<Rightarrow> arrow_field list schema_result" where
  "from_delta_schema parse write text =
     (case parse text of
        None \<Rightarrow> Inl ''schemaString is not a JSON object''
      | Some doc \<Rightarrow>
          if is_object doc then parse_fields write doc [] else Inl ''schemaString is not a JSON object'')"

record table_schema =
  ts_schema :: "arrow_field list"
  ts_partition_columns :: "string list"
  ts_column_mapping :: bool

definition partition_columns_of :: "json \<Rightarrow> string list" where
  "partition_columns_of md =
     (case Option.bind (find_member ''partitionColumns'' md) as_array of
        None \<Rightarrow> [] | Some cs \<Rightarrow> List.map_filter (\<lambda>c. map_option c_str (as_string c)) cs)"

definition column_mapping_of :: "json \<Rightarrow> bool" where
  "column_mapping_of md =
     (case Option.bind (member_object ''configuration'' md) (member_string ''delta.columnMapping.mode'') of
        None \<Rightarrow> False | Some mode \<Rightarrow> c_str mode = ''name'' \<or> c_str mode = ''id'')"

definition table_schema_of :: "json_parser \<Rightarrow> json_writer \<Rightarrow> string \<Rightarrow> table_schema schema_result" where
  "table_schema_of parse write metadata_json =
     (case Option.bind (parse metadata_json) (member_string ''schemaString'') of
        None \<Rightarrow> Inl ''metaData has no schemaString''
      | Some s \<Rightarrow>
          map_sum id (\<lambda>schema. \<lparr>ts_schema = schema,
              ts_partition_columns = (case parse metadata_json of Some md \<Rightarrow> partition_columns_of md | None \<Rightarrow> []),
              ts_column_mapping = (case parse metadata_json of Some md \<Rightarrow> column_mapping_of md | None \<Rightarrow> False)\<rparr>)
            (from_delta_schema parse write (c_str s)))"


section \<open>Round trip\<close>

text \<open>The type a Delta type stands for.\<close>

fun canon_type :: "arrow_type \<Rightarrow> arrow_type" where
  "canon_type T_LARGE_STRING = T_STRING"
| "canon_type T_LARGE_BINARY = T_BINARY"
| "canon_type (T_FIXED_SIZE_BINARY n) = T_BINARY"
| "canon_type (T_TIMESTAMP u zone) = T_TIMESTAMP MICRO (if zone = [] then [] else ''UTC'')"
| "canon_type (T_DICTIONARY ty) = canon_type ty"
| "canon_type (T_LIST f) = T_LIST (Field ''element'' (canon_type (f_type f)) (f_nullable f) [])"
| "canon_type (T_LARGE_LIST f) = T_LIST (Field ''element'' (canon_type (f_type f)) (f_nullable f) [])"
| "canon_type (T_MAP k f) =
     T_MAP (Field ''key'' (canon_type (f_type k)) False []) (Field ''value'' (canon_type (f_type f)) (f_nullable f) [])"
| "canon_type (T_STRUCT fs) =
     T_STRUCT (map (\<lambda>f. Field (f_name f) (canon_type (f_type f)) (f_nullable f) (f_metadata f)) fs)"
| "canon_type ty = ty"

definition canon_field :: "arrow_field \<Rightarrow> arrow_field" where
  "canon_field f = Field (f_name f) (canon_type (f_type f)) (f_nullable f) (f_metadata f)"

text \<open>Decimals as Delta has them, names and metadata without NUL.\<close>

definition no_nul :: "string \<Rightarrow> bool" where "no_nul s \<longleftrightarrow> CHR 0x00 \<notin> set s"

definition plain_names :: "arrow_field \<Rightarrow> bool" where
  "plain_names f \<longleftrightarrow> no_nul (f_name f) \<and> (\<forall>(k, v) \<in> set (f_metadata f). no_nul k \<and> no_nul v)"

fun plain_type :: "arrow_type \<Rightarrow> bool" where
  "plain_type (T_DECIMAL128 p s) = (1 \<le> p \<and> 0 \<le> s \<and> s \<le> p)"
| "plain_type (T_DICTIONARY ty) = plain_type ty"
| "plain_type (T_LIST f) = plain_type (f_type f)"
| "plain_type (T_LARGE_LIST f) = plain_type (f_type f)"
| "plain_type (T_MAP k f) = (plain_type (f_type k) \<and> plain_type (f_type f))"
| "plain_type (T_STRUCT fs) = (\<forall>f \<in> set fs. plain_names f \<and> plain_type (f_type f))"
| "plain_type ty = True"

lemma scan_int_dec:
  assumes "n < 2 ^ 31" "\<not> is_digit c"
  shows "scan_int (dec n @ c # r) = Some (int n, c # r)"
proof -
  have d: "\<And>x. x \<in> set (dec n) \<Longrightarrow> is_digit x" using dec_digits [of n] by (simp add: list_all_iff)
  have s: "sign_of (dropWhile is_space (dec n @ c # r)) = (False, dec n @ c # r)"
    using dec_nonempty [of n] d [of "hd (dec n)"]
    by (cases "dec n") (auto simp: sign_of_def is_digit_def digits_def is_space_def)
  have t: "takeWhile is_digit (dec n @ c # r) = dec n" "dropWhile is_digit (dec n @ c # r) = c # r"
    using d assms(2) by (simp_all add: takeWhile_append2 dropWhile_append2)
  have "clamp_int64 (int n) = int n" using assms(1) by (simp add: clamp_int64_def)
  moreover have "sint (word_of_int (int n) :: 32 word) = int n"
    using assms(1) unfolding int_word_sint by simp
  ultimately show ?thesis using s t by (simp add: scan_int_def)
qed

lemma primitive_decimal:
  assumes "1 \<le> p" "p \<le> 38" "0 \<le> s" "s \<le> p"
  shows "primitive (''decimal('' @ dec_int p @ '','' @ dec_int s @ '')'') ctx = Inr (T_DECIMAL128 p s)"
proof -
  have d: "dec_int p = dec (nat p)" "dec_int s = dec (nat s)" using assms by (auto simp: dec_int_def)
  have "scan_decimal (''decimal('' @ dec (nat p) @ '','' @ dec (nat s) @ '')'') = Some (p, s)"
    using assms scan_int_dec [of "nat p" "CHR '',''" "dec (nat s) @ '')''"] scan_int_dec [of "nat s" "CHR '')''" "[]"]
    by (simp add: scan_decimal_def starts_with_def is_digit_def digits_def is_space_def)
  then show ?thesis using assms by (simp add: primitive_def d starts_with_def)
qed


lemma flag_member: "flag (JObject ms) name = (case Option.bind (map_of ms name) as_bool of Some b \<Rightarrow> b | None \<Rightarrow> True)"
  by (simp add: flag_def)

lemma metadata_of_field: "plain_names f \<Longrightarrow> metadata_of write (field_json (f_name f) ty nullable (f_metadata f)) = f_metadata f"
proof -
  assume "plain_names f"
  then have "\<And>k v. (k, v) \<in> set (f_metadata f) \<Longrightarrow> c_str k = k \<and> c_str v = v"
    by (auto simp: plain_names_def no_nul_def intro!: c_str_id)
  then show ?thesis by (auto simp: metadata_of_def field_json_def c_str_id intro!: map_idI)
qed

lemma parse_struct_json:
  "parse_fields write (struct_json js) prefix = parse_field_list write js prefix"
  by (simp add: struct_json_def)

declare parse_type.simps [simp del]

lemma parse_kinds:
  "parse_type write (JString s) ctx = primitive (c_str s) ctx"
  "parse_type write (struct_json js) ctx = map_sum id T_STRUCT (parse_field_list write js (ctx @ ''.''))"
  "parse_type write (JObject [(''type'', JString ''array''), (''elementType'', e), (''containsNull'', JBool b)]) ctx
   = map_sum id (\<lambda>ty. T_LIST (Field ''element'' ty b [])) (parse_type write e (ctx @ ''.element''))"
  by (simp_all add: parse_type.simps [of "write" "JString s"] parse_type.simps [of "write" "struct_json js"]
      parse_type.simps [of "write" "JObject _"] struct_json_def member_string_def has_member_def c_str_def flag_def)

lemma parse_map:
  "parse_type write k (ctx @ ''.key'') = Inr kt \<Longrightarrow> parse_type write v (ctx @ ''.value'') = Inr vt \<Longrightarrow>
   parse_type write (JObject [(''type'', JString ''map''), (''keyType'', k), (''valueType'', v),
     (''valueContainsNull'', JBool b)]) ctx = Inr (T_MAP (Field ''key'' kt False []) (Field ''value'' vt b []))"
  by (simp add: parse_type.simps [of "write" "JObject _"] member_string_def has_member_def c_str_def flag_def)

lemma parse_field:
  assumes "plain_names f" "parse_type write ty (prefix @ f_name f) = Inr t" "parse_field_list write js prefix = Inr fs"
  shows "parse_field_list write (field_json (f_name f) ty (f_nullable f) (f_metadata f) # js) prefix
    = Inr (Field (f_name f) t (f_nullable f) (f_metadata f) # fs)"
proof -
  have c: "c_str (f_name f) = f_name f" using assms(1) by (simp add: plain_names_def no_nul_def c_str_id)
  have j: "member_string ''name'' (field_json (f_name f) ty (f_nullable f) (f_metadata f)) = Some (f_name f)"
    "find_member ''type'' (field_json (f_name f) ty (f_nullable f) (f_metadata f)) = Some ty"
    "flag (field_json (f_name f) ty (f_nullable f) (f_metadata f)) ''nullable'' = f_nullable f"
    by (simp_all add: field_json_def member_string_def flag_def c)
  show ?thesis by (simp add: j c assms(2,3) metadata_of_field [OF assms(1)])
qed

lemma map_sum_Inr: "map_sum id f r = Inr x \<longleftrightarrow> (\<exists>y. r = Inr y \<and> x = f y)"
  by (cases r) auto

lemma parse_decimal:
  assumes "1 \<le> p" "p \<le> 38" "0 \<le> s" "s \<le> p"
  shows "parse_type write (JString (''decimal('' @ dec_int p @ '','' @ dec_int s @ '')'')) ctx = Inr (T_DECIMAL128 p s)"
proof -
  have "\<not> is_digit (CHR 0x00)" by (simp add: is_digit_def digits_def)
  then have "CHR 0x00 \<notin> set (dec n)" for n using dec_digits [of n] by (metis list_all_iff)
  then have "c_str (''decimal('' @ dec_int p @ '','' @ dec_int s @ '')'') = ''decimal('' @ dec_int p @ '','' @ dec_int s @ '')''"
    by (intro c_str_id) (auto simp: dec_int_def)
  then show ?thesis using primitive_decimal [OF assms] by (simp add: parse_kinds)
qed

lemma type_json_parsed:
  "type_json sh ty ctx = Inr (j, feats) \<Longrightarrow> plain_type ty \<Longrightarrow> parse_type write j ctx' = Inr (canon_type ty)"
  "fields_json sh fs prefix names = Inr (js, feats') \<Longrightarrow> (\<forall>f \<in> set fs. plain_names f \<and> plain_type (f_type f)) \<Longrightarrow>
     parse_field_list write js prefix' = Inr (map canon_field fs)"
proof (induction sh ty ctx and sh fs prefix names arbitrary: j feats ctx' and js feats' prefix'
    rule: type_json_fields_json.induct)
  case (15 sh p s ctx)
  from "15.prems" have p: "p \<le> 38" and j: "j = JString (''decimal('' @ dec_int p @ '','' @ dec_int s @ '')'')"
    by (simp_all split: if_splits)
  from "15.prems"(2) p show ?case unfolding j canon_type.simps by (intro parse_decimal) simp_all
next
  case (19 sh k f ctx)
  from "19.prems" obtain kj ks vj vs where k: "type_json sh (f_type k) (ctx @ ''.key'') = Inr (kj, ks)"
    and v: "type_json sh (f_type f) (ctx @ ''.value'') = Inr (vj, vs)"
    and j: "j = JObject [(''type'', JString ''map''), (''keyType'', kj), (''valueType'', vj),
              (''valueContainsNull'', JBool (f_nullable f))]"
    by (auto split: sum.splits simp: map_sum_def)
  show ?case unfolding j
    using "19.IH"(1) [OF k] "19.IH"(2) [OF k refl v] "19.prems"(2) by (simp add: parse_map)
next
  case (28 sh f fs prefix names)
  from "28.prems" obtain ty fe js2 fe2 where n: "name_error prefix (f_name f) names = None"
    and t: "type_json sh (f_type f) (prefix @ f_name f) = Inr (ty, fe)"
    and r: "fields_json sh fs prefix (lower (f_name f) # names) = Inr (js2, fe2)"
    and js: "js = field_json (f_name f) ty (f_nullable f) (f_metadata f) # js2"
    by (auto split: sum.splits option.splits simp: map_sum_def)
  show ?case unfolding js
    using "28.IH"(1) [OF n t] "28.IH"(2) [OF n t refl r] "28.prems"(2)
    by (simp add: parse_field canon_field_def del: parse_field_list.simps)
qed (auto simp: parse_kinds primitive_def c_str_def map_sum_Inr canon_field_def [abs_def] split: if_splits)


lemma type_json_ok:
  "type_json sh ty ctx = Inr (j, feats) \<Longrightarrow> json_ok j"
  "fields_json sh fs prefix names = Inr (js, feats') \<Longrightarrow> list_all json_ok js"
proof (induction sh ty ctx and sh fs prefix names arbitrary: j feats and js feats' rule: type_json_fields_json.induct)
  case (19 sh k f ctx)
  then show ?case by (auto split: sum.splits simp: map_sum_def)
next
  case (28 sh f fs prefix names)
  then show ?case by (auto split: sum.splits option.splits simp: map_sum_def field_json_def list_all_iff)
qed (auto simp: struct_json_def map_sum_Inr split: if_splits)

section \<open>The schemas that have a Delta schema\<close>

definition good_names :: "arrow_field list \<Rightarrow> bool" where
  "good_names fs \<longleftrightarrow>
     distinct (map (\<lambda>f. lower (f_name f)) fs) \<and> (\<forall>f \<in> set fs. f_name f \<noteq> [] \<and> \<not> invalid_name (f_name f))"

fun delta_type :: "arrow_type \<Rightarrow> bool" where
  "delta_type (T_DECIMAL128 p s) = (p \<le> 38)"
| "delta_type (T_DICTIONARY ty) = delta_type ty"
| "delta_type (T_LIST f) = delta_type (f_type f)"
| "delta_type (T_LARGE_LIST f) = delta_type (f_type f)"
| "delta_type (T_MAP k f) = (delta_type (f_type k) \<and> delta_type (f_type f))"
| "delta_type (T_STRUCT fs) = (fs \<noteq> [] \<and> good_names fs \<and> (\<forall>f \<in> set fs. delta_type (f_type f)))"
| "delta_type ty = (ty \<notin> {T_NA, T_UINT8, T_UINT16, T_UINT32, T_UINT64} \<and> (\<forall>n. ty \<noteq> T_OTHER n))"

fun uses_ntz :: "arrow_type \<Rightarrow> bool" where
  "uses_ntz (T_TIMESTAMP u zone) = (zone = [])"
| "uses_ntz (T_DICTIONARY ty) = uses_ntz ty"
| "uses_ntz (T_LIST f) = uses_ntz (f_type f)"
| "uses_ntz (T_LARGE_LIST f) = uses_ntz (f_type f)"
| "uses_ntz (T_MAP k f) = (uses_ntz (f_type k) \<or> uses_ntz (f_type f))"
| "uses_ntz (T_STRUCT fs) = (\<exists>f \<in> set fs. uses_ntz (f_type f))"
| "uses_ntz ty = False"

lemma name_error_None:
  "name_error prefix name names = None \<longleftrightarrow> name \<noteq> [] \<and> \<not> invalid_name name \<and> lower name \<notin> set names"
  by (simp add: name_error_def)

definition is_ok :: "'a schema_result \<Rightarrow> bool" where "is_ok r \<longleftrightarrow> (\<exists>x. r = Inr x)"

lemma is_ok_simps [simp]:
  "is_ok (Inr x)" "\<not> is_ok (Inl e)" "is_ok (map_sum id f r) \<longleftrightarrow> is_ok r"
  by (cases r; simp add: is_ok_def)+

lemma type_json_accepts:
  "is_ok (type_json sh ty ctx) \<longleftrightarrow> delta_type ty"
  "is_ok (fields_json sh fs prefix names) \<longleftrightarrow>
     good_names fs \<and> (\<forall>f \<in> set fs. delta_type (f_type f) \<and> lower (f_name f) \<notin> set names)"
proof (induction sh ty ctx and sh fs prefix names rule: type_json_fields_json.induct)
  case (19 sh k f ctx)
  then show ?case by (cases "type_json sh (f_type k) (ctx @ ''.key'')") auto
next
  case (28 sh f fs prefix names)
  show ?case
  proof (cases "type_json sh (f_type f) (prefix @ f_name f)")
    case (Inl e)
    then have "\<not> is_ok (fields_json sh (f # fs) prefix names)"
      by (cases "name_error prefix (f_name f) names") simp_all
    moreover have "\<not> delta_type (f_type f)" if "name_error prefix (f_name f) names = None"
      using "28.IH"(1) [OF that] Inl by simp
    ultimately show ?thesis
      by (cases "name_error prefix (f_name f) names = None")
        (auto simp: name_error_None good_names_def simp del: fields_json.simps)
  next
    case (Inr r)
    obtain j fe where r: "r = (j, fe)" by (cases r)
    show ?thesis
    proof (cases "name_error prefix (f_name f) names")
      case None
      then have n: "f_name f \<noteq> []" "\<not> invalid_name (f_name f)" "lower (f_name f) \<notin> set names"
        by (simp_all add: name_error_None)
      have "is_ok (fields_json sh (f # fs) prefix names) \<longleftrightarrow> is_ok (fields_json sh fs prefix (lower (f_name f) # names))"
        using Inr None by (simp add: r)
      also have "\<dots> \<longleftrightarrow> good_names fs \<and> (\<forall>g \<in> set fs. delta_type (f_type g) \<and> lower (f_name g) \<notin> set (lower (f_name f) # names))"
        using "28.IH"(2) [OF None Inr r [symmetric]] by simp
      also have "\<dots> \<longleftrightarrow> good_names (f # fs) \<and> (\<forall>g \<in> set (f # fs). delta_type (f_type g) \<and> lower (f_name g) \<notin> set names)"
        using "28.IH"(1) [OF None] Inr n by (auto simp: good_names_def image_def)
      finally show ?thesis .
    next
      case (Some e)
      then have "name_error prefix (f_name f) names \<noteq> None" by simp
      with Some show ?thesis unfolding name_error_None by (auto simp: good_names_def)
    qed
  qed
qed (auto simp: good_names_def)

lemma type_json_features:
  "type_json sh ty ctx = Inr (j, feats) \<Longrightarrow> set feats = (if uses_ntz ty then {''timestampNtz''} else {})"
  "fields_json sh fs prefix names = Inr (js, feats') \<Longrightarrow>
     set feats' = (if \<exists>f \<in> set fs. uses_ntz (f_type f) then {''timestampNtz''} else {})"
proof (induction sh ty ctx and sh fs prefix names arbitrary: j feats and js feats' rule: type_json_fields_json.induct)
  case (19 sh k f ctx)
  from "19.prems" obtain kj ks vj vs where k: "type_json sh (f_type k) (ctx @ ''.key'') = Inr (kj, ks)"
    and v: "type_json sh (f_type f) (ctx @ ''.value'') = Inr (vj, vs)" and fe: "feats = ks @ vs"
    by (auto split: sum.splits simp: map_sum_def)
  show ?case using "19.IH"(1) [OF k] "19.IH"(2) [OF k refl v] by (simp add: fe)
next
  case (28 sh f fs prefix names)
  from "28.prems" obtain ty fe js2 fe2 where n: "name_error prefix (f_name f) names = None"
    and t: "type_json sh (f_type f) (prefix @ f_name f) = Inr (ty, fe)"
    and r: "fields_json sh fs prefix (lower (f_name f) # names) = Inr (js2, fe2)" and fe: "feats' = fe @ fe2"
    by (auto split: sum.splits option.splits simp: map_sum_def)
  show ?case using "28.IH"(1) [OF n t] "28.IH"(2) [OF n t refl r] by (simp add: fe)
qed (auto simp: map_sum_Inr split: if_splits)


lemma feature_list:
  "map fst (fold (\<lambda>f. smap_put f ()) feats m) = map fst m @ (if feats = [] then [] else [x])"
  if "set feats \<subseteq> {x}" "m = []" for x :: string
proof -
  have fixed: "fold (\<lambda>f. smap_put f ()) fs [(x, ())] = [(x, ())]" if "set fs \<subseteq> {x}" for fs
    using that by (induction fs) auto
  show ?thesis using that fixed by (cases feats) auto
qed

lemma feature_set:
  "set feats = (if b then {x} else {}) \<Longrightarrow> map fst (fold (\<lambda>f. smap_put f ()) feats []) = (if b then [x] else [])"
  for x :: string
  using feature_list [of feats x "[]"] by (cases "feats = []") (auto split: if_splits)


lemma schema_read_back:
  assumes codec: "json_codec parse write" and ok: "to_delta_schema write sh fs = Inr s"
    and plain: "\<forall>f \<in> set fs. plain_names f \<and> plain_type (f_type f)"
  shows "from_delta_schema parse write (ds_schema_string s) = Inr (map canon_field fs)"
proof -
  from ok obtain js feats where js: "fields_json sh fs [] [] = Inr (js, feats)"
    and s: "ds_schema_string s = c_str (write (struct_json js))"
    by (auto simp: to_delta_schema_def map_sum_Inr split: if_splits)
  have "json_ok (struct_json js)" using type_json_ok(2) [OF js] by (simp add: struct_json_def)
  note w = json_codecD [OF codec this]
  have "parse (ds_schema_string s) = Some (struct_json js)" using w by (simp add: s c_str_id)
  moreover have "parse_fields write (struct_json js) [] = Inr (map canon_field fs)"
    unfolding parse_struct_json by (rule type_json_parsed(2) [OF js plain])
  moreover have "is_object (struct_json js)" by (simp add: struct_json_def)
  ultimately show ?thesis by (simp add: from_delta_schema_def)
qed

text \<open>C34: A schema written for a Delta table is read back as the same schema, with every type replaced by the one
  its Delta type stands for: names, order, nullability, nesting and field metadata are kept.\<close>

theorem schema_roundtrip:
  assumes codec: "json_codec parse write" and ok: "to_delta_schema write sh fs = Inr s"
    and plain: "\<forall>f \<in> set fs. plain_names f \<and> plain_type (f_type f)"
  shows "from_delta_schema parse write (ds_schema_string s) = Inr (map canon_field fs)"
  by (rule schema_read_back [OF assms])

definition demo_schema :: "arrow_field list" where
  "demo_schema =
     [Field ''id'' T_INT64 False [(''comment'', ''key'')], Field ''when'' (T_TIMESTAMP NANO []) True [],
      Field ''price'' (T_DECIMAL128 10 2) True [], Field ''tags'' (T_MAP (field ''k'' T_LARGE_STRING)
        (field ''v'' (T_STRUCT [field ''x'' T_DOUBLE]))) True []]"

lemma demo_accepted: "\<exists>s. to_delta_schema sample_write (\<lambda>_. []) demo_schema = Inr s"
proof -
  have "is_ok (fields_json (\<lambda>_. []) demo_schema [] [])"
    unfolding type_json_accepts
    by (simp add: demo_schema_def good_names_def field_def invalid_name_def newline_def lower_def to_lower_def)
  then obtain r where "fields_json (\<lambda>_. []) demo_schema [] [] = Inr r" by (auto simp: is_ok_def)
  then show ?thesis
    by (cases r) (simp add: to_delta_schema_def demo_schema_def del: sample_write.simps fields_json.simps)
qed

lemma schema_roundtrip_witness:
  "\<exists>s. to_delta_schema sample_write (\<lambda>_. []) demo_schema = Inr s
    \<and> from_delta_schema sample_parse sample_write (ds_schema_string s)
      = Inr [Field ''id'' T_INT64 False [(''comment'', ''key'')], Field ''when'' (T_TIMESTAMP MICRO []) True [],
          Field ''price'' (T_DECIMAL128 10 2) True [], Field ''tags'' (T_MAP (Field ''key'' T_STRING False [])
            (Field ''value'' (T_STRUCT [field ''x'' T_DOUBLE]) True [])) True []]"
proof -
  from demo_accepted obtain s where s: "to_delta_schema sample_write (\<lambda>_. []) demo_schema = Inr s" by blast
  from schema_roundtrip [OF sample_codec s] show ?thesis
    by (intro exI [of _ s] conjI s)
       (simp add: demo_schema_def field_def canon_field_def plain_names_def no_nul_def)
qed


section \<open>The form of an id\<close>


lemma hex_padded_Suc:
  assumes "0 < w"
  shows "hex_padded (Suc w) n = (if n < 16 ^ Suc w then hex_padded w (n div 16) @ [hex_digits ! (n mod 16)] else hex_padded (Suc w) n)"
proof (cases "n < 16")
  case True
  then have "hex n = [hex_digits ! n]" "hex (n div 16) = ''0''" by (simp_all add: hex.simps hex_digits_def)
  with True assms show ?thesis by (cases w) (simp_all add: hex_padded_def replicate_append_same)
next
  case False
  then have "hex n = hex (n div 16) @ [hex_digits ! (n mod 16)]" by (subst hex.simps) simp
  then show ?thesis by (simp add: hex_padded_def)
qed

lemma length_hex_padded: "0 < w \<Longrightarrow> n < 16 ^ w \<Longrightarrow> length (hex_padded w n) = w"
proof (induction w arbitrary: n)
  case (Suc w)
  show ?case
  proof (cases "w = 0")
    case True
    with Suc.prems show ?thesis by (simp add: hex_padded_def hex.simps)
  next
    case False
    with Suc.prems have "length (hex_padded w (n div 16)) = w" by (intro Suc.IH) (simp_all add: less_mult_imp_div_less)
    with False Suc.prems show ?thesis by (simp add: hex_padded_Suc)
  qed
qed simp

lemma hd_hex_padded: "0 < w \<Longrightarrow> n < 16 ^ w \<Longrightarrow> hex_padded w n ! 0 = hex_digits ! (n div 16 ^ (w - 1))"
proof (induction w arbitrary: n)
  case (Suc w)
  show ?case
  proof (cases "w = 0")
    case True
    with Suc.prems show ?thesis by (simp add: hex_padded_def hex.simps)
  next
    case False
    with Suc.prems have m: "n div 16 < 16 ^ w" by (simp add: less_mult_imp_div_less)
    obtain k where k: "w = Suc k" using False by (cases w) auto
    have "n div 16 div 16 ^ k = n div 16 ^ w" by (simp add: k div_mult2_eq)
    with False Suc.IH [OF _ m] length_hex_padded [OF _ m] Suc.prems show ?thesis by (simp add: hex_padded_Suc nth_append k)
  qed
qed simp

lemma version_bits:
  "unat (and (or (and h 0xFFFFFFFFFFFF0FFF) 0x0000000000004000) 0xFFFF) div 16 ^ 3 = 4" for h :: "64 word"
proof -
  have "and (or (and h 0xFFFFFFFFFFFF0FFF) 0x4000) 0xFFFF = or (and h 0xFFF) (0x4000 :: 64 word)"
    by (simp add: bit.conj_disj_distrib2 and.assoc)
  also have "\<dots> = take_bit 12 h + 0x4000"
  proof -
    have m: "and h 0xFFF = take_bit 12 h" by (simp add: take_bit_eq_mask mask_eq_exp_minus_1)
    have "and (and h 0xFFF) (0x4000 :: 64 word) = 0" by (simp add: and.assoc)
    then show ?thesis using word_plus_and_or [of "and h 0xFFF" "0x4000"] by (simp add: m)
  qed
  finally have *: "and (or (and h 0xFFFFFFFFFFFF0FFF) 0x4000) 0xFFFF = take_bit 12 h + 0x4000" .
  have "unat (take_bit 12 h) < 2 ^ 12" using take_bit_nat_less_exp [of 12 "unat h"] by (simp add: unsigned_take_bit_eq)
  then have "unat (take_bit 12 h + 0x4000) = unat (take_bit 12 h) + 0x4000" by (simp add: unat_word_ariths)
  with \<open>unat (take_bit 12 h) < 2 ^ 12\<close> show ?thesis unfolding * by simp
qed

lemma variant_bits:
  "unat (drop_bit 48 (or (and h 0x3FFFFFFFFFFFFFFF) 0x8000000000000000)) div 16 ^ 3 \<in> {8..11}" for h :: "64 word"
proof -
  let ?k = "take_bit 14 (drop_bit 48 h)"
  have "drop_bit 48 (or (and h 0x3FFFFFFFFFFFFFFF) 0x8000000000000000) = or (and (drop_bit 48 h) 0x3FFF) (0x8000 :: 64 word)"
    by (simp add: drop_bit_or drop_bit_and)
  also have "\<dots> = ?k + 0x8000"
  proof -
    have m: "and (drop_bit 48 h) 0x3FFF = ?k" by (simp add: take_bit_eq_mask mask_eq_exp_minus_1)
    have "and (and (drop_bit 48 h) 0x3FFF) (0x8000 :: 64 word) = 0" by (simp add: and.assoc)
    then show ?thesis using word_plus_and_or [of "and (drop_bit 48 h) 0x3FFF" "0x8000"] by (simp add: m)
  qed
  finally have *: "drop_bit 48 (or (and h 0x3FFFFFFFFFFFFFFF) 0x8000000000000000) = ?k + 0x8000" .
  have k: "unat ?k < 2 ^ 14"
    using take_bit_nat_less_exp [of 14 "unat (drop_bit 48 h)"] by (simp add: unsigned_take_bit_eq)
  then have "unat (?k + 0x8000) = unat ?k + 0x8000" by (simp add: unat_word_ariths)
  moreover have "8 \<le> (n + 0x8000) div 4096 \<and> (n + 0x8000) div 4096 \<le> 11" if "n < 16384" for n :: nat
    using that by linarith
  ultimately show ?thesis using k unfolding * by simp
qed


lemma nth_dash: "length s = n \<Longrightarrow> (s @ c # r) ! n = c" by auto

text \<open>An id is a UUID of version 4 and variant 1 in its usual form, whatever numbers the generator gives.\<close>

lemma random_uuid_form:
  "length (random_uuid high low) = 36
   \<and> map ((!) (random_uuid high low)) [8, 13, 18, 23] = ''----''
   \<and> random_uuid high low ! 14 = CHR ''4'' \<and> random_uuid high low ! 19 \<in> set ''89ab''"
proof -
  define h where "h = or (and high 0xFFFFFFFFFFFF0FFF) 0x0000000000004000"
  define l where "l = or (and low 0x3FFFFFFFFFFFFFFF) 0x8000000000000000"
  define a where "a = hex_padded 8 (unat (drop_bit 32 h) mod 2 ^ 32)"
  define b where "b = hex_padded 4 (unat (and (drop_bit 16 h) 0xFFFF))"
  define c where "c = hex_padded 4 (unat (and h 0xFFFF))"
  define d where "d = hex_padded 4 (unat (drop_bit 48 l) mod 2 ^ 32)"
  define e where "e = hex_padded 12 (unat (and l 0xFFFFFFFFFFFF))"
  have mask: "unat (and x 0xFFFF) < 16 ^ 4" "unat (and x 0xFFFFFFFFFFFF) < 16 ^ 12" for x :: "64 word"
  proof -
    have "and x 0xFFFF = take_bit 16 x" "and x 0xFFFFFFFFFFFF = take_bit 48 x"
      by (simp_all add: take_bit_eq_mask mask_eq_exp_minus_1)
    then show "unat (and x 0xFFFF) < 16 ^ 4" "unat (and x 0xFFFFFFFFFFFF) < 16 ^ 12"
      using take_bit_nat_less_exp [of 16 "unat x"] take_bit_nat_less_exp [of 48 "unat x"]
      by (simp_all add: unsigned_take_bit_eq)
  qed
  have "unat (drop_bit 48 l) = unat l div 2 ^ 48" 
    using unat_drop_bit_eq [of 48 l] by (simp only: drop_bit_eq_div)
  then have d48: "unat (drop_bit 48 l) < 2 ^ 16" using unsigned_less [of l, where ?'a = nat] by (simp add: less_mult_imp_div_less)
  have len: "length a = 8" "length b = 4" "length c = 4" "length d = 4" "length e = 12"
    using mask d48 unfolding a_def b_def c_def d_def e_def by (simp_all add: length_hex_padded)
  have "c ! 0 = CHR ''4''"
    using mask(1) [of h] version_bits [of high] unfolding c_def h_def by (simp add: hd_hex_padded hex_digits_def)
  moreover have "d ! 0 \<in> set ''89ab''"
  proof -
    have v: "unat (drop_bit 48 l) div 16 ^ 3 \<in> {8..11}" unfolding l_def by (rule variant_bits)
    have "d ! 0 = hex_digits ! (unat (drop_bit 48 l) div 16 ^ 3)"
      using d48 unfolding d_def by (simp add: hd_hex_padded)
    moreover have "n \<in> {8..11} \<Longrightarrow> hex_digits ! n \<in> set ''89ab''" for n :: nat
    proof -
      assume "n \<in> {8..11}"
      then have "n = 8 \<or> n = 9 \<or> n = 10 \<or> n = 11" by auto
      then show ?thesis by (elim disjE) (simp_all add: hex_digits_def)
    qed
    ultimately show ?thesis using v by metis
  qed
  moreover have u: "random_uuid high low = a @ ''-'' @ b @ ''-'' @ c @ ''-'' @ d @ ''-'' @ e"
    by (simp add: random_uuid_def Let_def a_def b_def c_def d_def e_def h_def l_def)
  ultimately show ?thesis unfolding u by (simp add: nth_append nth_Cons' len)
qed


end
