(* ===== verification/Tables.thy ===== *)
theory Tables
  imports Snapshots DeltaSchema
begin

text \<open>
  Creating and dropping tables (\<open>Tables.cpp\<close>).  The two ids of a new table come from the numbers \<open>rng 0\<close> to
  \<open>rng 3\<close> of the generator; the error message is part of the result.
\<close>

datatype table_result =
  Table_Ok | Table_AlreadyExists | Table_NotEmpty | Table_NotFound | Table_Invalid | Table_Error

record table_options =
  to_description :: string
  to_properties :: "(string \<times> string) list"

definition quoted :: "string \<Rightarrow> string" where "quoted s = CHR 0x27 # s @ [CHR 0x27]"

definition table_prefix :: "string \<Rightarrow> string option" where
  "table_prefix path =
     (if path = [] \<or> path = ''/'' \<or> hd path = CHR ''/'' then None
      else if last path = CHR ''/'' then Some path else Some (path @ ''/''))"

section \<open>The first commit of a table\<close>

definition write_properties :: "(string \<times> string) list \<Rightarrow> json" where
  "write_properties ps = JObject (map (\<lambda>(k, v). (c_str k, JString (c_str v))) ps)"

definition create_info :: "json_writer \<Rightarrow> table_options \<Rightarrow> string \<Rightarrow> int \<Rightarrow> json" where
  "create_info write opts txn now =
     JObject [(''commitInfo'', JObject
       [(''timestamp'', JInt now), (''operation'', JString ''CREATE TABLE''),
        (''operationParameters'', JObject
          [(''isManaged'', JString ''false''),
           (''description'', if to_description opts = [] then JNull else JString (c_str (to_description opts))),
           (''partitionBy'', JString ''[]''),
           (''properties'', JString (c_str (write (write_properties (to_properties opts)))))]),
        (''isolationLevel'', JString ''Serializable''), (''isBlindAppend'', JBool True),
        (''operationMetrics'', JObject []), (''engineInfo'', JString engine_info), (''txnId'', JString txn)])]"

definition create_metadata :: "delta_schema \<Rightarrow> table_options \<Rightarrow> string \<Rightarrow> int \<Rightarrow> json" where
  "create_metadata schema opts table_uuid now =
     JObject ([(''id'', JString table_uuid)]
       @ (if to_description opts = [] then [] else [(''description'', JString (c_str (to_description opts)))])
       @ [(''format'', JObject [(''provider'', JString ''parquet''), (''options'', JObject [])]),
          (''schemaString'', JString (c_str (ds_schema_string schema))), (''partitionColumns'', JArray []),
          (''configuration'', write_properties (to_properties opts)), (''createdTime'', JInt now)])"

definition create_protocol :: "delta_schema \<Rightarrow> json" where
  "create_protocol schema =
     (if ds_features schema = []
      then JObject [(''minReaderVersion'', JInt 1), (''minWriterVersion'', JInt 2)]
      else let features = JArray (map (\<lambda>f. JString (c_str f)) (ds_features schema))
           in JObject [(''minReaderVersion'', JInt 3), (''minWriterVersion'', JInt 7),
                (''readerFeatures'', features), (''writerFeatures'', features)])"

definition create_actions ::
    "json_writer \<Rightarrow> delta_schema \<Rightarrow> table_options \<Rightarrow> (nat \<Rightarrow> 64 word) \<Rightarrow> int \<Rightarrow> json list" where
  "create_actions write schema opts rng now =
     [create_info write opts (random_uuid (rng 0) (rng 1)) now,
      JObject [(''metaData'', create_metadata schema opts (random_uuid (rng 2) (rng 3)) now)],
      JObject [(''protocol'', create_protocol schema)]]"

definition create_table_commit ::
    "json_writer \<Rightarrow> delta_schema \<Rightarrow> table_options \<Rightarrow> (nat \<Rightarrow> 64 word) \<Rightarrow> int \<Rightarrow> string" where
  "create_table_commit write schema opts rng now =
     concat (map (\<lambda>v. c_str (write v) @ [newline]) (create_actions write schema opts rng now))"

section \<open>Creating a table\<close>

definition reserved_properties :: "string list" where
  "reserved_properties = [''comment'', ''location'', ''provider'', ''owner'', ''external'', ''is_managed_location'']"

text \<open>The message of the first property that is not allowed.\<close>

fun check_properties :: "string list \<Rightarrow> (string \<times> string) list \<Rightarrow> string option" where
  "check_properties names [] = None"
| "check_properties names ((name, v) # ps) =
     (let key = lower name
      in if key = [] \<or> key \<in> set reserved_properties \<or> starts_with ''delta.'' key \<or> starts_with ''option.'' key
         then Some (''unsupported table property '' @ quoted name)
         else if name \<in> set names then Some (''duplicate table property '' @ quoted name)
         else check_properties (name # names) ps)"

text \<open>The removal of the table's entry of the global log; the result is an error message.\<close>

definition forget_global_entry ::
    "nat \<Rightarrow> nat \<Rightarrow> (nat \<Rightarrow> int) \<Rightarrow> string \<Rightarrow> manager \<Rightarrow> (string option \<times> manager) option" where
  "forget_global_entry fuel random steady pre m =
     (let (exists, m) = with_conn (mc_check (global_log_path m)) m
      in if \<not> exists then Some (None, m)
         else case acquire_global_lock fuel random steady m of
                None \<Rightarrow> None
              | Some (False, m) \<Rightarrow> Some (Some (''unable to lock the global log '' @ global_log_path m), m)
              | Some (True, m) \<Rightarrow>
                  (let (updated, m) = update_global_entry pre (\<lambda>_. None) m;
                       m = release_global_lock m
                   in Some (if updated then None
                            else Some (''unable to update the global log '' @ global_log_path m), m)))"

fun create_attempts ::
    "nat \<Rightarrow> bool \<Rightarrow> string \<Rightarrow> string \<Rightarrow> string \<Rightarrow> connector \<Rightarrow> (table_result \<times> string) \<times> connector" where
  "create_attempts 0 uncertain pre version0 commit c = ((Table_Error, ''unable to write '' @ version0), c)"
| "create_attempts (Suc n) uncertain pre version0 commit c =
     (let ((status, _), c) = mc_write_atomic version0 commit c
      in case status of
           Ok \<Rightarrow> ((Table_Ok, []), c)
         | AlreadyExists \<Rightarrow>
             (let (content, c) = mc_read2 version0 c
              in (if uncertain \<and> content = Some commit then (Table_Ok, [])
                  else (Table_AlreadyExists, ''a Delta table was created concurrently at '' @ pre), c))
         | _ \<Rightarrow> create_attempts n True pre version0 commit c)"

definition create_table ::
    "sys \<Rightarrow> (arrow_type \<Rightarrow> string) \<Rightarrow> nat \<Rightarrow> nat \<Rightarrow> (nat \<Rightarrow> int) \<Rightarrow> (nat \<Rightarrow> 64 word) \<Rightarrow> string \<Rightarrow> arrow_field list
     \<Rightarrow> table_options \<Rightarrow> manager \<Rightarrow> ((table_result \<times> string) \<times> manager) option" where
  "create_table sy sh fuel random steady rng path schema opts m =
     (case table_prefix path of
        None \<Rightarrow> Some ((Table_Invalid, ''invalid table path '' @ quoted path), m)
      | Some pre \<Rightarrow>
          (case to_delta_schema (sy_write sy) sh schema of
             Inl err \<Rightarrow> Some ((Table_Invalid, ''invalid schema: '' @ err), m)
           | Inr delta_schema \<Rightarrow>
               (case check_properties [] (to_properties opts) of
                  Some err \<Rightarrow> Some ((Table_Invalid, err), m)
                | None \<Rightarrow>
                    (let (objs, m) = with_conn (mc_list_objects pre) m
                     in case objs of
                          None \<Rightarrow> Some ((Table_Error, ''unable to list '' @ pre), m)
                        | Some objs \<Rightarrow>
                            if objs \<noteq> []
                            then Some (if list_ex (\<lambda>ob. starts_with (pre @ log_dir) (oi_key ob)) objs
                                       then (Table_AlreadyExists, ''a Delta table exists at '' @ pre)
                                       else (Table_NotEmpty, ''the location '' @ pre @ '' is not empty''), m)
                            else case forget_global_entry fuel random steady pre m of
                                   None \<Rightarrow> None
                                 | Some (Some err, m) \<Rightarrow> Some ((Table_Error, err), m)
                                 | Some (None, m) \<Rightarrow>
                                     (let (now, m) = with_conn local_time_ms m
                                      in Some (with_conn (create_attempts (storage_retries m) False pre (version_path pre 0)
                                           (create_table_commit (sy_write sy) delta_schema opts rng now)) m))))))"

section \<open>Dropping a table\<close>

definition drop_rank :: "string \<Rightarrow> string \<Rightarrow> nat" where
  "drop_rank log_prefix key =
     (if \<not> starts_with log_prefix key then 3
      else if key = log_prefix @ ''_last_checkpoint'' then 0
      else if find_sub ''.checkpoint.'' key \<noteq> None then 1
      else if key = log_prefix @ log_file_name 0 ''.json'' then 2
      else 4)"

definition drop_order :: "string \<Rightarrow> string list \<Rightarrow> string list" where
  "drop_order log_prefix ks = sort_key (\<lambda>k. (drop_rank log_prefix k, k)) ks"

fun delete_keys :: "nat \<Rightarrow> string list \<Rightarrow> connector \<Rightarrow> nat \<times> connector" where
  "delete_keys n [] c = (0, c)"
| "delete_keys n (k # ks) c =
     (let (deleted, c) = delete_retry_loop n k c; (failed, c) = delete_keys n ks c
      in (if deleted then failed else Suc failed, c))"

definition drop_table ::
    "nat \<Rightarrow> nat \<Rightarrow> (nat \<Rightarrow> int) \<Rightarrow> string \<Rightarrow> manager \<Rightarrow> ((table_result \<times> string) \<times> manager) option" where
  "drop_table fuel random steady path m =
     (case table_prefix path of
        None \<Rightarrow> Some ((Table_Invalid, ''invalid table path '' @ quoted path), m)
      | Some pre \<Rightarrow>
          (let (objs, m) = with_conn (mc_list_objects pre) m
           in case objs of
                None \<Rightarrow> Some ((Table_Error, ''unable to list '' @ pre), m)
              | Some objs \<Rightarrow>
                  if \<not> list_ex (\<lambda>ob. starts_with (pre @ log_dir) (oi_key ob)) objs
                  then Some (if objs = [] then (Table_NotFound, ''no Delta table at '' @ pre)
                             else (Table_NotEmpty, ''no Delta table at '' @ pre @ '' (the location contains other objects)''), m)
                  else case forget_global_entry fuel random steady pre m of
                         None \<Rightarrow> None
                       | Some (Some err, m) \<Rightarrow> Some ((Table_Error, err), m)
                       | Some (None, m) \<Rightarrow>
                           (let ks = drop_order (pre @ log_dir) (map oi_key objs);
                                (failed, m) = with_conn (delete_keys (storage_retries m) ks) m
                            in Some (if failed \<noteq> 0
                                     then (Table_Error, ''unable to delete '' @ dec failed @ '' of '' @ dec (length ks)
                                             @ '' objects of '' @ pre)
                                     else (Table_Ok, []), m))))"


section \<open>The order of a drop\<close>

text \<open>The objects without which no version of the table can be read.\<close>

definition needed_to_read :: "string \<Rightarrow> string \<Rightarrow> bool" where
  "needed_to_read log_prefix k \<longleftrightarrow> starts_with log_prefix k \<and>
     (k = log_prefix @ ''_last_checkpoint'' \<or> find_sub ''.checkpoint.'' k \<noteq> None \<or> k = log_prefix @ log_file_name 0 ''.json'')"

lemma drop_rank_cases:
  "drop_rank lp k < 3 \<longleftrightarrow> needed_to_read lp k" "drop_rank lp k = 3 \<longleftrightarrow> \<not> starts_with lp k"
  by (auto simp: drop_rank_def needed_to_read_def)

lemma drop_order_mono:
  assumes "drop_order lp ks = ds @ rs" "d \<in> set ds" "r \<in> set rs"
  shows "drop_rank lp d \<le> drop_rank lp r"
proof -
  have "sorted (map (\<lambda>k. (drop_rank lp k, k)) (ds @ rs))"
    using assms(1) unfolding drop_order_def by (metis sorted_sort_key)
  then have "(drop_rank lp d, d) \<le> (drop_rank lp r, r)"
    using assms(2,3) by (fastforce simp: sorted_append)
  then show ?thesis by (simp add: less_eq_prod_def) linarith
qed




section \<open>Creating and dropping without faults\<close>

lemma delete_retry_calm:
  assumes "calm_store c" "0 < n"
  obtains c' where "delete_retry_loop n k c = (True, c')" "calm_store c'" "contents c' = (contents c)(k := None)"
proof -
  obtain j where j: "n = Suc j" using assms(2) by (cases n) auto
  obtain r c' where d: "mc_delete_file k c = (r, c')" by (cases "mc_delete_file k c")
  from calm_delete [OF assms(1) d] have "r" "calm_store c'" "contents c' = (contents c)(k := None)"
    by (auto simp: contents_def fun_eq_iff)
  with d j that show ?thesis by simp
qed

lemma delete_keys_calm:
  assumes "calm_store c" "0 < n"
  shows "\<exists>c'. delete_keys n ks c = (0, c') \<and> calm_store c' \<and> contents c' = (\<lambda>p. if p \<in> set ks then None else contents c p)"
  using assms(1)
proof (induction ks arbitrary: c)
  case (Cons k ks)
  from delete_retry_calm [OF Cons.prems assms(2)] obtain c1 where
    c1: "delete_retry_loop n k c = (True, c1)" "calm_store c1" "contents c1 = (contents c)(k := None)" .
  from Cons.IH [OF c1(2)] obtain c2 where "delete_keys n ks c1 = (0, c2)" "calm_store c2"
    "contents c2 = (\<lambda>p. if p \<in> set ks then None else contents c1 p)" by blast
  with c1 show ?case by (intro exI [of _ c2]) (auto simp: fun_eq_iff)
qed (auto simp: fun_eq_iff)

text \<open>The lock of the global log is free, and the log is not below the table.\<close>

definition log_apart :: "string \<Rightarrow> manager \<Rightarrow> bool" where
  "log_apart pre m \<longleftrightarrow>
     contents (conn m) (global_tmp_log_path m) = None \<and> global_tmp_log_path m \<noteq> global_log_path m \<and>
     \<not> starts_with pre (global_log_path m) \<and> newline \<notin> set pre"

lemma forget_calm:
  assumes calm: "calm_store (conn m)" "0 < storage_retries m" and apart: "log_apart pre m" and pre: "pre \<noteq> []"
  shows "\<exists>c tk. forget_global_entry (Suc fuel) random steady pre m = Some (None, m\<lparr>conn := c, global_lock_token := tk\<rparr>)
    \<and> calm_store c \<and> (\<forall>p. p \<noteq> global_log_path m \<longrightarrow> contents c p = contents (conn m) p)
    \<and> (contents (conn m) (global_log_path m) = None \<longrightarrow> contents c (global_log_path m) = None)
    \<and> current_entry pre (global_state (m\<lparr>conn := c\<rparr>)) = None
    \<and> (\<forall>q. q \<noteq> pre \<longrightarrow> current_entry q (global_state (m\<lparr>conn := c\<rparr>)) = current_entry q (global_state m))"
proof -
  from calm_checkE [OF calm(1)] obtain c0 where c0: "with_conn (mc_check (global_log_path m)) m
      = (contents (conn m) (global_log_path m) \<noteq> None, m\<lparr>conn := c0\<rparr>)" "calm_store c0" "contents c0 = contents (conn m)" .
  show ?thesis
  proof (cases "contents (conn m) (global_log_path m)")
    case None
    then have "global_state (m\<lparr>conn := c0\<rparr>) = []" "global_state m = []"
      using c0(3) by (simp_all add: global_state_def global_entries_def map_filter_simps)
    with None c0 show ?thesis
      by (intro exI [of _ c0] exI [of _ "global_lock_token m"]) (simp add: forget_global_entry_def current_entry_def)
  next
    case (Some lt)
    let ?m0 = "m\<lparr>conn := c0\<rparr>"
    have free: "contents (conn ?m0) (global_tmp_log_path ?m0) = None" using apart c0(3) by (simp add: log_apart_def)
    from acquire_free [of ?m0 fuel random steady, OF _ free] c0(2) obtain token c1 where
      acq: "acquire_global_lock (Suc fuel) random steady ?m0 = Some (True, ?m0\<lparr>conn := c1, global_lock_token := token\<rparr>)"
      and token: "token \<noteq> []" and c1: "calm_store c1" "contents c1 = (contents c0)(global_tmp_log_path m \<mapsto> token)"
      by auto
    let ?m1 = "m\<lparr>conn := c1, global_lock_token := token\<rparr>"
    obtain r m2 where upd: "update_global_entry pre (\<lambda>_. None) ?m1 = (r, m2)" by (cases "update_global_entry pre (\<lambda>_. None) ?m1")
    have "newline \<notin> set pre" using apart by (simp add: log_apart_def)
    from update_global_entry_run [OF _ _ pre this _ upd] c1(1) calm(2) have
      u: "r" "current_entry pre (global_state m2) = None"
        "\<forall>q. q \<noteq> pre \<longrightarrow> current_entry q (global_state m2) = current_entry q (global_state ?m1)"
        "\<forall>q. q \<noteq> global_log_path m \<longrightarrow> contents (conn m2) q = contents c1 q"
        "m2 = ?m1\<lparr>conn := conn m2\<rparr>" "calm_store (conn m2)"
      by auto
    define c2 where "c2 = conn m2"
    have m2: "m2 = m\<lparr>conn := c2, global_lock_token := token\<rparr>"
      by (rule trans [OF u(5)]) (simp add: c2_def)
    have held: "contents c2 (global_tmp_log_path m) = Some token"
      using u(4) c1(2) apart by (simp add: log_apart_def c2_def)
    from release_run [of m2] u(6) calm(2) obtain c3 where rel: "release_global_lock m2 = m2\<lparr>conn := c3, global_lock_token := []\<rparr>"
      and c3: "calm_store c3" "contents c3 = (contents c2)(global_tmp_log_path m := None)"
      using token held by (auto simp: m2)
    have same: "contents c3 p = contents (conn m) p" if "p \<noteq> global_log_path m" for p
      using that c3(2) u(4) c1(2) c0(3) apart by (simp add: log_apart_def c2_def)
    have g: "global_state (m\<lparr>conn := c3\<rparr>) = global_state m2"
      using c3(2) apart by (auto simp: global_state_def log_apart_def m2)
    have g1: "global_state ?m1 = global_state m"
      using c1(2) c0(3) apart by (auto simp: global_state_def log_apart_def)
    have "forget_global_entry (Suc fuel) random steady pre m = Some (None, m\<lparr>conn := c3, global_lock_token := []\<rparr>)"
      using c0(1) Some acq upd u(1) rel by (simp add: forget_global_entry_def m2)
    with c3(1) same u(2,3) g g1 Some show ?thesis
      by (intro exI [of _ c3] exI [of _ "[]"]) simp
  qed
qed


lemma calm_list_objectsE:
  assumes "calm_store (conn m)"
  obtains objs c where "with_conn (mc_list_objects pre) m = (Some objs, m\<lparr>conn := c\<rparr>)" "calm_store c"
    "contents c = contents (conn m)" "oi_key ` set objs = {p. starts_with pre p \<and> contents (conn m) p \<noteq> None}"
proof -
  obtain r c where l: "mc_list_objects pre (conn m) = (r, c)" by (cases "mc_list_objects pre (conn m)")
  from calm_list [OF assms l] obtain objs where "r = Some objs" "calm_store c" "contents c = contents (conn m)"
    "oi_key ` set objs = {p. starts_with pre p \<and> contents (conn m) p \<noteq> None}" by blast
  with l that show ?thesis by (simp add: with_conn_def)
qed

definition has_log :: "string \<Rightarrow> manager \<Rightarrow> bool" where
  "has_log pre m \<longleftrightarrow> (\<exists>p. starts_with (pre @ log_dir) p \<and> contents (conn m) p \<noteq> None)"

definition is_empty :: "string \<Rightarrow> manager \<Rightarrow> bool" where
  "is_empty pre m \<longleftrightarrow> (\<forall>p. starts_with pre p \<longrightarrow> contents (conn m) p = None)"

lemma log_below: "starts_with (pre @ log_dir) p \<Longrightarrow> starts_with pre p"
  by (auto simp: starts_with_conv)

lemma listed:
  assumes "oi_key ` set objs = {p. starts_with pre p \<and> contents (conn m) p \<noteq> None}"
  shows "objs = [] \<longleftrightarrow> is_empty pre m" "list_ex (\<lambda>ob. starts_with (pre @ log_dir) (oi_key ob)) objs \<longleftrightarrow> has_log pre m"
proof -
  have "objs = [] \<longleftrightarrow> oi_key ` set objs = {}" by simp
  then show "objs = [] \<longleftrightarrow> is_empty pre m" unfolding assms by (auto simp: is_empty_def)
  have "list_ex (\<lambda>ob. starts_with (pre @ log_dir) (oi_key ob)) objs \<longleftrightarrow> (\<exists>p \<in> oi_key ` set objs. starts_with (pre @ log_dir) p)"
    by (auto simp: list_ex_iff)
  then show "list_ex (\<lambda>ob. starts_with (pre @ log_dir) (oi_key ob)) objs \<longleftrightarrow> has_log pre m"
    unfolding assms by (auto simp: has_log_def dest: log_below)
qed

lemma table_prefix_nonempty: "table_prefix path = Some pre \<Longrightarrow> pre \<noteq> []"
  by (auto simp: table_prefix_def split: if_splits)

text \<open>C22: Dropping a Delta table deletes exactly the objects below its path and its entry of the global log; at a path
  that holds no Delta table it deletes nothing.\<close>

theorem drop_table_exact:
  assumes calm: "calm_store (conn m)" "0 < storage_retries m" and pre: "table_prefix path = Some pre" and apart: "log_apart pre m"
  shows "\<exists>r msg m'. drop_table (Suc fuel) random steady path m = Some ((r, msg), m') \<and>
    (if has_log pre m
     then r = Table_Ok
       \<and> (\<forall>p. p \<noteq> global_log_path m \<longrightarrow> contents (conn m') p = (if starts_with pre p then None else contents (conn m) p))
       \<and> current_entry pre (global_state m') = None
       \<and> (\<forall>q. q \<noteq> pre \<longrightarrow> current_entry q (global_state m') = current_entry q (global_state m))
     else r = (if is_empty pre m then Table_NotFound else Table_NotEmpty) \<and> contents (conn m') = contents (conn m))"
proof -
  from calm_list_objectsE [OF calm(1)] obtain objs c where l: "with_conn (mc_list_objects pre) m = (Some objs, m\<lparr>conn := c\<rparr>)"
    "calm_store c" "contents c = contents (conn m)" "oi_key ` set objs = {p. starts_with pre p \<and> contents (conn m) p \<noteq> None}" .
  note ls = listed [OF l(4)]
  show ?thesis
  proof (cases "has_log pre m")
    case False
    with l pre ls show ?thesis by (simp add: drop_table_def)
  next
    case True
    let ?m = "m\<lparr>conn := c\<rparr>"
    have g: "global_state ?m = global_state m" using l(3) by (simp add: global_state_def)
    have "log_apart pre ?m" using apart l(3) by (simp add: log_apart_def)
    from forget_calm [of ?m pre fuel random steady, OF _ _ this table_prefix_nonempty [OF pre]] l(2) calm(2) obtain c2 tk where
      f: "forget_global_entry (Suc fuel) random steady pre ?m = Some (None, m\<lparr>conn := c2, global_lock_token := tk\<rparr>)"
        "calm_store c2" "\<forall>p. p \<noteq> global_log_path m \<longrightarrow> contents c2 p = contents c p"
        "current_entry pre (global_state (m\<lparr>conn := c2\<rparr>)) = None"
        "\<forall>q. q \<noteq> pre \<longrightarrow> current_entry q (global_state (m\<lparr>conn := c2\<rparr>)) = current_entry q (global_state ?m)"
      by auto
    let ?ks = "drop_order (pre @ log_dir) (map oi_key objs)"
    from delete_keys_calm [OF f(2) calm(2)] obtain c3 where
      d: "delete_keys (storage_retries m) ?ks c2 = (0, c3)" "contents c3 = (\<lambda>p. if p \<in> set ?ks then None else contents c2 p)" by blast
    have ks: "p \<in> set ?ks \<longleftrightarrow> starts_with pre p \<and> contents (conn m) p \<noteq> None" for p
      using l(4) by (auto simp: drop_order_def)
    have gl: "contents c3 (global_log_path m) = contents c2 (global_log_path m)"
      using apart by (simp add: d(2) ks log_apart_def)
    have "global_state (m\<lparr>conn := c3, global_lock_token := tk\<rparr>) = global_state (m\<lparr>conn := c2\<rparr>)"
      by (simp add: global_state_def gl)
    moreover have "drop_table (Suc fuel) random steady path m = Some ((Table_Ok, []), m\<lparr>conn := c3, global_lock_token := tk\<rparr>)"
      using pre l(1) ls True f(1) d(1) by (simp add: drop_table_def with_conn_def)
    moreover have "contents c3 p = (if starts_with pre p then None else contents (conn m) p)" if "p \<noteq> global_log_path m" for p
      using that f(3) l(3) by (auto simp: d(2) ks)
    ultimately show ?thesis using True f(4,5) g by simp
  qed
qed


lemma create_attempt_calm:
  assumes "calm_store (conn m)" "0 < storage_retries m" "contents (conn m) version0 = None"
  obtains c where "with_conn (create_attempts (storage_retries m) False pre version0 commit) m = ((Table_Ok, []), m\<lparr>conn := c\<rparr>)"
    "contents c = (contents (conn m))(version0 \<mapsto> commit)"
proof -
  obtain n where n: "storage_retries m = Suc n" using assms(2) by (cases "storage_retries m") auto
  from calm_create_freeE [OF assms(1,3)] obtain e c where "with_conn (mc_write_atomic version0 commit) m = ((Ok, e), m\<lparr>conn := c\<rparr>)"
    "contents c = (contents (conn m))(version0 \<mapsto> commit)" .
  with n that show ?thesis by (auto simp: with_conn_def split: prod.splits)
qed

text \<open>C21: A table is created only at a path without objects: then exactly its version 0 is written and its entry of the
  global log removed; at any other path nothing changes, and the result tells a table from other objects.\<close>

theorem create_table_exact:
  assumes calm: "calm_store (conn m)" "0 < storage_retries m" and pre: "table_prefix path = Some pre" and apart: "log_apart pre m"
    and schema: "to_delta_schema (sy_write sy) sh fs = Inr ds" and props: "check_properties [] (to_properties opts) = None"
  shows "\<exists>r msg m'. create_table sy sh (Suc fuel) random steady rng path fs opts m = Some ((r, msg), m') \<and>
    (if is_empty pre m
     then r = Table_Ok \<and> (\<exists>now. \<forall>p. p \<noteq> global_log_path m \<longrightarrow> contents (conn m') p =
           (if p = version_path pre 0 then Some (create_table_commit (sy_write sy) ds opts rng now) else contents (conn m) p))
       \<and> current_entry pre (global_state m') = None
       \<and> (\<forall>q. q \<noteq> pre \<longrightarrow> current_entry q (global_state m') = current_entry q (global_state m))
     else r = (if has_log pre m then Table_AlreadyExists else Table_NotEmpty) \<and> contents (conn m') = contents (conn m))"
proof -
  from calm_list_objectsE [OF calm(1)] obtain objs c where l: "with_conn (mc_list_objects pre) m = (Some objs, m\<lparr>conn := c\<rparr>)"
    "calm_store c" "contents c = contents (conn m)" "oi_key ` set objs = {p. starts_with pre p \<and> contents (conn m) p \<noteq> None}" .
  note ls = listed [OF l(4)]
  show ?thesis
  proof (cases "is_empty pre m")
    case False
    with l pre ls schema props show ?thesis by (simp add: create_table_def)
  next
    case True
    let ?m = "m\<lparr>conn := c\<rparr>" and ?v = "version_path pre 0"
    have g: "global_state ?m = global_state m" using l(3) by (simp add: global_state_def)
    have "log_apart pre ?m" using apart l(3) by (simp add: log_apart_def)
    from forget_calm [of ?m pre fuel random steady, OF _ _ this table_prefix_nonempty [OF pre]] l(2) calm(2) obtain c2 tk where
      f: "forget_global_entry (Suc fuel) random steady pre ?m = Some (None, m\<lparr>conn := c2, global_lock_token := tk\<rparr>)"
        "calm_store c2" "\<forall>p. p \<noteq> global_log_path m \<longrightarrow> contents c2 p = contents c p"
        "current_entry pre (global_state (m\<lparr>conn := c2\<rparr>)) = None"
        "\<forall>q. q \<noteq> pre \<longrightarrow> current_entry q (global_state (m\<lparr>conn := c2\<rparr>)) = current_entry q (global_state ?m)"
      by auto
    let ?m2 = "m\<lparr>conn := c2, global_lock_token := tk\<rparr>"
    from calm_timeE [of ?m2] f(2) obtain now c3 where t: "with_conn local_time_ms ?m2 = (now, ?m2\<lparr>conn := c3\<rparr>)"
      "calm_store c3" "contents c3 = contents c2" by auto
    let ?m3 = "m\<lparr>global_lock_token := tk, conn := c3\<rparr>" and ?d = "create_table_commit (sy_write sy) ds opts rng now"
    have below: "starts_with pre ?v" by (auto simp: version_path_def starts_with_conv)
    with apart have v: "?v \<noteq> global_log_path m" "starts_with pre ?v" by (auto simp: log_apart_def)
    then have "contents c3 ?v = None" using True f(3) l(3) t(3) by (auto simp: is_empty_def)
    with create_attempt_calm [of ?m3 ?v pre ?d] t(2) calm(2) obtain c4 where
      c: "with_conn (create_attempts (storage_retries m) False pre ?v ?d) ?m3 = ((Table_Ok, []), ?m3\<lparr>conn := c4\<rparr>)"
        "contents c4 = (contents c3)(?v \<mapsto> ?d)" by auto
    have "create_table sy sh (Suc fuel) random steady rng path fs opts m = Some ((Table_Ok, []), ?m3\<lparr>conn := c4\<rparr>)"
      using pre schema props l(1) ls True f(1) t(1) c(1) by (simp add: create_table_def)
    moreover have "global_state (?m3\<lparr>conn := c4\<rparr>) = global_state (m\<lparr>conn := c2\<rparr>)"
      using v(1) by (simp add: global_state_def c(2) t(3))
    moreover have "contents c4 p = (if p = ?v then Some ?d else contents (conn m) p)" if "p \<noteq> global_log_path m" for p
      using that f(3) l(3) by (simp add: c(2) t(3))
    ultimately show ?thesis using True f(4,5) g by auto
  qed
qed


section \<open>The first commit is read back as the schema of the table\<close>

lemma check_properties_names:
  "check_properties names ps = None \<Longrightarrow> (n, v) \<in> set ps \<Longrightarrow> \<not> starts_with ''delta.'' (lower n)"
  by (induction names ps rule: check_properties.induct) (auto simp: Let_def split: if_splits)

lemma starts_with_c_str: "starts_with p (c_str n) \<Longrightarrow> starts_with p n"
proof -
  assume "starts_with p (c_str n)"
  then obtain r where "c_str n = p @ r" by (auto simp: starts_with_conv)
  moreover have "n = c_str n @ dropWhile (\<lambda>c. c \<noteq> CHR 0x00) n" by (simp add: c_str_def)
  ultimately have "n = p @ r @ dropWhile (\<lambda>c. c \<noteq> CHR 0x00) n" by simp
  then show ?thesis unfolding starts_with_conv by blast
qed

lemma no_mapping_property:
  assumes "check_properties [] ps = None"
  shows "map_of (map (\<lambda>(k, v). (c_str k, JString (c_str v))) ps) ''delta.columnMapping.mode'' = None"
proof -
  have "c_str n \<noteq> ''delta.columnMapping.mode''" if "(n, v) \<in> set ps" for n v
  proof
    assume c: "c_str n = ''delta.columnMapping.mode''"
    have "starts_with ''delta.'' n" by (rule starts_with_c_str) (simp add: c starts_with_def)
    then obtain r where "n = ''delta.'' @ r" unfolding starts_with_conv by blast
    then have "lower n = ''delta.'' @ lower r" by (simp add: lower_def to_lower_def)
    then have "starts_with ''delta.'' (lower n)" unfolding starts_with_conv by blast
    with check_properties_names [OF assms that] show False by blast
  qed
  then have "\<forall>x \<in> set ps. ''delta.columnMapping.mode'' \<noteq> c_str (fst x)" by (metis prod.collapse)
  then show ?thesis unfolding map_of_eq_None_iff by (auto simp: case_prod_beta image_iff)
qed

lemma create_actions_ok:
  "in_int64 now \<Longrightarrow> v \<in> set (create_actions write ds opts rng now) \<Longrightarrow> json_ok v \<and> is_object v"
  by (auto simp: create_actions_def create_info_def create_metadata_def create_protocol_def write_properties_def
      in_int64_def Let_def list_all_iff)

lemma create_actions_applied:
  "fold (\<lambda>v. apply_log_action sy v n) (create_actions (sy_write sy) ds opts rng now) l
   = set_protocol (sy_write sy (create_protocol ds)) n
       (set_metadata (sy_write sy (create_metadata ds opts (random_uuid (rng 2) (rng 3)) now)) n l)"
  by (simp add: create_actions_def create_info_def create_metadata_def create_protocol_def apply_log_action_def Let_def apply_metadata_def
      apply_protocol_def apply_txn_def apply_domain_def apply_add_def apply_remove_def member_object_def)

text \<open>The first commit of a table, read back as version 0 of its log, gives the schema the table was created with
  (its types as Delta has them), no partition columns and no column mapping, and a protocol that has table features
  exactly when the schema needs one.\<close>

lemma create_commit_read_back:
  assumes codec: "json_codec (sy_parse sy) (sy_write sy)" and schema: "to_delta_schema (sy_write sy) sh fs = Inr ds"
    and plain: "\<forall>f \<in> set fs. plain_names f \<and> plain_type (f_type f)"
    and props: "check_properties [] (to_properties opts) = None" and now: "in_int64 now"
    and log: "l = fold (\<lambda>v. apply_log_action sy v 0)
      (json_objects (sy_parse sy) (create_table_commit (sy_write sy) ds opts rng now)) (delta_log_new pre)"
  shows "table_schema_of (sy_parse sy) (sy_write sy) (get_metadata l)
      = Inr \<lparr>ts_schema = map canon_field fs, ts_partition_columns = [], ts_column_mapping = False\<rparr>
    \<and> sy_parse sy (get_protocol l) = Some (create_protocol ds) \<and> get_list l = []"
proof -
  let ?w = "sy_write sy" and ?md = "create_metadata ds opts (random_uuid (rng 2) (rng 3)) now"
  let ?acts = "create_actions ?w ds opts rng now"
  note ok = create_actions_ok [OF now, of _ ?w ds opts rng]
  have "map (\<lambda>v. c_str (?w v) @ [newline]) ?acts = map (\<lambda>v. ?w v @ [newline]) ?acts"
    using ok json_codecD(3) [OF codec] by (auto simp: c_str_id)
  then have "create_table_commit ?w ds opts rng now = concat (map (\<lambda>v. ?w v @ [newline]) ?acts)"
    unfolding create_table_commit_def by (rule arg_cong)
  then have "json_objects (sy_parse sy) (create_table_commit ?w ds opts rng now) = ?acts"
    using json_objects_lines [OF codec, of ?acts] ok by simp
  then have l: "l = set_protocol (?w (create_protocol ds)) 0 (set_metadata (?w ?md) 0 (delta_log_new pre))"
    unfolding log by (simp add: create_actions_applied)
  then have gets: "get_metadata l = ?w ?md" "get_protocol l = ?w (create_protocol ds)" "get_list l = []"
    by (simp_all add: get_metadata_def get_protocol_def get_list_def set_metadata_def set_protocol_def delta_log_new_def)
  have oks: "json_ok ?md" "json_ok (create_protocol ds)"
    using ok [of "?acts ! 1"] ok [of "?acts ! 2"] by (simp_all add: create_actions_def)
  have md: "sy_parse sy (?w ?md) = Some ?md" and pr: "sy_parse sy (?w (create_protocol ds)) = Some (create_protocol ds)"
    using oks json_codecD(1) [OF codec] by blast+
  have "ds_schema_string ds = c_str (ds_schema_string ds)"
    using schema by (auto simp: to_delta_schema_def map_sum_Inr c_str_def split: if_splits)
  then have s: "member_string ''schemaString'' ?md = Some (ds_schema_string ds)" "c_str (ds_schema_string ds) = ds_schema_string ds"
    by (simp_all add: create_metadata_def member_string_def)
  have "partition_columns_of ?md = []"
    by (simp add: create_metadata_def partition_columns_of_def map_filter_simps)
  moreover have "\<not> column_mapping_of ?md"
    using no_mapping_property [OF props]
    by (simp add: create_metadata_def column_mapping_of_def member_object_def member_string_def write_properties_def)
  ultimately show ?thesis using schema_read_back [OF codec schema plain] s md pr
    by (simp add: table_schema_of_def gets)
qed


section \<open>Witnesses\<close>

definition demo_owner :: "manager \<Rightarrow> manager" where
  "demo_owner m = m\<lparr>global_log_path := ''g'', global_tmp_log_path := ''h''\<rparr>"

lemma log_apart_demo:
  assumes "contents (conn m) ''h'' = None"
  shows "log_apart ''t/'' (demo_owner m)"
  using assms by (simp add: log_apart_def demo_owner_def starts_with_def newline_def)

lemma version_below: "starts_with (base @ log_dir) (version_path base v)"
  unfolding version_path_def append_assoc [symmetric] by (rule starts_with_append)

lemma version0_text: "version_path ''t/'' 0 = ''t/_delta_log/'' @ log_file_name 0 ''.json''"
  by (simp add: version_path_def log_dir_def)

lemma drop_table_exact_witness:
  "\<exists>msg m'. drop_table (Suc 0) 0 (\<lambda>_. 0) ''t'' (demo_owner demo_opener) = Some ((Table_Ok, msg), m')
    \<and> contents (conn m') (version_path ''t/'' 0) = None"
proof -
  let ?m = "demo_owner demo_opener"
  have c: "calm_store (conn ?m)" "0 < storage_retries ?m" "contents (conn ?m) = [version_path ''t/'' 0 \<mapsto> demo_commit]"
    using demo_opener_calm by (simp_all add: demo_owner_def)
  have pre: "table_prefix ''t'' = Some ''t/''" by (simp add: table_prefix_def)
  have apart: "log_apart ''t/'' ?m" by (rule log_apart_demo) (simp add: demo_opener_calm version0_text)
  have log: "has_log ''t/'' ?m"
    unfolding has_log_def by (rule exI [of _ "version_path ''t/'' 0"]) (use version_below [of "''t/''" 0] in \<open>simp add: c(3)\<close>)
  have g: "version_path ''t/'' 0 \<noteq> global_log_path ?m" by (simp add: version0_text demo_owner_def)
  from drop_table_exact [OF c(1,2) pre apart, of 0 0 "\<lambda>_. 0"] log obtain r msg m' where
    "drop_table (Suc 0) 0 (\<lambda>_. 0) ''t'' ?m = Some ((r, msg), m')" "r = Table_Ok"
    "\<forall>p. p \<noteq> global_log_path ?m \<longrightarrow> contents (conn m') p = (if starts_with ''t/'' p then None else contents (conn ?m) p)"
    by auto
  moreover from this(3) g have "contents (conn m') (version_path ''t/'' 0) = None"
    by (simp add: version0_text starts_with_def)
  ultimately show ?thesis by blast
qed

definition demo_table_options :: table_options where
  "demo_table_options = \<lparr>to_description = ''d'', to_properties = [(''k'', ''v'')]\<rparr>"

lemma demo_properties: "check_properties [] (to_properties demo_table_options) = None"
  by (simp add: demo_table_options_def reserved_properties_def lower_def to_lower_def starts_with_def)

lemma create_table_exact_witness:
  "\<exists>msg m'. create_table demo_sys (\<lambda>_. []) (Suc 0) 0 (\<lambda>_. 0) (\<lambda>_. 0) ''t/'' demo_schema demo_table_options
      (demo_owner demo_manager) = Some ((Table_Ok, msg), m')
    \<and> contents (conn m') (version_path ''t/'' 0) \<noteq> None"
proof -
  let ?m = "demo_owner demo_manager"
  from demo_accepted obtain ds where ds: "to_delta_schema (sy_write demo_sys) (\<lambda>_. []) demo_schema = Inr ds"
    by (auto simp: demo_sys_def)
  have c: "calm_store (conn ?m)" "0 < storage_retries ?m" "contents (conn ?m) p = None" for p
    using demo_manager_calm by (simp_all add: demo_owner_def)
  have pre: "table_prefix ''t/'' = Some ''t/''" by (simp add: table_prefix_def)
  have apart: "log_apart ''t/'' ?m" by (rule log_apart_demo) (rule demo_manager_calm(3))
  have new: "is_empty ''t/'' ?m" by (simp add: is_empty_def c(3))
  have g: "version_path ''t/'' 0 \<noteq> global_log_path ?m" by (simp add: version0_text demo_owner_def)
  from create_table_exact [OF c(1,2) pre apart ds demo_properties, of 0 0 "\<lambda>_. 0" "\<lambda>_. 0"] new g show ?thesis by auto
qed

lemma create_commit_read_back_witness:
  "\<exists>ds. to_delta_schema sample_write (\<lambda>_. []) demo_schema = Inr ds
    \<and> table_schema_of sample_parse sample_write (get_metadata (fold (\<lambda>v. apply_log_action demo_sys v 0)
        (json_objects sample_parse (create_table_commit sample_write ds demo_table_options (\<lambda>_. 0) 5)) (delta_log_new ''t/'')))
      = Inr \<lparr>ts_schema = map canon_field demo_schema, ts_partition_columns = [], ts_column_mapping = False\<rparr>"
proof -
  have sy: "sy_parse demo_sys = sample_parse" "sy_write demo_sys = sample_write" by (simp_all add: demo_sys_def)
  from demo_accepted obtain ds where ds: "to_delta_schema sample_write (\<lambda>_. []) demo_schema = Inr ds" by blast
  have "\<forall>f \<in> set demo_schema. plain_names f \<and> plain_type (f_type f)"
    by (simp add: demo_schema_def field_def plain_names_def no_nul_def)
  from create_commit_read_back [of demo_sys, unfolded sy, OF sample_codec ds this demo_properties _ refl, of 5] ds show ?thesis
    by (auto simp: in_int64_def)
qed

end
