(* ===== verification/DeltaConform.thy ===== *)
theory DeltaConform
  imports DeltaSchema "HOL-Library.Signed_Division"
begin

text \<open>
  Tables of data files in the logical schema of their Delta table (\<open>Helpers/DeltaConform.cpp\<close>): columns are
  matched by name, ordered as in the schema, converted to its types, and checked for nulls and extra columns.
  Arrow's equality of types, its safe cast, its parsing of scalars and its text of a type are parameters.  An array
  is the list of its elements; values hidden under a null element are not modelled.
\<close>

record arrow_ops =
  op_equal :: "arrow_type \<Rightarrow> arrow_type \<Rightarrow> bool"
  op_cast :: "arrow_type \<Rightarrow> arrow_type \<Rightarrow> arrow_value list \<Rightarrow> string + arrow_value list"
  op_parse :: "arrow_type \<Rightarrow> string \<Rightarrow> arrow_value option"
  op_text :: "arrow_type \<Rightarrow> string"

section \<open>Names\<close>

definition physical_name_key :: string where "physical_name_key = ''delta.columnMapping.physicalName''"

definition file_name :: "arrow_field \<Rightarrow> bool \<Rightarrow> string" where
  "file_name f physical_names =
     (case (if physical_names then map_of (f_metadata f) physical_name_key else None) of
        Some physical \<Rightarrow> physical
      | None \<Rightarrow> f_name f)"

fun first_index :: "('a \<Rightarrow> bool) \<Rightarrow> 'a list \<Rightarrow> nat option" where
  "first_index P [] = None"
| "first_index P (x # xs) = (if P x then Some 0 else map_option Suc (first_index P xs))"

text \<open>\<open>None\<close> is the index \<open>-1\<close>.\<close>

definition find_field :: "arrow_field list \<Rightarrow> string \<Rightarrow> nat option" where
  "find_field fls name =
     (case first_index (\<lambda>f. f_name f = name) fls of
        Some i \<Rightarrow> Some i
      | None \<Rightarrow> first_index (\<lambda>f. lower (f_name f) = lower name) fls)"

section \<open>Timestamps\<close>

fun per_second :: "time_unit \<Rightarrow> int" where
  "per_second SECOND = 1"
| "per_second MILLI = 1000"
| "per_second MICRO = 1000000"
| "per_second NANO = 1000000000"

text \<open>Division of C++ truncates towards zero.\<close>

definition floor_div :: "int \<Rightarrow> int \<Rightarrow> int" where
  "floor_div value divisor =
     (let quotient = value sdiv divisor in if value smod divisor \<noteq> 0 \<and> value < 0 then quotient - 1 else quotient)"

definition convert_timestamp :: "time_unit \<Rightarrow> time_unit \<Rightarrow> int \<Rightarrow> int option" where
  "convert_timestamp from to value =
     (if per_second from \<le> per_second to
      then let factor = per_second to sdiv per_second from
           in if (2 ^ 63 - 1) sdiv factor < value \<or> value < (- (2 ^ 63)) sdiv factor then None
              else Some (value * factor)
      else Some (floor_div value (per_second from sdiv per_second to)))"

fun timestamp_of :: "arrow_value \<Rightarrow> int option" where
  "timestamp_of (AV_TIMESTAMP i) = Some i"
| "timestamp_of v = None"

fun convert_timestamps :: "time_unit \<Rightarrow> time_unit \<Rightarrow> string \<Rightarrow> arrow_value list \<Rightarrow> string + arrow_value list" where
  "convert_timestamps from to ctx [] = Inr []"
| "convert_timestamps from to ctx (v # vs) =
     (if from = to then Inr (v # vs)
      else case timestamp_of v of
             None \<Rightarrow> map_sum id (Cons AV_NULL) (convert_timestamps from to ctx vs)
           | Some i \<Rightarrow>
               (case convert_timestamp from to i of
                  None \<Rightarrow> Inl (ctx @ '': timestamp out of range'')
                | Some j \<Rightarrow> map_sum id (Cons (AV_TIMESTAMP j)) (convert_timestamps from to ctx vs)))"

section \<open>Arrays\<close>

definition child_at :: "nat \<Rightarrow> arrow_value \<Rightarrow> arrow_value" where
  "child_at i v = (case v of AV_STRUCT ms \<Rightarrow> (if i < length ms then snd (ms ! i) else AV_NULL) | _ \<Rightarrow> AV_NULL)"

text \<open>The elements of a struct from its children; the validity of the elements is the source's.\<close>

definition make_struct :: "arrow_field list \<Rightarrow> arrow_value list \<Rightarrow> arrow_value list list \<Rightarrow> arrow_value list" where
  "make_struct fls vs children =
     map (\<lambda>i. if vs ! i = AV_NULL then AV_NULL
              else AV_STRUCT (map2 (\<lambda>f ch. (f_name f, ch ! i)) fls children))
       [0..<length vs]"

fun elements :: "arrow_value \<Rightarrow> arrow_value list" where
  "elements (AV_LIST vs) = vs"
| "elements v = []"

fun map_entries :: "arrow_value \<Rightarrow> (arrow_value \<times> arrow_value) list" where
  "map_entries (AV_MAP ms) = ms"
| "map_entries v = []"

text \<open>The lists or maps with the offsets of the source and new elements.\<close>

fun rebuild :: "('e list \<Rightarrow> arrow_value) \<Rightarrow> (arrow_value \<Rightarrow> nat) \<Rightarrow> arrow_value list \<Rightarrow> 'e list \<Rightarrow> arrow_value list" where
  "rebuild mk len [] es = []"
| "rebuild mk len (v # vs) es =
     (if v = AV_NULL then AV_NULL # rebuild mk len vs es
      else mk (take (len v) es) # rebuild mk len vs (drop (len v) es))"

fun timestamp_unit :: "arrow_type \<Rightarrow> time_unit option" where
  "timestamp_unit (T_TIMESTAMP u z) = Some u"
| "timestamp_unit _ = None"

fun list_field :: "arrow_type \<Rightarrow> arrow_field option" where
  "list_field (T_LIST f) = Some f"
| "list_field _ = None"

fun large_list_field :: "arrow_type \<Rightarrow> arrow_field option" where
  "large_list_field (T_LARGE_LIST f) = Some f"
| "large_list_field _ = None"

fun map_fields :: "arrow_type \<Rightarrow> (arrow_field \<times> arrow_field) option" where
  "map_fields (T_MAP k f) = Some (k, f)"
| "map_fields _ = None"

lemma type_selectors:
  "timestamp_unit ty = Some u \<longleftrightarrow> (\<exists>z. ty = T_TIMESTAMP u z)" "struct_fields ty = Some fs \<longleftrightarrow> ty = T_STRUCT fs"
  "list_field ty = Some f \<longleftrightarrow> ty = T_LIST f" "large_list_field ty = Some f \<longleftrightarrow> ty = T_LARGE_LIST f"
  "map_fields ty = Some kf \<longleftrightarrow> ty = T_MAP (fst kf) (snd kf)"
  by (cases ty; cases kf; simp)+

lemma size_selectors [termination_simp]:
  "struct_fields ty = Some fs \<Longrightarrow> size_list size fs < size ty" "list_field ty = Some f \<Longrightarrow> size (f_type f) < size ty"
  "map_fields ty = Some (k, f) \<Longrightarrow> size (f_type k) < size ty" "map_fields ty = Some (k, f) \<Longrightarrow> size (f_type f) < size ty"
  using less_trans [OF size_f_type, of k "size ty"] less_trans [OF size_f_type, of f "size ty"]
  by (auto simp: type_selectors)

definition both :: "'a option \<Rightarrow> 'b option \<Rightarrow> ('a \<times> 'b) option" where
  "both x y = (case (x, y) of (Some a, Some b) \<Rightarrow> Some (a, b) | _ \<Rightarrow> None)"

lemma both_Some [termination_simp]: "both x y = Some (a, b) \<longleftrightarrow> x = Some a \<and> y = Some b"
  by (auto simp: both_def split: option.splits)

definition dot :: "string \<Rightarrow> string \<Rightarrow> string" where "dot ctx name = ctx @ ''.'' @ name"

fun conform_array ::
    "arrow_ops \<Rightarrow> bool \<Rightarrow> arrow_type \<Rightarrow> arrow_type \<Rightarrow> string \<Rightarrow> arrow_value list \<Rightarrow> string + arrow_value list"
  and conform_children ::
    "arrow_ops \<Rightarrow> bool \<Rightarrow> arrow_field list \<Rightarrow> arrow_field list \<Rightarrow> string \<Rightarrow> arrow_value list \<Rightarrow> string + arrow_value list list"
where
  "conform_array ops phys src ty ctx vs =
     (if op_equal ops src ty then Inr vs
      else if src = T_NA then Inr (replicate (length vs) AV_NULL)
      else case both (timestamp_unit ty) (timestamp_unit src) of Some (u, u') \<Rightarrow> convert_timestamps u' u ctx vs | None \<Rightarrow>
      (case both (struct_fields ty) (struct_fields src) of
         Some (fs, sfs) \<Rightarrow> map_sum id (make_struct fs vs) (conform_children ops phys sfs fs ctx vs)
       | None \<Rightarrow>
      (case both (list_field ty) (list_field src) of
         Some (f, sf) \<Rightarrow>
           map_sum id (rebuild AV_LIST (\<lambda>v. length (elements v)) vs)
             (conform_array ops phys (f_type sf) (f_type f) (ctx @ ''.element'') (concat (map elements vs)))
       | None \<Rightarrow>
      (case both (map_fields ty) (map_fields src) of
         Some ((k, f), (sk, sf)) \<Rightarrow>
           (case conform_array ops phys (f_type sk) (f_type k) (dot ctx (f_name k)) (map fst (concat (map map_entries vs))) of
              Inl e \<Rightarrow> Inl e
            | Inr ks \<Rightarrow>
                map_sum id (\<lambda>es. rebuild AV_MAP (\<lambda>v. length (map_entries v)) vs (zip ks es))
                  (conform_array ops phys (f_type sf) (f_type f) (dot ctx (f_name f)) (map snd (concat (map map_entries vs)))))
       | None \<Rightarrow>
      (case both (list_field ty) (large_list_field src) of
         Some (f, sf) \<Rightarrow>
           (case op_cast ops src (T_LIST sf) vs of
              Inl msg \<Rightarrow> Inl (ctx @ '': '' @ msg)
            | Inr ws \<Rightarrow>
                map_sum id (rebuild AV_LIST (\<lambda>v. length (elements v)) ws)
                  (conform_array ops phys (f_type sf) (f_type f) (ctx @ ''.element'') (concat (map elements ws))))
       | None \<Rightarrow>
           (case op_cast ops src ty vs of
              Inl msg \<Rightarrow> Inl (ctx @ '': cannot convert '' @ op_text ops src @ '' to '' @ op_text ops ty @ '' ('' @ msg @ '')'')
            | Inr ws \<Rightarrow> Inr ws))))))"
| "conform_children ops phys sfs [] ctx vs = Inr []"
| "conform_children ops phys sfs (f # fs) ctx vs =
     (case (case find_field sfs (file_name f phys) of
              None \<Rightarrow> Inr (replicate (length vs) AV_NULL)
            | Some i \<Rightarrow> conform_array ops phys (f_type (sfs ! i)) (f_type f) (dot ctx (f_name f)) (map (child_at i) vs)) of
        Inl e \<Rightarrow> Inl e
      | Inr ch \<Rightarrow> map_sum id (Cons ch) (conform_children ops phys sfs fs ctx vs))"

declare conform_array.simps [simp del]

section \<open>Tables\<close>

record conform_options =
  physical_names :: bool
  partition_values :: "(string \<times> string option) list option"
  reject_extra_columns :: bool

text \<open>The last entry for the column counts.\<close>

definition partition_value :: "conform_options \<Rightarrow> string \<Rightarrow> string option option" where
  "partition_value opts name =
     (case partition_values opts of
        None \<Rightarrow> None
      | Some pvs \<Rightarrow> fold (\<lambda>(n, v) acc. if lower n = lower name then Some v else acc) pvs None)"

fun conform_chunks ::
    "arrow_ops \<Rightarrow> bool \<Rightarrow> arrow_type \<Rightarrow> arrow_field \<Rightarrow> arrow_value list list \<Rightarrow> string + arrow_value list list" where
  "conform_chunks ops phys src f [] = Inr []"
| "conform_chunks ops phys src f (c # cs) =
     (case conform_array ops phys src (f_type f) (''column '' @ f_name f) c of
        Inl e \<Rightarrow> Inl e
      | Inr c' \<Rightarrow> map_sum id (Cons c') (conform_chunks ops phys src f cs))"

text \<open>The chunks of a column of the result, and the column of the file they are from.\<close>

definition conform_column ::
    "arrow_ops \<Rightarrow> conform_options \<Rightarrow> arrow_table \<Rightarrow> arrow_field \<Rightarrow> string + (arrow_value list list \<times> nat option)" where
  "conform_column ops opts t f =
     (case partition_value opts (f_name f) of
        Some None \<Rightarrow> Inr ([replicate (num_rows t) AV_NULL], None)
      | Some (Some text) \<Rightarrow>
          (case op_parse ops (f_type f) text of
             None \<Rightarrow> Inl (''partition column '' @ f_name f @ '': cannot parse '' @ text @ '' as '' @ op_text ops (f_type f))
           | Some v \<Rightarrow> Inr ([replicate (num_rows t) v], None))
      | None \<Rightarrow>
          (case find_field (map col_field t) (file_name f (physical_names opts)) of
             None \<Rightarrow>
               if \<not> f_nullable f then Inl (''column '' @ f_name f @ '' is NOT NULL but missing in the file'')
               else Inr ([replicate (num_rows t) AV_NULL], None)
           | Some i \<Rightarrow>
               map_sum id (\<lambda>cs. (cs, Some i))
                 (conform_chunks ops (physical_names opts) (f_type (col_field (t ! i))) f (col_chunks (t ! i)))))"

definition null_count :: "arrow_value list list \<Rightarrow> nat" where
  "null_count chunks = length (filter (\<lambda>v. v = AV_NULL) (concat chunks))"

fun conform_columns ::
    "arrow_ops \<Rightarrow> conform_options \<Rightarrow> arrow_table \<Rightarrow> arrow_field list \<Rightarrow> string + (arrow_table \<times> nat list)" where
  "conform_columns ops opts t [] = Inr ([], [])"
| "conform_columns ops opts t (f # fs) =
     (case conform_column ops opts t f of
        Inl e \<Rightarrow> Inl e
      | Inr (chunks, from) \<Rightarrow>
          if \<not> f_nullable f \<and> 0 < null_count chunks
          then Inl (''column '' @ f_name f @ '' is NOT NULL but contains nulls'')
          else map_sum id (\<lambda>(cs, used). (\<lparr>col_field = f, col_chunks = chunks\<rparr> # cs,
                  (case from of Some i \<Rightarrow> [i] | None \<Rightarrow> []) @ used))
                 (conform_columns ops opts t fs))"

definition conform_to_schema ::
    "arrow_ops \<Rightarrow> conform_options \<Rightarrow> arrow_table \<Rightarrow> arrow_field list \<Rightarrow> string + arrow_table" where
  "conform_to_schema ops opts t schema =
     (case conform_columns ops opts t schema of
        Inl e \<Rightarrow> Inl e
      | Inr (cols, used) \<Rightarrow>
          (case (if reject_extra_columns opts then first_index (\<lambda>i. i \<notin> set used) [0..<length t] else None) of
             Some i \<Rightarrow> Inl (''column '' @ f_name (col_field (t ! i)) @ '' is not part of the table schema'')
           | None \<Rightarrow> Inr cols))"


section \<open>Timestamps are converted exactly or rounded down\<close>

lemma floor_div_div: "0 < d \<Longrightarrow> floor_div i d = i div d"
proof -
  assume d: "0 < d"
  show ?thesis
  proof (cases "0 \<le> i")
    case True
    then show ?thesis using d by (simp add: floor_div_def Let_def signed_divide_int_def sgn_if)
  next
    case False
    then have neg: "i sdiv d = - ((- i) div d)" using d by (simp add: signed_divide_int_def sgn_if)
    have m: "i smod d = i - i sdiv d * d" by (simp add: minus_sdiv_mult_eq_smod)
    show ?thesis
    proof (cases "d dvd i")
      case True
      then obtain k where k: "i = d * k" ..
      then have "- i = d * - k" by simp
      then have "(- i) div d = - k" using d by (metis less_irrefl nonzero_mult_div_cancel_left)
      then show ?thesis using d neg m k by (simp add: floor_div_def Let_def)
    next
      case nd: False
      have "i smod d \<noteq> 0"
      proof
        assume "i smod d = 0"
        then have "i = i sdiv d * d" using m by simp
        with nd show False by (metis dvd_triv_right)
      qed
      moreover have "- ((- i) div d) - 1 = i div d"
        using nd d zdiv_zminus1_eq_if [of d i] by (simp add: dvd_eq_mod_eq_0)
      ultimately show ?thesis using False neg by (simp add: floor_div_def Let_def)
    qed
  qed
qed

text \<open>A timestamp in a coarser unit is converted exactly when the result is an int64 and is an error otherwise; one
  in a finer unit is rounded down, also before 1970.\<close>

lemma convert_timestamp_exact:
  "convert_timestamp from to i =
     (if per_second from \<le> per_second to
      then (let j = i * (per_second to div per_second from) in if in_int64 j then Some j else None)
      else Some (i div (per_second from div per_second to)))"
  by (cases "from"; cases to)
     (auto simp: convert_timestamp_def Let_def signed_divide_int_def sgn_if floor_div_div in_int64_def)

section \<open>A conformed table has the schema\<close>

definition conforms :: "arrow_type \<Rightarrow> arrow_value \<Rightarrow> arrow_value \<Rightarrow> bool" where
  "conforms ty v w \<longleftrightarrow> has_type w ty \<and> (w = AV_NULL \<longleftrightarrow> v = AV_NULL)"

text \<open>What Arrow documents of the operations: equal types have the same values, a safe cast gives values of the type
  element by element, null exactly for null, and a parsed scalar is a value of the type.\<close>

definition ops_ok :: "arrow_ops \<Rightarrow> bool" where
  "ops_ok ops \<longleftrightarrow>
     (\<forall>a b v. op_equal ops a b \<longrightarrow> has_type v a \<longrightarrow> has_type v b) \<and>
     (\<forall>a b vs ws. op_cast ops a b vs = Inr ws \<longrightarrow> (\<forall>v \<in> set vs. has_type v a) \<longrightarrow> list_all2 (conforms b) vs ws) \<and>
     (\<forall>ty s v. op_parse ops ty s = Some v \<longrightarrow> has_type v ty)"

lemma conforms_null: "list_all2 (conforms ty) vs (replicate (length vs) AV_NULL) \<longleftrightarrow> (\<forall>v \<in> set vs. v = AV_NULL)"
  by (induction vs) (auto simp: conforms_def)

lemma has_type_NA: "has_type v T_NA \<longleftrightarrow> v = AV_NULL"
  by (cases v) auto

lemma rebuild_conforms:
  assumes "\<And>es'. set es' \<subseteq> set es \<Longrightarrow> has_type (mk es') ty" and mk: "\<And>es'. mk es' \<noteq> AV_NULL"
  shows "list_all2 (conforms ty) vs (rebuild mk len vs es)"
  using assms(1)
proof (induction vs arbitrary: es)
  case (Cons v vs)
  have "list_all2 (conforms ty) vs (rebuild mk len vs es)" by (rule Cons.IH) (rule Cons.prems)
  moreover have "list_all2 (conforms ty) vs (rebuild mk len vs (drop (len v) es))"
    using Cons.prems by (intro Cons.IH) (meson set_drop_subset subset_trans)
  moreover have "has_type (mk (take (len v) es)) ty" by (rule Cons.prems) (rule set_take_subset)
  ultimately show ?case using mk by (simp add: conforms_def [of ty v] conforms_def [of ty AV_NULL])
qed simp

lemma convert_timestamp_range: "in_int64 i \<Longrightarrow> convert_timestamp from to i = Some j \<Longrightarrow> in_int64 j"
  by (cases "from"; cases to)
     (auto simp: convert_timestamp_def Let_def signed_divide_int_def sgn_if floor_div_div in_int64_def split: if_splits)

lemma has_type_timestamp:
  "has_type v (T_TIMESTAMP u z) \<longleftrightarrow> v = AV_NULL \<or> (\<exists>i. v = AV_TIMESTAMP i \<and> in_int64 i)"
  by (cases v) auto

lemma convert_timestamps_conform:
  "convert_timestamps from to ctx vs = Inr ws \<Longrightarrow> (\<forall>v \<in> set vs. has_type v (T_TIMESTAMP u z)) \<Longrightarrow>
   list_all2 (conforms (T_TIMESTAMP u' z')) vs ws"
proof (induction "from" to ctx vs arbitrary: ws rule: convert_timestamps.induct)
  case (2 "from" to ctx v vs)
  show ?case
  proof (cases "from = to")
    case True
    then have ws: "ws = v # vs" using "2.prems"(1) by simp
    show ?thesis using "2.prems"(2) unfolding ws
      by (auto simp: list.rel_refl_strong conforms_def has_type_timestamp intro!: list.rel_refl_strong)
  next
    case False
    show ?thesis
    proof (cases "timestamp_of v")
      case None
      with False "2.prems"(1) obtain ws' where "convert_timestamps from to ctx vs = Inr ws'" "ws = AV_NULL # ws'"
        by (auto simp: map_sum_Inr)
      moreover have "v = AV_NULL" using None "2.prems"(2) by (auto simp: has_type_timestamp)
      ultimately show ?thesis using "2.IH"(1) [OF False None] "2.prems"(2) by (simp add: conforms_def)
    next
      case (Some i)
      then have v: "v = AV_TIMESTAMP i" by (cases v) auto
      with "2.prems"(2) have i: "in_int64 i" by (simp add: has_type_timestamp)
      from False Some "2.prems"(1) obtain j ws' where j: "convert_timestamp from to i = Some j"
        and ws: "convert_timestamps from to ctx vs = Inr ws'" "ws = AV_TIMESTAMP j # ws'"
        by (auto simp: map_sum_Inr split: option.splits)
      show ?thesis using "2.IH"(2) [OF False Some j ws(1)] "2.prems"(2) ws(2) v convert_timestamp_range [OF i j]
        by (simp add: conforms_def has_type_timestamp)
    qed
  qed
qed simp

lemma list_all2_conforms_iff:
  "list_all2 (conforms ty) vs ws \<longleftrightarrow>
     length ws = length vs \<and> (\<forall>i < length vs. has_type (ws ! i) ty \<and> (ws ! i = AV_NULL \<longleftrightarrow> vs ! i = AV_NULL))"
  by (auto simp: list_all2_conv_all_nth conforms_def)

definition child_ok :: "nat \<Rightarrow> arrow_field \<Rightarrow> arrow_value list \<Rightarrow> bool" where
  "child_ok n f ch \<longleftrightarrow> length ch = n \<and> (\<forall>w \<in> set ch. has_type w (f_type f))"

lemma make_struct_conforms:
  assumes ch: "list_all2 (child_ok (length vs)) fs children"
  shows "list_all2 (conforms (T_STRUCT fs)) vs (make_struct fs vs children)"
proof -
  have "has_type (AV_STRUCT (map2 (\<lambda>f ch. (f_name f, ch ! i)) fs children)) (T_STRUCT fs)" if i: "i < length vs" for i
  proof -
    have "length children = length fs" using ch by (simp add: list_all2_lengthD)
    moreover have "has_type (children ! k ! i) (f_type (fs ! k))" if "k < length fs" for k
      using list_all2_nthD [OF ch that] i nth_mem unfolding child_ok_def by metis
    ultimately show ?thesis by (simp add: list_all2_conv_all_nth)
  qed
  then show ?thesis by (simp add: list_all2_conforms_iff make_struct_def)
qed

lemma child_at_type:
  "has_type v (T_STRUCT sfs) \<Longrightarrow> i < length sfs \<Longrightarrow> has_type (child_at i v) (f_type (sfs ! i))"
  by (cases v) (auto simp: child_at_def list_all2_conv_all_nth)

lemma first_index_Some: "first_index P xs = Some i \<Longrightarrow> i < length xs \<and> P (xs ! i) \<and> (\<forall>j < i. \<not> P (xs ! j))"
proof (induction xs arbitrary: i)
  case (Cons x xs)
  show ?case
  proof (cases "P x")
    case False
    with Cons.prems obtain k where "first_index P xs = Some k" "i = Suc k" by auto
    with Cons.IH False show ?thesis by (auto simp: nth_Cons' less_Suc_eq_0_disj)
  qed (use Cons.prems in simp)
qed simp

lemma first_index_None: "first_index P xs = None \<longleftrightarrow> (\<forall>x \<in> set xs. \<not> P x)"
  by (induction xs) auto

lemma find_field_Some: "find_field fls name = Some i \<Longrightarrow> i < length fls \<and> lower (f_name (fls ! i)) = lower name"
  by (auto simp: find_field_def dest!: first_index_Some split: option.splits)


lemma conforms_list:
  "list_all2 (conforms ty) us ws \<Longrightarrow> \<forall>w \<in> set ws. has_type w ty"
  by (auto simp: list_all2_conforms_iff in_set_conv_nth)

lemma rebuild_lists:
  "\<forall>e \<in> set es. has_type e (f_type f) \<Longrightarrow>
   list_all2 (conforms (T_LIST f)) vs (rebuild AV_LIST (\<lambda>v. length (elements v)) vs es)"
  by (rule rebuild_conforms) auto

lemma rebuild_maps:
  "\<forall>e \<in> set es. fst e \<noteq> AV_NULL \<and> has_type (fst e) (f_type k) \<and> has_type (snd e) (f_type f) \<Longrightarrow>
   list_all2 (conforms (T_MAP k f)) vs (rebuild AV_MAP (\<lambda>v. length (map_entries v)) vs es)"
  by (rule rebuild_conforms) auto

lemma elements_type: "has_type v (T_LIST f) \<Longrightarrow> e \<in> set (elements v) \<Longrightarrow> has_type e (f_type f)"
  by (cases v) auto

lemma entries_type:
  "has_type v (T_MAP k f) \<Longrightarrow> e \<in> set (map_entries v) \<Longrightarrow>
   fst e \<noteq> AV_NULL \<and> has_type (fst e) (f_type k) \<and> has_type (snd e) (f_type f)"
  by (cases v) auto

definition array_ok :: "arrow_type \<Rightarrow> arrow_value list \<Rightarrow> bool" where
  "array_ok ty vs \<longleftrightarrow> (\<forall>v \<in> set vs. has_type v ty)"

lemma array_okI: "list_all2 (conforms ty) us ws \<Longrightarrow> array_ok ty ws"
  using conforms_list by (simp add: array_ok_def)

lemma zip_entries_ok:
  assumes ks: "list_all2 (conforms (f_type k)) us ks" and us: "AV_NULL \<notin> set us" and es: "array_ok (f_type f) es"
  shows "\<forall>e \<in> set (zip ks es). fst e \<noteq> AV_NULL \<and> has_type (fst e) (f_type k) \<and> has_type (snd e) (f_type f)"
proof
  fix e
  assume "e \<in> set (zip ks es)"
  then obtain i where i: "i < length ks" "i < length es" "e = (ks ! i, es ! i)" by (auto simp: in_set_zip)
  have "us ! i \<noteq> AV_NULL" using i(1) ks us by (metis list_all2_lengthD nth_mem)
  with i ks es show "fst e \<noteq> AV_NULL \<and> has_type (fst e) (f_type k) \<and> has_type (snd e) (f_type f)"
    by (auto simp: list_all2_conforms_iff array_ok_def)
qed

lemma cast_result: "(case r of Inl msg \<Rightarrow> Inl (f msg) | Inr ws \<Rightarrow> Inr ws) = Inr ws' \<longleftrightarrow> r = Inr ws'"
  by (cases r) auto

text \<open>The conversion of an array, case by case.\<close>

lemma conform_cases:
  assumes "conform_array ops phys src ty ctx vs = Inr ws"
  obtains (equal) "op_equal ops src ty" "ws = vs"
    | (na) "src = T_NA" "ws = replicate (length vs) AV_NULL"
    | (timestamp) u z u' z' where "ty = T_TIMESTAMP u z" "src = T_TIMESTAMP u' z'" "convert_timestamps u' u ctx vs = Inr ws"
    | (struct) fs sfs cs where "\<not> op_equal ops src ty" "ty = T_STRUCT fs" "src = T_STRUCT sfs"
        "conform_children ops phys sfs fs ctx vs = Inr cs" "ws = make_struct fs vs cs"
    | (list) f sf es where "\<not> op_equal ops src ty" "ty = T_LIST f" "src = T_LIST sf"
        "conform_array ops phys (f_type sf) (f_type f) (ctx @ ''.element'') (concat (map elements vs)) = Inr es"
        "ws = rebuild AV_LIST (\<lambda>v. length (elements v)) vs es"
    | (map) k f sk sf ks es where "\<not> op_equal ops src ty" "ty = T_MAP k f" "src = T_MAP sk sf"
        "conform_array ops phys (f_type sk) (f_type k) (dot ctx (f_name k)) (map fst (concat (map map_entries vs))) = Inr ks"
        "conform_array ops phys (f_type sf) (f_type f) (dot ctx (f_name f)) (map snd (concat (map map_entries vs))) = Inr es"
        "ws = rebuild AV_MAP (\<lambda>v. length (map_entries v)) vs (zip ks es)"
    | (large) f sf us es where "\<not> op_equal ops src ty" "ty = T_LIST f" "src = T_LARGE_LIST sf"
        "op_cast ops src (T_LIST sf) vs = Inr us"
        "conform_array ops phys (f_type sf) (f_type f) (ctx @ ''.element'') (concat (map elements us)) = Inr es"
        "ws = rebuild AV_LIST (\<lambda>v. length (elements v)) us es"
    | (cast) "op_cast ops src ty vs = Inr ws"
proof -
  note eq = assms [unfolded conform_array.simps [of ops phys src ty ctx vs]]
  consider "op_equal ops src ty" | "\<not> op_equal ops src ty" "src = T_NA" | "\<not> op_equal ops src ty" "src \<noteq> T_NA" by blast
  then show thesis
  proof cases
    case 1
    with eq show thesis by (intro equal) simp_all
  next
    case 2
    with eq show thesis by (intro na) simp_all
  next
    case 3
    note eq = eq [unfolded if_not_P [OF 3(1)] if_not_P [OF 3(2)]]
    show thesis
    proof (cases "both (timestamp_unit ty) (timestamp_unit src)")
      case (Some us)
      with eq show thesis by (cases us) (auto simp: both_Some type_selectors intro: timestamp)
    next
      case None
      note eq = eq [unfolded None option.case]
      show thesis
      proof (cases "both (struct_fields ty) (struct_fields src)")
        case (Some fs)
        with eq show thesis by (cases fs) (auto simp: both_Some type_selectors map_sum_Inr intro: struct [OF 3(1)])
      next
        case None
        note eq = eq [unfolded None option.case]
        show thesis
        proof (cases "both (list_field ty) (list_field src)")
          case (Some fs)
          with eq show thesis by (cases fs) (auto simp: both_Some type_selectors map_sum_Inr intro: list [OF 3(1)])
        next
          case None
          note eq = eq [unfolded None option.case]
          show thesis
          proof (cases "both (map_fields ty) (map_fields src)")
            case (Some fs)
            with eq show thesis
              by (cases fs) (auto simp: both_Some type_selectors map_sum_Inr split: sum.splits intro: map [OF 3(1)])
          next
            case None
            note eq = eq [unfolded None option.case]
            show thesis
            proof (cases "both (list_field ty) (large_list_field src)")
              case (Some fs)
              with eq show thesis
                by (cases fs) (auto simp: both_Some type_selectors map_sum_Inr split: sum.splits intro: large [OF 3(1)])
            next
              case None
              from eq [unfolded None option.case] show thesis unfolding cast_result by (rule cast)
            qed
          qed
        qed
      qed
    qed
  qed
qed


lemma map_fst_entries: "array_ok (T_MAP k f) vs \<Longrightarrow> AV_NULL \<notin> set (map fst (concat (map map_entries vs)))"
  "array_ok (T_MAP k f) vs \<Longrightarrow> array_ok (f_type k) (map fst (concat (map map_entries vs)))"
  "array_ok (T_MAP k f) vs \<Longrightarrow> array_ok (f_type f) (map snd (concat (map map_entries vs)))"
  using entries_type by (fastforce simp: array_ok_def)+

lemma array_elements: "array_ok (T_LIST f) vs \<Longrightarrow> array_ok (f_type f) (concat (map elements vs))"
  using elements_type by (fastforce simp: array_ok_def)

lemma rebuild_length: "length (rebuild mk len vs es) = length vs"
  by (induction vs arbitrary: es) auto

lemma conforms_trans:
  "list_all2 (conforms ty) vs us \<Longrightarrow> list_all2 (conforms ty') us ws \<Longrightarrow> list_all2 (conforms ty') vs ws"
  by (simp add: list_all2_conforms_iff)

lemma conform_array_conforms:
  assumes ops: "ops_ok ops"
  shows "conform_array ops phys src ty ctx vs = Inr ws \<Longrightarrow> array_ok src vs \<Longrightarrow> list_all2 (conforms ty) vs ws"
    and "conform_children ops phys sfs fs ctx vs = Inr cs \<Longrightarrow> array_ok (T_STRUCT sfs) vs \<Longrightarrow>
      list_all2 (child_ok (length vs)) fs cs"
  using ops
proof (induction ops phys src ty ctx vs and ops phys sfs fs ctx vs arbitrary: ws and cs
    rule: conform_array_conform_children.induct)
  case (1 ops phys src ty ctx vs)
  note cast = \<open>ops_ok ops\<close> [unfolded ops_ok_def, THEN conjunct2, THEN conjunct1, rule_format]
  from "1.prems"(1) show ?case
  proof (cases rule: conform_cases)
    case equal
    then show ?thesis using "1.prems"(2,3)
      by (auto simp: array_ok_def ops_ok_def conforms_def intro!: list.rel_refl_strong)
  next
    case na
    then show ?thesis using "1.prems"(2) by (simp add: conforms_null array_ok_def has_type_NA)
  next
    case (timestamp u z u' z')
    then show ?thesis using "1.prems"(2) convert_timestamps_conform by (simp add: array_ok_def)
  next
    case (struct fs sfs cs)
    then have "src \<noteq> T_NA" "both (timestamp_unit ty) (timestamp_unit src) = None" "both (struct_fields ty) (struct_fields src) = Some (fs, sfs)"
      by (simp_all add: both_def)
    from "1.IH"(5) [OF struct(1) this refl struct(4)] show ?thesis
      using "1.prems" struct by (simp add: make_struct_conforms)
  next
    case (list f sf es)
    then have "src \<noteq> T_NA" "both (timestamp_unit ty) (timestamp_unit src) = None" "both (struct_fields ty) (struct_fields src) = None"
      "both (list_field ty) (list_field src) = Some (f, sf)"
      by (simp_all add: both_def)
    from "1.IH"(4) [OF list(1) this refl list(4)] have "list_all2 (conforms (f_type f)) (concat (map elements vs)) es"
      using "1.prems" array_elements by (simp add: list)
    then show ?thesis unfolding list by (intro rebuild_lists conforms_list)
  next
    case (map k f sk sf ks es)
    then have sel: "src \<noteq> T_NA" "both (timestamp_unit ty) (timestamp_unit src) = None" "both (struct_fields ty) (struct_fields src) = None"
      "both (list_field ty) (list_field src) = None" "both (map_fields ty) (map_fields src) = Some ((k, f), (sk, sf))"
      by (simp_all add: both_def)
    note ok = "1.prems"(2) [unfolded map]
    have "list_all2 (conforms (f_type k)) (map fst (concat (map map_entries vs))) ks"
      by (rule "1.IH"(2) [OF map(1) sel refl refl refl map(4)]) (use map_fst_entries(2) [OF ok] "1.prems"(3) in auto)
    moreover have "list_all2 (conforms (f_type f)) (map snd (concat (map map_entries vs))) es"
      by (rule "1.IH"(3) [OF map(1) sel refl refl refl map(4,5)]) (use map_fst_entries(3) [OF ok] "1.prems"(3) in auto)
    ultimately show ?thesis unfolding map
      by (intro rebuild_maps zip_entries_ok [OF _ map_fst_entries(1) [OF ok]] array_okI)
  next
    case (large f sf us es)
    then have sel: "src \<noteq> T_NA" "both (timestamp_unit ty) (timestamp_unit src) = None" "both (struct_fields ty) (struct_fields src) = None"
      "both (list_field ty) (list_field src) = None" "both (map_fields ty) (map_fields src) = None"
      "both (list_field ty) (large_list_field src) = Some (f, sf)"
      by (simp_all add: both_def)
    have us: "list_all2 (conforms (T_LIST sf)) vs us"
      by (rule cast [OF large(4)]) (use "1.prems"(2) in \<open>simp add: array_ok_def\<close>)
    have "list_all2 (conforms (f_type f)) (concat (map elements us)) es"
      by (rule "1.IH"(1) [OF large(1) sel refl large(4,5)]) (use array_elements [OF array_okI [OF us]] "1.prems"(3) in auto)
    then have "list_all2 (conforms ty) us ws" unfolding large by (intro rebuild_lists conforms_list)
    with us show ?thesis by (rule conforms_trans)
  next
    case cast': cast
    show ?thesis by (rule cast [OF cast']) (use "1.prems"(2) in \<open>simp add: array_ok_def\<close>)
  qed
next
  case (3 ops phys sfs f fs ctx vs)
  show ?case
  proof (cases "find_field sfs (file_name f phys)")
    case None
    with "3.prems"(1) obtain cs' where cs: "conform_children ops phys sfs fs ctx vs = Inr cs'"
      "cs = replicate (length vs) AV_NULL # cs'"
      by (auto simp: map_sum_Inr)
    then show ?thesis using "3.IH"(2) None "3.prems" by (simp add: child_ok_def)
  next
    case (Some i)
    with "3.prems"(1) obtain ch cs' where ch: "conform_array ops phys (f_type (sfs ! i)) (f_type f) (dot ctx (f_name f)) (map (child_at i) vs) = Inr ch"
      and cs: "conform_children ops phys sfs fs ctx vs = Inr cs'" "cs = ch # cs'"
      by (auto simp: map_sum_Inr split: sum.splits)
    have "i < length sfs" using find_field_Some [OF Some] by simp
    then have "array_ok (f_type (sfs ! i)) (map (child_at i) vs)"
      using "3.prems"(2) child_at_type by (auto simp: array_ok_def)
    from "3.IH"(1) [OF Some ch this] "3.prems"(3) have "list_all2 (conforms (f_type f)) (map (child_at i) vs) ch" by simp
    then have "child_ok (length vs) f ch" using conforms_list by (auto simp: child_ok_def dest: list_all2_lengthD)
    then show ?thesis using "3.IH"(2) Some ch cs "3.prems" by simp
  qed
qed simp


definition table_ok :: "arrow_table \<Rightarrow> bool" where
  "table_ok t \<longleftrightarrow> (\<forall>c \<in> set t. array_ok (f_type (col_field c)) (col_values c) \<and> length (col_values c) = num_rows t)"

lemma conform_chunks_ok:
  "ops_ok ops \<Longrightarrow> conform_chunks ops phys src f cs = Inr ws \<Longrightarrow> array_ok src (concat cs) \<Longrightarrow>
   length (concat ws) = length (concat cs) \<and> array_ok (f_type f) (concat ws)"
proof (induction cs arbitrary: ws)
  case (Cons c cs)
  from Cons.prems(2) obtain c' cs' where c: "conform_array ops phys src (f_type f) (''column '' @ f_name f) c = Inr c'"
    and cs: "conform_chunks ops phys src f cs = Inr cs'" "ws = c' # cs'"
    by (auto simp: map_sum_Inr split: sum.splits)
  have "list_all2 (conforms (f_type f)) c c'"
    by (rule conform_array_conforms(1) [OF Cons.prems(1) c]) (use Cons.prems(3) in \<open>simp add: array_ok_def\<close>)
  note cc = conforms_list [OF this] list_all2_lengthD [OF this]
  have "array_ok src (concat cs)" using Cons.prems(3) by (simp add: array_ok_def)
  from Cons.IH [OF Cons.prems(1) cs(1) this] cc show ?case by (simp add: array_ok_def cs(2) ball_Un)
qed (simp add: array_ok_def)

lemma conform_column_ok:
  assumes ops: "ops_ok ops" and t: "table_ok t" and r: "conform_column ops opts t f = Inr (chunks, from)"
  shows "length (concat chunks) = num_rows t \<and> array_ok (f_type f) (concat chunks)
    \<and> (case from of Some i \<Rightarrow> i < length t \<and> lower (f_name (col_field (t ! i))) = lower (file_name f (physical_names opts))
       | None \<Rightarrow> True)"
proof (cases "partition_value opts (f_name f)")
  case None
  note pv = None
  show ?thesis
  proof (cases "find_field (map col_field t) (file_name f (physical_names opts))")
    case None
    with r pv show ?thesis by (auto simp: conform_column_def array_ok_def split: if_splits)
  next
    case (Some i)
    with r pv have i: "conform_chunks ops (physical_names opts) (f_type (col_field (t ! i))) f (col_chunks (t ! i)) = Inr chunks"
      and "from = Some i"
      by (auto simp: conform_column_def map_sum_Inr)
    moreover have ti: "i < length t" "lower (f_name (col_field (t ! i))) = lower (file_name f (physical_names opts))"
      using find_field_Some [OF Some] by auto
    moreover have "array_ok (f_type (col_field (t ! i))) (concat (col_chunks (t ! i)))" "length (concat (col_chunks (t ! i))) = num_rows t"
      using t nth_mem [OF ti(1)] by (simp_all add: table_ok_def col_values_def)
    ultimately show ?thesis using conform_chunks_ok [OF ops i] by simp
  qed
next
  case (Some v)
  with r ops show ?thesis
    by (auto simp: conform_column_def array_ok_def ops_ok_def split: option.splits)
qed

lemma conform_columns_ok:
  assumes "ops_ok ops" "table_ok t"
  shows "conform_columns ops opts t fs = Inr (cols, used) \<Longrightarrow>
    map col_field cols = fs \<and>
    (\<forall>c \<in> set cols. length (col_values c) = num_rows t \<and> array_ok (f_type (col_field c)) (col_values c)
       \<and> (f_nullable (col_field c) \<or> AV_NULL \<notin> set (col_values c))) \<and>
    (\<forall>i \<in> set used. i < length t \<and> (\<exists>f \<in> set fs. lower (f_name (col_field (t ! i))) = lower (file_name f (physical_names opts))))"
proof (induction fs arbitrary: cols used)
  case (Cons f fs)
  from Cons.prems obtain chunks "from" cs used' where c: "conform_column ops opts t f = Inr (chunks, from)"
    and null: "f_nullable f \<or> null_count chunks = 0" and r: "conform_columns ops opts t fs = Inr (cs, used')"
    and eq: "cols = \<lparr>col_field = f, col_chunks = chunks\<rparr> # cs" "used = (case from of Some i \<Rightarrow> [i] | None \<Rightarrow> []) @ used'"
    by (auto simp: map_sum_Inr split: sum.splits prod.splits if_splits)
  from null have "f_nullable f \<or> AV_NULL \<notin> set (concat chunks)" by (auto simp: null_count_def filter_empty_conv)
  with conform_column_ok [OF assms c] Cons.IH [OF r] show ?case
    unfolding eq by (auto simp: col_values_def split: option.splits)
qed simp


definition demo_ops :: arrow_ops where
  "demo_ops =
     \<lparr>op_equal = (=), op_cast = (\<lambda>a b vs. if a = T_INT32 \<and> b = T_INT64 then Inr vs else Inl ''Unsupported cast''),
      op_parse = (\<lambda>ty s. if ty = T_STRING then Some (AV_STRING s) else None), op_text = (\<lambda>_. ''type'')\<rparr>"

definition demo_file :: arrow_table where
  "demo_file =
     [\<lparr>col_field = field ''Name'' T_STRING, col_chunks = [[AV_STRING ''a''], [AV_NULL]]\<rparr>,
      \<lparr>col_field = field ''id'' T_INT32, col_chunks = [[AV_INT 1], [AV_INT 2]]\<rparr>]"

definition demo_target :: "arrow_field list" where
  "demo_target = [Field ''id'' T_INT64 False [], field ''name'' T_STRING, field ''day'' T_STRING]"

lemma demo_ops_ok: "ops_ok demo_ops"
proof -
  have "list_all2 (conforms T_INT64) vs vs" if "\<forall>v \<in> set vs. has_type v T_INT32" for vs
  proof -
    have "has_type v T_INT64" if "has_type v T_INT32" for v using that by (cases v) (auto simp: in_int32_def in_int64_def)
    with that show ?thesis by (auto simp: conforms_def intro!: list.rel_refl_strong)
  qed
  then show ?thesis by (auto simp: ops_ok_def demo_ops_def split: if_splits)
qed


end
