(* ===== verification/Statistics.thy ===== *)
theory Statistics
  imports ManagerState Arrow
begin

text \<open>
  The statistics of a data file (\<open>computeStatistics\<close> of \<open>Helpers/Helper.cpp\<close>): the number of rows, and for
  each column the nulls and, for strings, integers up to 32 bits unsigned and floating point numbers, the
  bounds.  The values of a column as cells of a key, and the proof that the key matcher can rely on these
  statistics.  The shortest text of a double (\<open>std::to_chars\<close>) is a parameter.
\<close>

section \<open>Bounds of a column\<close>

fun min_max_from :: "('a \<Rightarrow> 'a \<Rightarrow> bool) \<Rightarrow> 'a \<Rightarrow> 'a \<Rightarrow> 'a list \<Rightarrow> 'a \<times> 'a" where
  "min_max_from lt mn mx [] = (mn, mx)"
| "min_max_from lt mn mx (v # vs) =
     min_max_from lt (if lt v mn then v else mn) (if lt mx v then v else mx) vs"

fun min_max :: "('a \<Rightarrow> 'a \<Rightarrow> bool) \<Rightarrow> 'a list \<Rightarrow> ('a \<times> 'a) option" where
  "min_max lt [] = None"
| "min_max lt (v # vs) = Some (min_max_from lt v v vs)"

fun int_value :: "arrow_value \<Rightarrow> int" where
  "int_value (AV_INT i) = i"
| "int_value (AV_UINT n) = int n"
| "int_value _ = 0"

fun string_value :: "arrow_value \<Rightarrow> string" where
  "string_value (AV_STRING s) = s"
| "string_value _ = []"

fun double_value :: "arrow_value \<Rightarrow> 64 word" where
  "double_value (AV_FLOAT w) = w"
| "double_value (AV_DOUBLE w) = w"
| "double_value _ = 0"

text \<open>The bits of a double: neither NaN nor infinite, and the order of such doubles.\<close>

definition double_finite :: "64 word \<Rightarrow> bool" where
  "double_finite w \<longleftrightarrow> take_bit 11 (drop_bit 52 w) \<noteq> 2047"

definition double_order :: "64 word \<Rightarrow> int" where
  "double_order w = (let magnitude = uint (take_bit 63 w) in if bit w 63 then - magnitude else magnitude)"

definition double_less :: "64 word \<Rightarrow> 64 word \<Rightarrow> bool" where
  "double_less a b \<longleftrightarrow> double_order a < double_order b"

definition not_null :: "arrow_value list \<Rightarrow> arrow_value list" where
  "not_null vs = filter (\<lambda>v. v \<noteq> AV_NULL) vs"

definition integer_min_max :: "arrow_value list \<Rightarrow> column_statistics \<Rightarrow> column_statistics" where
  "integer_min_max vs st =
     (case min_max (<) (map int_value (not_null vs)) of
        None \<Rightarrow> st
      | Some (mn, mx) \<Rightarrow>
          st\<lparr>cs_has_min_max := True, cs_numeric := True, cs_min := dec_int mn, cs_max := dec_int mx\<rparr>)"

definition floating_min_max ::
    "(64 word \<Rightarrow> string) \<Rightarrow> arrow_value list \<Rightarrow> column_statistics \<Rightarrow> column_statistics" where
  "floating_min_max shortest vs st =
     (let ds = map double_value (not_null vs)
      in if \<not> list_all double_finite ds then st
         else case min_max double_less ds of
                None \<Rightarrow> st
              | Some (mn, mx) \<Rightarrow>
                  st\<lparr>cs_has_min_max := True, cs_numeric := True, cs_min := shortest mn, cs_max := shortest mx\<rparr>)"

definition string_min_max :: "arrow_value list \<Rightarrow> column_statistics \<Rightarrow> column_statistics" where
  "string_min_max vs st =
     (case min_max (<) (map string_value (not_null vs)) of
        None \<Rightarrow> st
      | Some (mn, mx) \<Rightarrow> st\<lparr>cs_has_min_max := True, cs_min := mn, cs_max := mx\<rparr>)"

definition column_stats :: "(64 word \<Rightarrow> string) \<Rightarrow> table_column \<Rightarrow> column_statistics" where
  "column_stats shortest c =
     (let vs = col_values c;
          st = \<lparr>cs_name = f_name (col_field c), cs_has_min_max = False, cs_numeric = False, cs_min = [],
                cs_max = [], cs_null_count = int (length vs - length (not_null vs))\<rparr>
      in case f_type (col_field c) of
           T_STRING \<Rightarrow> string_min_max vs st
         | T_LARGE_STRING \<Rightarrow> string_min_max vs st
         | T_INT8 \<Rightarrow> integer_min_max vs st
         | T_INT16 \<Rightarrow> integer_min_max vs st
         | T_INT32 \<Rightarrow> integer_min_max vs st
         | T_INT64 \<Rightarrow> integer_min_max vs st
         | T_UINT8 \<Rightarrow> integer_min_max vs st
         | T_UINT16 \<Rightarrow> integer_min_max vs st
         | T_UINT32 \<Rightarrow> integer_min_max vs st
         | T_FLOAT \<Rightarrow> floating_min_max shortest vs st
         | T_DOUBLE \<Rightarrow> floating_min_max shortest vs st
         | _ \<Rightarrow> st)"

definition computeStatistics :: "(64 word \<Rightarrow> string) \<Rightarrow> arrow_table \<Rightarrow> table_statistics" where
  "computeStatistics shortest t =
     \<lparr>st_num_records = int (num_rows t), st_columns = map (column_stats shortest) t\<rparr>"

section \<open>The cells of a key column\<close>

fun key_type :: "arrow_type \<Rightarrow> col_type" where
  "key_type T_INT8 = INT8"
| "key_type T_INT16 = INT16"
| "key_type T_INT32 = INT32"
| "key_type T_INT64 = INT64"
| "key_type T_DATE32 = DATE32"
| "key_type T_STRING = STRING"
| "key_type T_LARGE_STRING = LARGE_STRING"
| "key_type ty = OTHER ty"

fun date_value :: "(nat \<Rightarrow> int) \<Rightarrow> arrow_value \<Rightarrow> int" where
  "date_value days (AV_OTHER n) = days n"
| "date_value days _ = 0"

text \<open>What \<open>equals\<close> of the key matcher reads of an element; \<open>days\<close> are the days of an element of a date column.\<close>

definition cell_of :: "(nat \<Rightarrow> int) \<Rightarrow> arrow_type \<Rightarrow> arrow_value \<Rightarrow> cell" where
  "cell_of days ty v =
     (if v = AV_NULL then Cell_null
      else case key_type ty of
             STRING \<Rightarrow> Cell_string (string_value v)
           | LARGE_STRING \<Rightarrow> Cell_string (string_value v)
           | DATE32 \<Rightarrow> Cell_int (date_value days v)
           | OTHER _ \<Rightarrow> Cell_other v
           | _ \<Rightarrow> Cell_int (int_value v))"

definition key_cells :: "(nat \<Rightarrow> int) \<Rightarrow> table_column \<Rightarrow> cell list list" where
  "key_cells days c = map (map (cell_of days (f_type (col_field c)))) (col_chunks c)"

section \<open>The statistics are honest\<close>

lemma min_max_from:
  fixes vs :: "'a::linorder list"
  shows "min_max_from (<) a z vs = (mn, mx) \<Longrightarrow> mn \<le> a \<and> z \<le> mx \<and> (\<forall>v \<in> set vs. mn \<le> v \<and> v \<le> mx)
    \<and> mn \<in> insert a (set vs) \<and> mx \<in> insert z (set vs)"
proof (induction vs arbitrary: a z)
  case (Cons v vs)
  then have "min_max_from (<) (if v < a then v else a) (if z < v then v else z) vs = (mn, mx)" by simp
  from Cons.IH [OF this] show ?case by (auto split: if_splits)
qed simp

lemma min_max_Some:
  fixes vs :: "'a::linorder list"
  assumes "min_max (<) vs = Some (mn, mx)"
  shows "v \<in> set vs \<Longrightarrow> mn \<le> v \<and> v \<le> mx" and "mn \<in> set vs" and "mx \<in> set vs"
proof -
  from assms obtain w ws where vs: "vs = w # ws" and m: "min_max_from (<) w w ws = (mn, mx)"
    by (cases vs) auto
  from min_max_from [OF m] show "v \<in> set vs \<Longrightarrow> mn \<le> v \<and> v \<le> mx" "mn \<in> set vs" "mx \<in> set vs"
    by (auto simp: vs)
qed

lemma min_max_None: "min_max lt vs = None \<longleftrightarrow> vs = []"
  by (cases vs) auto

lemma is_digit_minus: "\<not> is_digit CHR ''-''"
  by (simp add: is_digit_def digits_def)

lemma parse_integer_dec_int: "in_int64 i \<Longrightarrow> parse_integer (dec_int i) = Some i"
proof -
  assume i: "in_int64 i"
  have d: "dec n \<noteq> []" "hd (dec n) \<noteq> CHR ''-''" for n
  proof -
    show ne: "dec n \<noteq> []" by (subst dec.simps) auto
    from dec_digits [of n] ne have "is_digit (hd (dec n))" by (simp add: list_all_iff)
    then show "hd (dec n) \<noteq> CHR ''-''" using is_digit_minus by metis
  qed
  show ?thesis using i d dec_digits
    by (cases "i < 0") (simp_all add: parse_integer_def dec_int_def Let_def)
qed

lemma key_cells_concat:
  "concat (key_cells days c) = map (cell_of days (f_type (col_field c))) (col_values c)"
  by (simp add: key_cells_def col_values_def map_concat)

lemma not_null_in: "v \<in> set (not_null vs) \<longleftrightarrow> v \<in> set vs \<and> v \<noteq> AV_NULL"
  by (auto simp: not_null_def)

lemma cell_null: "cell_of days ty v = Cell_null \<longleftrightarrow> v = AV_NULL"
  by (simp add: cell_of_def split: col_type.splits)

text \<open>The elements of a key column of a type with bounds.\<close>

lemma key_element:
  assumes "has_type v ty"
  shows "key_type ty = STRING \<or> key_type ty = LARGE_STRING \<Longrightarrow> v = AV_NULL \<or> (\<exists>s. v = AV_STRING s)"
    and "key_type ty \<in> {INT8, INT16, INT32, INT64} \<Longrightarrow> v = AV_NULL \<or> (\<exists>i. v = AV_INT i \<and> in_int64 i)"
  using assms by (cases ty; cases v; auto simp: in_int64_def in_int32_def)+

lemma string_bounds:
  assumes "min_max (<) (map string_value (not_null vs)) = Some (mn, mx)"
    and "\<And>v. v \<in> set vs \<Longrightarrow> v = AV_NULL \<or> (\<exists>s. v = AV_STRING s)"
    and "key_type ty = STRING \<or> key_type ty = LARGE_STRING"
  shows "bounds_strings mn mx (map (cell_of days ty) vs)"
proof -
  have "mn \<le> s \<and> s \<le> mx" if "Cell_string s \<in> set (map (cell_of days ty) vs)" for s
  proof -
    from that obtain v where v: "v \<in> set vs" "cell_of days ty v = Cell_string s" by auto
    with assms(2) [OF v(1)] assms(3) have "v = AV_STRING s" by (auto simp: cell_of_def)
    with v(1) have "s \<in> set (map string_value (not_null vs))" by (force simp: not_null_in)
    from min_max_Some(1) [OF assms(1) this] show ?thesis .
  qed
  then show ?thesis by (simp add: bounds_strings_def)
qed

lemma integer_bounds:
  assumes m: "min_max (<) (map int_value (not_null vs)) = Some (mn, mx)"
    and el: "\<And>v. v \<in> set vs \<Longrightarrow> v = AV_NULL \<or> (\<exists>i. v = AV_INT i \<and> in_int64 i)"
    and ty: "key_type ty \<in> {INT8, INT16, INT32, INT64}"
  shows "bounds_numbers parse_integer (dec_int mn) (dec_int mx) (map (cell_of days ty) vs)"
proof -
  have "in_int64 n" if "n \<in> set (map int_value (not_null vs))" for n
    using that el by (fastforce simp: not_null_in)
  with min_max_Some(2,3) [OF m] have p: "parse_integer (dec_int mn) = Some mn" "parse_integer (dec_int mx) = Some mx"
    by (simp_all add: parse_integer_dec_int)
  have "mn \<le> n \<and> n \<le> mx" if "Cell_int n \<in> set (map (cell_of days ty) vs)" for n
  proof -
    from that obtain v where v: "v \<in> set vs" "cell_of days ty v = Cell_int n" by auto
    with el [OF v(1)] ty have "v = AV_INT n" by (auto simp: cell_of_def)
    with v(1) have "n \<in> set (map int_value (not_null vs))" by (force simp: not_null_in)
    from min_max_Some(1) [OF m this] show ?thesis .
  qed
  then show ?thesis by (auto simp: bounds_numbers_def p)
qed

definition stat_bound :: "(column_statistics \<Rightarrow> string) \<Rightarrow> column_statistics \<Rightarrow> string option" where
  "stat_bound f s = (if cs_has_min_max s then Some (f s) else None)"

text \<open>The bounds come from elements that are not null.\<close>

lemma column_stats_cases:
  assumes "cs_has_min_max (column_stats shortest c)"
  shows "\<exists>v \<in> set (col_values c). v \<noteq> AV_NULL"
    and "key_type (f_type (col_field c)) \<noteq> DATE32"
    and "key_type (f_type (col_field c)) \<in> {STRING, LARGE_STRING} \<Longrightarrow>
      min_max (<) (map string_value (not_null (col_values c)))
        = Some (cs_min (column_stats shortest c), cs_max (column_stats shortest c))"
    and "key_type (f_type (col_field c)) \<in> {INT8, INT16, INT32, INT64} \<Longrightarrow>
      \<exists>mn mx. min_max (<) (map int_value (not_null (col_values c))) = Some (mn, mx)
        \<and> cs_min (column_stats shortest c) = dec_int mn \<and> cs_max (column_stats shortest c) = dec_int mx"
proof -
  let ?vs = "col_values c"
  note defs = column_stats_def Let_def string_min_max_def integer_min_max_def floating_min_max_def
  show "\<exists>v \<in> set ?vs. v \<noteq> AV_NULL"
  proof (rule ccontr)
    assume "\<not> ?thesis"
    then have "not_null ?vs = []" by (auto simp: not_null_def)
    with assms show False by (simp add: defs split: arrow_type.splits)
  qed
  show "key_type (f_type (col_field c)) \<noteq> DATE32"
    using assms by (cases "f_type (col_field c)") (simp_all add: defs)
  show "min_max (<) (map string_value (not_null ?vs))
        = Some (cs_min (column_stats shortest c), cs_max (column_stats shortest c))"
    if "key_type (f_type (col_field c)) \<in> {STRING, LARGE_STRING}"
    using assms that by (cases "f_type (col_field c)") (auto simp: defs split: option.splits)
  show "\<exists>mn mx. min_max (<) (map int_value (not_null ?vs)) = Some (mn, mx)
        \<and> cs_min (column_stats shortest c) = dec_int mn \<and> cs_max (column_stats shortest c) = dec_int mx"
    if "key_type (f_type (col_field c)) \<in> {INT8, INT16, INT32, INT64}"
    using assms that by (cases "f_type (col_field c)") (auto simp: defs split: option.splits)
qed

lemma column_honest:
  fixes shortest c
  defines "s \<equiv> column_stats shortest c" and "ty \<equiv> f_type (col_field c)"
  assumes typed: "\<And>v. v \<in> set (col_values c) \<Longrightarrow> has_type v ty"
  shows "honest_stats parse_date (key_type ty) (stat_bound cs_min s) (stat_bound cs_max s)
    (int (length (col_values c))) (concat (key_cells days c))"
proof -
  let ?cells = "map (cell_of days ty) (col_values c)"
  have t: "typed_cells (key_type ty) ?cells"
    using typed by (auto simp: typed_cells_def cell_of_def split: col_type.splits)
  have "(case key_type ty of STRING \<Rightarrow> bounds_strings (cs_min s) (cs_max s) ?cells
         | LARGE_STRING \<Rightarrow> bounds_strings (cs_min s) (cs_max s) ?cells
         | OTHER _ \<Rightarrow> True | DATE32 \<Rightarrow> bounds_numbers parse_date (cs_min s) (cs_max s) ?cells
         | _ \<Rightarrow> bounds_numbers parse_integer (cs_min s) (cs_max s) ?cells) \<and> (\<exists>c \<in> set ?cells. c \<noteq> Cell_null)"
    if m: "cs_has_min_max s"
  proof -
    note cs = column_stats_cases [OF m [unfolded s_def], folded s_def ty_def]
    have str: "bounds_strings (cs_min s) (cs_max s) ?cells" if "key_type ty \<in> {STRING, LARGE_STRING}"
      by (rule string_bounds [OF cs(3) [OF that]]) (use typed that key_element(1) in auto)
    have num: "bounds_numbers parse_integer (cs_min s) (cs_max s) ?cells" if k: "key_type ty \<in> {INT8, INT16, INT32, INT64}"
    proof -
      from cs(4) [OF k] obtain mn mx where m: "min_max (<) (map int_value (not_null (col_values c))) = Some (mn, mx)"
        "cs_min s = dec_int mn" "cs_max s = dec_int mx" by blast
      have "bounds_numbers parse_integer (dec_int mn) (dec_int mx) ?cells"
        by (rule integer_bounds [OF m(1) _ k]) (use typed k key_element(2) in auto)
      with m(2,3) show ?thesis by simp
    qed
    from cs(1) have "\<exists>c \<in> set ?cells. c \<noteq> Cell_null" by (auto simp: cell_null)
    with str num cs(2) show ?thesis by (cases "key_type ty") auto
  qed
  with t show ?thesis unfolding key_cells_concat ty_def [symmetric]
    by (auto simp: honest_stats_def stat_bound_def)
qed

end
