(* ===== verification/DataFiles.thy ===== *)
theory DataFiles
  imports DeltaConform Statistics Snapshots
begin

text \<open>
  Reading the data files of a table (\<open>ManagerDeltaLake.cpp\<close>): its schema, a file in that schema, the files and
  rows of a key, whole tables, and the names of new data files.  Threads that read parts of a table run one after
  the other.  Arrow's operations, its concatenation of tables, the days of its dates and the numbers of the random
  generator are parameters; a random number is drawn at most once between two readings of the clock.
\<close>

record data_ops =
  op_arrow :: arrow_ops
  op_days :: "nat \<Rightarrow> int"
  op_concat :: "arrow_table list \<Rightarrow> arrow_table option"
  op_shortest :: "64 word \<Rightarrow> string"
  op_random :: "nat \<Rightarrow> nat"
  op_column_text :: "table_column \<Rightarrow> string"

section \<open>The schema of a table and files in it\<close>

text \<open>The schema, \<open>None\<close> without metadata, and the error (empty: none).\<close>

definition schema_of_table :: "sys \<Rightarrow> table_stats \<Rightarrow> table_schema option \<times> string" where
  "schema_of_table sy t =
     (let metadata = get_metadata (t_delta_log t)
      in if metadata = [] then (None, [])
         else case table_schema_of (sy_parse sy) (sy_write sy) metadata of
                Inr schema \<Rightarrow> (Some schema, [])
              | Inl message \<Rightarrow> (None, ''schema of '' @ t_base_path t @ '': '' @ message))"

definition ok_table :: "string + arrow_table \<Rightarrow> arrow_table option" where
  "ok_table r = (case r of Inl e \<Rightarrow> None | Inr t \<Rightarrow> Some t)"

definition read_data_file ::
    "sys \<Rightarrow> parquet \<Rightarrow> data_ops \<Rightarrow> table_stats \<Rightarrow> string \<Rightarrow> connector \<Rightarrow> arrow_table option \<times> connector" where
  "read_data_file sy pq ops t path c =
     (let (schema, error) = schema_of_table sy t
      in if error \<noteq> [] then (None, c)
         else let (content, c) = mc_read2 path c
              in case content of
                   None \<Rightarrow> (None, c)
                 | Some text \<Rightarrow>
                     (case (readParquetAsTable pq text, schema) of
                        (Some file, Some s) \<Rightarrow>
                          (ok_table (conform_to_schema (op_arrow ops)
                             \<lparr>physical_names = ts_column_mapping s,
                              partition_values =
                                (if ts_partition_columns s = [] then None
                                 else Some (get_partition_values (sy_parse sy) path True (t_delta_log t))),
                              reject_extra_columns = False\<rparr>
                             file (ts_schema s)), c)
                      | (file, _) \<Rightarrow> (file, c)))"

definition write_options :: conform_options where
  "write_options = \<lparr>physical_names = False, partition_values = None, reject_extra_columns = True\<rparr>"

definition conform_for_write ::
    "sys \<Rightarrow> data_ops \<Rightarrow> table_stats \<Rightarrow> arrow_table option \<Rightarrow> arrow_table option" where
  "conform_for_write sy ops t rows =
     (let (schema, error) = schema_of_table sy t
      in if error \<noteq> [] then None
         else case both schema rows of
                None \<Rightarrow> rows
              | Some (s, r) \<Rightarrow>
                  if ts_partition_columns s \<noteq> [] \<or> ts_column_mapping s then None
                  else ok_table (conform_to_schema (op_arrow ops) write_options r (ts_schema s)))"

section \<open>Rows\<close>

text \<open>The rows of a table at some indices, and \<open>select_rows\<close> over the slices of a table.\<close>

definition gather :: "arrow_table \<Rightarrow> nat list \<Rightarrow> arrow_table" where
  "gather t is = map (\<lambda>c. c\<lparr>col_chunks := [map (\<lambda>i. col_values c ! i) is]\<rparr>) t"

definition select_table :: "data_ops \<Rightarrow> arrow_table \<Rightarrow> nat list \<Rightarrow> arrow_table option" where
  "select_table ops t rows =
     (if length rows = num_rows t then Some t
      else let parts = row_slices [0..<num_rows t] rows
           in if parts = [] then Some (gather t []) else op_concat ops (map (gather t) parts))"

section \<open>The files of a key\<close>

definition matcher_for :: "data_ops \<Rightarrow> arrow_type \<Rightarrow> string \<Rightarrow> key_matcher" where
  "matcher_for ops ty key =
     key_matcher_new (\<lambda>_ key. map_option (cell_of (op_days ops) ty) (op_parse (op_arrow ops) ty key))
       (key_type ty) key"

definition parse_date :: "data_ops \<Rightarrow> string \<Rightarrow> int option" where
  "parse_date ops text = map_option (date_value (op_days ops)) (op_parse (op_arrow ops) T_DATE32 text)"

definition column_rows :: "data_ops \<Rightarrow> key_matcher \<Rightarrow> table_column \<Rightarrow> nat list" where
  "column_rows ops m c = rows_of (key_type (f_type (col_field c))) m (key_cells (op_days ops) c)"

definition own_update :: "table_stats \<Rightarrow> nat \<Rightarrow> string \<Rightarrow> bool" where
  "own_update t skip_update path \<longleftrightarrow> skip_update \<noteq> u32_max \<and>
     (case map_of (t_created_files t) path of Some f \<Rightarrow> fs_update_id f = skip_update | None \<Rightarrow> False)"

fun key_file_loop ::
    "sys \<Rightarrow> parquet \<Rightarrow> data_ops \<Rightarrow> table_stats \<Rightarrow> key_matcher \<Rightarrow> bool \<Rightarrow> nat \<Rightarrow> (string \<times> key_match) list \<Rightarrow> connector
     \<Rightarrow> key_file list option \<times> connector" where
  "key_file_loop sy pq ops t m read_exact skip_update [] c = (Some [], c)"
| "key_file_loop sy pq ops t m read_exact skip_update ((path, km) # cs) c =
     (if own_update t skip_update path then key_file_loop sy pq ops t m read_exact skip_update cs c
      else if km = Key_Exact \<and> \<not> read_exact
      then let (files, c) = key_file_loop sy pq ops t m read_exact skip_update cs c
           in (map_option (Cons \<lparr>kf_path = path, kf_data = None, kf_rows = [], kf_exact = True\<rparr>) files, c)
      else case read_data_file sy pq ops t path c of
             (None, c) \<Rightarrow> (None, c)
           | (Some d, c) \<Rightarrow>
               (let rows = (case d of [] \<Rightarrow> [] | col # _ \<Rightarrow> column_rows ops m col);
                    (files, c) = key_file_loop sy pq ops t m read_exact skip_update cs c
                in (if rows = [] then files
                    else map_option (Cons \<lparr>kf_path = path, kf_data = Some d, kf_rows = rows,
                                           kf_exact = (km = Key_Exact)\<rparr>) files, c)))"

fun read_key_files ::
    "sys \<Rightarrow> parquet \<Rightarrow> data_ops \<Rightarrow> table_stats \<Rightarrow> key_file list \<Rightarrow> connector \<Rightarrow> key_file list option \<times> connector" where
  "read_key_files sy pq ops t [] c = (Some [], c)"
| "read_key_files sy pq ops t (file # files) c =
     (if kf_data file \<noteq> None
      then let (files, c) = read_key_files sy pq ops t files c in (map_option (Cons file) files, c)
      else case read_data_file sy pq ops t (kf_path file) c of
             (None, c) \<Rightarrow> (None, c)
           | (Some d, c) \<Rightarrow>
               (let (files, c) = read_key_files sy pq ops t files c
                in (map_option (Cons (file\<lparr>kf_data := Some d, kf_rows := [0..<num_rows d]\<rparr>)) files, c)))"

definition find_key_files ::
    "sys \<Rightarrow> parquet \<Rightarrow> data_ops \<Rightarrow> table_stats \<Rightarrow> string \<Rightarrow> bool \<Rightarrow> nat \<Rightarrow> connector
     \<Rightarrow> key_file list option \<times> connector" where
  "find_key_files sy pq ops t key read_exact skip_update c =
     (let (schema, error) = schema_of_table sy t
      in if error \<noteq> [] then (None, c)
         else case (case schema of Some s \<Rightarrow> ts_schema s | None \<Rightarrow> []) of
                [] \<Rightarrow>
                  (let path = findFileWithStats 0 key True (t_delta_log t);
                       files = (if path = [] then []
                                else [\<lparr>kf_path = path, kf_data = None, kf_rows = [], kf_exact = True\<rparr>])
                   in if read_exact then read_key_files sy pq ops t files c else (Some files, c))
              | f # _ \<Rightarrow>
                  (let m = matcher_for ops (f_type f) key;
                       column = file_name f (case schema of Some s \<Rightarrow> ts_column_mapping s | None \<Rightarrow> False)
                   in key_file_loop sy pq ops t m read_exact skip_update
                        (find_files column (classify (parse_date ops) m) (t_delta_log t)) c))"

text \<open>The rows of the key in all files that were read.\<close>

definition key_rows :: "data_ops \<Rightarrow> key_file list \<Rightarrow> arrow_table option" where
  "key_rows ops files =
     (case those (map (\<lambda>(d, rows). select_table ops d rows)
             (concat (map (\<lambda>f. case kf_data f of None \<Rightarrow> [] | Some d \<Rightarrow> [(d, kf_rows f)]) files))) of
        None \<Rightarrow> None
      | Some [] \<Rightarrow> None
      | Some [part] \<Rightarrow> Some part
      | Some parts \<Rightarrow> op_concat ops parts)"

section \<open>Reading a table\<close>

fun read_part_from ::
    "sys \<Rightarrow> parquet \<Rightarrow> data_ops \<Rightarrow> table_stats \<Rightarrow> arrow_table option \<Rightarrow> string list \<Rightarrow> connector
     \<Rightarrow> (bool \<times> arrow_table option) \<times> connector" where
  "read_part_from sy pq ops t acc [] c = ((True, acc), c)"
| "read_part_from sy pq ops t acc (path # paths) c =
     (case read_data_file sy pq ops t path c of
        (None, c) \<Rightarrow> ((False, None), c)
      | (Some d, c) \<Rightarrow>
          (case acc of
             None \<Rightarrow> read_part_from sy pq ops t (Some d) paths c
           | Some a \<Rightarrow>
               (case op_concat ops [a, d] of
                  None \<Rightarrow> ((False, None), c)
                | Some ad \<Rightarrow> read_part_from sy pq ops t (Some ad) paths c)))"

definition read_part ::
    "sys \<Rightarrow> parquet \<Rightarrow> data_ops \<Rightarrow> table_stats \<Rightarrow> string list \<Rightarrow> nat \<times> nat \<Rightarrow> connector
     \<Rightarrow> (bool \<times> arrow_table option) \<times> connector" where
  "read_part sy pq ops t files r c =
     read_part_from sy pq ops t None (take (snd r - fst r) (drop (fst r) files)) c"

fun read_parts ::
    "sys \<Rightarrow> parquet \<Rightarrow> data_ops \<Rightarrow> table_stats \<Rightarrow> string list \<Rightarrow> (nat \<times> nat) list \<Rightarrow> connector
     \<Rightarrow> (bool \<times> arrow_table option list) \<times> connector" where
  "read_parts sy pq ops t files [] c = ((True, []), c)"
| "read_parts sy pq ops t files (r # rs) c =
     (let ((ok, part), c) = read_part sy pq ops t files r c;
          ((all_ok, parts), c) = read_parts sy pq ops t files rs c
      in ((ok \<and> all_ok, part # parts), c))"

fun concat_parts :: "data_ops \<Rightarrow> arrow_table option \<Rightarrow> arrow_table option list \<Rightarrow> arrow_table option" where
  "concat_parts ops acc [] = acc"
| "concat_parts ops acc (part # parts) =
     (case acc of
        None \<Rightarrow> concat_parts ops part parts
      | Some a \<Rightarrow>
          (case Option.bind part (\<lambda>p. op_concat ops [a, p]) of
             None \<Rightarrow> None
           | Some ap \<Rightarrow> concat_parts ops (Some ap) parts))"

definition make_empty :: "arrow_field list \<Rightarrow> arrow_table" where
  "make_empty fls = map (\<lambda>f. \<lparr>col_field = f, col_chunks = [[]]\<rparr>) fls"

definition read_table ::
    "sys \<Rightarrow> parquet \<Rightarrow> data_ops \<Rightarrow> nat \<Rightarrow> nat \<Rightarrow> manager \<Rightarrow> arrow_table option \<times> manager" where
  "read_table sy pq ops table_id threads m =
     (case get_table_for_read table_id m of
        (None, m) \<Rightarrow> (None, m)
      | (Some t, m) \<Rightarrow>
          (let (schema, error) = schema_of_table sy t; files = get_list (t_delta_log t)
           in if error \<noteq> [] then (None, m)
              else if files = [] then (map_option (\<lambda>s. make_empty (ts_schema s)) schema, m)
              else let ((ok, parts), m) = with_conn
                         (read_parts sy pq ops t files (split_range 0 (length files) threads)) m
                   in (if ok then concat_parts ops None parts else None, m)))"

text \<open>The variants of the benchmarks only send the requests.\<close>

definition read_part_simple :: "string list \<Rightarrow> nat \<times> nat \<Rightarrow> connector \<Rightarrow> connector" where
  "read_part_simple files r c =
     fold mc_read_mock (take (snd r - fst r) (drop (fst r) files)) c"

fun read_skip :: "nat \<Rightarrow> nat \<Rightarrow> string list \<Rightarrow> connector \<Rightarrow> connector" where
  "read_skip skip skip_counter [] c = c"
| "read_skip skip skip_counter (path # paths) c =
     (if skip_counter = skip then read_skip skip 0 paths c
      else read_skip skip (u32 (skip_counter + 1)) paths (mc_read_mock path c))"

definition read_part_simple_skip :: "string list \<Rightarrow> nat \<Rightarrow> nat \<times> nat \<Rightarrow> connector \<Rightarrow> connector" where
  "read_part_simple_skip files skip r c =
     read_skip skip 0 (take (snd r - fst r) (drop (fst r) files)) c"

definition head_part_simple :: "string list \<Rightarrow> nat \<times> nat \<Rightarrow> connector \<Rightarrow> connector" where
  "head_part_simple files r c =
     fold (\<lambda>path c. snd (mc_check path c)) (take (snd r - fst r) (drop (fst r) files)) c"

definition in_parts ::
    "(string list \<Rightarrow> nat \<times> nat \<Rightarrow> connector \<Rightarrow> connector) \<Rightarrow> nat \<Rightarrow> nat \<Rightarrow> manager \<Rightarrow> manager" where
  "in_parts part table_id threads m =
     (case get_table_for_read table_id m of
        (None, m) \<Rightarrow> m
      | (Some t, m) \<Rightarrow>
          (let files = get_list (t_delta_log t)
           in m\<lparr>conn := fold (part files) (split_range 0 (length files) threads) (conn m)\<rparr>))"

definition read_table_simple :: "nat \<Rightarrow> nat \<Rightarrow> manager \<Rightarrow> manager" where
  "read_table_simple table_id threads m = in_parts read_part_simple table_id threads m"

definition read_partial_table_simple :: "nat \<Rightarrow> nat \<Rightarrow> nat \<Rightarrow> manager \<Rightarrow> manager" where
  "read_partial_table_simple table_id skip threads m =
     in_parts (\<lambda>files. read_part_simple_skip files skip) table_id threads m"

definition head_table_simple :: "nat \<Rightarrow> nat \<Rightarrow> manager \<Rightarrow> manager" where
  "head_table_simple table_id threads m = in_parts head_part_simple table_id threads m"

section \<open>New data files\<close>

definition data_file_name :: "string \<Rightarrow> nat \<Rightarrow> int \<Rightarrow> nat \<Rightarrow> nat \<Rightarrow> string" where
  "data_file_name base txn seconds step random =
     base @ ''lhdata-'' @ dec txn @ ''-'' @ dec_int seconds @ ''-'' @ dec step @ ''-'' @ hex random @ ''.parquet''"

fun new_data_file_path :: "data_ops \<Rightarrow> nat \<Rightarrow> table_stats \<Rightarrow> manager \<Rightarrow> (string \<times> manager) option" where
  "new_data_file_path ops 0 t m = None"
| "new_data_file_path ops (Suc fuel) t m =
     (let random = op_random ops (clock_reads (conn m)) mod 2 ^ 64;
          (now, c) = local_time_ms (conn m);
          path = data_file_name (t_base_path t) (transaction_id m) (now div 1000) (next_step m) random;
          (exists, c) = mc_check path c;
          m = m\<lparr>conn := c\<rparr>
      in if exists then new_data_file_path ops fuel t m else Some (path, m))"

lemma new_data_file_path_free:
  assumes "new_data_file_path ops fuel t m = Some (path, m')"
  shows "\<exists>c c'. mc_check path c = (False, c') \<and> m' = m\<lparr>conn := c'\<rparr>"
  using assms
proof (induction fuel arbitrary: m)
  case (Suc fuel)
  show ?case
  proof (cases "fst (mc_check (data_file_name (t_base_path t) (transaction_id m)
      (fst (local_time_ms (conn m)) div 1000) (next_step m) (op_random ops (clock_reads (conn m)) mod 2 ^ 64))
      (snd (local_time_ms (conn m))))")
    case True
    then obtain c where "new_data_file_path ops fuel t (m\<lparr>conn := c\<rparr>) = Some (path, m')"
      using Suc.prems by (auto simp: Let_def split: prod.splits)
    from Suc.IH [OF this] show ?thesis by auto
  next
    case False
    with Suc.prems show ?thesis by (auto simp: Let_def split: prod.splits if_splits)
  qed
qed simp

end
