(* ===== verification/Changes.thy ===== *)
theory Changes
  imports DataFiles
begin

text \<open>
  The changes of a transaction (\<open>ManagerDeltaLake.cpp\<close>): its created and deleted files, the sublog with one step
  per operation, adding files, removing files and the rows of a key, and reading the rows of a key.  While the log
  is explicit an operation is executed at once; otherwise operations of an update are only logged, and executed by
  the redo at commit.  A thread that writes the sublog while an operation runs is done before it.  \<open>None\<close> is the
  end of the fuel for a new file name, or a null pointer that is followed.
\<close>

section \<open>The write set\<close>

definition on_table :: "nat \<Rightarrow> (table_stats \<Rightarrow> table_stats) \<Rightarrow> manager \<Rightarrow> manager" where
  "on_table i f m = set_table i (f (tables m ! i)) m"

definition set_valid :: "bool \<Rightarrow> string \<Rightarrow> (string \<times> file_stats) list \<Rightarrow> (string \<times> file_stats) list" where
  "set_valid b path fs = AList.map_entry path (\<lambda>f. f\<lparr>fs_valid := b\<rparr>) fs"

definition file_entry :: "file_stats \<Rightarrow> delta_log_entry" where
  "file_entry f =
     (let cols = filter cs_has_min_max (st_columns (fs_stats f))
      in entry_of_file ADD (map cs_name cols) (map cs_min cols) (map cs_max cols) (st_num_records (fs_stats f)))"

definition created_file :: "file_stats \<Rightarrow> bool \<Rightarrow> table_stats \<Rightarrow> table_stats" where
  "created_file f overwrite t =
     t\<lparr>t_delta_log := snd (register_operation_entry ADD (fs_path f) (file_entry f) True overwrite (t_delta_log t)),
       t_created_files := AList.update (fs_path f) f (t_created_files t),
       t_deleted_files := set_valid False (fs_path f) (t_deleted_files t)\<rparr>"

definition register_created_file :: "nat \<Rightarrow> file_stats \<Rightarrow> bool \<Rightarrow> manager \<Rightarrow> manager" where
  "register_created_file i f overwrite m = on_table i (created_file f overwrite) m"

definition deleted_file :: "string \<Rightarrow> table_stats \<Rightarrow> table_stats" where
  "deleted_file path t =
     t\<lparr>t_delta_log := snd (register_operation DELETE path True False (t_delta_log t)),
       t_created_files := set_valid False path (t_created_files t),
       t_deleted_files := AList.update path
         (file_stats_new\<lparr>fs_path := path, fs_size := get_size path True (t_delta_log t)\<rparr>) (t_deleted_files t)\<rparr>"

definition register_deleted_file :: "nat \<Rightarrow> string \<Rightarrow> manager \<Rightarrow> manager" where
  "register_deleted_file i path m = on_table i (deleted_file path) m"

section \<open>The sublog\<close>

definition write_sublog :: "string \<Rightarrow> string \<Rightarrow> manager \<Rightarrow> bool \<times> manager" where
  "write_sublog path content m = with_conn (write_retry_loop (storage_retries m) path content) m"

text \<open>A line of a step, and the step with its inverse.\<close>

definition step_line :: "nat \<Rightarrow> string \<Rightarrow> string" where "step_line table_id command = dec table_id @ '' '' @ command"

definition step_text :: "nat \<Rightarrow> string \<Rightarrow> string \<Rightarrow> string" where
  "step_text table_id redo undo = step_line table_id redo @ [newline] @ step_line table_id undo"

definition append_step :: "string \<Rightarrow> manager \<Rightarrow> bool \<times> manager" where
  "append_step content m =
     write_sublog (sublog_name (working_dir m) (next_step m)) content (m\<lparr>next_step := u32 (next_step m + 1)\<rparr>)"

definition add_substep_explicit :: "string \<Rightarrow> sub_op \<Rightarrow> nat \<Rightarrow> manager \<Rightarrow> bool \<times> manager" where
  "add_substep_explicit file ty i m =
     append_step (case ty of
         Sub_READ \<Rightarrow> step_text (t_table_id (tables m ! i)) (''r '' @ file) (''r '' @ file)
       | Sub_ADD \<Rightarrow> step_text (t_table_id (tables m ! i)) (''a '' @ file) (''d '' @ file)
       | Sub_DELETE \<Rightarrow> step_text (t_table_id (tables m ! i)) (''d '' @ file) (''a '' @ file)) m"

text \<open>\<open>size() - 1\<close> wraps around for an empty vector.\<close>

definition last_index :: "'a list \<Rightarrow> string" where
  "last_index xs = dec (if xs = [] then 2 ^ 64 - 1 else length xs - 1)"

definition add_substep_implicit :: "string \<Rightarrow> sub_op \<Rightarrow> nat \<Rightarrow> string option \<Rightarrow> manager \<Rightarrow> bool \<times> manager" where
  "add_substep_implicit file ty i key m =
     (let tid = t_table_id (tables m ! i)
      in case (ty, key) of
           (Sub_READ, Some k) \<Rightarrow> append_step (step_text tid (''s '' @ k) (''o '' @ snd (found m))) m
         | (Sub_READ, None) \<Rightarrow> append_step (step_text tid (''r '' @ file) (''r '' @ file)) m
         | (Sub_ADD, Some k) \<Rightarrow>
             append_step (step_text tid (''e found '' @ last_index (update_vals m)) ''d found'') (m\<lparr>found := (k, file)\<rparr>)
         | (Sub_ADD, None) \<Rightarrow> append_step (step_text tid (''a '' @ file) (''d '' @ file)) m
         | (Sub_DELETE, Some k) \<Rightarrow>
             append_step (step_text tid (''d found'' @ k) (''a found '' @ last_index (update_ops m))) (m\<lparr>found := (k, file)\<rparr>)
         | (Sub_DELETE, None) \<Rightarrow> append_step (step_text tid (''d '' @ file) (''a '' @ file)) m)"

definition add_substep :: "string \<Rightarrow> sub_op \<Rightarrow> nat \<Rightarrow> string option \<Rightarrow> manager \<Rightarrow> bool \<times> manager" where
  "add_substep file ty i key m =
     (if level0 m
      then (if explicit_log m then add_substep_explicit file ty i m else add_substep_implicit file ty i key m)
      else (True, m))"

definition prev_key :: "nat \<Rightarrow> string option" where "prev_key prev = (if prev \<noteq> u32_max then Some (dec prev) else None)"

definition log_add_substep :: "nat \<Rightarrow> string \<Rightarrow> nat \<Rightarrow> manager \<Rightarrow> manager" where
  "log_add_substep i path prev m = snd (add_substep path Sub_ADD i (prev_key prev) m)"

definition log_delete_substep :: "nat \<Rightarrow> string \<Rightarrow> nat \<Rightarrow> manager \<Rightarrow> manager" where
  "log_delete_substep i path prev m = snd (add_substep path Sub_DELETE i (prev_key prev) m)"

definition register_update_pairs :: "(string \<times> string) list \<Rightarrow> manager \<Rightarrow> nat \<times> manager" where
  "register_update_pairs values m = (u32 (length (update_vals m)), m\<lparr>update_vals := update_vals m @ [values]\<rparr>)"

definition register_update_pairs_op ::
    "(string \<times> string) list \<Rightarrow> update_operation \<Rightarrow> (string \<times> string) list \<Rightarrow> manager \<Rightarrow> nat \<times> manager" where
  "register_update_pairs_op values op impl m =
     (u32 (length (update_vals m)),
      if explicit_log m then m\<lparr>update_vals := update_vals m @ [values]\<rparr>
      else m\<lparr>update_vals := update_vals m @ [impl], update_ops := update_ops m @ [op]\<rparr>)"

section \<open>Writing data files\<close>

text \<open>Three rows make a row group of a data file.\<close>

definition encodeAsParquet :: "parquet \<Rightarrow> arrow_table \<Rightarrow> string" where
  "encodeAsParquet pq t = pq_write pq t 3"

text \<open>Rows as a new data file of a table, with their statistics; the name, and whether it was written.\<close>

definition written_stats :: "data_ops \<Rightarrow> string \<Rightarrow> string \<Rightarrow> arrow_table \<Rightarrow> nat \<Rightarrow> file_stats" where
  "written_stats ops path encoded rows update_id =
     \<lparr>fs_path = path, fs_size = int (length encoded), fs_stats = computeStatistics (op_shortest ops) rows,
      fs_valid = True, fs_update_id = update_id\<rparr>"

text \<open>The rows of a key leave their file; the others are written to a new file.\<close>

definition write_rest ::
    "sys \<Rightarrow> parquet \<Rightarrow> data_ops \<Rightarrow> nat \<Rightarrow> nat \<Rightarrow> arrow_table \<Rightarrow> nat list \<Rightarrow> bool \<Rightarrow> manager \<Rightarrow> (bool \<times> manager) option" where
  "write_rest sy pq ops fuel i d rows log m =
     (case (case select_table ops d (other_rows (num_rows d) rows) of
              None \<Rightarrow> None
            | Some rest \<Rightarrow> conform_for_write sy ops (tables m ! i) (Some rest)) of
        None \<Rightarrow> Some (False, m)
      | Some rest \<Rightarrow>
          (let encoded = encodeAsParquet pq rest
           in case new_data_file_path ops fuel (tables m ! i) m of
                None \<Rightarrow> None
              | Some (path, m) \<Rightarrow>
                  (let (ok, m) = with_conn (mc_write path encoded) m
                   in if \<not> ok then Some (False, m)
                      else Some (True, register_created_file i (written_stats ops path encoded rest u32_max) False
                             (if log then log_add_substep i path u32_max m else m)))))"

definition remove_key_rows ::
    "sys \<Rightarrow> parquet \<Rightarrow> data_ops \<Rightarrow> nat \<Rightarrow> nat \<Rightarrow> key_file \<Rightarrow> nat \<Rightarrow> bool \<Rightarrow> manager \<Rightarrow> (bool \<times> manager) option" where
  "remove_key_rows sy pq ops fuel i file prev log m =
     (case (if all_rows file then Some (True, m)
            else case kf_data file of
                   None \<Rightarrow> None
                 | Some d \<Rightarrow> write_rest sy pq ops fuel i d (kf_rows file) log m) of
        None \<Rightarrow> None
      | Some (False, m) \<Rightarrow> Some (False, m)
      | Some (True, m) \<Rightarrow>
          Some (True, register_deleted_file i (kf_path file)
            (if log then log_delete_substep i (kf_path file) prev m else m)))"

section \<open>Adding files\<close>

text \<open>The size of an object of that name, from a listing.\<close>

definition listed_size :: "string \<Rightarrow> manager \<Rightarrow> int \<times> manager" where
  "listed_size path m =
     (let (objs, m) = with_conn (mc_list_objects path) m
      in (case objs of
            None \<Rightarrow> -1
          | Some obs \<Rightarrow> fold (\<lambda>ob n. if oi_key ob = path then int (oi_size ob) else n) obs (-1), m))"

definition add_file_path :: "nat \<Rightarrow> string \<Rightarrow> bool \<Rightarrow> nat \<Rightarrow> manager \<Rightarrow> bool \<times> manager" where
  "add_file_path i path overwrite prev m =
     (case get_table i m of
        None \<Rightarrow> (False, m)
      | Some t \<Rightarrow>
          (let m = log_add_substep i path prev m
           in if explicit_log m \<or> prev = u32_max
              then let known = get_size path True (t_delta_log t);
                       (len, m) = (if known < 0 then listed_size path m else (known, m))
                   in if len < 0 then (False, m)
                      else (True, register_created_file i (file_stats_new\<lparr>fs_path := path, fs_size := len\<rparr>) overwrite m)
              else (True, m)))"

definition add_file_table ::
    "sys \<Rightarrow> parquet \<Rightarrow> data_ops \<Rightarrow> nat \<Rightarrow> nat \<Rightarrow> arrow_table option \<Rightarrow> nat \<Rightarrow> manager \<Rightarrow> (bool \<times> manager) option" where
  "add_file_table sy pq ops fuel i rows prev m =
     (case both (get_table i m) rows of
        None \<Rightarrow> Some (False, m)
      | Some (t, r) \<Rightarrow>
          (case conform_for_write sy ops t (Some r) of
             None \<Rightarrow> Some (False, m)
           | Some r \<Rightarrow>
               (let encoded = encodeAsParquet pq r
                in case new_data_file_path ops fuel t m of
                     None \<Rightarrow> None
                   | Some (path, m) \<Rightarrow>
                       (let m = log_add_substep i path prev m
                        in if explicit_log m \<or> prev = u32_max
                           then let (ok, m) = with_conn (mc_write path encoded) m
                                in if \<not> ok then Some (False, m)
                                   else Some (True, register_created_file i (written_stats ops path encoded r prev) False m)
                           else Some (True, m)))))"

text \<open>The rows of an encoded file (\<open>parquetNumRows\<close>, -1: not readable) are a parameter.\<close>

definition add_file_content ::
    "sys \<Rightarrow> data_ops \<Rightarrow> (string \<Rightarrow> int) \<Rightarrow> nat \<Rightarrow> nat \<Rightarrow> string \<Rightarrow> nat \<Rightarrow> manager \<Rightarrow> (bool \<times> manager) option" where
  "add_file_content sy ops parquet_rows fuel i content prev m =
     (case get_table i m of
        None \<Rightarrow> Some (False, m)
      | Some t \<Rightarrow>
          if (case fst (schema_of_table sy t) of
                Some s \<Rightarrow> ts_partition_columns s \<noteq> [] \<or> ts_column_mapping s | None \<Rightarrow> False)
          then Some (False, m)
          else (case new_data_file_path ops fuel t m of
                  None \<Rightarrow> None
                | Some (path, m) \<Rightarrow>
                    (let m = log_add_substep i path prev m
                     in if explicit_log m \<or> prev = u32_max
                        then let (ok, m) = with_conn (mc_write path content) m
                             in if \<not> ok then Some (False, m)
                                else Some (True, register_created_file i
                                       \<lparr>fs_path = path, fs_size = int (length content),
                                        fs_stats = \<lparr>st_num_records = (if content = [] then -1 else parquet_rows content),
                                                    st_columns = []\<rparr>,
                                        fs_valid = True, fs_update_id = prev\<rparr> False m)
                        else Some (True, m))))"

section \<open>Removing files and rows\<close>

definition remove_file_path :: "nat \<Rightarrow> string \<Rightarrow> nat \<Rightarrow> manager \<Rightarrow> bool \<times> manager" where
  "remove_file_path i path prev m =
     (if get_table i m = None \<or> path = [] then (False, m)
      else let m = log_delete_substep i path prev m
           in (True, if explicit_log m then register_deleted_file i path m else m))"

fun remove_all_key_rows ::
    "sys \<Rightarrow> parquet \<Rightarrow> data_ops \<Rightarrow> nat \<Rightarrow> nat \<Rightarrow> key_file list \<Rightarrow> nat \<Rightarrow> bool \<Rightarrow> manager \<Rightarrow> (bool \<times> manager) option" where
  "remove_all_key_rows sy pq ops fuel i [] prev log m = Some (True, m)"
| "remove_all_key_rows sy pq ops fuel i (file # files) prev log m =
     (case remove_key_rows sy pq ops fuel i file prev log m of
        None \<Rightarrow> None
      | Some (False, m) \<Rightarrow> Some (False, m)
      | Some (True, m) \<Rightarrow> remove_all_key_rows sy pq ops fuel i files prev log m)"

text \<open>By key; the result has the path of the first file, empty if there is none (\<open>None\<close>: not set).\<close>

definition remove_file_key ::
    "sys \<Rightarrow> parquet \<Rightarrow> data_ops \<Rightarrow> nat \<Rightarrow> nat \<Rightarrow> string \<Rightarrow> nat \<Rightarrow> manager \<Rightarrow> ((bool \<times> string option) \<times> manager) option" where
  "remove_file_key sy pq ops fuel i key prev m =
     (case get_table_for_read i m of
        (None, m) \<Rightarrow> Some ((False, None), m)
      | (Some t, m) \<Rightarrow>
          (case with_conn (find_key_files sy pq ops t key False prev) m of
             (None, m) \<Rightarrow> Some ((False, Some []), m)
           | (Some [], m) \<Rightarrow> Some ((False, Some []), m)
           | (Some (file # files), m) \<Rightarrow>
               if \<not> explicit_log m
               then Some ((True, Some (kf_path file)), log_delete_substep i (kf_path file) prev
                      (snd (add_substep (kf_path file) Sub_READ i (Some key) m)))
               else map_option (\<lambda>(ok, m). ((ok, Some (kf_path file)), m))
                      (remove_all_key_rows sy pq ops fuel i (file # files) prev True m)))"

section \<open>Reading the rows of a key\<close>

text \<open>The rows and the path of the first file (empty: none has the key).\<close>

definition read_file_as_table ::
    "sys \<Rightarrow> parquet \<Rightarrow> data_ops \<Rightarrow> nat \<Rightarrow> string \<Rightarrow> string \<Rightarrow> manager \<Rightarrow> (arrow_table option \<times> string) \<times> manager" where
  "read_file_as_table sy pq ops i key path m =
     (case get_table_for_read i m of
        (None, m) \<Rightarrow> ((None, path), m)
      | (Some t, m) \<Rightarrow>
          (case with_conn (find_key_files sy pq ops t key False u32_max) m of
             (None, m) \<Rightarrow> ((None, []), m)
           | (Some [], m) \<Rightarrow> ((None, []), m)
           | (Some (file # files), m) \<Rightarrow>
               (let m = snd (add_substep (kf_path file) Sub_READ i (Some key) m)
                in case with_conn (read_key_files sy pq ops t (file # files)) m of
                     (None, m) \<Rightarrow> ((None, kf_path file), m)
                   | (Some read, m) \<Rightarrow> ((key_rows ops read, kf_path file), m))))"

fun selected_fields :: "data_ops \<Rightarrow> string list \<Rightarrow> arrow_table \<Rightarrow> (string \<times> string) list" where
  "selected_fields ops (name # names) (c # cs) = (name, op_column_text ops c) # selected_fields ops names cs"
| "selected_fields ops names cs = []"

text \<open>The result is the text returned, the values appended to the result, and the path.\<close>

definition read_file ::
    "sys \<Rightarrow> parquet \<Rightarrow> data_ops \<Rightarrow> nat \<Rightarrow> string \<Rightarrow> string list option \<Rightarrow> string \<Rightarrow> manager
     \<Rightarrow> (string \<times> (string \<times> string) list \<times> string) \<times> manager" where
  "read_file sy pq ops i key names path m =
     (case read_file_as_table sy pq ops i key path m of
        ((None, path), m) \<Rightarrow> (([], [], path), m)
      | ((Some t, path), m) \<Rightarrow>
          ((path, case names of
                    Some ns \<Rightarrow> selected_fields ops ns (tl t)
                  | None \<Rightarrow> map (\<lambda>c. (f_name (col_field c), op_column_text ops c)) t, path), m))"

text \<open>A file of the snapshot that the random generator chooses.\<close>

definition random_file :: "nat \<Rightarrow> nat \<Rightarrow> string \<Rightarrow> manager \<Rightarrow> (table_stats \<times> string) option \<times> manager" where
  "random_file i number path m =
     (case get_table_for_read i m of
        (None, m) \<Rightarrow> (None, m)
      | (Some t, m) \<Rightarrow>
          (let files = get_list (t_delta_log t)
           in if files = [] then (None, m)
              else let path = files ! (number mod length files)
                   in (Some (t, path), snd (add_substep path Sub_READ i None m))))"

definition read_random_file_simple :: "nat \<Rightarrow> nat \<Rightarrow> string \<Rightarrow> manager \<Rightarrow> string \<times> manager" where
  "read_random_file_simple i number path m =
     (case random_file i number path m of
        (None, m) \<Rightarrow> (path, m)
      | (Some (t, path), m) \<Rightarrow> (path, m\<lparr>conn := mc_read_mock path (conn m)\<rparr>))"

definition read_random_file_as_table ::
    "sys \<Rightarrow> parquet \<Rightarrow> data_ops \<Rightarrow> nat \<Rightarrow> nat \<Rightarrow> string \<Rightarrow> manager \<Rightarrow> (arrow_table option \<times> string) \<times> manager" where
  "read_random_file_as_table sy pq ops i number path m =
     (case random_file i number path m of
        (None, m) \<Rightarrow> ((None, path), m)
      | (Some (t, path), m) \<Rightarrow>
          (let (rows, m) = with_conn (read_data_file sy pq ops t path) m in ((rows, path), m)))"

end
