(* ===== verification/Redo.thy ===== *)
theory Redo
  imports Changes
begin

text \<open>
  Executing the steps of the sublog again (\<open>redo\<close>, \<open>execute_reroll_step\<close>, \<open>build_int_col\<close> and
  \<open>build_string_col\<close> of \<open>ManagerDeltaLake.cpp\<close>).  The operations of an update are only logged while another
  transaction holds a marker; the redo at commit searches the key in the newest snapshot and writes the new rows.
  Floating point arithmetic on the text of numbers (\<open>std::stof\<close>, \<open>std::to_string\<close>) is a parameter.  \<open>None\<close> is an
  exception or the end of the fuel.
\<close>

section \<open>The columns of an update\<close>

text \<open>\<open>std::stoi\<close> of the operand; \<open>None\<close>: it throws.\<close>

definition stoi :: "string \<Rightarrow> int option" where
  "stoi s = (case stoll s of Some i \<Rightarrow> if in_int32 i then Some i else None | None \<Rightarrow> None)"

text \<open>\<open>int32_t\<close> arithmetic wraps around as the compilers do it; a division by zero is a trap, and so is the one
  quotient that does not fit.\<close>

definition wrap32 :: "int \<Rightarrow> int" where
  "wrap32 i = (i + 2 ^ 31) mod 2 ^ 32 - 2 ^ 31"

definition update_int :: "update_operation \<Rightarrow> int \<Rightarrow> int \<Rightarrow> int option" where
  "update_int op val old =
     (case op of
        Upd_ADD \<Rightarrow> Some (wrap32 (old + val))
      | Upd_SUB \<Rightarrow> Some (wrap32 (old - val))
      | Upd_DIV \<Rightarrow> if val = 0 \<or> (old = - (2 ^ 31) \<and> val = -1) then None else Some (old sdiv val)
      | Upd_MUL \<Rightarrow> Some (wrap32 (old * val))
      | _ \<Rightarrow> Some old)"

fun build_int_col :: "update_operation \<Rightarrow> int \<Rightarrow> arrow_value list \<Rightarrow> arrow_value list option" where
  "build_int_col op val [] = Some []"
| "build_int_col op val (v # vs) =
     (case (if op = Upd_REP then Some (AV_INT val)
            else if v = AV_NULL then Some AV_NULL
            else map_option AV_INT (update_int op val (int_value v))) of
        None \<Rightarrow> None
      | Some w \<Rightarrow> map_option (Cons w) (build_int_col op val vs))"

text \<open>\<open>arith op val old\<close> is the text of the result for numbers in text form.\<close>

type_synonym float_ops = "update_operation \<Rightarrow> string \<Rightarrow> string \<Rightarrow> string option"

fun build_string_col :: "float_ops \<Rightarrow> update_operation \<Rightarrow> string \<Rightarrow> arrow_value list \<Rightarrow> arrow_value list option" where
  "build_string_col arith op val [] = Some []"
| "build_string_col arith op val (v # vs) =
     (case (if op = Upd_REP then Some (AV_STRING val)
            else if v = AV_NULL \<or> op = Upd_NONE then Some v
            else map_option AV_STRING (arith op val (string_value v))) of
        None \<Rightarrow> None
      | Some w \<Rightarrow> map_option (Cons w) (build_string_col arith op val vs))"

text \<open>Replacing a column, and all columns of a name by one value.\<close>

definition set_column :: "nat \<Rightarrow> arrow_field \<Rightarrow> arrow_value list \<Rightarrow> arrow_table \<Rightarrow> arrow_table" where
  "set_column i f vs t = t[i := \<lparr>col_field = f, col_chunks = [vs]\<rparr>]"

definition replace_columns :: "string \<Rightarrow> string \<Rightarrow> arrow_table \<Rightarrow> arrow_table" where
  "replace_columns name val t =
     map (\<lambda>c. if same_name (f_name (col_field c)) name
              then \<lparr>col_field = field (f_name (col_field c)) T_STRING,
                    col_chunks = [replicate (num_rows t) (AV_STRING val)]\<rparr>
              else c) t"

definition replace_values :: "(string \<times> string) list \<Rightarrow> arrow_table \<Rightarrow> arrow_table" where
  "replace_values values t = fold (\<lambda>(name, val) t. replace_columns name val t) values t"

definition update_column :: "float_ops \<Rightarrow> update_operation \<Rightarrow> string \<times> string \<Rightarrow> arrow_table \<Rightarrow> arrow_table option" where
  "update_column arith op nv t =
     (case first_index (\<lambda>c. same_name (f_name (col_field c)) (fst nv)) t of
        None \<Rightarrow> Some t
      | Some i \<Rightarrow>
          (let name = f_name (col_field (t ! i)); vs = col_values (t ! i)
           in case f_type (col_field (t ! i)) of
                T_STRING \<Rightarrow>
                  map_option (\<lambda>ws. set_column i (field name T_STRING) ws t) (build_string_col arith op (snd nv) vs)
              | T_INT32 \<Rightarrow>
                  (case stoi (snd nv) of
                     None \<Rightarrow> None
                   | Some n \<Rightarrow> map_option (\<lambda>ws. set_column i (field name T_INT32) ws t) (build_int_col op n vs))
              | _ \<Rightarrow> Some t))"

fun update_columns :: "float_ops \<Rightarrow> update_operation \<Rightarrow> (string \<times> string) list \<Rightarrow> arrow_table \<Rightarrow> arrow_table option" where
  "update_columns arith op [] t = Some t"
| "update_columns arith op (nv # nvs) t = Option.bind (update_column arith op nv t) (update_columns arith op nvs)"

section \<open>Executing a step\<close>

text \<open>Rows of a key as a new data file (\<open>write_rows\<close>), and the removal of the rows found, once per file.\<close>

definition write_rows ::
    "sys \<Rightarrow> parquet \<Rightarrow> data_ops \<Rightarrow> nat \<Rightarrow> nat \<Rightarrow> arrow_table \<Rightarrow> manager \<Rightarrow> (bool \<times> manager) option" where
  "write_rows sy pq ops fuel i rows m =
     (case conform_for_write sy ops (tables m ! i) (Some rows) of
        None \<Rightarrow> Some (False, m)
      | Some rows \<Rightarrow>
          (let encoded = encodeAsParquet pq rows
           in case new_data_file_path ops fuel (tables m ! i) m of
                None \<Rightarrow> None
              | Some (path, m) \<Rightarrow>
                  (let (ok, m) = with_conn (mc_write path encoded) m
                   in if \<not> ok then Some (False, m)
                      else Some (True, register_created_file i (written_stats ops path encoded rows u32_max) False m))))"

fun remove_found_from ::
    "sys \<Rightarrow> parquet \<Rightarrow> data_ops \<Rightarrow> nat \<Rightarrow> nat \<Rightarrow> key_file list \<Rightarrow> manager \<Rightarrow> (bool \<times> manager) option" where
  "remove_found_from sy pq ops fuel i [] m = Some (True, m)"
| "remove_found_from sy pq ops fuel i (file # files) m =
     (if kf_path file \<in> set (retired_files m) then remove_found_from sy pq ops fuel i files m
      else case remove_key_rows sy pq ops fuel i file u32_max False (m\<lparr>retired_files := kf_path file # retired_files m\<rparr>) of
             None \<Rightarrow> None
           | Some (False, m) \<Rightarrow> Some (False, m)
           | Some (True, m) \<Rightarrow> remove_found_from sy pq ops fuel i files m)"

definition remove_found_rows ::
    "sys \<Rightarrow> parquet \<Rightarrow> data_ops \<Rightarrow> nat \<Rightarrow> nat \<Rightarrow> manager \<Rightarrow> (bool \<times> manager) option" where
  "remove_found_rows sy pq ops fuel i m = remove_found_from sy pq ops fuel i (found_files m) m"

definition update_index :: "string \<Rightarrow> nat \<Rightarrow> nat option" where
  "update_index argument limit =
     (if length argument < 6 then None
      else case stoul (drop 6 argument) of Some idx \<Rightarrow> if idx < limit then Some idx else None | None \<Rightarrow> None)"

definition names_found :: "string \<Rightarrow> bool" where "names_found argument \<longleftrightarrow> find_sub ''found'' argument \<noteq> None"

text \<open>A step on a file: the log takes the operation, and the write set only changes where it has the file.\<close>

definition redo_file :: "dl_operation \<Rightarrow> string \<Rightarrow> table_stats \<Rightarrow> table_stats" where
  "redo_file op path t =
     t\<lparr>t_delta_log := snd (register_operation op path True True (t_delta_log t)),
       t_created_files := set_valid (op = ADD) path (t_created_files t),
       t_deleted_files := set_valid (op = DELETE) path (t_deleted_files t)\<rparr>"

definition count_redo :: "manager \<Rightarrow> manager" where "count_redo m = m\<lparr>times_redo := u32 (times_redo m + 1)\<rparr>"

definition step_search ::
    "sys \<Rightarrow> parquet \<Rightarrow> data_ops \<Rightarrow> nat \<Rightarrow> string \<Rightarrow> manager \<Rightarrow> bool \<times> manager" where
  "step_search sy pq ops i key m =
     (case with_conn (find_key_files sy pq ops (tables m ! i) key True u32_max) m of
        (None, m) \<Rightarrow> (False, m)
      | (Some files, m) \<Rightarrow>
          (True, m\<lparr>found := (key, case files of [] \<Rightarrow> [] | f # _ \<Rightarrow> kf_path f),
                   found_files := files, retired_files := []\<rparr>))"

definition step_add ::
    "sys \<Rightarrow> parquet \<Rightarrow> data_ops \<Rightarrow> nat \<Rightarrow> nat \<Rightarrow> string \<Rightarrow> manager \<Rightarrow> (bool \<times> manager) option" where
  "step_add sy pq ops fuel i argument m =
     (if \<not> names_found argument then Some (True, on_table i (redo_file ADD argument) m)
      else case both (update_index argument (length (update_vals m))) (key_rows ops (found_files m)) of
             None \<Rightarrow> Some (False, m)
           | Some (idx, rows) \<Rightarrow> write_rows sy pq ops fuel i (replace_values (update_vals m ! idx) rows) m)"

definition step_update ::
    "sys \<Rightarrow> parquet \<Rightarrow> data_ops \<Rightarrow> float_ops \<Rightarrow> nat \<Rightarrow> nat \<Rightarrow> string \<Rightarrow> manager \<Rightarrow> (bool \<times> manager) option" where
  "step_update sy pq ops arith fuel i argument m =
     (if \<not> names_found argument then Some (True, on_table i (redo_file ADD argument) m)
      else case both (update_index argument (min (length (update_vals m)) (length (update_ops m))))
                     (key_rows ops (found_files m)) of
             None \<Rightarrow> Some (False, m)
           | Some (idx, rows) \<Rightarrow>
               (case update_columns arith (update_ops m ! idx) (update_vals m ! idx) rows of
                  None \<Rightarrow> None
                | Some rows \<Rightarrow>
                    (case write_rows sy pq ops fuel i rows m of
                       None \<Rightarrow> None
                     | Some (False, m) \<Rightarrow> Some (False, m)
                     | Some (True, m) \<Rightarrow> remove_found_rows sy pq ops fuel i m)))"

definition step_delete ::
    "sys \<Rightarrow> parquet \<Rightarrow> data_ops \<Rightarrow> nat \<Rightarrow> nat \<Rightarrow> string \<Rightarrow> manager \<Rightarrow> (bool \<times> manager) option" where
  "step_delete sy pq ops fuel i argument m =
     (if names_found argument then remove_found_rows sy pq ops fuel i m
      else Some (True, on_table i (redo_file DELETE argument) m))"

text \<open>\<open><table id> <command> <argument>\<close>\<close>

definition parse_step :: "string \<Rightarrow> manager \<Rightarrow> (nat \<times> char \<times> string) option" where
  "parse_step s m =
     (case find_sub '' '' s of
        None \<Rightarrow> None
      | Some pos \<Rightarrow>
          if length s \<le> pos + 1 then None
          else (case stoul (take pos s) of
                  None \<Rightarrow> None
                | Some n \<Rightarrow>
                    (let command = drop (pos + 1) s
                     in if length (tables m) \<le> u32 n then None
                        else Some (u32 n, hd command, if 2 < length command then drop 2 command else []))))"

definition execute_reroll_step ::
    "sys \<Rightarrow> parquet \<Rightarrow> data_ops \<Rightarrow> float_ops \<Rightarrow> nat \<Rightarrow> string \<Rightarrow> manager \<Rightarrow> (bool \<times> manager) option" where
  "execute_reroll_step sy pq ops arith fuel s m =
     (case parse_step s m of
        None \<Rightarrow> Some (False, m)
      | Some (i, command, argument) \<Rightarrow>
          if command = CHR ''r'' then Some (True, m\<lparr>conn := snd (mc_read2 argument (conn m))\<rparr>)
          else if command = CHR ''s'' then Some (step_search sy pq ops i argument m)
          else if command = CHR ''o'' then Some (True, m\<lparr>found := ([], argument)\<rparr>)
          else if command = CHR ''a'' then step_add sy pq ops fuel i argument (count_redo m)
          else if command = CHR ''e'' then step_update sy pq ops arith fuel i argument (count_redo m)
          else if command = CHR ''d'' then step_delete sy pq ops fuel i argument (count_redo m)
          else Some (False, m))"

section \<open>Redo\<close>

text \<open>The first line of a step's object; an object that cannot be read is skipped.\<close>

fun redo_steps ::
    "sys \<Rightarrow> parquet \<Rightarrow> data_ops \<Rightarrow> float_ops \<Rightarrow> nat \<Rightarrow> nat list \<Rightarrow> manager \<Rightarrow> (bool \<times> manager) option" where
  "redo_steps sy pq ops arith fuel [] m = Some (True, m)"
| "redo_steps sy pq ops arith fuel (step # steps) m =
     (case with_conn (mc_read2 (sublog_name (working_dir m) step)) m of
        (None, m) \<Rightarrow> redo_steps sy pq ops arith fuel steps m
      | (Some content, m) \<Rightarrow>
          (case execute_reroll_step sy pq ops arith fuel (takeWhile (\<lambda>c. c \<noteq> newline) content) m of
             None \<Rightarrow> None
           | Some (False, m) \<Rightarrow> Some (False, m)
           | Some (True, m) \<Rightarrow> redo_steps sy pq ops arith fuel steps m))"

definition redo ::
    "sys \<Rightarrow> parquet \<Rightarrow> data_ops \<Rightarrow> float_ops \<Rightarrow> nat \<Rightarrow> nat \<Rightarrow> manager \<Rightarrow> (bool \<times> manager) option" where
  "redo sy pq ops arith fuel at_step m = redo_steps sy pq ops arith fuel [at_step..<next_step m] m"

end
