(* ===== verification/Commits.thy ===== *)
theory Commits
  imports Redo GlobalLog
begin

text \<open>
  Committing a transaction (\<open>commit\<close> and its helpers in \<open>ManagerDeltaLake.cpp\<close>): waiting for the markers seen when
  the tables were opened, moving to later versions when a lease ends, detecting conflicts, redoing the logged
  operations, validating against the global log and writing the commits.  A round of the loop is one function; the
  loop takes fuel, one unit per round.  \<open>None\<close> is the end of a fuel, an exception or a null pointer that is followed.
\<close>

text \<open>What a commit uses of the outside: the parameters of the other theories, the fuel of the loops inside a round,
  and by round the random number of the lock token and the readings of the steady clock.\<close>

record services =
  sv_sys :: sys
  sv_parquet :: parquet
  sv_ops :: data_ops
  sv_arith :: float_ops
  sv_fuel :: nat
  sv_random :: "nat \<Rightarrow> nat"
  sv_steady :: "nat \<Rightarrow> nat \<Rightarrow> int"

section \<open>Conflicts\<close>

definition changed :: "table_stats \<Rightarrow> bool" where
  "changed t \<longleftrightarrow> \<not> (t_created_files t = [] \<and> t_deleted_files t = [])"

definition can_redo :: "manager \<Rightarrow> bool" where "can_redo m \<longleftrightarrow> \<not> explicit_log m \<and> level0 m"

definition has_deletes :: "manager \<Rightarrow> bool" where
  "has_deletes m = list_ex (\<lambda>t. list_ex (\<lambda>(path, f). fs_valid f) (t_deleted_files t)) (tables m)"

definition has_read_conflict :: "manager \<Rightarrow> bool" where
  "has_read_conflict m = list_ex (\<lambda>t. t_was_read t \<and> t_concurrent_change t) (tables m)"

definition has_write_conflict :: "manager \<Rightarrow> bool" where
  "has_write_conflict m =
     list_ex (\<lambda>t. list_ex (\<lambda>(path, f). fs_valid f \<and> relative_path path (t_base_path t) \<in> set (t_concurrent_removes t))
                    (t_deleted_files t)) (tables m)"

definition conflicts :: "manager \<Rightarrow> bool" where
  "conflicts m =
     (if isolation (options m) = Serializable then has_read_conflict m \<or> has_write_conflict m
      else has_write_conflict m)"

definition clear_concurrency :: "manager \<Rightarrow> manager" where
  "clear_concurrency m =
     m\<lparr>tables := map (\<lambda>t. t\<lparr>t_concurrent_change := False, t_concurrent_removes := []\<rparr>) (tables m)\<rparr>"

fun collect_versions :: "sys \<Rightarrow> nat \<Rightarrow> nat \<Rightarrow> nat \<Rightarrow> nat \<Rightarrow> manager \<Rightarrow> manager option" where
  "collect_versions sy 0 fuel i v m = None"
| "collect_versions sy (Suc n) fuel i v m =
     (let path = version_path (t_base_path (tables m ! i)) v;
          (exists, m) = with_conn (mc_check path) m
      in if \<not> exists then Some m
         else case wait_for_marker sy fuel path m of
                None \<Rightarrow> None
              | Some (_, m) \<Rightarrow>
                  collect_versions sy n fuel i (u32 (v + 1)) (on_table i (\<lambda>t. t\<lparr>t_read_version := v\<rparr>) m))"

fun collect_tables :: "sys \<Rightarrow> nat \<Rightarrow> nat list \<Rightarrow> manager \<Rightarrow> manager option" where
  "collect_tables sy fuel [] m = Some m"
| "collect_tables sy fuel (i # is) m =
     (if \<not> t_was_read (tables m ! i) \<or> changed (tables m ! i) then collect_tables sy fuel is m
      else Option.bind (collect_versions sy fuel fuel i (u32 (t_read_version (tables m ! i) + 1)) m)
             (collect_tables sy fuel is))"

definition collect_unseen_versions :: "sys \<Rightarrow> nat \<Rightarrow> manager \<Rightarrow> manager option" where
  "collect_unseen_versions sy fuel m =
     (if level0 m \<or> level1 m \<or> level2 m \<or> isolation (options m) \<noteq> Serializable then Some m
      else collect_tables sy fuel [0..<length (tables m)] m)"

section \<open>A fresh snapshot for another redo\<close>

definition forget_changes :: "table_stats \<Rightarrow> table_stats" where
  "forget_changes t =
     t\<lparr>t_delta_log := delta_log_new (t_base_path t), t_created_files := [], t_deleted_files := [],
       t_committed := False\<rparr>"

fun rebuild_tables :: "sys \<Rightarrow> parquet \<Rightarrow> nat list \<Rightarrow> manager \<Rightarrow> (bool \<times> manager) option" where
  "rebuild_tables sy pq [] m = Some (True, m)"
| "rebuild_tables sy pq (i # is) m =
     (let m = on_table i forget_changes m;
          base = t_base_path (tables m ! i); version = t_marker_version (tables m ! i)
      in case find_checkpoint sy base (u32 (version + u32_max)) m of
           (Inl e, m) \<Rightarrow> None
         | (Inr info, m) \<Rightarrow>
             (let ((ok, l), m) = parse_checkpoint sy pq base info (t_delta_log (tables m ! i)) m;
                  m = on_table i (\<lambda>t. t\<lparr>t_delta_log := l\<rparr>) m;
                  first = (case ci_version info of Some v \<Rightarrow> u32 (v + 1) | None \<Rightarrow> 0)
              in if \<not> ok then Some (False, m)
                 else let ((ok, l, _), m) = parse_logentries2 sy base u32_max [first..<version] l False m;
                          m = on_table i (\<lambda>t. t\<lparr>t_delta_log := l\<rparr>) m
                      in if \<not> ok then Some (False, m)
                         else rebuild_tables sy pq is (on_table i (\<lambda>t. t\<lparr>t_read_version := u32 (version + u32_max)\<rparr>) m)))"

definition rebuild_state :: "sys \<Rightarrow> parquet \<Rightarrow> manager \<Rightarrow> (bool \<times> manager) option" where
  "rebuild_state sy pq m =
     (case rebuild_tables sy pq [0..<length (tables m)] m of
        None \<Rightarrow> None
      | Some (False, m) \<Rightarrow> Some (False, m)
      | Some (True, m) \<Rightarrow> Some (True, (clear_concurrency m)\<lparr>found := ([], [])\<rparr>))"

section \<open>Waiting and moving\<close>

text \<open>The markers of other transactions; the result is whether none took too long.\<close>

fun wait_prev_markers :: "sys \<Rightarrow> nat \<Rightarrow> string list \<Rightarrow> manager \<Rightarrow> (bool \<times> manager) option" where
  "wait_prev_markers sy fuel [] m = Some (True, m)"
| "wait_prev_markers sy fuel (mk # mks) m =
     (let (exists, m) = with_conn (mc_check mk) m
      in if \<not> exists then wait_prev_markers sy fuel mks m
         else case wait_for_marker sy fuel mk m of
                None \<Rightarrow> None
              | Some (False, m) \<Rightarrow> Some (False, m)
              | Some (True, m) \<Rightarrow> wait_prev_markers sy fuel mks m)"

text \<open>\<open>False\<close>: the transaction has aborted.\<close>

fun wait_markers :: "sys \<Rightarrow> parquet \<Rightarrow> nat \<Rightarrow> nat \<Rightarrow> manager \<Rightarrow> (bool \<times> manager) option" where
  "wait_markers sy pq 0 fuel m = None"
| "wait_markers sy pq (Suc n) fuel m =
     (if \<not> with_markers m then Some (True, m)
      else case wait_prev_markers sy fuel (prev_markers m) m of
             None \<Rightarrow> None
           | Some (True, m) \<Rightarrow> Some (True, m)
           | Some (False, m) \<Rightarrow>
               if \<not> can_redo m \<and> has_deletes m then Some (False, abort_txn sy False m)
               else (case reopen_tables sy pq fuel 2 m of
                       None \<Rightarrow> None
                     | Some (_, m) \<Rightarrow> wait_markers sy pq n fuel m))"

definition shift_table :: "sys \<Rightarrow> nat \<Rightarrow> nat \<Rightarrow> manager \<Rightarrow> manager option" where
  "shift_table sy fuel i m =
     map_option (\<lambda>((_, t), m). set_table i t m) (shift_marker sy fuel (tables m ! i) m)"

text \<open>Tables whose lease ends soon move to a later version; the first result is false when the transaction has aborted.\<close>

fun shift_expiring :: "sys \<Rightarrow> nat \<Rightarrow> nat \<Rightarrow> nat list \<Rightarrow> bool \<Rightarrow> manager \<Rightarrow> ((bool \<times> bool) \<times> manager) option" where
  "shift_expiring sy fuel rounds [] shifted m = Some ((True, shifted), m)"
| "shift_expiring sy fuel rounds (i # is) shifted m =
     (let t = tables m ! i;
          (expiring, m) = (if \<not> t_committed t \<and> changed t then lease_expiring t m else (False, m))
      in if \<not> expiring then shift_expiring sy fuel rounds is shifted m
         else if max_redos (options m) \<le> rounds then Some ((False, shifted), abort_txn sy False m)
         else case shift_table sy fuel i m of
                None \<Rightarrow> None
              | Some m \<Rightarrow> shift_expiring sy fuel rounds is True m)"

text \<open>After a validation that failed: tables whose marker was taken over move.\<close>

fun shift_lost :: "sys \<Rightarrow> nat \<Rightarrow> nat list \<Rightarrow> bool \<Rightarrow> manager \<Rightarrow> (bool \<times> manager) option" where
  "shift_lost sy fuel [] moved m = Some (moved, m)"
| "shift_lost sy fuel (i # is) moved m =
     (let t = tables m ! i
      in if t_committed t \<or> \<not> changed t then shift_lost sy fuel is moved m
         else let ((lost, t), m) = marker_lost t m; m = set_table i t m
              in if \<not> lost then shift_lost sy fuel is moved m
                 else Option.bind (shift_table sy fuel i m) (shift_lost sy fuel is True))"

section \<open>Redo in a commit\<close>

text \<open>With a conflict after a redo the state is rebuilt.  \<open>Some None\<close>: the transaction aborts; otherwise the rounds.
  The result of the redo is not used.\<close>

definition redo_round ::
    "services \<Rightarrow> bool \<Rightarrow> nat \<Rightarrow> bool \<Rightarrow> manager \<Rightarrow> (nat option \<times> manager) option" where
  "redo_round sv conflict rounds redo_done m =
     (let again = (redo_done \<and> conflict)
      in if again \<and> max_redos (options m) \<le> rounds then Some (None, m)
         else case (if again then rebuild_state (sv_sys sv) (sv_parquet sv) m else Some (True, m)) of
                None \<Rightarrow> None
              | Some (False, m) \<Rightarrow> Some (None, m)
              | Some (True, m) \<Rightarrow>
                  (let rounds = (if again then u32 (rounds + 1) else rounds)
                   in if redo_done \<and> \<not> again then Some (Some rounds, m)
                      else map_option (\<lambda>(_, m). (Some rounds, clear_concurrency m))
                             (redo (sv_sys sv) (sv_parquet sv) (sv_ops sv) (sv_arith sv) (sv_fuel sv) 1 m)))"

section \<open>Writing the commits\<close>

datatype write_end = All_written | Write_lost | Write_taken nat | Write_failed

fun write_tables :: "sys \<Rightarrow> nat \<Rightarrow> nat \<Rightarrow> nat list \<Rightarrow> manager \<Rightarrow> (write_end \<times> manager) option" where
  "write_tables sy fuel rounds [] m = Some (All_written, m)"
| "write_tables sy fuel rounds (i # is) m =
     (let t = tables m ! i
      in if t_committed t \<or> \<not> changed t then write_tables sy fuel rounds is m
         else let (now, m) = with_conn local_time_ms m
              in case Option.bind (build_commit_log sy m t now) (\<lambda>log. write_commit t log m) of
                   None \<Rightarrow> None
                 | Some ((r, t), m) \<Rightarrow>
                     (let m = set_table i t m
                      in if r = Commit_Lost
                         then (if rounds < max_redos (options m)
                               then map_option (\<lambda>m. (Write_lost, m)) (shift_table sy fuel i m)
                               else Some (Write_lost, m))
                         else if r = Commit_Taken \<and> can_repair_global_log m then Some (Write_taken i, m)
                         else if r \<noteq> Commit_Ok then Some (Write_failed, m)
                         else write_tables sy fuel rounds is (on_table i (\<lambda>t. t\<lparr>t_committed := True\<rparr>) m)))"

text \<open>Versions reserved for tables that were not changed are released; a marker that could not be released stays valid.\<close>

fun release_reserved :: "sys \<Rightarrow> table_stats list \<Rightarrow> connector \<Rightarrow> table_stats list \<times> connector" where
  "release_reserved sy [] c = ([], c)"
| "release_reserved sy (t # ts) c =
     (let (t, c) = (case t_marker t of
                      None \<Rightarrow> (t, c)
                    | Some mk \<Rightarrow>
                        if marker_valid mk
                        then let ((_, mk), c) = release sy mk c in (t\<lparr>t_marker := Some mk\<rparr>, c)
                        else (t, c));
          (ts, c) = release_reserved sy ts c
      in (t # ts, c))"

section \<open>A round\<close>

text \<open>The state of the loop: rounds used, whether the redo was done, and the failed claims of a version.\<close>

record commit_state =
  cm_rounds :: nat
  cm_redo_done :: bool
  cm_claim_failures :: nat

datatype round_end = Next commit_state | Stop bool

definition finish_taken ::
    "services \<Rightarrow> nat \<Rightarrow> commit_state \<Rightarrow> manager \<Rightarrow> (round_end \<times> manager) option" where
  "finish_taken sv i cm m =
     (let cm = cm\<lparr>cm_claim_failures := u32 (cm_claim_failures cm + 1)\<rparr>;
          due = (global_log_repair_after (options m) \<le> cm_claim_failures cm)
      in case (if due then repair_global_log (sv_sys sv) (sv_fuel sv) i m else Some (False, m)) of
           None \<Rightarrow> None
         | Some (repaired, m) \<Rightarrow>
             (let m = release_global_lock m
              in if \<not> repaired \<and> due then Some (Stop False, abort_txn (sv_sys sv) False m)
                 else Some (Next cm, m)))"

definition finish_lost :: "services \<Rightarrow> commit_state \<Rightarrow> manager \<Rightarrow> round_end \<times> manager" where
  "finish_lost sv cm m =
     (let m = release_global_lock m
      in if max_redos (options m) \<le> cm_rounds cm then (Stop False, abort_txn (sv_sys sv) False m)
         else (Next (cm\<lparr>cm_rounds := u32 (cm_rounds cm + 1)\<rparr>), m))"

definition finish_written :: "services \<Rightarrow> version_map \<Rightarrow> version_map \<Rightarrow> manager \<Rightarrow> round_end \<times> manager" where
  "finish_written sv vr vw m =
     (let m = snd (create_global_snapshot vr vw m);
          (ts, c) = release_reserved (sv_sys sv) (tables m) (conn m)
      in (Stop True, m\<lparr>tables := ts, conn := c\<rparr>))"

definition write_round ::
    "services \<Rightarrow> version_map \<Rightarrow> version_map \<Rightarrow> commit_state \<Rightarrow> manager \<Rightarrow> (round_end \<times> manager) option" where
  "write_round sv vr vw cm m =
     (case write_tables (sv_sys sv) (sv_fuel sv) (cm_rounds cm) [0..<length (tables m)] m of
        None \<Rightarrow> None
      | Some (Write_taken i, m) \<Rightarrow> finish_taken sv i cm m
      | Some (Write_lost, m) \<Rightarrow> Some (finish_lost sv cm m)
      | Some (Write_failed, m) \<Rightarrow> Some (Stop False, abort_txn (sv_sys sv) False (release_global_lock m))
      | Some (All_written, m) \<Rightarrow> Some (finish_written sv vr vw m))"

text \<open>A validation that failed.\<close>

definition invalid_round ::
    "services \<Rightarrow> validation \<Rightarrow> commit_state \<Rightarrow> manager \<Rightarrow> (round_end \<times> manager) option" where
  "invalid_round sv v cm m =
     (let m = (if v = Invalid then release_global_lock m else m)
      in case (if v = Invalid \<and> with_markers m \<and> cm_rounds cm < max_redos (options m)
               then shift_lost (sv_sys sv) (sv_fuel sv) [0..<length (tables m)] False m else Some (False, m)) of
           None \<Rightarrow> None
         | Some (True, m) \<Rightarrow> Some (Next (cm\<lparr>cm_rounds := u32 (cm_rounds cm + 1)\<rparr>), m)
         | Some (False, m) \<Rightarrow>
             (let aborted = abort_txn (sv_sys sv) False m
              in if v = Invalid \<and> level0 m \<and> level2 m \<and> can_redo m
                 then (case reopen_tables (sv_sys sv) (sv_parquet sv) (sv_fuel sv) 2 aborted of
                         None \<Rightarrow> None
                       | Some (ok, m) \<Rightarrow> Some (if ok then Next cm else Stop False, m))
                 else Some (Stop False, aborted)))"

definition validate_round ::
    "services \<Rightarrow> nat \<Rightarrow> commit_state \<Rightarrow> manager \<Rightarrow> (round_end \<times> manager) option" where
  "validate_round sv n cm m =
     (case start_validation (sv_fuel sv) (sv_random sv n) (sv_steady sv n) [] [] [] m of
        None \<Rightarrow> None
      | Some ((v, vr, vw, _), m) \<Rightarrow>
          if v = Valid then write_round sv vr vw cm m else invalid_round sv v cm m)"

text \<open>A round up to the validation.\<close>

definition commit_round ::
    "services \<Rightarrow> nat \<Rightarrow> commit_state \<Rightarrow> manager \<Rightarrow> (round_end \<times> manager) option" where
  "commit_round sv n cm m =
     (case wait_markers (sv_sys sv) (sv_parquet sv) (sv_fuel sv) (sv_fuel sv) m of
        None \<Rightarrow> None
      | Some (False, m) \<Rightarrow> Some (Stop False, m)
      | Some (True, m) \<Rightarrow>
     (case shift_expiring (sv_sys sv) (sv_fuel sv) (cm_rounds cm) [0..<length (tables m)] False m of
        None \<Rightarrow> None
      | Some ((False, _), m) \<Rightarrow> Some (Stop False, m)
      | Some ((True, True), m) \<Rightarrow> Some (Next (cm\<lparr>cm_rounds := u32 (cm_rounds cm + 1)\<rparr>), m)
      | Some ((True, False), m) \<Rightarrow>
     (case collect_unseen_versions (sv_sys sv) (sv_fuel sv) m of
        None \<Rightarrow> None
      | Some m \<Rightarrow>
          if can_redo m
          then (case redo_round sv (conflicts m) (cm_rounds cm) (cm_redo_done cm) m of
                  None \<Rightarrow> None
                | Some (None, m) \<Rightarrow> Some (Stop False, abort_txn (sv_sys sv) False m)
                | Some (Some rounds, m) \<Rightarrow>
                    validate_round sv n (cm\<lparr>cm_rounds := rounds, cm_redo_done := True\<rparr>) m)
          else if conflicts m then Some (Stop False, abort_txn (sv_sys sv) False m)
          else validate_round sv n cm m)))"

section \<open>The commit\<close>

fun commit_rounds :: "services \<Rightarrow> nat \<Rightarrow> commit_state \<Rightarrow> manager \<Rightarrow> (bool \<times> manager) option" where
  "commit_rounds sv 0 cm m = None"
| "commit_rounds sv (Suc n) cm m =
     (case commit_round sv n cm m of
        None \<Rightarrow> None
      | Some (Stop valid, m) \<Rightarrow> Some (valid, m)
      | Some (Next cm, m) \<Rightarrow> commit_rounds sv n cm m)"

text \<open>The version written for a table, from the path of its marker.\<close>

definition committed_version :: "table_stats \<Rightarrow> cxx_exception + nat option" where
  "committed_version t =
     (case t_marker t of Some mk \<Rightarrow> if t_committed t then parse_log_version (marker_path mk) else Inr None | None \<Rightarrow> Inr None)"

fun write_checkpoints :: "services \<Rightarrow> 'd float_unit \<Rightarrow> nat list \<Rightarrow> manager \<Rightarrow> manager option" where
  "write_checkpoints sv fu [] m = Some m"
| "write_checkpoints sv fu (i # is) m =
     (case committed_version (tables m ! i) of
        Inl e \<Rightarrow> None
      | Inr None \<Rightarrow> write_checkpoints sv fu is m
      | Inr (Some version) \<Rightarrow>
          (case checkpoint_after_commit (sv_sys sv) fu (sv_parquet sv) (tables m ! i) (u32 version) m of
             (Inl e, m) \<Rightarrow> None
           | (Inr _, m) \<Rightarrow> write_checkpoints sv fu is m))"

definition commit :: "services \<Rightarrow> 'd float_unit \<Rightarrow> nat \<Rightarrow> bool \<Rightarrow> manager \<Rightarrow> (bool \<times> manager) option" where
  "commit sv fu n read_only m =
     (if read_only then Some (True, abort_txn (sv_sys sv) True m)
      else case commit_rounds sv n \<lparr>cm_rounds = 0, cm_redo_done = False, cm_claim_failures = 0\<rparr>
                  (m\<lparr>tables := map (\<lambda>t. t\<lparr>t_committed := False\<rparr>) (tables m)\<rparr>) of
             None \<Rightarrow> None
           | Some (valid, m) \<Rightarrow>
               (let m = clear_subdirectory m
                in if valid \<and> checkpoints (options m)
                   then map_option (\<lambda>m. (True, m)) (write_checkpoints sv fu [0..<length (tables m)] m)
                   else Some (valid, m)))"

end
