(* ===== verification/Frames.thy ===== *)
theory Frames
  imports Commits
begin

text \<open>
  What the operations inside a commit leave alone.  The view of a commit is the write sets of the tables, which
  of them are committed, the options and the levels; waiting, moving, reopening and validating keep it.
\<close>

definition write_set :: "table_stats \<Rightarrow> string \<times> (string \<times> file_stats) list \<times> (string \<times> file_stats) list \<times> bool" where
  "write_set t = (t_base_path t, t_created_files t, t_deleted_files t, t_committed t)"

definition commit_view where
  "commit_view m = (map write_set (tables m), options m, level0 m, level1 m, level2 m)"

named_theorems view_simps "operations that keep the view of a commit"

lemma write_set_update [view_simps]:
  "write_set (t\<lparr>t_delta_log := l\<rparr>) = write_set t" "write_set (t\<lparr>t_marker := mk\<rparr>) = write_set t"
  "write_set (t\<lparr>t_marker_version := v\<rparr>) = write_set t" "write_set (t\<lparr>t_read_version := v\<rparr>) = write_set t"
  "write_set (t\<lparr>t_concurrent_change := b\<rparr>) = write_set t" "write_set (t\<lparr>t_concurrent_removes := ps\<rparr>) = write_set t"
  "write_set (t\<lparr>t_file_num := n\<rparr>) = write_set t" "write_set (t\<lparr>t_in_bytes := n\<rparr>) = write_set t"
  "write_set (t\<lparr>t_out_bytes := n\<rparr>) = write_set t"
  by (simp_all add: write_set_def)

lemma commit_view_update [view_simps]:
  "commit_view (m\<lparr>conn := c\<rparr>) = commit_view m" "commit_view (m\<lparr>global_lock_token := tk\<rparr>) = commit_view m"
  "commit_view (m\<lparr>prev_markers := ps\<rparr>) = commit_view m" "commit_view (m\<lparr>local_log := ll\<rparr>) = commit_view m"
  "commit_view (m\<lparr>relation := r\<rparr>) = commit_view m" "commit_view (m\<lparr>explicit_log := b\<rparr>) = commit_view m"
  "commit_view (m\<lparr>found := f\<rparr>) = commit_view m" "commit_view (m\<lparr>found_files := ff\<rparr>) = commit_view m"
  "commit_view (m\<lparr>retired_files := rf\<rparr>) = commit_view m" "commit_view (m\<lparr>times_redo := n\<rparr>) = commit_view m"
  by (simp_all add: commit_view_def)

lemma map_update_same: "f x = f (xs ! i) \<Longrightarrow> map f (xs[i := x]) = map f xs"
proof (cases "i < length xs")
  assume f: "f x = f (xs ! i)"
  case True
  with f show ?thesis by (metis list_update_id map_update)
qed (simp add: list_update_beyond)

lemma commit_view_set_table:
  "write_set t = write_set (tables m ! i) \<Longrightarrow> commit_view (set_table i t m) = commit_view m"
  by (simp add: commit_view_def set_table_def map_update_same)

lemma with_conn_frame: "with_conn f m = (r, m') \<Longrightarrow> \<exists>c. m' = m\<lparr>conn := c\<rparr>"
  by (auto simp: with_conn_def split: prod.splits)

lemma retry_frame:
  "read_retry p m = (r, m') \<Longrightarrow> \<exists>c. m' = m\<lparr>conn := c\<rparr>"
  "list_retry p m = (r', m') \<Longrightarrow> \<exists>c. m' = m\<lparr>conn := c\<rparr>"
  by (simp_all add: read_retry_def list_retry_def with_conn_frame)

lemma conn_trans: "m1 = m\<lparr>conn := c1\<rparr> \<Longrightarrow> m2 = m1\<lparr>conn := c2\<rparr> \<Longrightarrow> m2 = m\<lparr>conn := c2\<rparr>"
  by simp

section \<open>Reading the log\<close>

lemma parseEntry_view: "parseEntry sy v l k m = (x, m') \<Longrightarrow> commit_view m' = commit_view m \<and> tables m' = tables m"
  by (auto simp: parseEntry_def Let_def view_simps split: option.splits if_splits)

lemma parse_lines_view:
  "parse_lines sy p s vs l deps m = (x, m') \<Longrightarrow> commit_view m' = commit_view m \<and> tables m' = tables m"
proof (induction vs arbitrary: l deps m)
  case (Cons v vs)
  obtain dep l1 m1 where p: "parseEntry sy v l s m = ((dep, l1), m1)" by (metis surj_pair)
  note f = parseEntry_view [OF p]
  show ?case
  proof (cases "dep = u32_max")
    case True
    with Cons.prems p Cons.IH [of l1 deps m1] f show ?thesis by simp
  next
    case False
    with Cons.prems p f show ?thesis by (auto simp: view_simps Let_def split: if_splits prod.splits)
  qed
qed simp

lemma parse_logentries2_view:
  "parse_logentries2 sy b mx ss l deps m = (x, m') \<Longrightarrow> commit_view m' = commit_view m \<and> tables m' = tables m"
proof (induction ss arbitrary: l deps m)
  case (Cons s ss)
  show ?case
  proof (cases "s \<le> mx")
    case True
    obtain r m1 where r: "read_retry (version_path b s) m = (r, m1)" by (metis surj_pair)
    from retry_frame(1) [OF r] obtain c where m1: "m1 = m\<lparr>conn := c\<rparr>" by blast
    show ?thesis
    proof (cases r)
      case None
      with Cons.prems True r m1 show ?thesis by (auto simp: Let_def view_simps)
    next
      case (Some content)
      obtain l2 d2 m2 where p: "parse_lines sy (version_path b s) s (json_objects (sy_parse sy) content) l deps m1
          = ((l2, d2), m2)" by (metis surj_pair)
      from Cons.prems True r Some p have "parse_logentries2 sy b mx ss l2 d2 m2 = (x, m')" by (simp add: Let_def)
      from Cons.IH [OF this] parse_lines_view [OF p] m1 show ?thesis by (simp add: view_simps)
    qed
  next
    case False
    with Cons.prems have "parse_logentries2 sy b mx ss l deps
        (if with_markers m then m\<lparr>prev_markers := prev_markers m @ [version_path b s]\<rparr> else m) = (x, m')"
      by (simp add: Let_def)
    from Cons.IH [OF this] show ?thesis by (auto simp: view_simps split: if_splits)
  qed
qed simp

lemma read_last_checkpoint_frame: "read_last_checkpoint sy b m = (r, m') \<Longrightarrow> \<exists>c. m' = m\<lparr>conn := c\<rparr>"
  by (auto simp: read_last_checkpoint_def split: prod.splits if_splits option.splits
      dest!: with_conn_frame retry_frame)

lemma find_checkpoint_frame: "find_checkpoint sy b mx m = (r, m') \<Longrightarrow> \<exists>c. m' = m\<lparr>conn := c\<rparr>"
  by (auto simp: find_checkpoint_def split: prod.splits if_splits option.splits
      dest!: read_last_checkpoint_frame retry_frame)

lemma parse_checkpoint_files_frame:
  "parse_checkpoint_files sy pq v fs l m = (r, m') \<Longrightarrow> \<exists>c. m' = m\<lparr>conn := c\<rparr>"
proof (induction fs arbitrary: l m)
  case Nil
  then have "m' = m\<lparr>conn := conn m\<rparr>" by simp
  then show ?case ..
next
  case (Cons f fs)
  obtain r1 m1 where r: "read_retry f m = (r1, m1)" by (metis surj_pair)
  with retry_frame(1) obtain c where m1: "m1 = m\<lparr>conn := c\<rparr>" by blast
  from Cons.prems r have "m' = m1 \<or> (\<exists>l. parse_checkpoint_files sy pq v fs l m1 = (r, m'))"
    by (auto split: option.splits)
  with Cons.IH m1 show ?case by fastforce
qed

lemma parse_checkpoint_frame: "parse_checkpoint sy pq b info l m = (r, m') \<Longrightarrow> \<exists>c. m' = m\<lparr>conn := c\<rparr>"
proof (cases "ci_version info")
  case None
  assume "parse_checkpoint sy pq b info l m = (r, m')"
  with None have "m' = m\<lparr>conn := conn m\<rparr>" by (simp add: parse_checkpoint_def)
  then show ?thesis ..
qed (simp add: parse_checkpoint_def parse_checkpoint_files_frame)

section \<open>Markers\<close>

lemma assign_marker_view: "assign_marker sy mk t c = (t', c') \<Longrightarrow> write_set t' = write_set t"
  by (auto simp: assign_marker_def view_simps)

lemma register_version_view: "write_set (t\<lparr>t_marker := mk, t_marker_version := v, t_delta_log := l\<rparr>) = write_set t"
  by (simp add: view_simps)

lemma reserve_version_view:
  "reserve_version sy n t h m = Some ((r, t', h'), m') \<Longrightarrow> write_set t' = write_set t \<and> (\<exists>c. m' = m\<lparr>conn := c\<rparr>)"
proof (induction n arbitrary: t h m)
  case (Suc n)
  let ?v = "u32 (h + 1)"
  show ?case
  proof (cases "with_markers m")
    case True
    obtain ex c1 where c1: "mc_check (version_path (t_base_path t) ?v) (conn m) = (ex, c1)" by (metis surj_pair)
    show ?thesis
    proof (cases ex)
      case True
      with Suc.prems \<open>with_markers m\<close> c1 have "reserve_version sy n t ?v (m\<lparr>conn := c1\<rparr>) = Some ((r, t', h'), m')"
        by (simp add: Let_def)
      from Suc.IH [OF this] show ?thesis by auto
    next
      case False
      obtain now c2 where c2: "store_time c1 = (now, c2)" by (metis surj_pair)
      obtain hn c3 where c3: "local_time_ms c2 = (hn, c3)" by (metis surj_pair)
      let ?d = "now_ms now + int (marker_lease_ms (options m))"
      obtain st et c4 where c4: "mc_write_atomic (version_path (t_base_path t) ?v)
          (createHeaderMarker sy m hn @ newline # createMarkerEntry sy m ?d) c3 = ((st, et), c4)" by (metis surj_pair)
      note s = Suc.prems [simplified, unfolded Let_def, simplified]
      consider "reserve_version sy n t h (m\<lparr>conn := c4\<rparr>) = Some ((r, t', h'), m')"
        | "reserve_version sy n t ?v (m\<lparr>conn := c4\<rparr>) = Some ((r, t', h'), m')"
        | "\<exists>mk c t1. assign_marker sy mk t c4 = (t1, c) \<and> t' = t1\<lparr>t_marker_version := ?v\<rparr> \<and> m' = m\<lparr>conn := c\<rparr>"
        using Suc.prems \<open>with_markers m\<close> False c1 c2 c3 c4
        by (cases st) (auto simp: Let_def split: prod.splits)
      then show ?thesis
      proof cases
        case 1
        from Suc.IH [OF this] show ?thesis by auto
      next
        case 2
        from Suc.IH [OF this] show ?thesis by auto
      next
        case 3
        then show ?thesis by (auto simp: view_simps dest: assign_marker_view)
      qed
    qed
  next
    case False
    with Suc.prems show ?thesis
      by (auto simp: Let_def view_simps split: prod.splits dest: assign_marker_view)
  qed
qed simp

lemma lease_expiring_frame: "lease_expiring t m = (r, m') \<Longrightarrow> \<exists>c. m' = m\<lparr>conn := c\<rparr>"
proof -
  assume "lease_expiring t m = (r, m')"
  then have "m' = m \<or> (\<exists>c. m' = m\<lparr>conn := c\<rparr>)"
    by (auto simp: lease_expiring_def Let_def split: option.splits if_splits prod.splits)
  then show ?thesis by (metis manager.surjective manager.update_convs(1))
qed

lemma marker_lost_view:
  "marker_lost t m = ((r, t'), m') \<Longrightarrow> write_set t' = write_set t \<and> commit_view m' = commit_view m \<and> tables m' = tables m"
  by (auto simp: marker_lost_def Let_def view_simps split: option.splits if_splits prod.splits)

lemma shift_marker_view:
  "shift_marker sy n t m = Some ((r, t'), m') \<Longrightarrow> write_set t' = write_set t \<and> commit_view m' = commit_view m \<and> tables m' = tables m"
  by (auto simp: shift_marker_def Let_def view_simps split: option.splits if_splits prod.splits
      dest!: reserve_version_view)

lemma shift_table_view: "shift_table sy n i m = Some m' \<Longrightarrow> commit_view m' = commit_view m"
proof -
  assume "shift_table sy n i m = Some m'"
  then obtain r t m1 where s: "shift_marker sy n (tables m ! i) m = Some ((r, t), m1)" "m' = set_table i t m1"
    by (auto simp: shift_table_def)
  from shift_marker_view [OF s(1)] s(2) show ?thesis by (simp add: commit_view_set_table)
qed

section \<open>Waiting\<close>

lemma apply_waited_view:
  "apply_waited sy v j (t, m) = (t', m') \<Longrightarrow> write_set t' = write_set t \<and> commit_view m' = commit_view m \<and> tables m' = tables m"
  by (auto simp: apply_waited_def Let_def view_simps split: option.splits if_splits prod.splits dest!: parseEntry_view)

lemma fold_waited_view:
  "fold (apply_waited sy v) js (t, m) = (t', m') \<Longrightarrow> write_set t' = write_set t \<and> commit_view m' = commit_view m \<and> tables m' = tables m"
proof (induction js arbitrary: t m)
  case (Cons j js)
  obtain t1 m1 where a: "apply_waited sy v j (t, m) = (t1, m1)" by (metis surj_pair)
  with Cons.prems have "fold (apply_waited sy v) js (t1, m1) = (t', m')" by simp
  from Cons.IH [OF this] apply_waited_view [OF a] show ?case by simp
qed simp

lemma finish_wait_view: "finish_wait sy p js m = Some (r, m') \<Longrightarrow> commit_view m' = commit_view m"
proof -
  assume f: "finish_wait sy p js m = Some (r, m')"
  show ?thesis
  proof (cases "parse_log_version p")
    case (Inl e)
    with f show ?thesis by (auto simp: finish_wait_def Let_def split: if_splits)
  next
    case (Inr ln)
    let ?i = "marker_table_id p m" and ?v = "u32 (case ln of Some v \<Rightarrow> v | None \<Rightarrow> 0)"
    obtain t1 m1 where t1: "fold (apply_waited sy ?v) js (tables m ! ?i, m) = (t1, m1)" by (metis surj_pair)
    note w = fold_waited_view [OF t1]
    then have "commit_view (if js = [] then m1 else set_table ?i t1 m1) = commit_view m"
      by (simp add: commit_view_set_table)
    with f Inr t1 show ?thesis
      by (auto simp: finish_wait_def Let_def view_simps split: if_splits)
  qed
qed

lemma wait_loop_view: "wait_loop sy n start p m = Some (r, m') \<Longrightarrow> commit_view m' = commit_view m"
proof (induction n arbitrary: m)
  case (Suc n)
  obtain ct ver c1 where c1: "mc_read_versioned p (conn m) = ((ct, ver), c1)" by (metis surj_pair)
  let ?m1 = "m\<lparr>conn := c1\<rparr>"
  show ?case
  proof (cases ct)
    case None
    with Suc.prems c1 show ?thesis by (auto simp: Let_def view_simps)
  next
    case (Some tx)
    let ?objs = "json_objects (sy_parse sy) tx"
    show ?thesis
    proof (cases "list_ex is_marker_line ?objs")
      case False
      with Suc.prems c1 Some have "finish_wait sy p ?objs ?m1 = Some (r, m')" by (simp add: Let_def)
      from finish_wait_view [OF this] show ?thesis by (simp add: view_simps)
    next
      case True
      then have "(\<exists>c. m' = m\<lparr>conn := c\<rparr>) \<or> (\<exists>c. wait_loop sy n start p (m\<lparr>conn := c\<rparr>) = Some (r, m'))"
        using Suc.prems c1 Some by (auto simp: Let_def split: prod.splits if_splits)
      then show ?thesis using Suc.IH by (auto simp: view_simps)
    qed
  qed
qed simp

lemma wait_for_marker_view: "wait_for_marker sy n p m = Some (r, m') \<Longrightarrow> commit_view m' = commit_view m"
  by (auto simp: wait_for_marker_def view_simps split: prod.splits dest!: wait_loop_view)

lemma wait_prev_markers_view: "wait_prev_markers sy n ps m = Some (r, m') \<Longrightarrow> commit_view m' = commit_view m"
proof (induction ps arbitrary: m)
  case (Cons p ps)
  obtain ex m1 where c: "with_conn (mc_check p) m = (ex, m1)" by (metis surj_pair)
  then have m1: "commit_view m1 = commit_view m" by (auto simp: view_simps dest!: with_conn_frame)
  show ?case
  proof (cases ex)
    case False
    with Cons.prems c have "wait_prev_markers sy n ps m1 = Some (r, m')" by simp
    from Cons.IH [OF this] m1 show ?thesis by simp
  next
    case True
    with Cons.prems c obtain w m2 where w: "wait_for_marker sy n p m1 = Some (w, m2)"
      by (auto split: option.splits)
    with Cons.prems c True have "m' = m2 \<or> wait_prev_markers sy n ps m2 = Some (r, m')" by (auto split: bool.splits)
    with Cons.IH wait_for_marker_view [OF w] m1 show ?thesis by auto
  qed
qed simp

section \<open>Opening and aborting\<close>

lemma skip_foreign_versions_frame: "skip_foreign_versions sy n b v m = Some (r, m') \<Longrightarrow> \<exists>c. m' = m\<lparr>conn := c\<rparr>"
proof (induction n arbitrary: v m)
  case (Suc n)
  obtain ex m1 where c: "with_conn (mc_check (version_path b (u32 (v + 1)))) m = (ex, m1)" by (metis surj_pair)
  from with_conn_frame [OF c] obtain c1 where m1: "m1 = m\<lparr>conn := c1\<rparr>" by blast
  obtain k m2 where k: "classify_version sy (version_path b (u32 (v + 1))) m1 = (k, m2)" by (metis surj_pair)
  then have "\<exists>c. m2 = m1\<lparr>conn := c\<rparr>"
    by (auto simp: classify_version_def split: prod.splits option.splits dest: with_conn_frame)
  then obtain c2 where m2: "m2 = m\<lparr>conn := c2\<rparr>" using m1 by auto
  from Suc.prems c k have "m' = m1 \<or> m' = m2 \<or> skip_foreign_versions sy n b (u32 (v + 1)) m2 = Some (r, m')"
    by (auto split: if_splits)
  with Suc.IH m1 m2 show ?case by fastforce
qed simp

lemma visible_version_view: "visible_version sy n b m = Some (v, m') \<Longrightarrow> commit_view m' = commit_view m \<and> tables m' = tables m"
  by (auto simp: visible_version_def view_simps split: if_splits option.splits prod.splits dest!: skip_foreign_versions_frame)

lemma find_start_view: "find_start sy b v m = Some (r, m') \<Longrightarrow> commit_view m' = commit_view m \<and> tables m' = tables m"
  by (auto simp: find_start_def view_simps split: if_splits option.splits prod.splits sum.splits
      dest!: find_checkpoint_frame retry_frame(2))

lemma load_table_view:
  "load_table sy pq n k t deps m = Some ((r, t', d'), m') \<Longrightarrow>
     write_set t' = write_set t \<and> commit_view m' = commit_view m \<and> tables m' = tables m"
proof -
  assume l: "load_table sy pq n k t deps m = Some ((r, t', d'), m')"
  let ?b = "t_base_path t"
  let ?t = "t\<lparr>t_delta_log := delta_log_new ?b, t_file_num := 0, t_in_bytes := 0,
                        t_out_bytes := 0, t_concurrent_removes := [], t_concurrent_change := False\<rparr>"
  from l obtain v m1 where v: "visible_version sy n ?b m = Some (v, m1)"
    by (cases "visible_version sy n ?b m") (auto simp: load_table_def Let_def)
  with l obtain st m2 where s: "find_start sy ?b v m1 = Some (st, m2)"
    by (cases "find_start sy ?b v m1") (auto simp: load_table_def Let_def)
  have f2: "commit_view m2 = commit_view m" "tables m2 = tables m"
    using visible_version_view [OF v] find_start_view [OF s] by simp_all
  show ?thesis
  proof (cases "\<exists>h info. st = Some (Some h, info)")
    case False
    with l v s have "t' = ?t" "m' = m2"
      by (auto simp: load_table_def Let_def split: option.splits)
    with f2 show ?thesis by (simp add: view_simps)
  next
    case True
    then obtain h info where st: "st = Some (Some h, info)" by blast
    with l v s obtain rr t1 h1 m3 where rv: "reserve_version sy n ?t (u32 h) m2 = Some ((rr, t1, h1), m3)"
      by (cases "reserve_version sy n ?t (u32 h) m2") (auto simp: load_table_def Let_def)
    obtain ok1 l1 m4 where pc: "parse_checkpoint sy pq ?b info (t_delta_log t1) m3 = ((ok1, l1), m4)" by (metis surj_pair)
    let ?vs = "ranges_list (split_range (case ci_version info of Some v \<Rightarrow> u32 (v + 1) | None \<Rightarrow> 0) (u32 (h1 + 1)) k)"
    obtain ok2 l2 d2 m5 where pl: "parse_logentries2 sy ?b v ?vs l1 deps m4 = ((ok2, l2, d2), m5)" by (metis surj_pair)
    from l v s st rv pc pl have t': "t' = t1\<lparr>t_delta_log := l2, t_read_version := h1\<rparr>"
      and m': "m' = (if level2 m5 \<and> v = u32_max then m5\<lparr>local_log := insert_new ?b h1 (local_log m5)\<rparr> else m5)"
      by (auto simp: load_table_def Let_def)
    from reserve_version_view [OF rv] have "write_set t1 = write_set t" "commit_view m3 = commit_view m2" "tables m3 = tables m2"
      by (auto simp: view_simps)
    with parse_checkpoint_frame [OF pc] parse_logentries2_view [OF pl] f2 show ?thesis
      unfolding t' m' by (auto simp: view_simps)
  qed
qed

lemma load_tables_view: "load_tables sy pq n k is deps m = Some (r, m') \<Longrightarrow> commit_view m' = commit_view m"
proof (induction "is" arbitrary: deps m)
  case (Cons i js)
  from Cons.prems obtain ok t d m1 where l: "load_table sy pq n k (tables m ! i) deps m = Some ((ok, t, d), m1)"
    by (auto split: option.splits)
  note f = load_table_view [OF l]
  then have "commit_view (set_table i t m1) = commit_view m" by (simp add: commit_view_set_table)
  moreover from Cons.prems l have "m' = set_table i t m1 \<or> load_tables sy pq n k js d (set_table i t m1) = Some (r, m')"
    by (auto simp: Let_def split: if_splits)
  ultimately show ?case using Cons.IH by auto
qed simp

lemma parse_global_snapshots_view: "parse_global_snapshots m = (r, m') \<Longrightarrow> commit_view m' = commit_view m"
  by (auto simp: parse_global_snapshots_def view_simps split: if_splits prod.splits option.splits
      dest!: with_conn_frame retry_frame(1))

lemma reopen_view:
  "reopen_tables sy pq n k m = Some (r, m') \<Longrightarrow> commit_view m' = commit_view m"
  "reopen_until sy pq n k m = Some m' \<Longrightarrow> commit_view m' = commit_view m"
proof (induction n arbitrary: m m' r)
  case (Suc n)
  {
    case 1
    define m1 where "m1 = (if level2 m then snd (parse_global_snapshots (m\<lparr>relation := global_relation_new, local_log := []\<rparr>))
      else m\<lparr>relation := global_relation_new\<rparr>)"
    have m1: "commit_view m1 = commit_view m"
      using parse_global_snapshots_view [of "m\<lparr>relation := global_relation_new, local_log := []\<rparr>"]
      by (cases "parse_global_snapshots (m\<lparr>relation := global_relation_new, local_log := []\<rparr>)") (auto simp: m1_def view_simps)
    from 1 obtain ok d m2 where l: "load_tables sy pq n k [0..<length (tables m1)] False m1 = Some ((ok, d), m2)"
      by (auto simp: m1_def Let_def split: option.splits if_splits)
    with 1 have "m' = m2 \<or> reopen_until sy pq n k m2 = Some m'"
      by (auto simp: m1_def Let_def split: if_splits)
    with Suc.IH(2) load_tables_view [OF l] m1 show ?case by auto
  next
    case 2
    from 2 obtain fx m1 where r: "reopen_tables sy pq n k m = Some (fx, m1)" by (auto split: option.splits)
    with 2 have "m' = m1 \<or> reopen_until sy pq n k m1 = Some m'" by (auto split: if_splits)
    with Suc.IH(2) Suc.IH(1) [OF r] show ?case by auto
  }
qed simp_all

lemma release_tables_view: "release_tables sy ts c = (ts', c') \<Longrightarrow> map write_set ts' = map write_set ts"
proof (induction ts arbitrary: ts' c c')
  case (Cons t ts)
  then show ?case by (fastforce simp: view_simps split: prod.splits option.splits if_splits)
qed simp

lemma release_reserved_view: "release_reserved sy ts c = (ts', c') \<Longrightarrow> map write_set ts' = map write_set ts"
proof (induction ts arbitrary: ts' c c')
  case (Cons t ts)
  then show ?case by (fastforce simp: view_simps split: prod.splits option.splits if_splits)
qed simp

lemma clear_subdirectory_view: "commit_view (clear_subdirectory m) = commit_view m" "tables (clear_subdirectory m) = tables m"
  by (simp_all add: clear_subdirectory_def view_simps)

lemma abort_view: "commit_view (abort_txn sy b m) = commit_view m"
proof -
  obtain ts c where r: "release_tables sy (tables m) (conn m) = (ts, c)" by (metis surj_pair)
  have "commit_view (m\<lparr>tables := ts, conn := c\<rparr>) = commit_view m"
    using release_tables_view [OF r] by (simp add: commit_view_def)
  then show ?thesis by (simp add: abort_txn_def r clear_subdirectory_view Let_def)
qed

lemma wait_markers_view: "wait_markers sy pq n k m = Some (r, m') \<Longrightarrow> commit_view m' = commit_view m"
proof (induction n arbitrary: m)
  case (Suc n)
  show ?case
  proof (cases "with_markers m")
    case False
    with Suc.prems show ?thesis by simp
  next
    case True
    with Suc.prems obtain w m1 where w: "wait_prev_markers sy k (prev_markers m) m = Some (w, m1)"
      by (auto split: option.splits)
    note f = wait_prev_markers_view [OF w]
    from Suc.prems True w have "m' = m1 \<or> m' = abort_txn sy False m1
        \<or> (\<exists>r2 m2. reopen_tables sy pq k 2 m1 = Some (r2, m2) \<and> wait_markers sy pq n k m2 = Some (r, m'))"
      by (auto split: bool.splits if_splits option.splits)
    with f Suc.IH reopen_view(1) show ?thesis by (auto simp: abort_view)
  qed
qed simp

lemma shift_expiring_view: "shift_expiring sy n k is s m = Some (r, m') \<Longrightarrow> commit_view m' = commit_view m"
proof (induction "is" arbitrary: s m)
  case (Cons i js)
  let ?t = "tables m ! i"
  obtain ex m1 where e: "(if \<not> t_committed ?t \<and> changed ?t then lease_expiring ?t m else (False, m)) = (ex, m1)"
    by (metis surj_pair)
  then have f: "commit_view m1 = commit_view m"
    by (auto simp: view_simps split: if_splits dest!: lease_expiring_frame)
  from Cons.prems e have "shift_expiring sy n k js s m1 = Some (r, m') \<or> m' = abort_txn sy False m1
      \<or> (\<exists>m2. shift_table sy n i m1 = Some m2 \<and> shift_expiring sy n k js True m2 = Some (r, m'))"
    by (auto simp: Let_def split: if_splits option.splits)
  with f Cons.IH shift_table_view show ?case by (auto simp: abort_view)
qed simp

lemma shift_lost_view: "shift_lost sy n is s m = Some (r, m') \<Longrightarrow> commit_view m' = commit_view m"
proof (induction "is" arbitrary: s m)
  case (Cons i js)
  show ?case
  proof (cases "t_committed (tables m ! i) \<or> \<not> changed (tables m ! i)")
    case True
    with Cons show ?thesis by simp
  next
    case False
    obtain lo t m1 where l: "marker_lost (tables m ! i) m = ((lo, t), m1)" by (metis surj_pair)
    have f: "commit_view (set_table i t m1) = commit_view m"
      using marker_lost_view [OF l] by (simp add: commit_view_set_table)
    from Cons.prems False l have "shift_lost sy n js s (set_table i t m1) = Some (r, m')
      \<or> (\<exists>m2. shift_table sy n i (set_table i t m1) = Some m2 \<and> shift_lost sy n js True m2 = Some (r, m'))"
      by (auto simp: Let_def split: if_splits bind_splits)
    with f Cons.IH shift_table_view show ?thesis by fastforce
  qed
qed simp

section \<open>The global log\<close>

text \<open>Operations on the global log and its lock touch the connector and the token of the lock only.\<close>

definition strip :: "manager \<Rightarrow> connector \<Rightarrow> manager" where
  "strip m c = m\<lparr>global_lock_token := [], conn := c\<rparr>"

definition touched :: "manager \<Rightarrow> manager \<Rightarrow> bool" where
  "touched m m' \<longleftrightarrow> strip m' = strip m"

lemma touched_refl [simp]: "touched m m"
  by (simp add: touched_def)

lemma touched_trans: "touched a b \<Longrightarrow> touched b c \<Longrightarrow> touched a c"
  by (simp add: touched_def)

lemma touched_update [simp]: "touched m (m'\<lparr>conn := c\<rparr>) = touched m m'" "touched m (m'\<lparr>global_lock_token := k\<rparr>) = touched m m'"
  by (simp_all add: touched_def strip_def fun_eq_iff)

lemma touched_fields:
  assumes "touched m m'"
  shows "tables m' = tables m" "commit_view m' = commit_view m" "explicit_log m' = explicit_log m"
    "level0 m' = level0 m" "level1 m' = level1 m" "level2 m' = level2 m" "options m' = options m"
proof -
  from assms have s: "strip m' (conn m) = strip m (conn m)" by (simp add: touched_def)
  have "tables (strip m' (conn m)) = tables (strip m (conn m))" "explicit_log (strip m' (conn m)) = explicit_log (strip m (conn m))"
    "options (strip m' (conn m)) = options (strip m (conn m))" "level0 (strip m' (conn m)) = level0 (strip m (conn m))"
    "level1 (strip m' (conn m)) = level1 (strip m (conn m))" "level2 (strip m' (conn m)) = level2 (strip m (conn m))"
    by (simp_all only: s)
  then show "tables m' = tables m" "explicit_log m' = explicit_log m" "level0 m' = level0 m"
    "level1 m' = level1 m" "level2 m' = level2 m" "options m' = options m" "commit_view m' = commit_view m"
    by (simp_all add: strip_def commit_view_def)
qed

lemma with_conn_touched: "with_conn f m = (r, m') \<Longrightarrow> touched m m'"
  by (auto dest: with_conn_frame)

lemma read_retry_touched: "read_retry p m = (r, m') \<Longrightarrow> touched m m'"
  by (auto dest: retry_frame)

lemma lock_loop_touched: "lock_loop n st i tk ob m = Some (r, m') \<Longrightarrow> touched m m'"
proof (induction n arbitrary: i ob m)
  case (Suc n)
  let ?p = "global_tmp_log_path m"
  obtain s e m1 where w: "with_conn (mc_write_atomic ?p tk) m = ((s, e), m1)" by (metis surj_pair)
  note t1 = with_conn_touched [OF w]
  show ?case
  proof (cases "s = Ok")
    case True
    with Suc.prems w t1 show ?thesis by (auto simp: lock_loop.simps Let_def)
  next
    case False
    obtain cur m2 where r: "with_conn (mc_read2 ?p) m1 = (cur, m2)" by (metis surj_pair)
    note t2 = touched_trans [OF t1 with_conn_touched [OF r]]
    obtain again m3 where a: "with_conn (mc_read2 ?p) m2 = (again, m3)" by (metis surj_pair)
    note t3 = touched_trans [OF t2 with_conn_touched [OF a]]
    obtain d m4 where d: "with_conn (mc_delete_file ?p) m3 = (d, m4)" by (metis surj_pair)
    note t4 = touched_trans [OF t3 with_conn_touched [OF d]]
    from Suc.prems False w r a d have
      "m' = m2 \<or> m' = m2\<lparr>global_lock_token := tk\<rparr> \<or> (\<exists>ob. lock_loop n st (Suc i) tk ob m2 = Some (r, m'))
       \<or> (\<exists>ob. lock_loop n st (Suc i) tk ob m3 = Some (r, m')) \<or> (\<exists>ob. lock_loop n st (Suc i) tk ob m4 = Some (r, m'))"
      by (cases ob) (auto simp: lock_loop.simps Let_def split: option.splits if_splits)
    then show ?thesis using t2 t3 t4
      by (elim disjE exE) (auto dest!: Suc.IH intro: touched_trans)
  qed
qed (simp add: lock_loop.simps)

lemma acquire_touched: "acquire_global_lock n rd st m = Some (r, m') \<Longrightarrow> touched m m'"
  by (auto simp: acquire_global_lock_def Let_def split: prod.splits dest!: lock_loop_touched with_conn_touched
      dest: touched_trans)

lemma release_touched: "touched m (release_global_lock m)"
proof -
  obtain cur m1 where r: "with_conn (mc_read2 (global_tmp_log_path m)) m = (cur, m1)" by (metis surj_pair)
  obtain d m2 where d: "with_conn (delete_retry_loop (storage_retries m1) (global_tmp_log_path m)) m1 = (d, m2)"
    by (metis surj_pair)
  from with_conn_touched [OF r] touched_trans [OF with_conn_touched [OF r] with_conn_touched [OF d]]
  show ?thesis by (simp add: release_global_lock_def r d Let_def)
qed

lemma start_validation_touched:
  "start_validation n rd st vr vw ct m = Some (r, m') \<Longrightarrow> touched m m'"
  by (auto simp: start_validation_def Let_def split: if_splits option.splits prod.splits bool.splits
      dest!: acquire_touched with_conn_touched read_retry_touched dest: touched_trans)

lemma create_global_snapshot_touched: "create_global_snapshot vr vw m = (r, m') \<Longrightarrow> touched m m'"
  by (auto simp: create_global_snapshot_def split: if_splits prod.splits dest!: with_conn_touched
      intro: touched_trans release_touched)

lemma update_global_entry_touched: "update_global_entry p f m = (r, m') \<Longrightarrow> touched m m'"
  by (auto simp: update_global_entry_def Let_def split: if_splits option.splits prod.splits
      dest!: with_conn_touched read_retry_touched dest: touched_trans)

lemma classify_version_frame: "classify_version sy p m = (k, m') \<Longrightarrow> \<exists>c. m' = m\<lparr>conn := c\<rparr>"
  by (auto simp: classify_version_def split: prod.splits option.splits dest: with_conn_frame)

lemma highest_version_frame: "highest_version sy n b v h m = Some (r, m') \<Longrightarrow> \<exists>c. m' = m\<lparr>conn := c\<rparr>"
proof (induction n arbitrary: v h m)
  case (Suc n)
  obtain k m1 where k: "classify_version sy (version_path b v) m = (k, m1)" by (metis surj_pair)
  from classify_version_frame [OF k] obtain c where m1: "m1 = m\<lparr>conn := c\<rparr>" by blast
  from Suc.prems k have "m' = m1 \<or> highest_version sy n b (u32 (v + 1)) v m1 = Some (r, m')"
    by (auto split: if_splits)
  with Suc.IH m1 show ?case by fastforce
qed simp

lemma wait_for_versions_view: "wait_for_versions sy n b vs m = Some m' \<Longrightarrow> commit_view m' = commit_view m"
proof (induction vs arbitrary: m)
  case (Cons v vs)
  then obtain r m1 where w: "wait_for_marker sy n (version_path b v) m = Some (r, m1)" by (auto split: option.splits)
  with Cons wait_for_marker_view [OF w] show ?case by auto
qed simp

lemma repair_view: "repair_global_log sy n i m = Some (r, m') \<Longrightarrow> commit_view m' = commit_view m"
proof -
  assume p: "repair_global_log sy n i m = Some (r, m')"
  let ?b = "t_base_path (tables m ! i)" and ?f = "t_marker_version (tables m ! i)"
  from p obtain hi m1 where h: "highest_version sy n ?b ?f (u32 (?f + u32_max)) m = Some (hi, m1)"
    by (auto simp: repair_global_log_def Let_def split: option.splits)
  then have f1: "commit_view m1 = commit_view m" by (auto simp: view_simps dest!: highest_version_frame)
  show ?thesis
  proof (cases "\<exists>h. hi = Some h \<and> \<not> h < ?f")
    case False
    with p h f1 show ?thesis by (auto simp: repair_global_log_def Let_def split: option.splits if_splits)
  next
    case True
    then obtain hv where hv: "hi = Some hv" "\<not> hv < ?f" by blast
    let ?u = "\<lambda>current. Some (max (case current of Some v \<Rightarrow> v | None \<Rightarrow> 0) hv)"
    obtain wr m2 where u: "update_global_entry ?b ?u m1 = (wr, m2)" by (metis surj_pair)
    note f2 = touched_fields(2) [OF update_global_entry_touched [OF u]]
    show ?thesis
    proof (cases wr)
      case False
      with p h hv u f1 f2 show ?thesis by (simp add: repair_global_log_def Let_def)
    next
      case True
      with p h hv u obtain m3 where w: "wait_for_versions sy n ?b [?f..<hv + 1] m2 = Some m3"
        by (auto simp: repair_global_log_def Let_def split: option.splits)
      note f3 = wait_for_versions_view [OF w]
      from p h hv u True w obtain ok t x m4 where rv:
        "reserve_version sy n ((tables m3 ! i)\<lparr>t_read_version := hv\<rparr>) hv m3 = Some ((ok, t, x), m4)" "m' = set_table i t m4"
        by (auto simp: repair_global_log_def Let_def split: option.splits)
      from reserve_version_view [OF rv(1)] obtain c where v: "write_set t = write_set (tables m3 ! i)" "m4 = m3\<lparr>conn := c\<rparr>"
        by (auto simp: view_simps)
      then have "commit_view m' = commit_view m3"
        unfolding rv(2) by (simp add: commit_view_set_table view_simps)
      with f1 f2 f3 show ?thesis by simp
    qed
  qed
qed

lemma collect_versions_view: "collect_versions sy n k i v m = Some m' \<Longrightarrow> commit_view m' = commit_view m"
proof (induction n arbitrary: v m)
  case (Suc n)
  let ?p = "version_path (t_base_path (tables m ! i)) v"
  obtain ex m1 where c: "with_conn (mc_check ?p) m = (ex, m1)" by (metis surj_pair)
  then have f: "commit_view m1 = commit_view m" by (auto simp: view_simps dest!: with_conn_frame)
  show ?case
  proof (cases ex)
    case False
    with Suc.prems c f show ?thesis by simp
  next
    case True
    with Suc.prems c obtain r m2 where w: "wait_for_marker sy k ?p m1 = Some (r, m2)"
      "collect_versions sy n k i (u32 (v + 1)) (on_table i (\<lambda>t. t\<lparr>t_read_version := v\<rparr>) m2) = Some m'"
      by (auto split: option.splits)
    from Suc.IH [OF w(2)] wait_for_marker_view [OF w(1)] f show ?thesis
      by (simp add: on_table_def commit_view_set_table view_simps)
  qed
qed simp

lemma collect_unseen_view: "collect_unseen_versions sy n m = Some m' \<Longrightarrow> commit_view m' = commit_view m"
proof -
  have "collect_tables sy n js m = Some m' \<Longrightarrow> commit_view m' = commit_view m" for js m
  proof (induction js arbitrary: m)
    case (Cons i js)
    then show ?case
      by (auto split: if_splits bind_splits dest: collect_versions_view)
  qed simp
  then show "collect_unseen_versions sy n m = Some m' \<Longrightarrow> commit_view m' = commit_view m"
    by (auto simp: collect_unseen_versions_def split: if_splits)
qed

section \<open>Writing\<close>

lemma write_commit_table:
  "write_commit t log m = Some ((r, t'), m') \<Longrightarrow> (\<exists>mk. t' = t\<lparr>t_marker := mk\<rparr>) \<and> (\<exists>c. m' = m\<lparr>conn := c\<rparr>)"
  by (auto simp: write_commit_def split: option.splits prod.splits)

text \<open>What the detection of conflicts reads of a table.\<close>

definition conflict_part where
  "conflict_part t = (t_base_path t, t_created_files t, t_deleted_files t, t_was_read t, t_concurrent_change t, t_concurrent_removes t)"

lemma conflict_part_update [view_simps]:
  "conflict_part (t\<lparr>t_marker := mk\<rparr>) = conflict_part t" "conflict_part (t\<lparr>t_committed := b\<rparr>) = conflict_part t"
  by (simp_all add: conflict_part_def)

lemma conflicts_part:
  assumes "map conflict_part (tables m') = map conflict_part (tables m)" "options m' = options m"
  shows "conflicts m' = conflicts m"
proof -
  have "list_ex P ts' = list_ex P ts" if "map conflict_part ts' = map conflict_part ts" "\<And>t t'. conflict_part t' = conflict_part t \<Longrightarrow> P t' = P t"
    for P ts ts'
    using that(1)
  proof (induction ts arbitrary: ts')
    case (Cons t ts)
    then obtain t' us where "ts' = t' # us" "conflict_part t' = conflict_part t" "map conflict_part us = map conflict_part ts"
      by auto
    with Cons.IH [of us] that(2) [of t' t] show ?case by simp
  qed simp
  note e = this [OF assms(1)]
  have "has_read_conflict m' = has_read_conflict m" unfolding has_read_conflict_def by (rule e) (auto simp: conflict_part_def)
  moreover have "has_write_conflict m' = has_write_conflict m"
    unfolding has_write_conflict_def by (rule e) (auto simp: conflict_part_def)
  ultimately show ?thesis using assms(2) by (simp add: conflicts_def)
qed

lemma set_table_part:
  "conflict_part t = conflict_part (tables m ! i) \<Longrightarrow> map conflict_part (tables (set_table i t m)) = map conflict_part (tables m)"
  by (simp add: set_table_def map_update_same)

lemma release_reserved_part: "release_reserved sy ts c = (ts', c') \<Longrightarrow> map conflict_part ts' = map conflict_part ts"
proof (induction ts arbitrary: ts' c c')
  case (Cons t ts)
  then show ?case by (fastforce simp: view_simps split: prod.splits option.splits if_splits)
qed simp

end
