(* ===== verification/CommitSafety.thy ===== *)
theory CommitSafety
  imports Frames SampleParquet
begin

text \<open>
  What a commit that reports success guarantees: every table with changes was committed, the conflict detection
  has nothing left to object to, and without level 0, where nothing is redone, the logs written are those of the
  changes the transaction had when it called \<open>commit\<close>.
\<close>

section \<open>The last round\<close>

definition all_committed :: "table_stats list \<Rightarrow> bool" where
  "all_committed ts \<longleftrightarrow> (\<forall>t \<in> set ts. changed t \<longrightarrow> t_committed t)"

text \<open>What \<open>write_tables\<close> does on one table that it has to write.\<close>

lemma write_tables_step:
  assumes "write_tables sy n k (i # is) m = Some (e, m')" "\<not> t_committed (tables m ! i)" "changed (tables m ! i)"
  obtains now c log r mk c2 where "build_commit_log sy (m\<lparr>conn := c\<rparr>) (tables m ! i) now = Some log"
    "write_commit (tables m ! i) log (m\<lparr>conn := c\<rparr>) = Some ((r, (tables m ! i)\<lparr>t_marker := mk\<rparr>), m\<lparr>conn := c2\<rparr>)"
    "r = Commit_Ok \<Longrightarrow> write_tables sy n k is (set_table i ((tables m ! i)\<lparr>t_marker := mk, t_committed := True\<rparr>) (m\<lparr>conn := c2\<rparr>)) = Some (e, m')
       \<or> \<not> i < length (tables m)"
    "r \<noteq> Commit_Ok \<Longrightarrow> e \<noteq> All_written \<and> commit_view m' = commit_view m"
proof -
  obtain now m1 where t: "with_conn local_time_ms m = (now, m1)" by (metis surj_pair)
  from with_conn_frame [OF t] obtain c where m1: "m1 = m\<lparr>conn := c\<rparr>" by blast
  from assms t obtain log r t' m2 where b: "build_commit_log sy m1 (tables m ! i) now = Some log"
    and w: "write_commit (tables m ! i) log m1 = Some ((r, t'), m2)"
    by (auto simp: Let_def split: option.splits bind_splits)
  from write_commit_table [OF w] obtain mk c2 where t': "t' = (tables m ! i)\<lparr>t_marker := mk\<rparr>" and m2: "m2 = m\<lparr>conn := c2\<rparr>"
    using m1 by auto
  let ?m3 = "set_table i t' m2"
  have v: "commit_view ?m3 = commit_view m" by (simp add: t' m2 commit_view_set_table view_simps)
  have s: "on_table i (\<lambda>t. t\<lparr>t_committed := True\<rparr>) ?m3 = set_table i ((tables m ! i)\<lparr>t_marker := mk, t_committed := True\<rparr>) m2"
    if "i < length (tables m)"
    using that by (simp add: on_table_def set_table_def t' m2)
  have ok: "write_tables sy n k is (set_table i ((tables m ! i)\<lparr>t_marker := mk, t_committed := True\<rparr>) m2) = Some (e, m')
       \<or> \<not> i < length (tables m)" if "r = Commit_Ok"
    using assms t b w that s by (auto simp: Let_def)
  have no: "e \<noteq> All_written \<and> commit_view m' = commit_view m" if "r \<noteq> Commit_Ok"
    using assms t b w that v by (auto simp: Let_def split: if_splits dest: shift_table_view)
  from that [OF b [unfolded m1] w [unfolded m1 t' m2] ok [unfolded m2] no] show ?thesis .
qed

lemma write_tables_written:
  assumes "write_tables sy n k is m = Some (All_written, m')" "\<forall>i \<in> set is. i < length (tables m)"
  shows "map conflict_part (tables m') = map conflict_part (tables m)"
    and "\<And>j. j < length (tables m) \<Longrightarrow> t_committed (tables m ! j) \<Longrightarrow> t_committed (tables m' ! j)"
    and "\<And>i. i \<in> set is \<Longrightarrow> changed (tables m ! i) \<Longrightarrow> t_committed (tables m' ! i)"
    and "options m' = options m \<and> level0 m' = level0 m \<and> explicit_log m' = explicit_log m"
proof -
  have "map conflict_part (tables m') = map conflict_part (tables m)
      \<and> (\<forall>j < length (tables m). t_committed (tables m ! j) \<longrightarrow> t_committed (tables m' ! j))
      \<and> (\<forall>i \<in> set is. changed (tables m ! i) \<longrightarrow> t_committed (tables m' ! i))
      \<and> options m' = options m \<and> level0 m' = level0 m \<and> explicit_log m' = explicit_log m"
    using assms
  proof (induction "is" arbitrary: m)
    case (Cons i js)
    from Cons.prems have i: "i < length (tables m)" "\<forall>i \<in> set js. i < length (tables m)" by auto
    show ?case
    proof (cases "t_committed (tables m ! i) \<or> \<not> changed (tables m ! i)")
      case True
      with Cons.prems(1) have "write_tables sy n k js m = Some (All_written, m')" by simp
      from Cons.IH [OF this i(2)] True i show ?thesis by auto
    next
      case False
      then have f: "\<not> t_committed (tables m ! i)" "changed (tables m ! i)" by auto
      from write_tables_step [OF Cons.prems(1) f] obtain mk c2 where
        w: "write_tables sy n k js (set_table i ((tables m ! i)\<lparr>t_marker := mk, t_committed := True\<rparr>) (m\<lparr>conn := c2\<rparr>))
          = Some (All_written, m')" using i(1) by metis
      let ?m = "set_table i ((tables m ! i)\<lparr>t_marker := mk, t_committed := True\<rparr>) (m\<lparr>conn := c2\<rparr>)"
      have p: "map conflict_part (tables ?m) = map conflict_part (tables m)"
        by (subst set_table_part) (simp_all add: view_simps)
      have ch: "changed (tables ?m ! j) = changed (tables m ! j)" "t_committed (tables m ! j) \<longrightarrow> t_committed (tables ?m ! j)"
        if "j < length (tables m)" for j
        using that i(1) by (cases "j = i"; simp add: set_table_def changed_def)+
      have "\<forall>i \<in> set js. i < length (tables ?m)" using i(2) by (simp add: set_table_def)
      note IH = Cons.IH [OF w this]
      have "t_committed (tables ?m ! i)" using i(1) by (simp add: set_table_def)
      with IH p ch i show ?thesis by (auto simp: set_table_def)
    qed
  qed simp
  then show "map conflict_part (tables m') = map conflict_part (tables m)"
    "\<And>j. j < length (tables m) \<Longrightarrow> t_committed (tables m ! j) \<Longrightarrow> t_committed (tables m' ! j)"
    "\<And>i. i \<in> set is \<Longrightarrow> changed (tables m ! i) \<Longrightarrow> t_committed (tables m' ! i)"
    "options m' = options m \<and> level0 m' = level0 m \<and> explicit_log m' = explicit_log m" by auto
qed

lemma finish_taken_not_true: "finish_taken sv i cm m = Some (Stop True, m') \<Longrightarrow> False"
  by (auto simp: finish_taken_def Let_def split: option.splits if_splits)

lemma invalid_round_not_true: "invalid_round sv v cm m = Some (Stop True, m') \<Longrightarrow> False"
  by (auto simp: invalid_round_def Let_def split: option.splits if_splits bool.splits)

lemma list_all_upt: "(\<forall>i \<in> set [0..<n]. P i) \<longleftrightarrow> (\<forall>i < n. P i)"
  by auto

lemma validate_round_true:
  assumes "validate_round sv n cm m = Some (Stop True, m')"
  shows "all_committed (tables m') \<and> map conflict_part (tables m') = map conflict_part (tables m) \<and> options m' = options m"
proof -
  from assms obtain v vr vw ct m1 where
    s: "start_validation (sv_fuel sv) (sv_random sv n) (sv_steady sv n) [] [] [] m = Some ((v, vr, vw, ct), m1)"
    by (auto simp: validate_round_def split: option.splits)
  note f1 = touched_fields [OF start_validation_touched [OF s]]
  from assms s have w: "write_round sv vr vw cm m1 = Some (Stop True, m')"
    by (auto simp: validate_round_def split: if_splits dest: invalid_round_not_true)
  then obtain m2 where wt: "write_tables (sv_sys sv) (sv_fuel sv) (cm_rounds cm) [0..<length (tables m1)] m1 = Some (All_written, m2)"
    and fin: "finish_written sv vr vw m2 = (Stop True, m')"
    by (auto simp: write_round_def finish_lost_def Let_def split: option.splits write_end.splits if_splits
        dest: finish_taken_not_true)
  have r: "\<forall>i \<in> set [0..<length (tables m1)]. i < length (tables m1)" by simp
  note W = write_tables_written [OF wt r]
  obtain ok m3 where g: "create_global_snapshot vr vw m2 = (ok, m3)" by (metis surj_pair)
  obtain ts c where rel: "release_reserved (sv_sys sv) (tables m3) (conn m3) = (ts, c)" by (metis surj_pair)
  from fin g rel have m': "m' = m3\<lparr>tables := ts, conn := c\<rparr>" by (simp add: finish_written_def)
  note f3 = touched_fields [OF create_global_snapshot_touched [OF g]]
  note R = release_reserved_view [OF rel] release_reserved_part [OF rel]
  have part: "map conflict_part ts = map conflict_part (tables m)"
    using R(2) f3(1) W(1) f1(1) by simp
  have len: "length ts = length (tables m1)" using part f1(1) by (metis length_map)
  have "all_committed ts"
  proof (unfold all_committed_def, intro ballI impI)
    fix t assume "t \<in> set ts" and ch: "changed t"
    then obtain i where i: "i < length ts" "t = ts ! i" by (metis in_set_conv_nth)
    have p: "conflict_part (ts ! i) = conflict_part (tables m1 ! i)"
      using part f1(1) i len by (metis nth_map)
    with ch i have "changed (tables m1 ! i)" by (simp add: changed_def conflict_part_def)
    with W(3) [of i] i len have "t_committed (tables m2 ! i)" by simp
    moreover have "write_set (ts ! i) = write_set (tables m2 ! i)"
      using R(1) f3(1) i W(1) len by (metis length_map nth_map)
    ultimately show "t_committed t" using i by (simp add: write_set_def)
  qed
  with part W(4) f1 f3 show ?thesis by (simp add: m')
qed

section \<open>Conflicts\<close>

lemma conflicts_cleared: "\<not> conflicts (clear_concurrency m)"
  by (auto simp: conflicts_def has_read_conflict_def has_write_conflict_def clear_concurrency_def list_ex_iff)

lemma redo_round_clear:
  assumes "redo_round sv (conflicts m) rounds redo_done m = Some (Some rounds', m')"
  shows "\<not> conflicts m'"
proof (cases "redo_done \<and> \<not> conflicts m")
  case True
  with assms show ?thesis by (auto simp: redo_round_def Let_def)
next
  case False
  with assms obtain m1 where "m' = clear_concurrency m1"
    by (auto simp: redo_round_def Let_def split: if_splits option.splits bool.splits)
  with conflicts_cleared show ?thesis by simp
qed

text \<open>A round ends before the validation, or validates a state without conflicts.  Without level 0 nothing changes
  the write sets before that.\<close>

lemma commit_round_cases:
  assumes "commit_round sv n cm m = Some (e, m')"
  shows "(e \<noteq> Stop True \<and> (\<not> level0 m \<longrightarrow> commit_view m' = commit_view m))
    \<or> (\<exists>cm1 m1. validate_round sv n cm1 m1 = Some (e, m') \<and> \<not> conflicts m1
          \<and> (\<not> level0 m \<longrightarrow> commit_view m1 = commit_view m))"
proof -
  from assms obtain ok m1 where w: "wait_markers (sv_sys sv) (sv_parquet sv) (sv_fuel sv) (sv_fuel sv) m = Some (ok, m1)"
    by (auto simp: commit_round_def split: option.splits)
  note f1 = wait_markers_view [OF w]
  show ?thesis
  proof (cases ok)
    case False
    with assms w f1 show ?thesis by (auto simp: commit_round_def)
  next
    case True
    with assms w obtain go sh m2 where
      s: "shift_expiring (sv_sys sv) (sv_fuel sv) (cm_rounds cm) [0..<length (tables m1)] False m1 = Some ((go, sh), m2)"
      by (auto simp: commit_round_def split: option.splits)
    note f2 = shift_expiring_view [OF s]
    show ?thesis
    proof (cases "go \<and> \<not> sh")
      case False
      with assms w True s f1 f2 show ?thesis by (auto simp: commit_round_def split: bool.splits)
    next
      case go: True
      with assms w True s obtain m3 where c: "collect_unseen_versions (sv_sys sv) (sv_fuel sv) m2 = Some m3"
        by (auto simp: commit_round_def split: option.splits)
      from collect_unseen_view [OF c] f1 f2 have f3: "commit_view m3 = commit_view m" by simp
      show ?thesis
      proof (cases "can_redo m3")
        case False
        with assms w True s go c f3 show ?thesis by (auto simp: commit_round_def abort_view split: if_splits)
      next
        case cr: True
        then have l0: "level0 m" using f3 by (simp add: can_redo_def commit_view_def)
        from assms w True s go c cr obtain r m4 where
          r: "redo_round sv (conflicts m3) (cm_rounds cm) (cm_redo_done cm) m3 = Some (r, m4)"
          by (auto simp: commit_round_def split: option.splits)
        show ?thesis
        proof (cases r)
          case None
          with assms w True s go c cr r l0 show ?thesis by (auto simp: commit_round_def)
        next
          case (Some rounds)
          with assms w True s go c cr r have
            "validate_round sv n (cm\<lparr>cm_rounds := rounds, cm_redo_done := True\<rparr>) m4 = Some (e, m')"
            by (simp add: commit_round_def)
          with l0 redo_round_clear [OF r [unfolded Some]] show ?thesis by blast
        qed
      qed
    qed
  qed
qed

lemma commit_round_true:
  assumes "commit_round sv n cm m = Some (Stop True, m')"
  shows "all_committed (tables m') \<and> \<not> conflicts m'"
proof -
  from commit_round_cases [OF assms] obtain m1 cm1 where
    v: "validate_round sv n cm1 m1 = Some (Stop True, m')" "\<not> conflicts m1" by auto
  from validate_round_true [OF v(1)] conflicts_part [of m' m1] v(2) show ?thesis by auto
qed

lemma commit_rounds_true:
  "commit_rounds sv k cm m = Some (True, m') \<Longrightarrow> all_committed (tables m') \<and> \<not> conflicts m'"
proof (induction k arbitrary: cm m)
  case (Suc k)
  then obtain e m1 where r: "commit_round sv k cm m = Some (e, m1)" by (auto split: option.splits)
  show ?case
  proof (cases e)
    case (Next cm1)
    with Suc r show ?thesis by simp
  next
    case (Stop valid)
    with Suc.prems r commit_round_true [of sv k cm m m1] show ?thesis by simp
  qed
qed simp

section \<open>After the loop\<close>

lemma load_versions_frame: "load_versions sy b vs l m = (r, m') \<Longrightarrow> touched m m'"
proof (induction vs arbitrary: l m)
  case (Cons v vs)
  obtain ct m1 where c: "read_retry (version_path b v) m = (ct, m1)" by (metis surj_pair)
  note t = read_retry_touched [OF c]
  from Cons.prems c have "m' = m1 \<or> (\<exists>l. load_versions sy b vs l m1 = (r, m'))"
    by (auto simp: Let_def split: option.splits if_splits)
  with t Cons.IH show ?case by (auto intro: touched_trans)
qed simp

lemma checkpoint_after_commit_touched: "checkpoint_after_commit sy fu pq t v m = (r, m') \<Longrightarrow> touched m m'"
proof -
  have w: "write_checkpoint sy fu pq b v l m = (r, m') \<Longrightarrow> touched m m'" for b l m r m'
    by (auto simp: write_checkpoint_def Let_def split: if_splits option.splits prod.splits dest!: with_conn_touched
        intro: touched_trans)
  have f: "find_checkpoint sy b v m = (r, m') \<Longrightarrow> touched m m'" for b m r m'
    by (auto dest: find_checkpoint_frame)
  have p: "parse_checkpoint sy pq b i l m = (r, m') \<Longrightarrow> touched m m'" for b i l m r m'
    by (auto dest: parse_checkpoint_frame)
  have l: "load_snapshot sy pq b v m = (r, m') \<Longrightarrow> touched m m'" for b m r m'
    by (auto simp: load_snapshot_def Let_def split: if_splits option.splits prod.splits sum.splits
        dest!: f p load_versions_frame intro: touched_trans)
  show "checkpoint_after_commit sy fu pq t v m = (r, m') \<Longrightarrow> touched m m'"
    by (auto simp: checkpoint_after_commit_def Let_def split: if_splits option.splits prod.splits sum.splits
        dest!: l intro: touched_trans w [OF prod.collapse [symmetric]])
qed

lemma write_checkpoints_touched: "write_checkpoints sv fu is m = Some m' \<Longrightarrow> touched m m'"
proof (induction "is" arbitrary: m)
  case (Cons i js)
  show ?case
  proof (cases "\<exists>v. committed_version (tables m ! i) = Inr (Some v)")
    case False
    with Cons show ?thesis by (auto split: sum.splits option.splits)
  next
    case True
    then obtain v where v: "committed_version (tables m ! i) = Inr (Some v)" ..
    obtain r m1 where c: "checkpoint_after_commit (sv_sys sv) fu (sv_parquet sv) (tables m ! i) (u32 v) m = (r, m1)"
      by (metis surj_pair)
    have "write_checkpoints sv fu js m1 = Some m'"
    proof (cases r)
      case (Inl e)
      from Cons.prems show ?thesis by (simp add: v c Inl)
    next
      case (Inr u)
      with c have "checkpoint_after_commit (sv_sys sv) fu (sv_parquet sv) (tables m ! i) (u32 v) m = (Inr (), m1)" by simp
      with Cons.prems v show ?thesis by simp
    qed
    from Cons.IH [OF this] checkpoint_after_commit_touched [OF c] show ?thesis by (blast intro: touched_trans)
  qed
qed simp

lemma commit_rounds_of:
  assumes "commit sv fu k False m = Some (valid, m')"
  obtains m1 where "commit_rounds sv k \<lparr>cm_rounds = 0, cm_redo_done = False, cm_claim_failures = 0\<rparr>
      (m\<lparr>tables := map (\<lambda>t. t\<lparr>t_committed := False\<rparr>) (tables m)\<rparr>) = Some (valid, m1)"
    "tables m' = tables m1" "options m' = options m1"
proof -
  from assms obtain v m1 where r: "commit_rounds sv k \<lparr>cm_rounds = 0, cm_redo_done = False, cm_claim_failures = 0\<rparr>
      (m\<lparr>tables := map (\<lambda>t. t\<lparr>t_committed := False\<rparr>) (tables m)\<rparr>) = Some (v, m1)"
    by (auto simp: commit_def split: option.splits)
  note c = clear_subdirectory_view [of m1]
  have o: "options (clear_subdirectory m1) = options m1" using c(1) by (simp add: commit_view_def)
  from assms r have "v = valid \<and> (m' = clear_subdirectory m1
      \<or> (\<exists>is. write_checkpoints sv fu is (clear_subdirectory m1) = Some m'))"
    by (auto simp: commit_def Let_def split: if_splits)
  then have v: "v = valid" and m': "tables m' = tables (clear_subdirectory m1) \<and> options m' = options (clear_subdirectory m1)"
    using touched_fields(1,7) [OF write_checkpoints_touched] by blast+
  show ?thesis by (rule that [OF r [unfolded v]]) (use m' c(2) o in simp_all)
qed

section \<open>What was written\<close>

text \<open>A commit of these changes of a table was written.\<close>

definition written_log :: "sys \<Rightarrow> string \<times> (string \<times> file_stats) list \<times> (string \<times> file_stats) list \<Rightarrow> bool" where
  "written_log sy ws \<longleftrightarrow>
     (\<exists>m1 t1 now log t2 m2. (t_base_path t1, t_created_files t1, t_deleted_files t1) = ws \<and>
        build_commit_log sy m1 t1 now = Some log \<and> write_commit t1 log m1 = Some ((Commit_Ok, t2), m2))"

definition changes_of :: "table_stats \<Rightarrow> string \<times> (string \<times> file_stats) list \<times> (string \<times> file_stats) list" where
  "changes_of t = (t_base_path t, t_created_files t, t_deleted_files t)"

definition commits_logged where
  "commits_logged sy W m \<longleftrightarrow> map changes_of (tables m) = W \<and> (\<forall>t \<in> set (tables m). t_committed t \<longrightarrow> written_log sy (changes_of t))"

lemma changes_write_set: "changes_of t = (case write_set t of (b, c, d, _) \<Rightarrow> (b, c, d))" "t_committed t = snd (snd (snd (write_set t)))"
  by (simp_all add: changes_of_def write_set_def)

lemma commits_logged_view: "commit_view m' = commit_view m \<Longrightarrow> commits_logged sy W m' = commits_logged sy W m"
proof -
  assume "commit_view m' = commit_view m"
  then have w: "map write_set (tables m') = map write_set (tables m)" by (simp add: commit_view_def)
  have e: "commits_logged sy W k \<longleftrightarrow> map (\<lambda>(b, c, d, _). (b, c, d)) (map write_set (tables k)) = W
      \<and> (\<forall>w \<in> set (map write_set (tables k)). snd (snd (snd w)) \<longrightarrow> written_log sy (case w of (b, c, d, _) \<Rightarrow> (b, c, d)))" for k
    by (auto simp: commits_logged_def write_set_def changes_of_def comp_def)
  show ?thesis unfolding e w ..
qed

lemma commits_logged_set:
  assumes "commits_logged sy W m" "changes_of t = changes_of (tables m ! i)" "written_log sy (changes_of t)"
  shows "commits_logged sy W (set_table i t m)"
proof -
  have "map changes_of ((tables m)[i := t]) = map changes_of (tables m)" using assms(2) by (simp add: map_update_same)
  moreover have "set ((tables m)[i := t]) \<subseteq> insert t (set (tables m))" by (rule set_update_subset_insert)
  ultimately show ?thesis using assms(1,3) by (auto simp: commits_logged_def set_table_def)
qed

lemma write_tables_logged:
  assumes "write_tables sy n k is m = Some (e, m')" "commits_logged sy W m" "\<forall>i \<in> set is. i < length (tables m)"
  shows "commits_logged sy W m' \<and> level0 m' = level0 m"
  using assms
proof (induction "is" arbitrary: m)
  case (Cons i js)
  from Cons.prems have i: "i < length (tables m)" "\<forall>i \<in> set js. i < length (tables m)" by auto
  show ?case
  proof (cases "t_committed (tables m ! i) \<or> \<not> changed (tables m ! i)")
    case True
    with Cons.prems(1) have "write_tables sy n k js m = Some (e, m')" by simp
    from Cons.IH [OF this Cons.prems(2) i(2)] show ?thesis .
  next
    case False
    then have f: "\<not> t_committed (tables m ! i)" "changed (tables m ! i)" by auto
    obtain now c log r mk c2 where
      b: "build_commit_log sy (m\<lparr>conn := c\<rparr>) (tables m ! i) now = Some log"
      and w: "write_commit (tables m ! i) log (m\<lparr>conn := c\<rparr>) = Some ((r, (tables m ! i)\<lparr>t_marker := mk\<rparr>), m\<lparr>conn := c2\<rparr>)"
      and ok: "r = Commit_Ok \<Longrightarrow> write_tables sy n k js (set_table i ((tables m ! i)\<lparr>t_marker := mk, t_committed := True\<rparr>) (m\<lparr>conn := c2\<rparr>))
          = Some (e, m') \<or> \<not> i < length (tables m)"
      and no: "r \<noteq> Commit_Ok \<Longrightarrow> e \<noteq> All_written \<and> commit_view m' = commit_view m"
      by (rule write_tables_step [OF Cons.prems(1) f]) (rule that)
    show ?thesis
    proof (cases "r = Commit_Ok")
      case False
      with no have v: "commit_view m' = commit_view m" by blast
      from commits_logged_view [OF v] Cons.prems(2) v show ?thesis by (simp add: commit_view_def)
    next
      case True
      let ?t = "(tables m ! i)\<lparr>t_marker := mk, t_committed := True\<rparr>"
      let ?m = "set_table i ?t (m\<lparr>conn := c2\<rparr>)"
      from b w True have "written_log sy (changes_of (tables m ! i))"
        unfolding written_log_def changes_of_def by blast
      moreover have "changes_of ?t = changes_of (tables m ! i)" by (simp add: changes_of_def)
      moreover have "commits_logged sy W (m\<lparr>conn := c2\<rparr>)"
        using Cons.prems(2) commits_logged_view [of "m\<lparr>conn := c2\<rparr>" m] by (simp add: view_simps)
      ultimately have l: "commits_logged sy W ?m" by (intro commits_logged_set) simp_all
      have "\<forall>i \<in> set js. i < length (tables ?m)" using i(2) by (simp add: set_table_def)
      from Cons.IH [OF _ l this] ok [OF True] i(1) show ?thesis by (simp add: set_table_def)
    qed
  qed
qed simp

lemma validate_round_logged:
  assumes "validate_round sv n cm m = Some (e, m')" "commits_logged (sv_sys sv) W m"
  shows "commits_logged (sv_sys sv) W m' \<and> level0 m' = level0 m"
proof -
  from assms obtain v vr vw ct m1 where
    s: "start_validation (sv_fuel sv) (sv_random sv n) (sv_steady sv n) [] [] [] m = Some ((v, vr, vw, ct), m1)"
    by (auto simp: validate_round_def split: option.splits)
  note f1 = touched_fields(2) [OF start_validation_touched [OF s]]
  have l1: "commits_logged (sv_sys sv) W m1" and z1: "level0 m1 = level0 m"
    using commits_logged_view [OF f1] assms(2) f1 by (simp_all add: commit_view_def)
  have kept: "commits_logged (sv_sys sv) W m' \<and> level0 m' = level0 m"
    if "commit_view m' = commit_view m2" "commits_logged (sv_sys sv) W m2" "level0 m2 = level0 m" for m2
    using commits_logged_view [OF that(1)] that by (simp add: commit_view_def)
  have rel: "commit_view (release_global_lock k) = commit_view k" for k
    by (rule touched_fields(2) [OF release_touched])
  show ?thesis
  proof (cases "v = Valid")
    case False
    with assms s have i: "invalid_round sv v cm m1 = Some (e, m')" by (simp add: validate_round_def)
    let ?m2 = "if v = Invalid then release_global_lock m1 else m1"
    have f2: "commit_view ?m2 = commit_view m1" by (simp add: rel)
    from i obtain mv m3 where sl: "(if v = Invalid \<and> with_markers ?m2 \<and> cm_rounds cm < max_redos (options ?m2)
               then shift_lost (sv_sys sv) (sv_fuel sv) [0..<length (tables ?m2)] False ?m2 else Some (False, ?m2)) = Some (mv, m3)"
      by (auto simp: invalid_round_def Let_def split: option.splits)
    then have f3: "commit_view m3 = commit_view ?m2" by (auto split: if_splits dest: shift_lost_view)
    have "commit_view m' = commit_view m3"
      using i sl by (auto simp: invalid_round_def Let_def abort_view split: bool.splits if_splits option.splits dest: reopen_view(1))
    with f2 f3 kept [OF _ l1 z1] show ?thesis by simp
  next
    case True
    with assms s have w: "write_round sv vr vw cm m1 = Some (e, m')" by (simp add: validate_round_def)
    then obtain we m2 where wt: "write_tables (sv_sys sv) (sv_fuel sv) (cm_rounds cm) [0..<length (tables m1)] m1 = Some (we, m2)"
      by (auto simp: write_round_def split: option.splits)
    from write_tables_logged [OF wt l1] have l2: "commits_logged (sv_sys sv) W m2" "level0 m2 = level0 m"
      using z1 by simp_all
    have "commit_view m' = commit_view m2"
    proof (cases we)
      case All_written
      obtain ok m3 where g: "create_global_snapshot vr vw m2 = (ok, m3)" by (metis surj_pair)
      obtain ts c where r: "release_reserved (sv_sys sv) (tables m3) (conn m3) = (ts, c)" by (metis surj_pair)
      from w wt All_written g r have "m' = m3\<lparr>tables := ts, conn := c\<rparr>" by (auto simp: write_round_def finish_written_def)
      with release_reserved_view [OF r] touched_fields(2) [OF create_global_snapshot_touched [OF g]]
      show ?thesis by (simp add: commit_view_def)
    next
      case Write_lost
      with w wt show ?thesis by (auto simp: write_round_def finish_lost_def Let_def abort_view rel split: if_splits)
    next
      case (Write_taken j)
      with w wt show ?thesis
        by (auto simp: write_round_def finish_taken_def Let_def abort_view rel split: option.splits if_splits dest!: repair_view)
    next
      case Write_failed
      with w wt show ?thesis by (auto simp: write_round_def abort_view rel)
    qed
    with kept l2 show ?thesis by blast
  qed
qed

lemma commit_rounds_logged:
  "commit_rounds sv k cm m = Some (valid, m') \<Longrightarrow> commits_logged (sv_sys sv) W m \<Longrightarrow> \<not> level0 m \<Longrightarrow>
     commits_logged (sv_sys sv) W m'"
proof (induction k arbitrary: cm m)
  case (Suc k)
  from Suc.prems(1) obtain e m1 where r: "commit_round sv k cm m = Some (e, m1)" by (auto split: option.splits)
  have l: "commits_logged (sv_sys sv) W m1 \<and> \<not> level0 m1"
  proof -
    from commit_round_cases [OF r] Suc.prems(3) consider "commit_view m1 = commit_view m"
      | cm2 m2 where "validate_round sv k cm2 m2 = Some (e, m1)" "commit_view m2 = commit_view m" by blast
    then show ?thesis
    proof cases
      case 1
      from commits_logged_view [OF 1] 1 Suc.prems(2,3) show ?thesis by (simp add: commit_view_def)
    next
      case 2
      from commits_logged_view [OF 2(2)] 2(2) Suc.prems(2,3) validate_round_logged [OF 2(1)] show ?thesis
        by (simp add: commit_view_def)
    qed
  qed
  show ?case
  proof (cases e)
    case (Next cm1)
    with Suc r l show ?thesis by simp
  next
    case (Stop v)
    with Suc.prems r l show ?thesis by simp
  qed
qed simp

lemma committed_changes:
  assumes "commit sv fu n False m = Some (True, m')" and "\<not> level0 m"
  shows "map changes_of (tables m') = map changes_of (tables m)
    \<and> (\<forall>t \<in> set (tables m). changed t \<longrightarrow> written_log (sv_sys sv) (changes_of t))"
proof -
  obtain m1 where m1: "commit_rounds sv n \<lparr>cm_rounds = 0, cm_redo_done = False, cm_claim_failures = 0\<rparr>
      (m\<lparr>tables := map (\<lambda>t. t\<lparr>t_committed := False\<rparr>) (tables m)\<rparr>) = Some (True, m1)"
    "tables m' = tables m1" "options m' = options m1"
    by (rule commit_rounds_of [OF assms(1)]) (rule that)
  let ?m = "m\<lparr>tables := map (\<lambda>t. t\<lparr>t_committed := False\<rparr>) (tables m)\<rparr>"
  have "commits_logged (sv_sys sv) (map changes_of (tables m)) ?m"
    by (auto simp: commits_logged_def changes_of_def)
  from commit_rounds_logged [OF m1(1) this] assms(2) have l: "map changes_of (tables m1) = map changes_of (tables m)"
    "\<And>t. t \<in> set (tables m1) \<Longrightarrow> t_committed t \<Longrightarrow> written_log (sv_sys sv) (changes_of t)"
    by (auto simp: commits_logged_def)
  have "written_log (sv_sys sv) (changes_of t)" if t: "t \<in> set (tables m)" "changed t" for t
  proof -
    from t(1) l(1) obtain t1 where t1: "t1 \<in> set (tables m1)" "changes_of t1 = changes_of t"
      by (metis (no_types, lifting) image_iff image_set)
    with t(2) have "changed t1" by (simp add: changes_of_def changed_def)
    with commit_rounds_true [OF m1(1)] t1(1) have "t_committed t1" by (simp add: all_committed_def)
    from l(2) [OF t1(1) this] t1(2) show ?thesis by simp
  qed
  with l(1) m1(2) show ?thesis by simp
qed

section \<open>Properties\<close>



section \<open>The commit of one table\<close>

text \<open>Without levels, a changed table whose version the store does not have is committed by one conditional write.\<close>

lemma one_table_write:
  assumes m: "tables m = [t]" "\<not> level0 m" "\<not> level1 m" "storage_retries m = Suc k"
    and t: "changed t" "\<not> t_committed t" "t_marker t = Some (set_invalid (marker_new p [] 0))"
    and log: "\<And>c now. build_commit_log sy (m\<lparr>conn := c\<rparr>) t now \<noteq> None"
    and wr: "\<And>log. fst (fst (mc_write_atomic p log (snd (local_time_ms (conn m))))) = Ok"
  shows "\<exists>c. write_tables sy n r [0] m = Some (All_written, m\<lparr>conn := c, tables := [t\<lparr>t_committed := True\<rparr>]\<rparr>)"
proof -
  let ?mk = "set_invalid (marker_new p [] 0)"
  obtain now c0 where c0: "local_time_ms (conn m) = (now, c0)" by (metis surj_pair)
  obtain log where l: "build_commit_log sy (m\<lparr>conn := c0\<rparr>) t now = Some log" using log by blast
  obtain e c where "mc_write_atomic p log c0 = ((Ok, e), c)" using wr [of log] c0 by (metis fst_conv snd_conv surj_pair)
  then have "commit_loop (Suc k) False False ?mk log c0 = ((Commit_Ok, ?mk), c)"
    by (simp only: commit_loop.simps(2)) (simp add: commit_attempt_def marker_new_def set_invalid_def)
  moreover have "t\<lparr>t_marker := Some ?mk\<rparr> = t" using t(3) by (cases t) simp
  ultimately have w: "write_commit t log (m\<lparr>conn := c0\<rparr>) = Some ((Commit_Ok, t), m\<lparr>conn := c\<rparr>)"
    using m t(3) by (simp add: write_commit_def with_markers_def del: commit_loop.simps)
  show ?thesis
    using m(1) t(1,2) c0 l w by (auto simp: with_conn_def set_table_def on_table_def intro!: exI [of _ c])
qed

lemma one_table_commit:
  assumes m: "tables m = [t]" "\<not> level0 m" "\<not> level1 m" "\<not> level2 m" "storage_retries m = Suc k"
    and t: "changed t" "\<not> t_committed t" "t_marker t = Some (set_invalid (marker_new p [] 0))" "parse_log_version p = Inr None \<or> \<not> checkpoints (options m)"
      "t_concurrent_removes t = []" "\<not> t_concurrent_change t"
    and log: "\<And>c now. build_commit_log (sv_sys sv) (m\<lparr>conn := c\<rparr>) t now \<noteq> None"
    and wr: "\<And>log. fst (fst (mc_write_atomic p log (snd (local_time_ms (conn m))))) = Ok" and f: "sv_fuel sv = Suc j"
  shows "\<exists>m'. commit sv fu 1 False m = Some (True, m')"
proof -
  let ?cm = "\<lparr>cm_rounds = 0, cm_redo_done = False, cm_claim_failures = 0\<rparr>"
  have nc: "\<not> conflicts m" "\<not> can_redo m"
    using m t by (simp_all add: conflicts_def has_read_conflict_def has_write_conflict_def can_redo_def list_ex_iff)
  have e: "lease_expiring t m = (False, m)" using m t(3) by (simp add: lease_expiring_def with_markers_def)
  from one_table_write [OF m(1,2,3,5) t(1,2,3) log wr, of "sv_fuel sv" 0] obtain c where
    wt: "write_tables (sv_sys sv) (sv_fuel sv) (cm_rounds ?cm) [0] m = Some (All_written, m\<lparr>conn := c, tables := [t\<lparr>t_committed := True\<rparr>]\<rparr>)"
    by auto
  let ?done = "m\<lparr>conn := c, tables := [t\<lparr>t_committed := True\<rparr>]\<rparr>"
  have "finish_written sv [] [] ?done = (Stop True, ?done)"
    using m(4) t(3) by (simp add: finish_written_def create_global_snapshot_def set_invalid_def)
  with wt m have "validate_round sv 0 ?cm m = Some (Stop True, ?done)"
    by (simp add: validate_round_def start_validation_def write_round_def del: write_tables.simps)
  then have "commit_round sv 0 ?cm m = Some (Stop True, ?done)"
    using e nc m t(1) f by (simp add: commit_round_def with_markers_def collect_unseen_versions_def)
  then have "commit_rounds sv (Suc 0) ?cm m = Some (True, ?done)" by simp
  moreover have "t\<lparr>t_committed := False\<rparr> = t" using t(2) by (cases t) simp
  then have "m\<lparr>tables := map (\<lambda>t. t\<lparr>t_committed := False\<rparr>) (tables m)\<rparr> = m" using m(1) by simp
  ultimately have r: "commit_rounds sv 1 ?cm (m\<lparr>tables := map (\<lambda>t. t\<lparr>t_committed := False\<rparr>) (tables m)\<rparr>) = Some (True, ?done)"
    by (simp only: One_nat_def)
  have cl: "clear_subdirectory ?done = ?done" using m(2) by (simp add: clear_subdirectory_def)
  have "write_checkpoints sv fu [0..<length (tables ?done)] ?done = Some ?done" if "parse_log_version p = Inr None"
    using that t(3) by (simp add: committed_version_def marker_new_def set_invalid_def)
  then show ?thesis unfolding commit_def r using t(4) by (auto simp: cl Let_def)
qed

section \<open>Witnesses\<close>

definition demo_ops :: data_ops where
  "demo_ops = \<lparr>op_arrow = \<lparr>op_equal = (=), op_cast = (\<lambda>a b vs. Inl []), op_parse = (\<lambda>ty s. None), op_text = (\<lambda>ty. [])\<rparr>,
     op_days = int, op_concat = (\<lambda>ts. None), op_shortest = (\<lambda>w. []), op_random = id, op_column_text = (\<lambda>c. [])\<rparr>"
definition demo_services :: services where
  "demo_services = \<lparr>sv_sys = demo_sys, sv_parquet = sample_parquet, sv_ops = demo_ops, sv_arith = (\<lambda>op a b. None),
     sv_fuel = 1, sv_random = id, sv_steady = (\<lambda>n i. int i)\<rparr>"
definition demo_change :: table_stats where
  "demo_change = (table_stats_new ''t/'')\<lparr>t_marker := Some (set_invalid (marker_new ''t/v1'' [] 0)),
     t_created_files := [(''t/f'', file_stats_new\<lparr>fs_path := ''t/f'', fs_size := 3\<rparr>)]\<rparr>"
definition demo_committer :: manager where
  "demo_committer = demo_manager\<lparr>level0 := False, tables := [demo_change]\<rparr>"

lemma demo_levels: "level0 demo_committer = False" "level1 demo_committer = False" "level2 demo_committer = False"
  "tables demo_committer = [demo_change]" "conn demo_committer = demo_connector" "options demo_committer = default_options"
  "storage_retries demo_committer = Suc 7"
  by (simp_all add: demo_committer_def demo_manager_def manager_new_def level_of_def)

lemma demo_build: "\<exists>log. build_commit_log demo_sys (demo_committer\<lparr>conn := c\<rparr>) demo_change now = Some log"
  by (simp add: build_commit_log_def demo_change_def table_stats_new_def log_files_def file_stats_new_def
      createOperationAddEntry_def add_action_def no_statistics_def)

lemma demo_change_flags: "\<not> t_committed demo_change" "changed demo_change" "\<not> t_was_read demo_change"
    "t_marker demo_change = Some (set_invalid (marker_new ''t/v1'' [] 0))"
  by (simp_all add: demo_change_def table_stats_new_def changed_def)

lemma demo_commit: "\<exists>m'. commit demo_services fu 1 False demo_committer = Some (True, m')"
proof (rule one_table_commit [of _ demo_change 7 "''t/v1''"])
  show "parse_log_version ''t/v1'' = Inr None \<or> \<not> checkpoints (options demo_committer)" by (rule disjI1) code_simp
  show "build_commit_log (sv_sys demo_services) (demo_committer\<lparr>conn := c\<rparr>) demo_change now \<noteq> None" for c now
    using demo_build by (simp add: demo_services_def)
  show "fst (fst (mc_write_atomic ''t/v1'' log (snd (local_time_ms (conn demo_committer))))) = Ok" for log
    by (simp add: demo_levels mc_write_atomic_def demo_connector_def local_time_ms_def should_fail_def lookup_object_def Let_def)
  show "sv_fuel demo_services = Suc 0" by (simp add: demo_services_def)
qed (simp_all add: demo_levels demo_change_flags, simp_all add: demo_change_def table_stats_new_def)



end
