(* ===== verification/LogProtocol.thy ===== *)
theory LogProtocol
  imports Snapshots
begin

text \<open>
  Many clients on one log.  Each client reserves versions, waits for markers, writes commits and releases its
  markers by the operations of \<open>Markers\<close>; between the requests of an operation the others act through its hook.  A
  step of the system is an operation of one client or anything else that leaves commits alone.  The invariant is
  that an ETag a client holds can only match a marker, so that the versions that were committed never change.
\<close>

section \<open>Markers and commits\<close>

definition marker_text :: "sys \<Rightarrow> string \<Rightarrow> bool" where
  "marker_text sy text \<longleftrightarrow> list_ex is_marker_line (json_objects (sy_parse sy) text)"

definition commit_path :: "string \<Rightarrow> bool" where
  "commit_path p \<longleftrightarrow> (case parse_log_version p of Inr (Some v) \<Rightarrow> True | _ \<Rightarrow> False)"

text \<open>The rely and the guarantee of every client: a step of the store that changes no committed version.\<close>

definition keeps_commits :: "sys \<Rightarrow> mem_store \<Rightarrow> mem_store \<Rightarrow> bool" where
  "keeps_commits sy s s' \<longleftrightarrow>
     (\<forall>p ob. commit_path p \<longrightarrow> map_of (objects s) p = Some ob \<longrightarrow> \<not> marker_text sy (obj_content ob) \<longrightarrow>
        map_of (objects s') p = Some ob)"

definition log_step :: "sys \<Rightarrow> mem_store \<Rightarrow> mem_store \<Rightarrow> bool" where
  "log_step sy s s' \<longleftrightarrow> store_step s s' \<and> keeps_commits sy s s'"

text \<open>The hook acts as other clients do.\<close>

definition protocol_hook :: "sys \<Rightarrow> connector \<Rightarrow> bool" where
  "protocol_hook sy c \<longleftrightarrow>
     (\<forall>h n op p s b s'. fail_hook c = Some h \<longrightarrow> h n op p s = (b, s') \<longrightarrow> (log_step sy)\<^sup>*\<^sup>* s s')"

text \<open>The object that has the ETag of a marker, if there still is one, is a marker.\<close>

definition leased :: "sys \<Rightarrow> mem_store \<Rightarrow> marker \<Rightarrow> bool" where
  "leased sy s mk \<longleftrightarrow> marker_etag mk \<noteq> [] \<and> etag_issued s (marker_etag mk)
     \<and> (\<forall>ob. map_of (objects s) (marker_path mk) = Some ob \<longrightarrow> obj_etag ob = marker_etag mk \<longrightarrow>
          marker_text sy (obj_content ob))"

text \<open>The marker of a table: without markers it is never valid.\<close>

definition marker_ok :: "sys \<Rightarrow> bool \<Rightarrow> mem_store \<Rightarrow> table_stats \<Rightarrow> bool" where
  "marker_ok sy markers s t \<longleftrightarrow>
     (case t_marker t of None \<Rightarrow> True | Some mk \<Rightarrow> if markers then leased sy s mk else \<not> marker_valid mk)"

section \<open>What the steps keep\<close>

lemma keeps_refl [simp]: "keeps_commits sy s s"
  by (simp add: keeps_commits_def)

lemma keeps_trans: "keeps_commits sy a b \<Longrightarrow> keeps_commits sy b c \<Longrightarrow> keeps_commits sy a c"
  unfolding keeps_commits_def by blast

lemma log_steps_keep: "(log_step sy)\<^sup>*\<^sup>* s s' \<Longrightarrow> keeps_commits sy s s'"
  by (induction rule: rtranclp_induct) (auto simp: log_step_def intro: keeps_trans)

lemma log_steps_store: "(log_step sy)\<^sup>*\<^sup>* s s' \<Longrightarrow> store_step\<^sup>*\<^sup>* s s'"
  by (induction rule: rtranclp_induct) (auto simp: log_step_def)

lemma log_steps_ok: "(log_step sy)\<^sup>*\<^sup>* s s' \<Longrightarrow> store_ok s \<Longrightarrow> store_ok s'"
  by (rule memory.steps_invar [OF log_steps_store])

lemma same_etag_same_object:
  "store_step s s' \<Longrightarrow> store_ok s \<Longrightarrow> etag_issued s e \<Longrightarrow> map_of (objects s') p = Some ob \<Longrightarrow> obj_etag ob = e \<Longrightarrow>
   map_of (objects s) p = Some ob"
proof (induction rule: store_step.induct)
  case (step_put m path data t)
  then show ?case using fresh_not_issued [of m] by (auto simp: put_object_def split: if_splits)
next
  case (step_del m path)
  then have "smap_ok (objects m)" by (simp add: store_ok_def)
  with step_del show ?case by (auto split: if_splits)
qed simp

lemma leased_step: "store_step s s' \<Longrightarrow> store_ok s \<Longrightarrow> leased sy s mk \<Longrightarrow> leased sy s' mk"
  unfolding leased_def using same_etag_same_object memory.issued_step by blast

lemma leased_steps: "(log_step sy)\<^sup>*\<^sup>* s s' \<Longrightarrow> store_ok s \<Longrightarrow> leased sy s mk \<Longrightarrow> leased sy s' mk"
proof (induction rule: rtranclp_induct)
  case (step y z)
  then have "store_ok y" by (blast intro: log_steps_ok)
  with step show ?case by (auto simp: log_step_def intro: leased_step)
qed simp

lemma marker_ok_steps: "(log_step sy)\<^sup>*\<^sup>* s s' \<Longrightarrow> store_ok s \<Longrightarrow> marker_ok sy w s t \<Longrightarrow> marker_ok sy w s' t"
  by (auto simp: marker_ok_def dest: leased_steps split: option.splits if_splits)

section \<open>Operations run by the protocol\<close>

definition log_run :: "sys \<Rightarrow> connector \<Rightarrow> connector \<Rightarrow> bool" where
  "log_run sy c c' \<longleftrightarrow> same_env c c' \<and> (log_step sy)\<^sup>*\<^sup>* (mem c) (mem c')"

definition in_protocol :: "sys \<Rightarrow> connector \<Rightarrow> bool" where
  "in_protocol sy c \<longleftrightarrow> store_ok (mem c) \<and> protocol_hook sy c"

lemma log_run_refl [simp]: "log_run sy c c" by (simp add: log_run_def)

lemma log_run_trans: "log_run sy a b \<Longrightarrow> log_run sy b c \<Longrightarrow> log_run sy a c"
  by (auto simp: log_run_def intro: same_env_trans)

lemma in_protocol_run: "log_run sy c c' \<Longrightarrow> in_protocol sy c \<Longrightarrow> in_protocol sy c'"
  by (auto simp: log_run_def in_protocol_def same_env_def protocol_hook_def dest: log_steps_ok)

lemma env_steps_log:
  assumes "protocol_hook sy c" shows "env_steps c a z \<Longrightarrow> (log_step sy)\<^sup>*\<^sup>* a z"
proof (induction rule: rtranclp_induct)
  case (step y z)
  from step.hyps(2) assms have "(log_step sy)\<^sup>*\<^sup>* y z" by (auto simp: hook_step_def protocol_hook_def)
  with step.IH show ?case by (rule rtranclp_trans)
qed simp

lemma quiet_log_run: "in_protocol sy c \<Longrightarrow> quiet c c' \<Longrightarrow> log_run sy c c'"
  by (auto simp: in_protocol_def quiet_def log_run_def env_steps_log)

lemma put_log_step:
  "(\<And>ob. map_of (objects s) p = Some ob \<Longrightarrow> marker_text sy (obj_content ob)) \<Longrightarrow> log_step sy s (put_object p d t s)"
  unfolding log_step_def by (intro conjI store_step.step_put) (auto simp: keeps_commits_def put_object_def)

lemma one_create_log_run:
  assumes "in_protocol sy c" "one_create p d c c'"
  shows "log_run sy c c' \<and> (\<exists>z t. (log_step sy)\<^sup>*\<^sup>* (mem c) (put_object p d t z)
    \<and> (log_step sy)\<^sup>*\<^sup>* (put_object p d t z) (mem c'))"
proof -
  from assms(2) obtain a z t where e: "same_env c c'" "env_steps c (mem c) a" "put_absent p d t a = (Ok, z)"
    "env_steps c z (mem c')" by (auto simp: one_create_def)
  from e(3) have z: "z = put_object p d t a" and n: "map_of (objects a) p = None"
    by (auto simp: put_absent_def split: if_splits)
  have "(log_step sy)\<^sup>*\<^sup>* (mem c) a" "(log_step sy)\<^sup>*\<^sup>* z (mem c')"
    using assms(1) e(2,4) by (auto simp: in_protocol_def env_steps_log)
  moreover have "log_step sy a z" unfolding z by (rule put_log_step) (simp add: n)
  ultimately show ?thesis using e(1) unfolding z log_run_def by (blast intro: rtranclp.rtrancl_into_rtrancl rtranclp_trans)
qed

lemma one_match_log_run:
  assumes "in_protocol sy c" "leased sy (mem c) mk" "one_match (marker_path mk) d (marker_etag mk) c c'"
  shows "log_run sy c c' \<and> (\<exists>z t. (log_step sy)\<^sup>*\<^sup>* (mem c) (put_object (marker_path mk) d t z)
    \<and> (log_step sy)\<^sup>*\<^sup>* (put_object (marker_path mk) d t z) (mem c'))"
proof -
  let ?p = "marker_path mk"
  from assms(3) obtain a z t where e: "same_env c c'" "env_steps c (mem c) a"
    "put_match ?p d (marker_etag mk) t a = (Ok, z)" "env_steps c z (mem c')" by (auto simp: one_match_def)
  from e(3) obtain ob where z: "z = put_object ?p d t a" and o: "map_of (objects a) ?p = Some ob" "obj_etag ob = marker_etag mk"
    by (auto simp: put_match_def split: option.splits if_splits)
  have s: "(log_step sy)\<^sup>*\<^sup>* (mem c) a" "(log_step sy)\<^sup>*\<^sup>* z (mem c')"
    using assms(1) e(2,4) by (auto simp: in_protocol_def env_steps_log)
  have "leased sy a mk" using leased_steps [OF s(1)] assms(1,2) by (simp add: in_protocol_def)
  with o have "log_step sy a z" unfolding z by (intro put_log_step) (auto simp: leased_def)
  with s e(1) show ?thesis unfolding z log_run_def by (blast intro: rtranclp.rtrancl_into_rtrancl rtranclp_trans)
qed

section \<open>The operations of a client\<close>

lemma commit_loop_run:
  assumes "in_protocol sy c" "commit_loop n uncertain markers mk log c = ((r, mk'), c')"
    and "if markers then leased sy (mem c) mk else True"
  shows "log_run sy c c'"
proof (cases markers)
  case True
  with assms(3) have l: "leased sy (mem c) mk" "marker_etag mk \<noteq> []" by (simp_all add: leased_def)
  from assms(2) True have loop: "commit_loop n uncertain True mk log c = ((r, mk'), c')" by simp
  have "(r = Commit_Ok \<and> one_match (marker_path mk) log (marker_etag mk) c c') \<or> quiet c c'"
    by (rule commit_loop_own [OF commit_attempt_match [OF _ l(2)] quiet_one_match loop])
  then show ?thesis using quiet_log_run [OF assms(1)] one_match_log_run [OF assms(1) l(1)] by blast
next
  case False
  with assms(2) have loop: "commit_loop n uncertain False mk log c = ((r, mk'), c')" by simp
  have "(r = Commit_Ok \<and> one_create (marker_path mk) log c c') \<or> quiet c c'"
    by (rule commit_loop_own [OF commit_attempt_create quiet_one_create loop])
  then show ?thesis using quiet_log_run [OF assms(1)] one_create_log_run [OF assms(1)] by blast
qed

lemma commit_loop_marker:
  "commit_loop n uncertain markers mk log c = ((r, mk'), c') \<Longrightarrow> mk' = mk \<or> mk' = set_invalid mk"
proof (induction n arbitrary: uncertain c)
  case (Suc n)
  then show ?case by (auto simp: Let_def split: prod.splits if_splits)
qed simp

lemma set_invalid_simps [simp]:
  "marker_path (set_invalid mk) = marker_path mk" "marker_etag (set_invalid mk) = marker_etag mk"
  "\<not> marker_valid (set_invalid mk)"
  by (simp_all add: set_invalid_def)

lemma leased_invalid [simp]: "leased sy s (set_invalid mk) = leased sy s mk"
  by (simp add: leased_def)

lemma release_loop_run:
  assumes "in_protocol sy c" "leased sy (mem c) mk" "release_loop n log mk c = ((ok, mk'), c')"
  shows "log_run sy c c' \<and> (mk' = mk \<or> mk' = set_invalid mk)"
  using assms
proof (induction n arbitrary: c)
  case (Suc n)
  then have "marker_etag mk \<noteq> []" by (simp add: leased_def)
  obtain status c1 where w: "mc_write_if_match (marker_path mk) log (marker_etag mk) c = (status, c1)"
    by (cases "mc_write_if_match (marker_path mk) log (marker_etag mk) c")
  have r1: "log_run sy c c1"
    using mc_write_if_match_one [OF w] quiet_log_run [OF Suc.prems(1)] one_match_log_run [OF Suc.prems(1,2)]
    by (auto split: if_splits)
  show ?case
  proof (cases "status = Ok \<or> status = PreconditionFailed")
    case True
    with Suc.prems(3) w \<open>marker_etag mk \<noteq> []\<close> r1 show ?thesis by auto
  next
    case False
    have "in_protocol sy c1" "leased sy (mem c1) mk"
      using in_protocol_run [OF r1 Suc.prems(1)] leased_steps Suc.prems r1 by (auto simp: log_run_def in_protocol_def)
    moreover have "release_loop n log mk c1 = ((ok, mk'), c')"
      using Suc.prems(3) w False \<open>marker_etag mk \<noteq> []\<close> by simp
    ultimately show ?thesis using Suc.IH r1 by (blast intro: log_run_trans)
  qed
qed simp

lemma marker_release_run:
  assumes "in_protocol sy c" "marker_valid mk \<Longrightarrow> leased sy (mem c) mk" "release sy mk c = ((ok, mk'), c')"
  shows "log_run sy c c' \<and> (mk' = mk \<or> mk' = set_invalid mk)"
proof (cases "marker_valid mk")
  case True
  obtain now c1 where t: "local_time_ms c = (now, c1)" by (cases "local_time_ms c")
  have r: "log_run sy c c1" by (rule quiet_log_run [OF assms(1) local_time_quiet [OF t]])
  with assms True have "in_protocol sy c1" "leased sy (mem c1) mk"
    using in_protocol_run [OF r assms(1)] leased_steps by (auto simp: log_run_def in_protocol_def)
  from release_loop_run [OF this] assms(3) True t r show ?thesis
    by (auto simp: release_def intro: log_run_trans)
qed (use assms(3) in \<open>simp add: release_def\<close>)

text \<open>The marker of a table in every state of a run, and after it was given up.\<close>

lemma marker_ok_release: "marker_ok sy w s t \<Longrightarrow> t_marker t = Some mk \<Longrightarrow> marker_valid mk \<Longrightarrow> leased sy s mk"
  by (auto simp: marker_ok_def split: if_splits)

lemma marker_ok_invalid:
  "marker_ok sy w s t \<Longrightarrow> t_marker t = Some mk \<Longrightarrow> mk' = mk \<or> mk' = set_invalid mk \<Longrightarrow>
   marker_ok sy w s (t\<lparr>t_marker := Some mk'\<rparr>)"
  by (auto simp: marker_ok_def split: if_splits)

lemma marker_ok_run: "log_run sy c c' \<Longrightarrow> in_protocol sy c \<Longrightarrow> marker_ok sy w (mem c) t \<Longrightarrow> marker_ok sy w (mem c') t"
  by (auto simp: log_run_def in_protocol_def dest: marker_ok_steps)

lemma marker_destroy_run:
  assumes "in_protocol sy c" "marker_ok sy w (mem c) t"
  shows "log_run sy c (marker_destroy sy (t_marker t) c)"
proof (cases "t_marker t")
  case (Some mk)
  obtain ok mk' c' where r: "release sy mk c = ((ok, mk'), c')" by (metis prod.collapse)
  from marker_release_run [OF assms(1) _ r] assms(2) Some r show ?thesis
    by (auto simp: marker_destroy_def dest: marker_ok_release)
qed (simp add: marker_destroy_def)

lemma release_tables_run:
  "in_protocol sy c \<Longrightarrow> (\<And>t. t \<in> set ts \<Longrightarrow> marker_ok sy w (mem c) t) \<Longrightarrow> release_tables sy ts c = (ts', c') \<Longrightarrow>
   log_run sy c c' \<and> length ts' = length ts \<and> (\<forall>t \<in> set ts'. marker_ok sy w (mem c') t)"
proof (induction ts arbitrary: c c' ts')
  case (Cons t ts)
  define R where "R = (case t_marker t of None \<Rightarrow> (t, c)
      | Some mk \<Rightarrow> if marker_valid mk
                  then let ((ok, mk), c) = release sy mk c in (t\<lparr>t_marker := Some (if ok then mk else set_invalid mk)\<rparr>, c)
                  else (t, c))"
  obtain t1 c1 where R: "R = (t1, c1)" by (cases R)
  have t1: "log_run sy c c1 \<and> marker_ok sy w (mem c1) t1"
  proof (cases "\<exists>mk. t_marker t = Some mk \<and> marker_valid mk")
    case True
    then obtain mk where mk: "t_marker t = Some mk" "marker_valid mk" by blast
    obtain ok mk' c2 where r: "release sy mk c = ((ok, mk'), c2)" by (metis prod.collapse)
    have ok: "marker_ok sy w (mem c) t" using Cons.prems(2) by simp
    from marker_release_run [OF Cons.prems(1) marker_ok_release [OF ok mk(1)] r] mk
    have run: "log_run sy c c2" "mk' = mk \<or> mk' = set_invalid mk" by auto
    from R mk r have eq: "c1 = c2" "t1 = t\<lparr>t_marker := Some (if ok then mk' else set_invalid mk')\<rparr>"
      by (auto simp: R_def)
    have "(if ok then mk' else set_invalid mk') \<in> {mk, set_invalid mk}" using run(2) by (auto simp: set_invalid_def)
    with marker_ok_invalid [OF marker_ok_run [OF run(1) Cons.prems(1) ok] mk(1)] run(1) eq show ?thesis by simp
  next
    case False
    with R have "t1 = t" "c1 = c" by (auto simp: R_def split: option.splits if_splits)
    with Cons.prems(2) show ?thesis by simp
  qed
  obtain ts1 c2 where rest: "release_tables sy ts c1 = (ts1, c2)" by (cases "release_tables sy ts c1")
  have eq: "ts' = t1 # ts1" "c' = c2" using Cons.prems(3) R rest by (simp_all add: R_def)
  have c1: "in_protocol sy c1" using in_protocol_run t1 Cons.prems(1) by blast
  have "\<And>t. t \<in> set ts \<Longrightarrow> marker_ok sy w (mem c1) t" using marker_ok_run t1 Cons.prems by fastforce
  from Cons.IH [OF c1 this rest] t1 marker_ok_run [OF _ c1] show ?case
    by (auto simp: eq intro: log_run_trans)
qed simp

section \<open>Reserving a version\<close>

text \<open>The numbers in a marker are machine integers.\<close>

definition machine_ints :: "manager \<Rightarrow> bool" where
  "machine_ints m \<longleftrightarrow> transaction_id m < 2 ^ 64 \<and> marker_lease_ms (options m) < 2 ^ 32
     \<and> (\<forall>d \<in> set (get_dependencies (relation m)). d < 2 ^ 64)"

definition clock_range :: "connector \<Rightarrow> bool" where
  "clock_range c \<longleftrightarrow> (\<forall>n. \<bar>local_clock c n\<bar> < 2 ^ 62 \<and> (\<forall>f. clock c = Some f \<longrightarrow> \<bar>f n\<bar> < 2 ^ 62))"

lemma clock_range_env: "same_env c c' \<Longrightarrow> clock_range c \<Longrightarrow> clock_range c'"
  by (simp add: clock_range_def same_env_def)

lemma store_time_range: "clock_range c \<Longrightarrow> store_time c = (now, c') \<Longrightarrow> \<bar>now_ms now\<bar> < 2 ^ 62"
  by (auto simp: store_time_def clock_time_def local_time_ms_def clock_range_def split: prod.splits option.splits)

lemma local_time_range: "clock_range c \<Longrightarrow> local_time_ms c = (now, c') \<Longrightarrow> \<bar>now\<bar> < 2 ^ 62"
  by (auto simp: local_time_ms_def clock_range_def)

lemma marker_reads_back:
  assumes "json_codec (sy_parse sy) (sy_write sy)" "machine_ints m" "\<bar>now\<bar> < 2 ^ 62" "\<bar>deadline\<bar> < 2 ^ 63"
  shows "marker_text sy (createHeaderMarker sy m now @ newline # createMarkerEntry sy m deadline)"
proof -
  define h where "h = commit_info (JInt (int (transaction_id m))) ''Marker'' [JString ''0'', JString ''0'', JString ''0''] True 0 now"
  define e where "e = JObject [(''marker'', JObject
       [(''workDir'', JString (working_dir m)), (''running'', JBool True),
        (''dependencies'', JArray (map (\<lambda>d. JInt (int d)) (get_dependencies (relation m)))),
        (''txnid'', JInt (int (transaction_id m))), (''deadline'', JInt deadline)])]"
  have "json_ok h \<and> is_object h" "json_ok e \<and> is_object e" and m: "is_marker_line e"
    using assms(2-4) by (auto simp: h_def e_def commit_info_def machine_ints_def list_all_iff is_marker_line_def member_object_def)
  then have ok: "v \<in> set (h # [e]) \<Longrightarrow> json_ok v \<and> is_object v" for v by auto
  from json_objects_sep [OF assms(1), of h "[e]", OF ok] m show ?thesis
    by (simp add: marker_text_def createHeaderMarker_def createMarkerEntry_def h_def [symmetric] e_def [symmetric])
qed

lemma protocol_hook_ok: "protocol_hook sy c \<Longrightarrow> hook_ok c"
  unfolding protocol_hook_def hook_ok_def by (blast intro: log_steps_store)

lemma created_leased:
  assumes "in_protocol sy c" "mc_write_atomic p d c = ((Ok, etag), c')" "marker_text sy d"
  obtains e where "etag = Some e" "leased sy (mem c') (marker_new p e dl)" "log_run sy c c'"
proof -
  have run: "log_run sy c c'" using mc_write_atomic_one [OF assms(2)] one_create_log_run [OF assms(1)] by auto
  then have ok: "store_ok (mem c')" using in_protocol_run assms(1) by (auto simp: in_protocol_def)
  have "hook_ok c" using assms(1) by (auto simp: in_protocol_def intro: protocol_hook_ok)
  from mc_write_atomic_put_absent [OF assms(2) this] obtain s t where
    "put_absent p d t s = (Ok, mem c')" and e: "etag = etag_at (mem c') p" by auto
  then have m: "mem c' = put_object p d t s" by (auto simp: put_absent_def split: if_splits)
  then obtain e where "etag = Some e" using e by (simp add: etag_at_put)
  moreover have "leased sy (mem c') (marker_new p e dl)"
  proof -
    have at: "etag_at (mem c') p = Some e" using e \<open>etag = Some e\<close> by simp
    then have "etag_issued (mem c') e" using ok by (simp add: store_ok_def)
    moreover have "e \<noteq> []" using at m by (auto simp: etag_at_put)
    moreover have "obj_content ob = d" if "map_of (objects (mem c')) p = Some ob" for ob
      using that m by (auto simp: put_object_def)
    ultimately show ?thesis using assms(3) by (auto simp: leased_def marker_new_def)
  qed
  ultimately show ?thesis using that run by blast
qed

lemma reserve_version_run:
  assumes "json_codec (sy_parse sy) (sy_write sy)"
  shows "in_protocol sy (conn m) \<Longrightarrow> clock_range (conn m) \<Longrightarrow> machine_ints m \<Longrightarrow>
   marker_ok sy (with_markers m) (mem (conn m)) t \<Longrightarrow> reserve_version sy fuel t h m = Some ((ok, t', h'), m') \<Longrightarrow>
   log_run sy (conn m) (conn m') \<and> marker_ok sy (with_markers m) (mem (conn m')) t' \<and> m' = m\<lparr>conn := conn m'\<rparr>"
proof (induction fuel arbitrary: h m)
  case (Suc fuel)
  note prems = Suc.prems
  let ?v = "u32 (h + 1)" and ?p = "version_path (t_base_path t) (u32 (h + 1))"
  have again: "log_run sy (conn m) (conn m') \<and> marker_ok sy (with_markers m) (mem (conn m')) t' \<and> m' = m\<lparr>conn := conn m'\<rparr>"
    if r: "log_run sy (conn m) c" and e: "reserve_version sy fuel t k (m\<lparr>conn := c\<rparr>) = Some ((ok, t', h'), m')" for k c
  proof -
    have "in_protocol sy c" "clock_range c" "marker_ok sy (with_markers m) (mem c) t"
      using in_protocol_run [OF r prems(1)] clock_range_env prems(2) r marker_ok_run [OF r prems(1,4)] by (auto simp: log_run_def)
    with Suc.IH [OF _ _ _ _ e] prems(3) have
      "log_run sy c (conn m') \<and> marker_ok sy (with_markers m) (mem (conn m')) t' \<and> m' = m\<lparr>conn := c\<rparr>\<lparr>conn := conn m'\<rparr>"
      by (simp add: machine_ints_def)
    with r show ?thesis by (auto intro: log_run_trans)
  qed
  show ?case
  proof (cases "with_markers m")
    case False
    obtain t1 c1 where a: "assign_marker sy (set_invalid (marker_new ?p [] 0)) t (conn m) = (t1, c1)" by (metis prod.collapse)
    have "log_run sy (conn m) c1"
      using marker_destroy_run [OF prems(1,4)] a by (simp add: assign_marker_def)
    with False a prems(5) show ?thesis by (auto simp: assign_marker_def marker_ok_def Let_def)
  next
    case True
    obtain b c1 where c1: "mc_check ?p (conn m) = (b, c1)" by (cases "mc_check ?p (conn m)")
    have r1: "log_run sy (conn m) c1" by (rule quiet_log_run [OF prems(1) mc_check_quiet [OF c1]])
    show ?thesis
    proof (cases b)
      case b: True
      show ?thesis by (rule again [OF r1, of ?v]) (use prems(5) True b c1 in \<open>simp add: Let_def\<close>)
    next
      case b: False
      obtain now c2 where c2: "store_time c1 = (now, c2)" by (cases "store_time c1")
      obtain hn c3 where c3: "local_time_ms c2 = (hn, c3)" by (cases "local_time_ms c2")
      define dl where "dl = now_ms now + int (marker_lease_ms (options m))"
      define d where "d = createHeaderMarker sy m hn @ newline # createMarkerEntry sy m dl"
      obtain s e c4 where c4: "mc_write_atomic ?p d c3 = ((s, e), c4)" by (metis prod.collapse)
      have i1: "in_protocol sy c1" by (rule in_protocol_run [OF r1 prems(1)])
      have r3: "log_run sy c1 c3" using quiet_log_run [OF i1] store_time_quiet [OF c2] local_time_quiet [OF c3] quiet_trans by blast
      have i3: "in_protocol sy c3" by (rule in_protocol_run [OF r3 i1])
      have r13: "log_run sy (conn m) c3" using r1 r3 by (rule log_run_trans)
      have cl: "clock_range c1" "clock_range c2"
        using r1 prems(2) store_time_quiet [OF c2] by (auto simp: log_run_def quiet_def intro: clock_range_env)
      have "marker_lease_ms (options m) < 2 ^ 32" using prems(3) by (simp add: machine_ints_def)
      then have "\<bar>dl\<bar> < 2 ^ 63" using store_time_range [OF cl(1) c2] unfolding dl_def by simp
      then have mt: "marker_text sy d" unfolding d_def
        by (rule marker_reads_back [OF assms prems(3) local_time_range [OF cl(2) c3]])
      have eq: "reserve_version sy (Suc fuel) t h m =
          (if s = Error then reserve_version sy fuel t h (m\<lparr>conn := c4\<rparr>)
           else if s = Ok
           then let mk = marker_new ?p (case e of Some e \<Rightarrow> e | None \<Rightarrow> []) dl; (t, c) = assign_marker sy mk t c4
                in Some ((True, t\<lparr>t_marker_version := ?v\<rparr>, h), m\<lparr>conn := c\<rparr>)
           else reserve_version sy fuel t ?v (m\<lparr>conn := c4\<rparr>))"
        using True b c1 c2 c3 c4 unfolding reserve_version.simps Let_def d_def dl_def by simp
      show ?thesis
      proof (cases "s = Ok")
        case s: True
        from created_leased [OF i3 c4 [unfolded s] mt, of dl] obtain et where
          et: "e = Some et" "leased sy (mem c4) (marker_new ?p et dl)" "log_run sy c3 c4" by blast
        have i4: "in_protocol sy c4" by (rule in_protocol_run [OF et(3) i3])
        have r4: "log_run sy (conn m) c4" using r13 et(3) by (rule log_run_trans)
        have d: "log_run sy c4 (marker_destroy sy (t_marker t) c4)"
          by (rule marker_destroy_run [OF i4 marker_ok_run [OF r4 prems(1,4)]])
        with et(2) leased_steps i4 have "leased sy (mem (marker_destroy sy (t_marker t) c4)) (marker_new ?p et dl)"
          by (auto simp: log_run_def in_protocol_def)
        with prems(5) eq s et(1) d r4 True show ?thesis
          by (auto simp: assign_marker_def marker_ok_def Let_def intro: log_run_trans)
      next
        case s: False
        with mc_write_atomic_one [OF c4] quiet_log_run [OF i3] have "log_run sy c3 c4" by auto
        with r13 have r4: "log_run sy (conn m) c4" by (rule log_run_trans)
        show ?thesis
        proof (cases "s = Error")
          case True
          show ?thesis by (rule again [OF r4, of h]) (use prems(5) eq s True in simp)
        next
          case False
          show ?thesis by (rule again [OF r4, of ?v]) (use prems(5) eq s False in simp)
        qed
      qed
    qed
  qed
qed simp

section \<open>Waiting, losing and moving\<close>

lemma wait_takes_over:
  assumes "wait_for_marker sy fuel path m = Some (r, m')"
  shows "quiet (conn m) (conn m') \<or>
    (\<exists>start c. quiet (conn m) c \<and> expired_takeover sy start path (options m) c (conn m'))"
proof -
  obtain start c where s: "local_time_ms (conn m) = (start, c)" by (cases "local_time_ms (conn m)")
  with assms have "wait_loop sy fuel start path (m\<lparr>conn := c\<rparr>) = Some (r, m')" by (simp add: wait_for_marker_def)
  from wait_loop_takeover [OF this] local_time_quiet [OF s] show ?thesis by (auto intro: quiet_trans)
qed

lemma wait_run:
  assumes "in_protocol sy (conn m)" "wait_for_marker sy fuel path m = Some (r, m')"
  shows "log_run sy (conn m) (conn m')"
proof -
  consider "quiet (conn m) (conn m')" | start c where "quiet (conn m) c"
    "expired_takeover sy start path (options m) c (conn m')"
    using wait_takes_over [OF assms(2)] by blast
  then show ?thesis
  proof cases
    case (2 start c)
    then obtain body version c1 now c2 t c3 where e: "mc_read_versioned path c = ((Some body, version), c1)"
      "list_ex is_marker_line (json_objects (sy_parse sy) body)" "store_time c1 = (now, c2)" "quiet c2 c3"
      "one_match path (empty_commit sy ''MarkerTakeover'' t) (ov_etag version) c3 (conn m')"
      by (auto simp: expired_takeover_def)
    define mk where "mk = marker_new path (ov_etag version) 0"
    have r1: "log_run sy (conn m) c1"
      using 2(1) mc_read_versioned_quiet [OF e(1)] by (blast intro: quiet_log_run [OF assms(1)] quiet_trans)
    then have i1: "in_protocol sy c1" using assms(1) by (rule in_protocol_run)
    from e(1) obtain ob where ob: "map_of (objects (mem c1)) path = Some ob" "obj_content ob = body" "obj_etag ob = ov_etag version"
      by (auto simp: mc_read_versioned_def lookup_object_def Let_def split: prod.splits if_splits option.splits)
    then have "etag_at (mem c1) path = Some (ov_etag version)" by (simp add: etag_at_def)
    then have "etag_issued (mem c1) (ov_etag version)" using i1 by (simp add: in_protocol_def store_ok_def)
    moreover from this have "ov_etag version \<noteq> []" unfolding etag_issued_def using etag_text_nonempty by metis
    ultimately have l: "leased sy (mem c1) mk"
      using ob e(2) by (auto simp: leased_def mk_def marker_new_def marker_text_def)
    have r3: "log_run sy c1 c3" using store_time_quiet [OF e(3)] e(4) by (blast intro: quiet_log_run [OF i1] quiet_trans)
    with i1 l have "in_protocol sy c3" "leased sy (mem c3) mk"
      using in_protocol_run leased_steps by (auto simp: log_run_def in_protocol_def)
    from one_match_log_run [OF this] e(5) have "log_run sy c3 (conn m')" by (simp add: mk_def marker_new_def)
    with r1 r3 show ?thesis by (blast intro: log_run_trans)
  qed (rule quiet_log_run [OF assms(1)])
qed

definition lease_view :: "manager \<Rightarrow> marker option list \<times> bool" where
  "lease_view m = (map t_marker (tables m), with_markers m)"

lemma apply_waited_lease:
  "apply_waited sy v j (t, m) = (t', m') \<Longrightarrow> t_marker t' = t_marker t \<and> lease_view m' = lease_view m \<and> tables m' = tables m"
  by (auto simp: apply_waited_def parseEntry_def Let_def lease_view_def with_markers_def
      split: option.splits if_splits prod.splits)

lemma fold_waited_lease:
  "fold (apply_waited sy v) js (t, m) = (t', m') \<Longrightarrow>
   t_marker t' = t_marker t \<and> lease_view m' = lease_view m \<and> tables m' = tables m"
proof (induction js arbitrary: t m)
  case (Cons j js)
  obtain t1 m1 where a: "apply_waited sy v j (t, m) = (t1, m1)" by (metis surj_pair)
  with Cons.prems have "fold (apply_waited sy v) js (t1, m1) = (t', m')" by simp
  from Cons.IH [OF this] apply_waited_lease [OF a] show ?case by simp
qed simp

lemma lease_view_set: "t_marker t = t_marker (tables m ! i) \<Longrightarrow> lease_view (set_table i t m) = lease_view m"
proof -
  assume "t_marker t = t_marker (tables m ! i)"
  then have "(map t_marker (tables m))[i := t_marker t] = map t_marker (tables m)"
    by (cases "i < length (tables m)") (simp_all add: list_update_same_conv list_update_beyond)
  then show ?thesis by (simp add: lease_view_def set_table_def with_markers_def map_update)
qed

lemma lease_view_conn [simp]: "lease_view (m\<lparr>conn := c\<rparr>) = lease_view m" "lease_view (m\<lparr>local_log := l\<rparr>) = lease_view m"
  by (simp_all add: lease_view_def with_markers_def)

lemma finish_wait_lease: "finish_wait sy path entries m = Some (r, m') \<Longrightarrow> lease_view m' = lease_view m"
proof -
  assume f: "finish_wait sy path entries m = Some (r, m')"
  let ?i = "marker_table_id path m"
  show ?thesis
  proof (cases "parse_log_version path")
    case (Inl e)
    with f show ?thesis by (simp add: finish_wait_def Let_def split: if_splits)
  next
    case (Inr v)
    obtain t1 m1 where w: "fold (apply_waited sy (u32 (case v of Some v \<Rightarrow> v | None \<Rightarrow> 0))) entries (tables m ! ?i, m) = (t1, m1)"
      by (metis surj_pair)
    note l = fold_waited_lease [OF w]
    then have "lease_view (if entries = [] then m1 else set_table ?i t1 m1) = lease_view m"
      by (simp add: lease_view_set)
    with f Inr w show ?thesis by (auto simp: finish_wait_def Let_def split: if_splits)
  qed
qed

lemma wait_loop_lease: "wait_loop sy fuel start path m = Some (r, m') \<Longrightarrow> lease_view m' = lease_view m"
proof (induction fuel arbitrary: m)
  case (Suc fuel)
  obtain ct ver c1 where c1: "mc_read_versioned path (conn m) = ((ct, ver), c1)" by (metis surj_pair)
  show ?case
  proof (cases ct)
    case None
    with Suc.prems c1 show ?thesis by auto
  next
    case (Some body)
    show ?thesis
    proof (cases "list_ex is_marker_line (json_objects (sy_parse sy) body)")
      case False
      with Suc.prems c1 Some show ?thesis by (auto dest: finish_wait_lease)
    next
      case True
      with Suc.prems c1 Some obtain c where "m' = m\<lparr>conn := c\<rparr> \<or> wait_loop sy fuel start path (m\<lparr>conn := c\<rparr>) = Some (r, m')"
        by (simp add: Let_def split: prod.splits if_splits) blast+
      with Suc.IH [of "m\<lparr>conn := c\<rparr>"] show ?thesis by auto
    qed
  qed
qed simp

lemma wait_lease: "wait_for_marker sy fuel path m = Some (r, m') \<Longrightarrow> lease_view m' = lease_view m"
  by (auto simp: wait_for_marker_def split: prod.splits dest: wait_loop_lease)

lemma marker_lost_run:
  assumes "in_protocol sy (conn m)" "marker_ok sy w (mem (conn m)) t" "marker_lost t m = ((lost, t'), m')"
  shows "log_run sy (conn m) (conn m') \<and> marker_ok sy w (mem (conn m')) t' \<and> m' = m\<lparr>conn := conn m'\<rparr>"
proof (cases "\<exists>mk. t_marker t = Some mk \<and> marker_valid mk \<and> marker_etag mk \<noteq> []")
  case True
  then obtain mk where mk: "t_marker t = Some mk" "marker_valid mk" "marker_etag mk \<noteq> []" by blast
  obtain ct ver c where c: "mc_read_versioned (marker_path mk) (conn m) = ((ct, ver), c)" by (metis surj_pair)
  have run: "log_run sy (conn m) c" by (rule quiet_log_run [OF assms(1) mc_read_versioned_quiet [OF c]])
  have m': "m' = m\<lparr>conn := c\<rparr>" and t': "t' = t \<or> t' = t\<lparr>t_marker := Some (set_invalid mk)\<rparr>"
    using assms(3) mk c by (auto simp: marker_lost_def Let_def split: if_splits)
  have ok: "marker_ok sy w (mem c) t" by (rule marker_ok_run [OF run assms(1,2)])
  with marker_ok_invalid [OF ok mk(1)] t' m' run show ?thesis by auto
next
  case False
  with assms(3) have "t' = t" "m' = m" by (auto simp: marker_lost_def split: option.splits if_splits)
  with assms(2) show ?thesis by simp
qed

lemma shift_marker_run:
  assumes codec: "json_codec (sy_parse sy) (sy_write sy)" and i: "in_protocol sy (conn m)" and cl: "clock_range (conn m)"
    and mi: "machine_ints m" and ok: "marker_ok sy (with_markers m) (mem (conn m)) t"
    and s: "shift_marker sy fuel t m = Some ((b, t'), m')"
  shows "log_run sy (conn m) (conn m') \<and> marker_ok sy (with_markers m) (mem (conn m')) t'
    \<and> tables m' = tables m \<and> with_markers m' = with_markers m"
proof -
  from s obtain mk where mk: "t_marker t = Some mk" by (cases "t_marker t") (auto simp: shift_marker_def)
  obtain rel mk' c where r: "release sy mk (conn m) = ((rel, mk'), c)" by (metis surj_pair)
  let ?t = "t\<lparr>t_marker := Some mk'\<rparr>" and ?m = "m\<lparr>conn := c\<rparr>"
  from marker_release_run [OF i marker_ok_release [OF ok mk] r]
  have run: "log_run sy (conn m) c" and mk': "mk' = mk \<or> mk' = set_invalid mk" by auto
  have "marker_ok sy (with_markers ?m) (mem (conn ?m)) ?t"
    using marker_ok_invalid [OF marker_ok_run [OF run i ok] mk mk'] by simp
  moreover obtain b' t2 h m1 where v: "reserve_version sy fuel ?t (t_marker_version t) ?m = Some ((b', t2, h), m1)"
    using s mk r by (cases "reserve_version sy fuel ?t (t_marker_version t) ?m") (auto simp: shift_marker_def)
  moreover have "in_protocol sy (conn ?m)" "clock_range (conn ?m)" "machine_ints ?m"
    using in_protocol_run [OF run i] run cl mi by (auto simp: log_run_def machine_ints_def intro: clock_range_env)
  ultimately have "log_run sy c (conn m1) \<and> marker_ok sy (with_markers m) (mem (conn m1)) t2 \<and> m1 = ?m\<lparr>conn := conn m1\<rparr>"
    using reserve_version_run [OF codec, of ?m ?t fuel "t_marker_version t" b' t2 h m1] by simp
  then have *: "log_run sy c (conn m1)" "marker_ok sy (with_markers m) (mem (conn m1)) t2" "m1 = m\<lparr>conn := conn m1\<rparr>"
    by simp_all
  have "tables (m\<lparr>conn := conn m1\<rparr>) = tables m" "with_markers (m\<lparr>conn := conn m1\<rparr>) = with_markers m" by simp_all
  with *(3) have "tables m1 = tables m" "with_markers m1 = with_markers m" by metis+
  moreover from s mk r v have "t' = t2" "m' = m1 \<or> (\<exists>ps. m' = m1\<lparr>prev_markers := ps\<rparr>)"
    by (auto simp: shift_marker_def split: if_splits)
  ultimately show ?thesis using *(1,2) run by (auto simp: with_markers_def intro: log_run_trans)
qed

section \<open>The steps of a client\<close>

text \<open>The operations on the versions of the log.  A new table is opened without a marker; \<open>step_requests\<close> stands for
  requests that change nothing, such as reading the log.\<close>

inductive client_step :: "sys \<Rightarrow> manager \<Rightarrow> manager \<Rightarrow> bool" for sy where
  step_reserve: "machine_ints m \<Longrightarrow> i < length (tables m) \<Longrightarrow>
    reserve_version sy fuel (tables m ! i) h m = Some ((ok, t, h'), m') \<Longrightarrow> client_step sy m (set_table i t m')"
| step_open: "machine_ints m \<Longrightarrow> reserve_version sy fuel (table_stats_new base) h m = Some ((ok, t, h'), m') \<Longrightarrow>
    client_step sy m (m'\<lparr>tables := tables m' @ [t]\<rparr>)"
| step_shift: "machine_ints m \<Longrightarrow> i < length (tables m) \<Longrightarrow>
    shift_marker sy fuel (tables m ! i) m = Some ((ok, t), m') \<Longrightarrow> client_step sy m (set_table i t m')"
| step_wait: "wait_for_marker sy fuel path m = Some (r, m') \<Longrightarrow> client_step sy m m'"
| step_lost: "i < length (tables m) \<Longrightarrow> marker_lost (tables m ! i) m = ((lost, t), m') \<Longrightarrow>
    client_step sy m (set_table i t m')"
| step_commit: "i < length (tables m) \<Longrightarrow> write_commit (tables m ! i) log m = Some ((r, t), m') \<Longrightarrow>
    client_step sy m (set_table i t m')"
| step_abort: "client_step sy m (abort_txn sy False m)"
| step_clear: "client_step sy m (clear_tables sy m)"
| step_requests: "quiet (conn m) c \<Longrightarrow> client_step sy m (m\<lparr>conn := c\<rparr>)"

inductive_cases client_stepE: "client_step sy m m'"

definition client_ok :: "sys \<Rightarrow> mem_store \<Rightarrow> manager \<Rightarrow> bool" where
  "client_ok sy s m \<longleftrightarrow> (\<forall>t \<in> set (tables m). marker_ok sy (with_markers m) s t)"

lemma client_ok_conv:
  "client_ok sy s m \<longleftrightarrow> (\<forall>mo \<in> set (fst (lease_view m)).
     case mo of None \<Rightarrow> True | Some mk \<Rightarrow> if snd (lease_view m) then leased sy s mk else \<not> marker_valid mk)"
  by (simp add: client_ok_def lease_view_def marker_ok_def cong: option.case_cong)

lemma client_ok_view: "lease_view m' = lease_view m \<Longrightarrow> client_ok sy s m' = client_ok sy s m"
  unfolding client_ok_conv by (simp cong: option.case_cong)

lemma client_ok_run:
  "log_run sy c c' \<Longrightarrow> in_protocol sy c \<Longrightarrow> client_ok sy (mem c) m \<Longrightarrow> client_ok sy (mem c') m"
  by (auto simp: client_ok_def intro: marker_ok_run)

lemma client_ok_set:
  assumes "client_ok sy s m'" "marker_ok sy (with_markers m') s t" "tables m = tables m'" "with_markers m = with_markers m'"
  shows "client_ok sy s (set_table i t m)"
  using assms set_update_subset_insert [of "tables m" i t]
  by (auto simp: client_ok_def set_table_def with_markers_def)

lemma client_ok_append:
  assumes "client_ok sy s m'" "marker_ok sy (with_markers m') s t" "tables m = tables m'" "with_markers m = with_markers m'"
  shows "client_ok sy s (m\<lparr>tables := tables m @ [t]\<rparr>)"
proof -
  have "with_markers (m\<lparr>tables := tables m @ [t]\<rparr>) = with_markers m" by (simp add: with_markers_def)
  with assms show ?thesis by (auto simp: client_ok_def)
qed

lemma conn_only:
  assumes "m' = m\<lparr>conn := conn m'\<rparr>"
  shows "tables m' = tables m" "with_markers m' = with_markers m"
proof -
  have "tables (m\<lparr>conn := conn m'\<rparr>) = tables m" "with_markers (m\<lparr>conn := conn m'\<rparr>) = with_markers m" by simp_all
  with assms show "tables m' = tables m" "with_markers m' = with_markers m" by metis+
qed

lemma set_table_conn [simp]: "conn (set_table i t m) = conn m"
  by (simp add: set_table_def)

lemma clear_run:
  "in_protocol sy c \<Longrightarrow> (\<And>t. t \<in> set ts \<Longrightarrow> marker_ok sy w (mem c) t) \<Longrightarrow>
   log_run sy c (fold (\<lambda>t c. marker_destroy sy (t_marker t) c) ts c)"
proof (induction ts arbitrary: c)
  case (Cons t ts)
  let ?c = "marker_destroy sy (t_marker t) c"
  have r: "log_run sy c ?c" by (rule marker_destroy_run [OF Cons.prems(1), of w]) (simp add: Cons.prems(2))
  have "\<And>t. t \<in> set ts \<Longrightarrow> marker_ok sy w (mem ?c) t" using Cons.prems marker_ok_run [OF r] by simp
  from Cons.IH [OF in_protocol_run [OF r Cons.prems(1)] this] r show ?case by (simp add: log_run_trans)
qed simp

lemma write_commit_run:
  assumes "in_protocol sy (conn m)" "marker_ok sy (with_markers m) (mem (conn m)) t" "write_commit t log m = Some ((r, t'), m')"
  shows "log_run sy (conn m) (conn m') \<and> marker_ok sy (with_markers m) (mem (conn m')) t' \<and> m' = m\<lparr>conn := conn m'\<rparr>"
proof -
  from assms(3) obtain mk mk' c where mk: "t_marker t = Some mk"
    and l: "commit_loop (storage_retries m) False (with_markers m) mk log (conn m) = ((r, mk'), c)"
    and eq: "t' = t\<lparr>t_marker := Some mk'\<rparr>" "m' = m\<lparr>conn := c\<rparr>"
    by (auto simp: write_commit_def split: option.splits prod.splits)
  have "log_run sy (conn m) c"
    by (rule commit_loop_run [OF assms(1) l]) (use assms(2) mk in \<open>simp add: marker_ok_def\<close>)
  with marker_ok_invalid [OF marker_ok_run [OF _ assms(1,2)] mk commit_loop_marker [OF l]] eq show ?thesis by simp
qed

lemma client_step_run:
  assumes step: "client_step sy m m'" and codec: "json_codec (sy_parse sy) (sy_write sy)"
    and i: "in_protocol sy (conn m)" and cl: "clock_range (conn m)" and ok: "client_ok sy (mem (conn m)) m"
  shows "log_run sy (conn m) (conn m') \<and> client_ok sy (mem (conn m')) m'"
  using step
proof cases
  case (step_reserve j fuel h ok' t h' m1)
  have "marker_ok sy (with_markers m) (mem (conn m)) (tables m ! j)" using ok step_reserve(3) by (simp add: client_ok_def)
  from reserve_version_run [OF codec i cl step_reserve(2) this step_reserve(4)]
  have r: "log_run sy (conn m) (conn m1)" "marker_ok sy (with_markers m) (mem (conn m1)) t" "m1 = m\<lparr>conn := conn m1\<rparr>" by auto
  from client_ok_set [OF client_ok_run [OF r(1) i ok] r(2) conn_only [OF r(3)]] r(1) step_reserve(1) show ?thesis by simp
next
  case (step_open fuel base h ok' t h' m1)
  have "marker_ok sy (with_markers m) (mem (conn m)) (table_stats_new base)" by (simp add: marker_ok_def table_stats_new_def)
  from reserve_version_run [OF codec i cl step_open(2) this step_open(3)]
  have r: "log_run sy (conn m) (conn m1)" "marker_ok sy (with_markers m) (mem (conn m1)) t" "m1 = m\<lparr>conn := conn m1\<rparr>" by auto
  from client_ok_append [OF client_ok_run [OF r(1) i ok] r(2) conn_only [OF r(3)]] r(1) step_open(1) show ?thesis by simp
next
  case (step_shift j fuel ok' t m1)
  have "marker_ok sy (with_markers m) (mem (conn m)) (tables m ! j)" using ok step_shift(3) by (simp add: client_ok_def)
  from shift_marker_run [OF codec i cl step_shift(2) this step_shift(4)]
  have r: "log_run sy (conn m) (conn m1)" "marker_ok sy (with_markers m) (mem (conn m1)) t"
    "tables m1 = tables m" "with_markers m1 = with_markers m" by auto
  from client_ok_set [OF client_ok_run [OF r(1) i ok] r(2) r(3,4)] r(1) step_shift(1) show ?thesis by simp
next
  case (step_wait fuel path r)
  note r = wait_run [OF i step_wait]
  with client_ok_run [OF r i ok] client_ok_view [OF wait_lease [OF step_wait]] show ?thesis by blast
next
  case (step_lost j lost t m1)
  have "marker_ok sy (with_markers m) (mem (conn m)) (tables m ! j)" using ok step_lost(2) by (simp add: client_ok_def)
  from marker_lost_run [OF i this step_lost(3)]
  have r: "log_run sy (conn m) (conn m1)" "marker_ok sy (with_markers m) (mem (conn m1)) t" "m1 = m\<lparr>conn := conn m1\<rparr>" by auto
  from client_ok_set [OF client_ok_run [OF r(1) i ok] r(2) conn_only [OF r(3)]] r(1) step_lost(1) show ?thesis by simp
next
  case (step_commit j log r t m1)
  have "marker_ok sy (with_markers m) (mem (conn m)) (tables m ! j)" using ok step_commit(2) by (simp add: client_ok_def)
  from write_commit_run [OF i this step_commit(3)]
  have r: "log_run sy (conn m) (conn m1)" "marker_ok sy (with_markers m) (mem (conn m1)) t" "m1 = m\<lparr>conn := conn m1\<rparr>" by auto
  from client_ok_set [OF client_ok_run [OF r(1) i ok] r(2) conn_only [OF r(3)]] r(1) step_commit(1) show ?thesis by simp
next
  case step_abort
  obtain ts c where r: "release_tables sy (tables m) (conn m) = (ts, c)" by (metis surj_pair)
  have "\<And>t. t \<in> set (tables m) \<Longrightarrow> marker_ok sy (with_markers m) (mem (conn m)) t" using ok by (simp add: client_ok_def)
  from release_tables_run [OF i this r] step_abort r ok show ?thesis
    by (auto simp: abort_txn_def client_ok_def with_markers_def Let_def)
next
  case step_clear
  with clear_run [OF i, of "tables m" "with_markers m"] ok show ?thesis by (simp add: clear_tables_def client_ok_def)
next
  case (step_requests c)
  note r = quiet_log_run [OF i step_requests(2)]
  from client_ok_run [OF r i ok] r step_requests(1) show ?thesis by (simp add: client_ok_def with_markers_def)
qed

section \<open>A commit that succeeds\<close>

text \<open>At some time during the operation the object held the text.\<close>

definition held :: "sys \<Rightarrow> string \<Rightarrow> string \<Rightarrow> mem_store \<Rightarrow> bool" where
  "held sy p data s' \<longleftrightarrow>
     (\<exists>s ob. map_of (objects s) p = Some ob \<and> obj_content ob = data \<and> (log_step sy)\<^sup>*\<^sup>* s s')"

lemma held_put: "(log_step sy)\<^sup>*\<^sup>* (put_object p data t z) s' \<Longrightarrow> held sy p data s'"
  unfolding held_def
  by (rule exI [of _ "put_object p data t z"],
      rule exI [of _ "\<lparr>obj_content = data, obj_etag = etag_text (next_etag z + 1), modified_ms = t\<rparr>"])
     (simp add: put_object_def)

lemma held_steps: "held sy p data s \<Longrightarrow> (log_step sy)\<^sup>*\<^sup>* s s' \<Longrightarrow> held sy p data s'"
  unfolding held_def by (blast intro: rtranclp_trans)

lemma held_commit:
  assumes "held sy p data s" "commit_path p" "\<not> marker_text sy data"
  obtains ob where "map_of (objects s) p = Some ob" "obj_content ob = data"
  using assms log_steps_keep unfolding held_def keeps_commits_def by blast

lemma commit_attempt_run:
  assumes "in_protocol sy c" "markers \<Longrightarrow> leased sy (mem c) mk" "commit_attempt markers mk log c = (status, c')"
  shows "log_run sy c c' \<and> (status = Ok \<longrightarrow> held sy (marker_path mk) log (mem c'))"
proof (cases markers)
  case True
  with assms(2) have l: "leased sy (mem c) mk" "marker_etag mk \<noteq> []" by (simp_all add: leased_def)
  from assms(3) True have a: "commit_attempt True mk log c = (status, c')" by simp
  from commit_attempt_match [OF a l(2)] quiet_log_run [OF assms(1)] one_match_log_run [OF assms(1) l(1)] held_put show ?thesis
    by (metis (no_types, lifting))
next
  case False
  with assms(3) have a: "commit_attempt False mk log c = (status, c')" by simp
  from commit_attempt_create [OF a] quiet_log_run [OF assms(1)] one_create_log_run [OF assms(1)] held_put show ?thesis
    by (metis (no_types, lifting))
qed

lemma commit_loop_held:
  "in_protocol sy c \<Longrightarrow> (markers \<Longrightarrow> leased sy (mem c) mk) \<Longrightarrow>
   commit_loop n uncertain markers mk log c = ((Commit_Ok, mk'), c') \<Longrightarrow> held sy (marker_path mk) log (mem c')"
proof (induction n arbitrary: uncertain c)
  case (Suc n)
  obtain status c1 where a: "commit_attempt markers mk log c = (status, c1)" by (cases "commit_attempt markers mk log c")
  from commit_attempt_run [OF Suc.prems(1,2) a]
  have r: "log_run sy c c1" and ok: "status = Ok \<Longrightarrow> held sy (marker_path mk) log (mem c1)" by auto
  consider "status = Ok" | "status = PreconditionFailed \<or> status = AlreadyExists" | "status = Error"
    by (cases status) auto
  then show ?case
  proof cases
    case 1
    with Suc.prems(3) a ok show ?thesis by simp
  next
    case 2
    obtain x c2 where x: "mc_read2 (marker_path mk) c1 = (x, c2)" by (cases "mc_read2 (marker_path mk) c1")
    from Suc.prems(3) a 2 x have "x = Some log" "c' = c2" by (auto split: if_splits)
    with x have "\<exists>ob. map_of (objects (mem c')) (marker_path mk) = Some ob \<and> obj_content ob = log"
      by (auto simp: mc_read2_def lookup_object_def split: prod.splits if_splits option.splits)
    then show ?thesis unfolding held_def by blast
  next
    case 3
    have "in_protocol sy c1" "markers \<Longrightarrow> leased sy (mem c1) mk"
      using in_protocol_run [OF r Suc.prems(1)] Suc.prems(1,2) r leased_steps by (auto simp: log_run_def in_protocol_def)
    from Suc.IH [OF this] Suc.prems(3) a 3 show ?thesis by simp
  qed
qed simp

section \<open>The system\<close>

text \<open>The shared store and the clients; each of them acts on the shared store.\<close>

definition at_store :: "mem_store \<Rightarrow> manager \<Rightarrow> manager" where
  "at_store s m = m\<lparr>conn := (conn m)\<lparr>mem := s\<rparr>\<rparr>"

inductive system_step :: "sys \<Rightarrow> mem_store \<times> manager list \<Rightarrow> mem_store \<times> manager list \<Rightarrow> bool" for sy where
  client_acts: "i < length ms \<Longrightarrow> client_step sy (at_store s (ms ! i)) m' \<Longrightarrow>
    system_step sy (s, ms) (mem (conn m'), ms[i := m'])"
| others_act: "log_step sy s s' \<Longrightarrow> system_step sy (s, ms) (s', ms)"

inductive_cases system_stepE: "system_step sy (s, ms) (s', ms')"

definition system_ok :: "sys \<Rightarrow> mem_store \<times> manager list \<Rightarrow> bool" where
  "system_ok sy = (\<lambda>(s, ms). store_ok s
     \<and> (\<forall>m \<in> set ms. client_ok sy s m \<and> protocol_hook sy (conn m) \<and> clock_range (conn m)))"

lemma at_store_simps [simp]:
  "mem (conn (at_store s m)) = s" "client_ok sy s' (at_store s m) = client_ok sy s' m"
  "protocol_hook sy (conn (at_store s m)) = protocol_hook sy (conn m)" "tables (at_store s m) = tables m"
  "clock_range (conn (at_store s m)) = clock_range (conn m)" "with_markers (at_store s m) = with_markers m"
  by (simp_all add: at_store_def client_ok_def protocol_hook_def clock_range_def with_markers_def)

lemma client_ok_steps: "(log_step sy)\<^sup>*\<^sup>* s s' \<Longrightarrow> store_ok s \<Longrightarrow> client_ok sy s m \<Longrightarrow> client_ok sy s' m"
  by (auto simp: client_ok_def intro: marker_ok_steps)

lemma system_ok_steps:
  assumes "system_ok sy (s, ms)" "(log_step sy)\<^sup>*\<^sup>* s s'"
  shows "system_ok sy (s', ms)"
  using assms log_steps_ok [OF assms(2)] client_ok_steps [OF assms(2)] by (auto simp: system_ok_def)

lemma client_run_ok:
  assumes ok: "system_ok sy (s, ms)" and r: "log_run sy (conn (at_store s (ms ! i))) (conn m')" and i: "i < length ms"
    and m': "client_ok sy (mem (conn m')) m'"
  shows "(log_step sy)\<^sup>*\<^sup>* s (mem (conn m')) \<and> system_ok sy (mem (conn m'), ms[i := m'])"
proof -
  have m: "protocol_hook sy (conn (ms ! i))" "clock_range (conn (ms ! i))" using ok i by (auto simp: system_ok_def)
  from r have env: "same_env (conn (at_store s (ms ! i))) (conn m')" and steps: "(log_step sy)\<^sup>*\<^sup>* s (mem (conn m'))"
    by (auto simp: log_run_def)
  from env m have "protocol_hook sy (conn m')" "clock_range (conn m')"
    by (simp_all add: same_env_def protocol_hook_def clock_range_def at_store_def)
  with system_ok_steps [OF ok steps] m' steps set_update_subset_insert [of ms i m'] show ?thesis
    by (auto simp: system_ok_def)
qed

lemma system_step_run:
  assumes codec: "json_codec (sy_parse sy) (sy_write sy)" and "system_step sy a b" and "system_ok sy a"
  shows "(log_step sy)\<^sup>*\<^sup>* (fst a) (fst b) \<and> system_ok sy b"
  using assms(2,3)
proof (induction rule: system_step.induct)
  case (client_acts i ms s m')
  let ?m = "at_store s (ms ! i)"
  have m: "client_ok sy s (ms ! i)" "protocol_hook sy (conn (ms ! i))" "clock_range (conn (ms ! i))" "store_ok s"
    using client_acts(1,3) by (auto simp: system_ok_def)
  then have "in_protocol sy (conn ?m)" "clock_range (conn ?m)" "client_ok sy (mem (conn ?m)) ?m"
    by (simp_all add: in_protocol_def)
  from client_step_run [OF client_acts(2) codec this] client_run_ok [OF client_acts(3) _ client_acts(1)] show ?case by simp
next
  case (others_act s s' ms)
  have "(log_step sy)\<^sup>*\<^sup>* s s'" using others_act(1) by (rule r_into_rtranclp)
  with system_ok_steps [OF others_act(2)] show ?case by simp
qed

lemma system_run:
  assumes codec: "json_codec (sy_parse sy) (sy_write sy)"
  shows "(system_step sy)\<^sup>*\<^sup>* a b \<Longrightarrow> system_ok sy a \<Longrightarrow> (log_step sy)\<^sup>*\<^sup>* (fst a) (fst b) \<and> system_ok sy b"
proof (induction rule: rtranclp_induct)
  case (step y z)
  then have y: "(log_step sy)\<^sup>*\<^sup>* (fst a) (fst y)" "system_ok sy y" by auto
  with system_step_run [OF codec step.hyps(2)] show ?case by auto
qed simp

section \<open>Properties\<close>


text \<open>The commit of a client in a good state of the system.\<close>

lemma commit_in_system:
  assumes "json_codec (sy_parse sy) (sy_write sy)" and ok: "system_ok sy (s, ms)" and i: "i < length ms"
    and t: "t \<in> set (tables (ms ! i))" "t_marker t = Some mk"
    and w: "write_commit t log (at_store s (ms ! i)) = Some ((Commit_Ok, t'), m')"
  shows "log_run sy (conn (at_store s (ms ! i))) (conn m')" "held sy (marker_path mk) log (mem (conn m'))"
    "client_ok sy (mem (conn m')) (set_table k t' m')"
proof -
  let ?m = "at_store s (ms ! i)"
  have c: "in_protocol sy (conn ?m)" "client_ok sy (mem (conn ?m)) ?m"
    using ok i by (auto simp: system_ok_def in_protocol_def)
  then have tm: "marker_ok sy (with_markers ?m) (mem (conn ?m)) t" using t(1) by (simp add: client_ok_def)
  from write_commit_run [OF c(1) tm w]
  have r: "log_run sy (conn ?m) (conn m')" "marker_ok sy (with_markers ?m) (mem (conn m')) t'" "m' = ?m\<lparr>conn := conn m'\<rparr>"
    by auto
  from r(1) show "log_run sy (conn ?m) (conn m')" .
  show "client_ok sy (mem (conn m')) (set_table k t' m')"
    by (rule client_ok_set [OF client_ok_run [OF r(1) c] r(2) conn_only [OF r(3)]])
  from w t(2) obtain mk' where
    l: "commit_loop (storage_retries ?m) False (with_markers ?m) mk log (conn ?m) = ((Commit_Ok, mk'), conn m')"
    by (rule write_commit_conn)
  have "with_markers ?m \<Longrightarrow> leased sy (mem (conn ?m)) mk" using tm t(2) by (simp add: marker_ok_def)
  from commit_loop_held [OF c(1) this l] show "held sy (marker_path mk) log (mem (conn m'))" .
qed

text \<open>C1: A commit that was reported as written is durable: in every later state of the system, whatever the clients and the
  store do, the object of its version has exactly the text of the commit; in particular no other client, and not this
  client again, gets another commit of the same version reported as written.\<close>

theorem commit_durable:
  assumes "json_codec (sy_parse sy) (sy_write sy)" and "system_ok sy (s, ms)"
    and "i < length ms" and "t \<in> set (tables (ms ! i))" and "t_marker t = Some mk"
    and "write_commit t log (at_store s (ms ! i)) = Some ((Commit_Ok, t'), m')"
    and "commit_path (marker_path mk)" and "\<not> marker_text sy log"
    and "(system_step sy)\<^sup>*\<^sup>* (mem (conn m'), ms[i := set_table k t' m']) (s2, ms2)"
  shows "(\<exists>ob. map_of (objects s2) (marker_path mk) = Some ob \<and> obj_content ob = log)
    \<and> (\<forall>j t2 mk2 log2 t2' m2'. j < length ms2 \<and> t2 \<in> set (tables (ms2 ! j)) \<and> t_marker t2 = Some mk2
         \<and> marker_path mk2 = marker_path mk
         \<and> write_commit t2 log2 (at_store s2 (ms2 ! j)) = Some ((Commit_Ok, t2'), m2') \<and> \<not> marker_text sy log2
       \<longrightarrow> log2 = log)"
proof -
  note c = commit_in_system [OF assms(1-6)]
  from client_run_ok [OF assms(2) _ assms(3), of "set_table k t' m'"] c(1,3)
  have "system_ok sy (mem (conn m'), ms[i := set_table k t' m'])" by simp
  from system_run [OF assms(1,9) this]
  have run: "(log_step sy)\<^sup>*\<^sup>* (mem (conn m')) s2" and ok2: "system_ok sy (s2, ms2)" by simp_all
  have later: "held sy (marker_path mk) log s3" if "(log_step sy)\<^sup>*\<^sup>* s2 s3" for s3
    by (rule held_steps [OF held_steps [OF c(2) run] that])
  have "log2 = log" if 2: "j < length ms2" "t2 \<in> set (tables (ms2 ! j))" "t_marker t2 = Some mk2"
      "marker_path mk2 = marker_path mk" "write_commit t2 log2 (at_store s2 (ms2 ! j)) = Some ((Commit_Ok, t2'), m2')"
      "\<not> marker_text sy log2" for j t2 mk2 log2 t2' m2'
  proof -
    note c2 = commit_in_system [OF assms(1) ok2 2(1,2,3,5)]
    from c2(1) have "(log_step sy)\<^sup>*\<^sup>* s2 (mem (conn m2'))" by (simp add: log_run_def)
    from held_commit [OF later [OF this] assms(7,8)] held_commit [OF c2(2) [unfolded 2(4)] assms(7) 2(6)]
    show ?thesis by (metis option.inject)
  qed
  moreover from held_commit [OF later [OF rtranclp.rtrancl_refl] assms(7,8)]
  have "\<exists>ob. map_of (objects s2) (marker_path mk) = Some ob \<and> obj_content ob = log" by metis
  ultimately show ?thesis by blast
qed

section \<open>Witnesses\<close>

definition demo_version :: string where "demo_version = version_path ''t/'' 1"

definition demo_log_store :: "string \<Rightarrow> connector" where
  "demo_log_store text = store demo_version text (demo_connector\<lparr>local_clock := \<lambda>n. 1000\<rparr>)"

definition demo_held :: marker where "demo_held = marker_new demo_version (etag_text 1) 0"

lemma demo_held: "marker_path demo_held = demo_version" "marker_etag demo_held = etag_text 1"
  by (simp_all add: demo_held_def marker_new_def)

definition demo_client :: "string \<Rightarrow> manager" where
  "demo_client text = demo_manager\<lparr>conn := demo_log_store text, tables :=
     [(table_stats_new ''t/'')\<lparr>t_marker := Some demo_held\<rparr>]\<rparr>"

lemma demo_commit_path: "commit_path demo_version"
  using parse_log_version_iff [of demo_version 1]
  by (auto simp: commit_path_def demo_version_def version_path_def)

lemma demo_log_conn:
  "mem (demo_log_store text) = put_object demo_version text 1000 \<lparr>objects = [], next_etag = 0\<rparr>"
  "fail_hook (demo_log_store text) = None" "clock (demo_log_store text) = None" "local_clock (demo_log_store text) n = 1000"
  by (simp_all add: demo_log_store_def store_def clock_time_def local_time_ms_def demo_connector_def)

lemma demo_log_store_ok: "store_ok (mem (demo_log_store text))"
proof -
  have "store_ok \<lparr>objects = [], next_etag = 0\<rparr>" by (simp add: store_ok_def etag_at_def)
  then show ?thesis by (simp add: demo_log_conn store_ok_put)
qed

lemma demo_log_object:
  "map_of (objects (mem (demo_log_store text))) demo_version
    = Some \<lparr>obj_content = text, obj_etag = etag_text 1, modified_ms = 1000\<rparr>"
  by (simp add: demo_log_conn put_object_def)

lemma demo_plain_text: "\<not> marker_text demo_sys ''x''"
  by (simp add: marker_text_def json_objects_def getlines_def newline_def)

lemma demo_old_marker_text: "marker_text demo_sys demo_old_marker"
  using demo_old_marker_objects
  by (simp add: marker_text_def demo_sys_def is_marker_line_def member_object_def)

lemma demo_client_fields:
  "tables (demo_client text) = [(table_stats_new ''t/'')\<lparr>t_marker := Some demo_held\<rparr>]"
  "conn (demo_client text) = demo_log_store text" "with_markers (demo_client text)" "storage_retries (demo_client text) = Suc 7"
  by (simp_all add: demo_client_def demo_manager_def manager_new_def with_markers_def level_of_def)

lemma demo_system_ok:
  assumes "map_of (objects s) demo_version = Some \<lparr>obj_content = text, obj_etag = e, modified_ms = ti\<rparr>" "store_ok s"
    "etag_issued s (etag_text 1)" "e = etag_text 1 \<Longrightarrow> marker_text demo_sys text" "set ms = {demo_client u}"
  shows "system_ok demo_sys (s, ms)"
proof -
  have "client_ok demo_sys s (demo_client u)"
    using assms(1,3,4) by (auto simp: client_ok_def demo_client_fields marker_ok_def leased_def demo_held)
  moreover have "protocol_hook demo_sys (conn (demo_client u))" "clock_range (conn (demo_client u))"
    by (simp_all add: demo_client_fields protocol_hook_def clock_range_def demo_log_conn)
  ultimately show ?thesis using assms(2,5) by (simp add: system_ok_def)
qed

text \<open>A client whose version was taken over and committed by another one tries to commit.\<close>

definition demo_taken :: mem_store where
  "demo_taken = put_object demo_version ''x'' 1000 (mem (demo_log_store demo_old_marker))"

lemma demo_taken_ok:
  "map_of (objects demo_taken) demo_version = Some \<lparr>obj_content = ''x'', obj_etag = etag_text 2, modified_ms = 1000\<rparr>"
  "system_ok demo_sys (demo_taken, [demo_client u])"
proof -
  show o: "map_of (objects demo_taken) demo_version = Some \<lparr>obj_content = ''x'', obj_etag = etag_text 2, modified_ms = 1000\<rparr>"
    by (simp add: demo_taken_def demo_log_conn put_object_def)
  have "etag_issued demo_taken (etag_text 1)"
    by (auto simp: demo_taken_def demo_log_conn put_object_def etag_issued_def)
  moreover have "store_ok demo_taken" unfolding demo_taken_def by (rule store_ok_put [OF demo_log_store_ok])
  ultimately show "system_ok demo_sys (demo_taken, [demo_client u])"
    by (intro demo_system_ok [OF o, where u = u]) simp_all
qed

lemma write_commit_Some: "t_marker t = Some mk \<Longrightarrow> \<exists>r t' m'. write_commit t log m = Some ((r, t'), m')"
  by (simp add: write_commit_def split: prod.splits)


lemma commit_durable_witness:
  "\<exists>t' m'. write_commit (tables (demo_client demo_old_marker) ! 0) ''x'' (demo_client demo_old_marker) = Some ((Commit_Ok, t'), m')
     \<and> (\<exists>ob. map_of (objects (mem (conn m'))) demo_version = Some ob \<and> obj_content ob = ''x'')"
proof -
  let ?m = "demo_client demo_old_marker" and ?mk = "demo_held"
  let ?s = "mem (demo_log_store demo_old_marker)"
  have at: "at_store ?s ?m = ?m" by (simp add: at_store_def demo_client_fields(2) [symmetric])
  have mk: "t_marker (tables ?m ! 0) = Some ?mk" "marker_path ?mk = demo_version" "marker_etag ?mk = etag_text 1"
    by (simp_all add: demo_client_fields demo_held)
  have "etag_issued ?s (etag_text 1)"
    by (auto simp: demo_log_conn put_object_def etag_issued_def)
  then have ok: "system_ok demo_sys (?s, [?m])"
    by (intro demo_system_ok [OF demo_log_object demo_log_store_ok, where u = demo_old_marker])
       (simp_all add: demo_old_marker_text)
  obtain c1 where "mc_write_if_match demo_version ''x'' (etag_text 1) (demo_log_store demo_old_marker) = (Ok, c1)"
    by (simp add: mc_write_if_match_def should_fail_def demo_log_conn(2) lookup_object_def demo_log_object Let_def)
  then have "commit_attempt True ?mk ''x'' (conn ?m) = (Ok, c1)"
    by (simp add: commit_attempt_def mk demo_client_fields)
  then obtain t' m' where w: "write_commit (tables ?m ! 0) ''x'' ?m = Some ((Commit_Ok, t'), m')"
    by (simp only: write_commit_def mk demo_client_fields(3,4) option.case commit_loop.simps) simp
  have "(\<exists>ob. map_of (objects (mem (conn m'))) (marker_path ?mk) = Some ob \<and> obj_content ob = ''x'') \<and> True"
    using commit_durable [OF demo_codec ok, of 0 "tables ?m ! 0" ?mk "''x''" t' m' 0 "mem (conn m')" "[?m][0 := set_table 0 t' m']"]
      at w mk demo_commit_path demo_plain_text by (auto simp: demo_client_fields)
  with w mk(2) show ?thesis by auto
qed

end
