(* ===== verification/WriteSet.thy ===== *)
theory WriteSet
  imports Frames
begin

text \<open>
  What the changes of a transaction amount to: its write set has, for every path, the last operation on it; a file
  written with its statistics is found again by every key it holds; removing the rows of a key writes exactly the
  other rows.
\<close>

section \<open>The write set has the last operation on every path\<close>

text \<open>The operations on the files of one table, and what a commit makes of them: the files it adds and removes.\<close>

datatype file_op = Create_file file_stats bool | Delete_file string

fun run_file_op :: "file_op \<Rightarrow> table_stats \<Rightarrow> table_stats" where
  "run_file_op (Create_file f overwrite) t = created_file f overwrite t"
| "run_file_op (Delete_file path) t = deleted_file path t"

datatype change = Added file_stats | Removed

definition valid_files :: "(string \<times> file_stats) list \<Rightarrow> string \<Rightarrow> file_stats option" where
  "valid_files fs path = (case map_of fs path of Some f \<Rightarrow> if fs_valid f then Some f else None | None \<Rightarrow> None)"

text \<open>The abstract write set maps a path to its change, and an operation sets the change of its path.\<close>

definition file_changes :: "table_stats \<Rightarrow> string \<Rightarrow> change option" where
  "file_changes t path =
     (case valid_files (t_created_files t) path of
        Some f \<Rightarrow> Some (Added f)
      | None \<Rightarrow> if valid_files (t_deleted_files t) path \<noteq> None then Some Removed else None)"

fun change_op :: "file_op \<Rightarrow> (string \<Rightarrow> change option) \<Rightarrow> string \<Rightarrow> change option" where
  "change_op (Create_file f overwrite) c = c(fs_path f \<mapsto> Added f)"
| "change_op (Delete_file path) c = c(path \<mapsto> Removed)"

fun op_ok :: "file_op \<Rightarrow> bool" where
  "op_ok (Create_file f overwrite) = fs_valid f"
| "op_ok (Delete_file path) = True"

definition exclusive :: "table_stats \<Rightarrow> bool" where
  "exclusive t \<longleftrightarrow> (\<forall>path. valid_files (t_created_files t) path = None \<or> valid_files (t_deleted_files t) path = None)"

lemma map_of_set_valid:
  "map_of (set_valid b path fs) q = (if q = path then map_option (\<lambda>f. f\<lparr>fs_valid := b\<rparr>) (map_of fs q) else map_of fs q)"
  by (induction fs) (auto simp: set_valid_def)

lemma valid_set_False: "valid_files (set_valid False path fs) = (valid_files fs)(path := None)"
  by (auto simp: valid_files_def map_of_set_valid fun_eq_iff split: option.splits)

lemma valid_update: "fs_valid f \<Longrightarrow> valid_files (AList.update path f fs) = (valid_files fs)(path \<mapsto> f)"
  by (auto simp: valid_files_def update_conv' fun_eq_iff)

lemma deleted_entry: "\<exists>f. fs_valid f \<and> fs_path f = path \<and>
    t_deleted_files (deleted_file path t) = AList.update path f (t_deleted_files t)"
  by (rule exI [of _ "file_stats_new\<lparr>fs_path := path, fs_size := get_size path True (t_delta_log t)\<rparr>"])
     (simp add: deleted_file_def file_stats_new_def)

lemma run_file_op_change:
  assumes "op_ok op"
  shows "file_changes (run_file_op op t) = change_op op (file_changes t) \<and> (exclusive t \<longrightarrow> exclusive (run_file_op op t))"
proof (cases op)
  case (Create_file f ov)
  then have f: "fs_valid f" using assms by simp
  have "valid_files (t_created_files (created_file f ov t)) = (valid_files (t_created_files t))(fs_path f \<mapsto> f)"
    "valid_files (t_deleted_files (created_file f ov t)) = (valid_files (t_deleted_files t))(fs_path f := None)"
    by (simp_all add: created_file_def valid_update [OF f] valid_set_False)
  then show ?thesis using Create_file by (auto simp: file_changes_def exclusive_def fun_eq_iff)
next
  case (Delete_file path)
  obtain f where f: "fs_valid f" "t_deleted_files (deleted_file path t) = AList.update path f (t_deleted_files t)"
    using deleted_entry by blast
  then have "valid_files (t_deleted_files (deleted_file path t)) = (valid_files (t_deleted_files t))(path \<mapsto> f)"
    by (simp add: valid_update)
  moreover have "valid_files (t_created_files (deleted_file path t)) = (valid_files (t_created_files t))(path := None)"
    by (simp add: deleted_file_def valid_set_False)
  ultimately show ?thesis using Delete_file by (auto simp: file_changes_def exclusive_def fun_eq_iff)
qed

text \<open>C12: The write set of a table refines a map from paths to changes: running any sequence of creations and deletions of
  files changes it as setting, one after the other, the change of each path does, so that a commit adds or removes
  a file by the last operation on it; and no path is ever both to be added and to be removed.\<close>

theorem write_set_refines:
  assumes "\<forall>op \<in> set fops. op_ok op" and "exclusive t"
  shows "file_changes (fold run_file_op fops t) = fold change_op fops (file_changes t)
    \<and> exclusive (fold run_file_op fops t)"
  using assms
proof (induction fops arbitrary: t)
  case (Cons op fops)
  with run_file_op_change [of op t] show ?case by simp
qed simp

definition demo_new_file :: file_stats where "demo_new_file = file_stats_new\<lparr>fs_path := ''t/a'', fs_size := 3\<rparr>"

lemma write_set_refines_witness:
  "file_changes (fold run_file_op [Create_file demo_new_file False, Delete_file ''t/b'', Delete_file ''t/a''] (table_stats_new ''t/''))
     = [''t/a'' \<mapsto> Removed, ''t/b'' \<mapsto> Removed]"
proof -
  have "file_changes (table_stats_new ''t/'') = Map.empty" "exclusive (table_stats_new ''t/'')"
    by (auto simp: file_changes_def valid_files_def exclusive_def table_stats_new_def)
  moreover have "\<forall>op \<in> set [Create_file demo_new_file False, Delete_file ''t/b'', Delete_file ''t/a'']. op_ok op"
    by (simp add: demo_new_file_def file_stats_new_def)
  ultimately show ?thesis using write_set_refines [of "[Create_file demo_new_file False, Delete_file ''t/b'', Delete_file ''t/a'']" "table_stats_new ''t/''"]
    by (simp add: demo_new_file_def fun_upd_twist)
qed

section \<open>A deletion that is lost\<close>

text \<open>While operations are only logged, removing a file by its path does not change the write set, and the redo of its step
  only changes the files that are in the write set already: the commit does not remove the file.\<close>

lemma add_substep_tables: "add_substep file ty i k m = (b, m') \<Longrightarrow> tables m' = tables m \<and> explicit_log m' = explicit_log m"
  by (auto simp: add_substep_def add_substep_explicit_def add_substep_implicit_def append_step_def write_sublog_def Let_def
      split: if_splits sub_op.splits option.splits dest!: with_conn_frame)

lemma log_substep_tables [simp]:
  "tables (log_delete_substep i path prev m) = tables m" "explicit_log (log_delete_substep i path prev m) = explicit_log m"
  "tables (log_add_substep i path prev m) = tables m" "explicit_log (log_add_substep i path prev m) = explicit_log m"
  by (simp_all add: log_delete_substep_def log_add_substep_def add_substep_tables [OF prod.collapse [symmetric]])

lemma find_space: "CHR '' '' \<notin> set s \<Longrightarrow> find_sub '' '' (s @ CHR '' '' # r) = Some (length s)"
  by (induction s) (auto simp: starts_with_def)

lemma parse_step_line:
  assumes "i < length (tables m)" "i < 2 ^ 32" "command \<noteq> []"
  shows "parse_step (step_line i command) m = Some (i, hd command, drop 2 command)"
proof -
  have "CHR '' '' \<notin> set (dec i)" using dec_digits [of i] by (auto simp: list_all_iff is_digit_def digits_def)
  then have f: "find_sub '' '' (step_line i command) = Some (length (dec i))" by (simp add: step_line_def find_space)
  show ?thesis using assms
    by (simp add: parse_step_def f) (simp add: step_line_def stoul_dec u32_id Let_def Suc_le_eq)
qed

text \<open>C23: Removing a file by its path while the operations are only logged is lost: the call reports success, the step it logged is
  executed by the redo of the commit and reports success as well, but the file is still not among the deleted files,
  from which the commit makes its remove actions.\<close>

theorem implicit_delete_lost:
  assumes "\<not> explicit_log m" and "remove_file_path i path u32_max m = (True, m')"
    and "i < length (tables m)" and "i < 2 ^ 32" and "\<not> names_found path"
    and "map_of (t_deleted_files (tables m ! i)) path = None"
  shows "\<exists>m2. execute_reroll_step sy pq ops arith fuel (step_line i (''d '' @ path)) m' = Some (True, m2)
    \<and> map_of (t_deleted_files (tables m2 ! i)) path = None"
proof -
  have t: "tables m' = tables m" using assms(1,2) by (auto simp: remove_file_path_def split: if_splits)
  have "parse_step (step_line i (''d '' @ path)) m' = Some (i, CHR ''d'', path)"
    using parse_step_line [of i m' "''d '' @ path"] assms(3,4) t by simp
  then have "execute_reroll_step sy pq ops arith fuel (step_line i (''d '' @ path)) m'
      = Some (True, on_table i (redo_file DELETE path) (count_redo m'))"
    using assms(5) by (simp add: execute_reroll_step_def step_delete_def)
  moreover have "map_of (t_deleted_files (tables (on_table i (redo_file DELETE path) (count_redo m')) ! i)) path = None"
    using assms(3,6) t by (simp add: on_table_def set_table_def count_redo_def redo_file_def map_of_set_valid)
  ultimately show ?thesis by blast
qed

text \<open>Concatenating tables of the same fields appends the chunks of each column.\<close>

definition append_tables :: "arrow_table list \<Rightarrow> arrow_table" where
  "append_tables ts =
     map (\<lambda>i. \<lparr>col_field = col_field (hd ts ! i), col_chunks = concat (map (\<lambda>t. col_chunks (t ! i)) ts)\<rparr>)
       [0..<length (hd ts)]"

text \<open>Parameters for the witnesses: every key is parsed as 7.\<close>

definition key_ops :: data_ops where
  "key_ops = \<lparr>op_arrow = \<lparr>op_equal = (=), op_cast = (\<lambda>a b vs. Inl []), op_parse = (\<lambda>ty s. Some (AV_INT 7)), op_text = (\<lambda>ty. [])\<rparr>,
     op_days = int, op_concat = (\<lambda>ts. Some (append_tables ts)), op_shortest = (\<lambda>w. []), op_random = id, op_column_text = (\<lambda>c. [])\<rparr>"

lemma implicit_delete_lost_witness:
  "let m = demo_manager\<lparr>tables := [table_stats_new ''t/''], explicit_log := False\<rparr>
   in \<exists>m'. remove_file_path 0 ''t/f'' u32_max m = (True, m')
     \<and> (\<exists>m2. execute_reroll_step demo_sys sample_parquet key_ops (\<lambda>op a b. None) 1 (step_line 0 (''d '' @ ''t/f'')) m' = Some (True, m2)
         \<and> map_of (t_deleted_files (tables m2 ! 0)) ''t/f'' = None)"
proof -
  let ?m = "demo_manager\<lparr>tables := [table_stats_new ''t/''], explicit_log := False\<rparr>"
  obtain m' where m': "remove_file_path 0 ''t/f'' u32_max ?m = (True, m')"
    by (simp add: remove_file_path_def get_table_def Let_def)
  have "\<not> names_found ''t/f''" by (simp add: names_found_def starts_with_def)
  with implicit_delete_lost [OF _ m'] m' show ?thesis by (auto simp: Let_def table_stats_new_def)
qed

section \<open>Files are found by their statistics\<close>

lemma cs_name_column_stats [simp]: "cs_name (column_stats shortest c) = f_name (col_field c)"
  by (simp add: column_stats_def Let_def string_min_max_def integer_min_max_def floating_min_max_def
      split: arrow_type.splits option.splits)

lemma same_name_refl [simp]: "same_name a a"
  by (simp add: same_name_def list_all2_refl)

lemma value_of_stats:
  assumes "\<forall>s' \<in> set ss. \<not> same_name (cs_name s') name" and "cs_name s = name"
  defines "cols \<equiv> filter cs_has_min_max (s # ss)"
  shows "value_of (map cs_name cols) (map f cols) name = stat_bound f s"
proof -
  have z: "zip (map cs_name xs) (map f xs) = map (\<lambda>s. (cs_name s, f s)) xs" for xs by (induction xs) auto
  have "cs_name s' \<noteq> name" if "s' \<in> set ss" for s' using assms(1) that by auto
  then have none: "find (\<lambda>(n, v). n = name) (map (\<lambda>s. (cs_name s, f s)) (filter cs_has_min_max ss)) = None"
    "find (\<lambda>(n, v). same_name n name) (map (\<lambda>s. (cs_name s, f s)) (filter cs_has_min_max ss)) = None"
    using assms(1) by (auto simp: find_None_iff)
  show ?thesis unfolding value_of_def z cols_def using assms(2) none
    by (cases "cs_has_min_max s") (simp_all add: stat_bound_def)
qed

lemma file_entry_bounds:
  assumes "rows = c # cs" "\<forall>c' \<in> set cs. \<not> same_name (f_name (col_field c')) (f_name (col_field c))"
  shows "min_of (f_name (col_field c)) (file_entry (written_stats ops path encoded rows uid))
      = stat_bound cs_min (column_stats (op_shortest ops) c)"
    "max_of (f_name (col_field c)) (file_entry (written_stats ops path encoded rows uid))
      = stat_bound cs_max (column_stats (op_shortest ops) c)"
    "e_operation (file_entry (written_stats ops path encoded rows uid)) = ADD"
    "e_num_records (file_entry (written_stats ops path encoded rows uid)) = int (num_rows rows)"
  using assms value_of_stats [of "map (column_stats (op_shortest ops)) cs" "f_name (col_field c)" "column_stats (op_shortest ops) c"]
  by (simp_all add: min_of_def max_of_def file_entry_def entry_of_file_def entry_of_def written_stats_def computeStatistics_def Let_def)

lemma new_file_entry:
  assumes "map_of (dl_files (t_delta_log t)) (dl_relative (fs_path f) True (t_delta_log t)) = None"
  shows "(dl_relative (fs_path f) True (t_delta_log t), file_entry f) \<in> set (dl_files (t_delta_log (created_file f ov t)))"
    "dl_base_path (t_delta_log (created_file f ov t)) = dl_base_path (t_delta_log t)"
proof -
  let ?p = "dl_relative (fs_path f) True (t_delta_log t)"
  have "map_of (dl_files (t_delta_log (created_file f ov t))) ?p = Some (file_entry f)"
    using assms by (simp add: created_file_def register_operation_entry_def upsert_def update_conv')
  then show "(?p, file_entry f) \<in> set (dl_files (t_delta_log (created_file f ov t)))" by (rule map_of_SomeD)
  show "dl_base_path (t_delta_log (created_file f ov t)) = dl_base_path (t_delta_log t)"
    using assms by (simp add: created_file_def register_operation_entry_def upsert_def)
qed

text \<open>C13: What a transaction writes it finds again: when rows are registered as a new data file with the statistics computed for
  them, a search for any key that one of the rows holds in its first column returns the file, so no row is missed by
  skipping; and when the search calls the file an exact match it has one row, which holds the key.\<close>

theorem written_file_found:
  assumes "rows = c # cs" and "\<forall>v \<in> set (col_values c). has_type v (f_type (col_field c))"
    and "\<forall>c' \<in> set cs. \<not> same_name (f_name (col_field c')) (f_name (col_field c))"
    and "starts_with (dl_base_path (t_delta_log t)) path"
    and "map_of (dl_files (t_delta_log t)) (dl_relative path True (t_delta_log t)) = None"
    and "m = matcher_for ops (f_type (col_field c)) key" and "km_valid m" and "column_rows ops m c \<noteq> []"
  shows "\<exists>km. (path, km) \<in> set (find_files (f_name (col_field c)) (classify (parse_date ops) m)
        (t_delta_log (created_file (written_stats ops path encoded rows uid) ov t)))
    \<and> (km = Key_Exact \<longrightarrow> num_rows rows = 1 \<and> column_rows ops m c = [0])"
proof -
  let ?f = "written_stats ops path encoded rows uid" and ?s = "column_stats (op_shortest ops) c"
  let ?l = "t_delta_log t" and ?n = "f_name (col_field c)"
  define km where "km = classify (parse_date ops) m (stat_bound cs_min ?s) (stat_bound cs_max ?s) (int (num_rows rows))"
  have len: "num_rows rows = length (col_values c)" by (simp add: assms(1) num_rows_def)
  have h: "honest_stats (parse_date ops) (key_type (f_type (col_field c))) (stat_bound cs_min ?s) (stat_bound cs_max ?s)
      (int (num_rows rows)) (concat (key_cells (op_days ops) c))"
    unfolding len by (rule column_honest) (use assms(2) in blast)
  from classify_sound [OF h assms(6) [unfolded matcher_for_def] assms(7)] assms(8)
  have km: "km \<noteq> Key_None" "km = Key_Exact \<longrightarrow> num_rows rows = 1 \<and> column_rows ops m c = [0]"
    unfolding km_def column_rows_def key_cells_concat len by auto
  have f: "fs_path ?f = path" by (simp add: written_stats_def)
  have "path = dl_base_path ?l @ dl_relative path True ?l"
    using assms(4) by (simp add: dl_relative_def starts_with_def) (metis append_take_drop_id)
  with new_file_entry [of t ?f ov] assms(5) f file_entry_bounds [OF assms(1,3), of ops path encoded uid] km(1)
  have "(path, km) \<in> set (find_files ?n (classify (parse_date ops) m) (t_delta_log (created_file ?f ov t)))"
    unfolding find_files_def km_def by (force simp: Let_def)
  with km(2) show ?thesis by blast
qed

section \<open>The rows of a file\<close>

text \<open>Tables with the same fields and the same values, however they are cut into chunks, and what Arrow documents of
  concatenating tables of the same fields.\<close>

definition same_rows :: "arrow_table \<Rightarrow> arrow_table \<Rightarrow> bool" where
  "same_rows u v \<longleftrightarrow> map (\<lambda>c. (col_field c, col_values c)) u = map (\<lambda>c. (col_field c, col_values c)) v"

definition concat_appends :: "data_ops \<Rightarrow> bool" where
  "concat_appends ops \<longleftrightarrow>
     (\<forall>ts. ts \<noteq> [] \<longrightarrow> (\<forall>t \<in> set ts. map col_field t = map col_field (hd ts)) \<longrightarrow>
        (\<exists>u. op_concat ops ts = Some u \<and> same_rows u (append_tables ts)))"

definition rectangular :: "arrow_table \<Rightarrow> bool" where
  "rectangular t \<longleftrightarrow> (\<forall>c \<in> set t. length (col_values c) = num_rows t)"

lemma same_rows_refl [simp]: "same_rows u u" by (simp add: same_rows_def)

lemma same_rows_trans: "same_rows u v \<Longrightarrow> same_rows v w \<Longrightarrow> same_rows u w" by (simp add: same_rows_def)

lemma gather_fields [simp]: "map col_field (gather t is) = map col_field t"
  by (simp add: gather_def comp_def)

lemma gather_all: "rectangular t \<Longrightarrow> same_rows t (gather t [0..<num_rows t])"
  by (auto simp: same_rows_def gather_def rectangular_def col_values_def [of "_\<lparr>col_chunks := _\<rparr>"] intro!: nth_equalityI)

lemma append_gather:
  assumes "iss \<noteq> []" shows "same_rows (append_tables (map (gather t) iss)) (gather t (concat iss))"
proof -
  have hd: "hd (map (gather t) iss) = gather t (hd iss)" using assms by (simp add: hd_map)
  have "length (gather t is) = length t" for "is" by (simp add: gather_def)
  then show ?thesis
    unfolding same_rows_def append_tables_def hd
    by (intro nth_equalityI) (auto simp: gather_def col_values_def [of "_\<lparr>col_chunks := _\<rparr>"] col_values_def [of "\<lparr>col_field = _, col_chunks = _\<rparr>"]
        map_concat comp_def)
qed

text \<open>Selecting rows gives exactly these rows.\<close>

lemma select_table_rows:
  assumes "concat_appends ops" "rectangular t" "row_list (num_rows t) rows"
  obtains u where "select_table ops t rows = Some u" "same_rows u (gather t rows)"
proof (cases "length rows = num_rows t")
  case True
  with row_list_full [OF assms(3)] gather_all [OF assms(2)] that [of t] show ?thesis by (simp add: select_table_def)
next
  case False
  let ?parts = "row_slices [0..<num_rows t] rows"
  have "concat ?parts = map (nth [0..<num_rows t]) rows" using assms(3) by (intro row_slices_concat) simp
  also have "\<dots> = rows" using assms(3) by (auto simp: row_list_def intro!: map_idI)
  finally have parts: "concat ?parts = rows" .
  show ?thesis
  proof (cases "?parts = []")
    case True
    with parts have "rows = []" by simp
    with False True that show ?thesis by (simp add: select_table_def)
  next
    case ne: False
    then have "map (gather t) ?parts \<noteq> []" "\<forall>u \<in> set (map (gather t) ?parts). map col_field u = map col_field (hd (map (gather t) ?parts))"
      by (auto simp: hd_map)
    with assms(1) obtain u where u: "op_concat ops (map (gather t) ?parts) = Some u" "same_rows u (append_tables (map (gather t) ?parts))"
      unfolding concat_appends_def by blast
    with append_gather [OF ne, of t] parts have "same_rows u (gather t rows)" using same_rows_trans by metis
    moreover have "select_table ops t rows = Some u" using False ne u(1) by (simp add: select_table_def Let_def)
    ultimately show ?thesis using that by blast
  qed
qed

text \<open>Whether an element of the key's column holds the key.\<close>

definition holds_key :: "data_ops \<Rightarrow> key_matcher \<Rightarrow> table_column \<Rightarrow> arrow_value \<Rightarrow> bool" where
  "holds_key ops m c v \<longleftrightarrow>
     (let e = cell_of (op_days ops) (f_type (col_field c)) v
      in e \<noteq> Cell_null \<and> key_equals (key_type (f_type (col_field c))) m e)"

lemma column_rows_conv:
  "column_rows ops m c = filter (\<lambda>j. holds_key ops m c (col_values c ! j)) [0..<length (col_values c)]"
  unfolding column_rows_def rows_of_conv key_cells_concat
  by (auto simp: holds_key_def Let_def intro: filter_cong)

lemma row_list_column: "row_list (length (col_values c)) (column_rows ops m c)"
  by (simp add: row_list_def column_rows_conv sorted_wrt_filter)

lemma other_column_rows:
  "other_rows (length (col_values c)) (column_rows ops m c)
    = filter (\<lambda>j. \<not> holds_key ops m c (col_values c ! j)) [0..<length (col_values c)]"
  unfolding other_rows_conv [OF row_list_column] by (rule filter_cong) (auto simp: column_rows_conv)

section \<open>Removing the rows of a key\<close>

lemma new_path_tables: "new_data_file_path ops n t m = Some (path, m') \<Longrightarrow> tables m' = tables m"
  by (auto dest!: new_data_file_path_free)

lemma with_conn_tables: "with_conn f m = (r, m') \<Longrightarrow> tables m' = tables m \<and> f (conn m) = (r, conn m')"
  by (auto simp: with_conn_def split: prod.splits)


section \<open>Witnesses\<close>

definition key_column :: table_column where
  "key_column = \<lparr>col_field = field ''k'' T_INT64, col_chunks = [[AV_INT 7], [AV_INT 9, AV_NULL]]\<rparr>"

definition demo_matcher :: key_matcher where "demo_matcher = matcher_for key_ops T_INT64 ''7''"

lemma demo_matcher: "km_valid demo_matcher" "demo_matcher = matcher_for key_ops (f_type (col_field key_column)) ''7''"
  "column_rows key_ops demo_matcher key_column = [0]"
  by (simp_all add: demo_matcher_def matcher_for_def key_matcher_new_def key_ops_def cell_of_def key_column_def field_def
      cell_number_def column_rows_conv col_values_def holds_key_def key_equals_def)

lemma written_file_found_witness:
  "\<exists>km. (''t/f'', km) \<in> set (find_files ''k'' (classify (parse_date key_ops) demo_matcher)
      (t_delta_log (created_file (written_stats key_ops ''t/f'' ''data'' [key_column] u32_max) False (table_stats_new ''t/''))))"
proof -
  have "\<forall>v \<in> set (col_values key_column). has_type v (f_type (col_field key_column))"
    by (simp add: key_column_def col_values_def field_def in_int64_def)
  moreover have "starts_with (dl_base_path (t_delta_log (table_stats_new ''t/''))) ''t/f''"
    "map_of (dl_files (t_delta_log (table_stats_new ''t/''))) (dl_relative ''t/f'' True (t_delta_log (table_stats_new ''t/''))) = None"
    by (simp_all add: table_stats_new_def delta_log_new_def starts_with_def)
  ultimately show ?thesis
    using written_file_found [of "[key_column]" key_column "[]" "table_stats_new ''t/''" "''t/f''" demo_matcher key_ops "''7''" "''data''" u32_max False]
      demo_matcher
    by (auto simp: key_column_def field_def)
qed

definition demo_key_file :: key_file where
  "demo_key_file = \<lparr>kf_path = ''t/f'', kf_data = Some [key_column], kf_rows = [0], kf_exact = False\<rparr>"

definition demo_remover :: manager where "demo_remover = demo_manager\<lparr>tables := [table_stats_new ''t/'']\<rparr>"

lemma key_ops_concat: "concat_appends key_ops"
  by (simp add: concat_appends_def key_ops_def)

lemma demo_key_table: "rectangular [key_column]" "num_rows [key_column] = 3" "col_values key_column = [AV_INT 7, AV_INT 9, AV_NULL]"
  by (simp_all add: rectangular_def num_rows_def key_column_def col_values_def)

lemma demo_conform: "conform_for_write sy ops (table_stats_new b) rows = rows"
  by (simp add: conform_for_write_def schema_of_table_def table_stats_new_def delta_log_new_def get_metadata_def both_def)

lemma demo_remove: "\<exists>m'. remove_key_rows demo_sys pq key_ops 1 0 demo_key_file u32_max False demo_remover = Some (True, m')"
proof -
  have t: "tables demo_remover ! 0 = table_stats_new ''t/''" "conn demo_remover = demo_connector" by (simp_all add: demo_remover_def demo_manager_def manager_new_def)
  obtain part where s: "select_table key_ops [key_column] (other_rows (num_rows [key_column]) [0]) = Some part"
    using select_table_rows [OF key_ops_concat demo_key_table(1), of "other_rows (num_rows [key_column]) [0]"]
    by (auto simp: demo_key_table(2) other_rows_def row_list_def numeral_3_eq_3)
  obtain path c where p: "new_data_file_path key_ops 1 (table_stats_new ''t/'') demo_remover = Some (path, demo_remover\<lparr>conn := c\<rparr>)"
    "fail_hook c = None"
    by (simp add: Let_def t(2) local_time_ms_def demo_connector_def mc_check_def should_fail_def lookup_object_def)
  have "\<exists>c'. mc_write path d c = (True, c')" for d using p(2) by (simp add: mc_write_def should_fail_def Let_def)
  then obtain c' where w: "mc_write path (encodeAsParquet pq part) c = (True, c')" by blast
  have nf: "\<not> all_rows demo_key_file" by (simp add: all_rows_def demo_key_file_def demo_key_table(2))
  have "\<exists>m1. write_rest demo_sys pq key_ops 1 0 [key_column] [0] False demo_remover = Some (True, m1)"
    using s p w by (simp add: write_rest_def t(1) demo_conform with_conn_def Let_def)
  then show ?thesis using nf by (auto simp: remove_key_rows_def demo_key_file_def)
qed


end
