(* ===== verification/Waiting.thy ===== *)
theory Waiting
  imports CommitSafety LogProtocol
begin

text \<open>
  No commit of another transaction is overlooked: reading the log remembers every version that is still a marker, and
  a commit waits for all of these and records what became of them in the tables, where the detection of conflicts
  finds it.  The reads must not fail: the code takes a failed read of a version for a version that is gone.
\<close>

section \<open>What a commit says about the data\<close>

definition removed_path :: "json \<Rightarrow> string option" where
  "removed_path v = map_option c_str (Option.bind (member_object ''remove'' v) (member_string ''path''))"

definition changes_data :: "json \<Rightarrow> bool" where
  "changes_data v \<longleftrightarrow> has_member ''add'' v \<or> has_member ''remove'' v"

definition noted :: "json list \<Rightarrow> table_stats \<Rightarrow> bool" where
  "noted vs t \<longleftrightarrow> (\<forall>v \<in> set vs. (changes_data v \<longrightarrow> t_concurrent_change t)
     \<and> (\<forall>path. removed_path v = Some path \<longrightarrow> path \<in> set (t_concurrent_removes t)))"

text \<open>The knowledge of concurrent commits grows while a transaction waits; the tables stay the same ones.\<close>

definition knows_more :: "table_stats \<Rightarrow> table_stats \<Rightarrow> bool" where
  "knows_more t t' \<longleftrightarrow> t_base_path t' = t_base_path t \<and> t_was_read t' = t_was_read t
     \<and> t_deleted_files t' = t_deleted_files t \<and> (t_concurrent_change t \<longrightarrow> t_concurrent_change t')
     \<and> set (t_concurrent_removes t) \<subseteq> set (t_concurrent_removes t')"

definition settled where
  "settled m = (prev_markers m, options m, level0 m, level1 m)"

definition learned :: "manager \<Rightarrow> manager \<Rightarrow> bool" where
  "learned m m' \<longleftrightarrow> list_all2 knows_more (tables m) (tables m') \<and> settled m' = settled m"

definition noted_at :: "sys \<Rightarrow> string \<Rightarrow> string \<Rightarrow> manager \<Rightarrow> bool" where
  "noted_at sy path data m \<longleftrightarrow>
     ((\<exists>v \<in> set (json_objects (sy_parse sy) data). changes_data v) \<longrightarrow>
        marker_table_id path m < length (tables m)
        \<and> noted (json_objects (sy_parse sy) data) (tables m ! marker_table_id path m))"

lemma knows_more_refl [simp]: "knows_more t t" by (simp add: knows_more_def)

lemma knows_more_trans: "knows_more a b \<Longrightarrow> knows_more b c \<Longrightarrow> knows_more a c"
  by (auto simp: knows_more_def)

lemma learned_refl [simp]: "learned m m" by (simp add: learned_def list.rel_refl)

lemma learned_trans: "learned a b \<Longrightarrow> learned b c \<Longrightarrow> learned a c"
  unfolding learned_def by (auto intro: list_all2_trans [OF knows_more_trans])

lemma learned_same:
  "tables m' = tables m \<Longrightarrow> settled m' = settled m \<Longrightarrow> learned m m'"
  by (simp add: learned_def list.rel_refl)

lemma learned_update [simp]: "learned m (m'\<lparr>local_log := k\<rparr>) = learned m m'" "learned m (m'\<lparr>conn := c\<rparr>) = learned m m'"
  "learned (m\<lparr>conn := c\<rparr>) m' = learned m m'"
  by (simp_all add: learned_def settled_def)

lemma noted_more: "noted vs t \<Longrightarrow> knows_more t t' \<Longrightarrow> noted vs t'"
  by (auto simp: noted_def knows_more_def)

lemma same_table_id: "list_all2 knows_more (tables m) (tables m') \<Longrightarrow> marker_table_id path m' = marker_table_id path m"
proof -
  assume "list_all2 knows_more (tables m) (tables m')"
  then have "index_where (\<lambda>t. t_base_path t = b) (tables m') = index_where (\<lambda>t. t_base_path t = b) (tables m)" for b
    by (induction rule: list_all2_induct) (auto simp: knows_more_def)
  then show ?thesis by (simp add: marker_table_id_def)
qed

lemma noted_learned:
  assumes "noted_at sy path data m" "learned m m'" shows "noted_at sy path data m'"
proof -
  from assms(2) have l: "list_all2 knows_more (tables m) (tables m')" by (simp add: learned_def)
  show ?thesis
    unfolding noted_at_def same_table_id [OF l] list_all2_lengthD [OF l, symmetric]
    using assms(1) noted_more list_all2_nthD [OF l] by (auto simp: noted_at_def)
qed

section \<open>Waiting\<close>

lemma apply_waited_learns:
  assumes "apply_waited sy k v (t, m) = (t', m')"
  shows "knows_more t t' \<and> noted [v] t' \<and> tables m' = tables m \<and> settled m' = settled m"
proof -
  have p: "parseEntry sy v l k m = (x, m1) \<Longrightarrow> tables m1 = tables m \<and> settled m1 = settled m" for l x m1
    by (auto simp: settled_def parseEntry_def Let_def split: option.splits if_splits)
  show ?thesis using assms
    by (auto simp: apply_waited_def Let_def knows_more_def noted_def changes_data_def removed_path_def
        split: prod.splits option.splits if_splits dest!: p)
qed

lemma fold_waited_learns:
  "fold (apply_waited sy k) vs (t, m) = (t', m') \<Longrightarrow>
   knows_more t t' \<and> noted vs t' \<and> tables m' = tables m \<and> settled m' = settled m"
proof (induction vs arbitrary: t m)
  case (Cons v vs)
  obtain t1 m1 where a: "apply_waited sy k v (t, m) = (t1, m1)" by (metis surj_pair)
  with Cons.prems have "fold (apply_waited sy k) vs (t1, m1) = (t', m')" by simp
  from Cons.IH [OF this] apply_waited_learns [OF a] show ?case
    by (auto simp: noted_def intro: knows_more_trans dest: noted_more [of "[v]"]) (auto simp: knows_more_def)
qed (simp add: noted_def)

lemma set_table_learns:
  "knows_more (tables m ! i) t \<Longrightarrow> learned m (set_table i t m)"
  by (cases "i < length (tables m)")
     (auto simp: learned_def settled_def set_table_def list_all2_conv_all_nth nth_list_update list_update_beyond)

lemma finish_wait_learns:
  assumes f: "finish_wait sy path (json_objects (sy_parse sy) data) m = Some (r, m')"
  shows "r \<and> learned m m' \<and> noted_at sy path data m'"
proof -
  let ?i = "marker_table_id path m" and ?vs = "json_objects (sy_parse sy) data"
  show ?thesis
  proof (cases "parse_log_version path")
    case (Inl e)
    with f show ?thesis by (auto simp: finish_wait_def Let_def noted_at_def split: if_splits)
  next
    case (Inr ln)
    let ?v = "u32 (case ln of Some v \<Rightarrow> v | None \<Rightarrow> 0)"
    obtain t1 m1 where t1: "fold (apply_waited sy ?v) ?vs (tables m ! ?i, m) = (t1, m1)" by (metis surj_pair)
    note w = fold_waited_learns [OF t1]
    define m2 where "m2 = (if ?vs = [] then m1 else set_table ?i t1 m1)"
    have i: "?vs \<noteq> [] \<Longrightarrow> ?i < length (tables m)"
      using f Inr by (auto simp: finish_wait_def get_table_def Let_def split: if_splits)
    have l2: "learned m m2"
      using w set_table_learns [of m1 ?i t1] learned_same [of m1 m] by (auto simp: m2_def intro: learned_trans)
    have la: "list_all2 knows_more (tables m) (tables m2)" using l2 by (simp add: learned_def)
    have "noted_at sy path data m2"
    proof (cases "?vs = []")
      case False
      with w i have "tables m2 ! ?i = t1" by (simp add: m2_def set_table_def)
      with w i False show ?thesis
        unfolding noted_at_def same_table_id [OF la] list_all2_lengthD [OF la, symmetric] by simp
    qed (simp add: noted_at_def)
    moreover from f Inr t1 have "r \<and> learned m2 m'"
      unfolding finish_wait_def Let_def m2_def by (auto split: if_splits)
    ultimately show ?thesis using l2 noted_learned learned_trans by blast
  qed
qed

section \<open>What waiting saw\<close>

text \<open>Reads of the store do not fail; everything else may.\<close>

definition reads_reliable :: "connector \<Rightarrow> bool" where
  "reads_reliable c \<longleftrightarrow>
     (\<forall>h n op p s. fail_hook c = Some h \<longrightarrow> op = Op_Read \<or> op = Op_Check \<longrightarrow> \<not> fst (h n op p s))"

text \<open>Between the stores \<open>a\<close> and \<open>z\<close> there was a moment at which the version had no object, or was a commit that the
  tables of \<open>m\<close> have noted, or at which its marker was taken over.\<close>

definition version_seen :: "sys \<Rightarrow> string \<Rightarrow> mem_store \<Rightarrow> mem_store \<Rightarrow> manager \<Rightarrow> bool" where
  "version_seen sy p a z m \<longleftrightarrow> (\<exists>s. (log_step sy)\<^sup>*\<^sup>* a s \<and> (log_step sy)\<^sup>*\<^sup>* s z \<and>
     (map_of (objects s) p = None
      \<or> (\<exists>ob. map_of (objects s) p = Some ob \<and> \<not> marker_text sy (obj_content ob) \<and> noted_at sy p (obj_content ob) m)
      \<or> (\<exists>ob. map_of (objects s) p = Some ob \<and> marker_text sy (obj_content ob))
        \<and> (\<exists>ob t s'. (log_step sy)\<^sup>*\<^sup>* s s' \<and> (log_step sy)\<^sup>*\<^sup>* s' z \<and> map_of (objects s') p = Some ob
             \<and> obj_content ob = empty_commit sy ''MarkerTakeover'' t)))"

lemma seen_moment:
  "(log_step sy)\<^sup>*\<^sup>* a s \<Longrightarrow> (log_step sy)\<^sup>*\<^sup>* s z \<Longrightarrow> map_of (objects s) p = None \<Longrightarrow> version_seen sy p a z m"
  "(log_step sy)\<^sup>*\<^sup>* a s \<Longrightarrow> (log_step sy)\<^sup>*\<^sup>* s z \<Longrightarrow> map_of (objects s) p = Some ob \<Longrightarrow>
     \<not> marker_text sy (obj_content ob) \<Longrightarrow> noted_at sy p (obj_content ob) m \<Longrightarrow> version_seen sy p a z m"
  unfolding version_seen_def by blast+

lemma seen_later:
  assumes "version_seen sy p a z m" "(log_step sy)\<^sup>*\<^sup>* b a" "(log_step sy)\<^sup>*\<^sup>* z y" "learned m m'"
  shows "version_seen sy p b y m'"
  using assms unfolding version_seen_def by (meson noted_learned rtranclp_trans)

lemma reliable_env: "same_env c c' \<Longrightarrow> reads_reliable c \<Longrightarrow> reads_reliable c'"
  by (simp add: same_env_def reads_reliable_def)

lemma check_moment:
  "reads_reliable c \<Longrightarrow> mc_check p c = (ex, c') \<Longrightarrow> ex \<longleftrightarrow> map_of (objects (mem c')) p \<noteq> None"
  by (auto simp: mc_check_def should_fail_def reads_reliable_def lookup_object_def split: option.splits prod.splits if_splits)
     (metis fst_conv)+

lemma read_moment:
  "reads_reliable c \<Longrightarrow> mc_read_versioned p c = ((data, v), c') \<Longrightarrow>
     (case map_of (objects (mem c')) p of None \<Rightarrow> data = None
      | Some ob \<Rightarrow> data = Some (obj_content ob) \<and> ov_etag v = obj_etag ob)"
  by (auto simp: mc_read_versioned_def Let_def should_fail_def reads_reliable_def lookup_object_def
      split: option.splits prod.splits if_splits) (metis fst_conv)+

lemma takeover_moment:
  assumes i: "in_protocol sy c" and ob: "map_of (objects (mem c)) p = Some ob" "marker_text sy (obj_content ob)"
    and t: "try_takeover sy p (obj_etag ob) at c = ((Some Ok, now), c')"
  shows "log_run sy c c' \<and> version_seen sy p (mem c) (mem c') m"
  using t
proof (cases rule: try_takeover_cases)
  case (2 c1 t c2 s)
  define mk where "mk = marker_new p (obj_etag ob) 0"
  have "etag_at (mem c) p = Some (obj_etag ob)" using ob(1) by (simp add: etag_at_def)
  then have e: "etag_issued (mem c) (obj_etag ob)" using i by (simp add: in_protocol_def store_ok_def)
  moreover from e have "obj_etag ob \<noteq> []" unfolding etag_issued_def using etag_text_nonempty by metis
  ultimately have l: "leased sy (mem c) mk" using ob by (auto simp: leased_def mk_def marker_new_def)
  have r: "log_run sy c c2"
    using store_time_quiet [OF 2(1)] local_time_quiet [OF 2(3)] by (blast intro: quiet_log_run [OF i] quiet_trans)
  then have i2: "in_protocol sy c2" "leased sy (mem c2) mk" and s2: "(log_step sy)\<^sup>*\<^sup>* (mem c) (mem c2)"
    using i l in_protocol_run leased_steps by (auto simp: log_run_def in_protocol_def)
  from 2 mc_write_if_match_one [OF 2(4)] have "one_match (marker_path mk) (empty_commit sy ''MarkerTakeover'' t) (marker_etag mk) c2 c'"
    by (auto simp: mk_def marker_new_def)
  from one_match_log_run [OF i2 this] obtain z u where w: "log_run sy c2 c'"
    "(log_step sy)\<^sup>*\<^sup>* (mem c2) (put_object p (empty_commit sy ''MarkerTakeover'' t) u z)"
    "(log_step sy)\<^sup>*\<^sup>* (put_object p (empty_commit sy ''MarkerTakeover'' t) u z) (mem c')"
    by (auto simp: mk_def marker_new_def)
  let ?s = "put_object p (empty_commit sy ''MarkerTakeover'' t) u z"
  have run: "log_run sy c c'" using r w(1) by (rule log_run_trans)
  moreover from rtranclp_trans [OF s2 w(2)] have "(log_step sy)\<^sup>*\<^sup>* (mem c) ?s" .
  moreover have "\<exists>ob. map_of (objects ?s) p = Some ob \<and> obj_content ob = empty_commit sy ''MarkerTakeover'' t"
    by (simp add: put_object_def)
  ultimately have "version_seen sy p (mem c) (mem c') m"
    unfolding version_seen_def using ob w(3)
    by (intro exI [of _ "mem c"]) (auto simp: log_run_def)
  with run show ?thesis by simp
qed simp

text \<open>What a step of waiting gives, and how it goes on from the connection after a step.\<close>

definition waited :: "sys \<Rightarrow> string \<Rightarrow> manager \<Rightarrow> bool \<Rightarrow> manager \<Rightarrow> bool" where
  "waited sy p m r m' \<longleftrightarrow> log_run sy (conn m) (conn m') \<and> learned m m'
     \<and> (r \<longrightarrow> version_seen sy p (mem (conn m)) (mem (conn m')) m')"

lemma waited_after:
  assumes "log_run sy (conn m) c" "waited sy p (m\<lparr>conn := c\<rparr>) r m'" shows "waited sy p m r m'"
  using assms unfolding waited_def
  by (auto intro: same_env_trans seen_later [where z = "mem (conn m')"] simp: log_run_def)

lemma wait_loop_waited:
  "wait_loop sy n start path m = Some (r, m') \<Longrightarrow> in_protocol sy (conn m) \<Longrightarrow> reads_reliable (conn m) \<Longrightarrow>
   waited sy path m r m'"
proof (induction n arbitrary: m)
  case (Suc n)
  obtain ct ver c1 where rd: "mc_read_versioned path (conn m) = ((ct, ver), c1)" by (metis surj_pair)
  have r1: "log_run sy (conn m) c1" by (rule quiet_log_run [OF Suc.prems(2) mc_read_versioned_quiet [OF rd]])
  then have i1: "in_protocol sy c1" "reads_reliable c1"
    using Suc.prems(2,3) in_protocol_run reliable_env by (auto simp: log_run_def)
  note mom = read_moment [OF Suc.prems(3) rd]
  let ?m1 = "m\<lparr>conn := c1\<rparr>"
  have "waited sy path ?m1 r m'"
  proof (cases ct)
    case None
    with mom have "map_of (objects (mem c1)) path = None" by (auto split: option.splits)
    then have "version_seen sy path (mem c1) (mem c1) x" for x by (blast intro: seen_moment(1))
    with Suc.prems(1) rd None show ?thesis by (auto simp: waited_def)
  next
    case (Some body)
    with mom obtain ob where ob: "map_of (objects (mem c1)) path = Some ob" "obj_content ob = body" "obj_etag ob = ov_etag ver"
      by (auto split: option.splits)
    let ?objs = "json_objects (sy_parse sy) body"
    show ?thesis
    proof (cases "list_ex is_marker_line ?objs")
      case False
      with Suc.prems(1) rd Some have f: "finish_wait sy path ?objs ?m1 = Some (r, m')" by simp
      from finish_wait_learns [OF f] have "learned ?m1 m'" "noted_at sy path body m'" by auto
      moreover from finish_wait_conn [OF f] have "conn m' = c1" by simp
      moreover have "\<not> marker_text sy body" using False by (simp add: marker_text_def)
      ultimately show ?thesis unfolding waited_def using ob by (auto intro: seen_moment(2))
    next
      case True
      then have mt: "marker_text sy (obj_content ob)" using ob(2) by (simp add: marker_text_def)
      let ?at = "(case marker_deadline ?objs of Some d \<Rightarrow> d
          | None \<Rightarrow> (if 0 \<le> last_modified_ms ver then last_modified_ms ver else start) + int (marker_lease_ms (options m)))
          + int (marker_grace_ms (options m))"
      obtain status now c2 where t: "try_takeover sy path (ov_etag ver) ?at c1 = ((status, now), c2)" by (metis surj_pair)
      show ?thesis
      proof (cases "status = Some Ok")
        case ok: True
        with Suc.prems(1) rd Some True t have "m' = m\<lparr>conn := c2\<rparr>" by (simp add: Let_def)
        with takeover_moment [OF i1(1) ob(1) mt t [unfolded ok ob(3) [symmetric]]] show ?thesis by (auto simp: waited_def)
      next
        case no: False
        from quiet_log_run [OF i1(1) try_takeover_quiet [OF t no]] have r2: "log_run sy c1 c2" .
        obtain u c3 where lt: "local_time_ms c2 = (u, c3)" by (cases "local_time_ms c2")
        have r3: "log_run sy c1 c3"
          using try_takeover_quiet [OF t no] local_time_quiet [OF lt] by (blast intro: quiet_log_run [OF i1(1)] quiet_trans)
        from Suc.prems(1) rd Some True t no lt obtain c where c: "c = c2 \<or> c = c3"
          "m' = m\<lparr>conn := c\<rparr> \<and> \<not> r \<or> wait_loop sy n start path (m\<lparr>conn := c\<rparr>) = Some (r, m')"
          by (simp add: Let_def split: if_splits) blast+
        then have rc: "log_run sy c1 c" using r2 r3 by auto
        then have ic: "in_protocol sy c" "reads_reliable c" using i1 in_protocol_run reliable_env by (auto simp: log_run_def)
        from c(2) have "waited sy path (m\<lparr>conn := c\<rparr>) r m'"
          using Suc.IH [of "m\<lparr>conn := c\<rparr>"] ic by (auto simp: waited_def)
        then show ?thesis using waited_after [of sy ?m1 c path r m'] rc by simp
      qed
    qed
  qed
  then show ?case by (rule waited_after [OF r1])
qed simp

lemma wait_for_marker_waited:
  assumes "wait_for_marker sy n path m = Some (r, m')" "in_protocol sy (conn m)" "reads_reliable (conn m)"
  shows "waited sy path m r m'"
proof -
  obtain start c where s: "local_time_ms (conn m) = (start, c)" by (cases "local_time_ms (conn m)")
  with assms(1) have w: "wait_loop sy n start path (m\<lparr>conn := c\<rparr>) = Some (r, m')" by (simp add: wait_for_marker_def)
  have r: "log_run sy (conn m) c" by (rule quiet_log_run [OF assms(2) local_time_quiet [OF s]])
  then have "in_protocol sy c" "reads_reliable c" using assms(2,3) in_protocol_run reliable_env by (auto simp: log_run_def)
  with wait_loop_waited [OF w] show ?thesis by (intro waited_after [OF r]) simp
qed

lemma wait_prev_markers_waited:
  "wait_prev_markers sy n ps m = Some (r, m') \<Longrightarrow> in_protocol sy (conn m) \<Longrightarrow> reads_reliable (conn m) \<Longrightarrow>
   log_run sy (conn m) (conn m') \<and> learned m m'
   \<and> (r \<longrightarrow> (\<forall>p \<in> set ps. version_seen sy p (mem (conn m)) (mem (conn m')) m'))"
proof (induction ps arbitrary: m)
  case (Cons p ps)
  obtain ex c where c: "mc_check p (conn m) = (ex, c)" by (cases "mc_check p (conn m)")
  then have w: "with_conn (mc_check p) m = (ex, m\<lparr>conn := c\<rparr>)" by (rule with_conn_eq)
  have r1: "log_run sy (conn m) c" by (rule quiet_log_run [OF Cons.prems(2) mc_check_quiet [OF c]])
  then have i1: "in_protocol sy c" "reads_reliable c"
    using Cons.prems(2,3) in_protocol_run reliable_env by (auto simp: log_run_def)
  have go: ?case if m1: "waited sy p m True m1" and k: "wait_prev_markers sy n ps m1 = Some (r, m')" for m1
  proof -
    from m1 have run: "log_run sy (conn m) (conn m1)" by (simp add: waited_def)
    then have "in_protocol sy (conn m1)" "reads_reliable (conn m1)"
      using Cons.prems(2,3) in_protocol_run reliable_env by (auto simp: log_run_def)
    note rest = Cons.IH [OF k this]
    from m1 rest have "learned m m'" by (auto simp: waited_def intro: learned_trans)
    moreover from run rest have "log_run sy (conn m) (conn m')" by (blast intro: log_run_trans)
    moreover have "version_seen sy q (mem (conn m)) (mem (conn m')) m'" if "r" "q \<in> set (p # ps)" for q
    proof (cases "q = p")
      case True
      with m1 rest show ?thesis
        by (auto simp: waited_def log_run_def intro: seen_later [where a = "mem (conn m)" and z = "mem (conn m1)"])
    next
      case False
      with that rest have "version_seen sy q (mem (conn m1)) (mem (conn m')) m'" by simp
      then show ?thesis by (rule seen_later) (use run in \<open>simp_all add: log_run_def\<close>)
    qed
    ultimately show ?thesis by blast
  qed
  show ?case
  proof (cases ex)
    case False
    with check_moment [OF Cons.prems(3) c] have "map_of (objects (mem c)) p = None" by simp
    then have "version_seen sy p (mem c) (mem c) x" for x by (blast intro: seen_moment(1))
    then have "waited sy p m True (m\<lparr>conn := c\<rparr>)" by (intro waited_after [OF r1]) (simp add: waited_def)
    moreover from Cons.prems(1) w False have "wait_prev_markers sy n ps (m\<lparr>conn := c\<rparr>) = Some (r, m')" by simp
    ultimately show ?thesis by (rule go)
  next
    case True
    with Cons.prems(1) w obtain ok m2 where k: "wait_for_marker sy n p (m\<lparr>conn := c\<rparr>) = Some (ok, m2)"
      by (auto split: option.splits)
    from wait_for_marker_waited [OF k] i1 have s: "waited sy p m ok m2" by (intro waited_after [OF r1]) simp
    show ?thesis
    proof (cases ok)
      case False
      with Cons.prems(1) w True k s show ?thesis by (simp add: waited_def)
    next
      case ok: True
      with Cons.prems(1) w True k have "wait_prev_markers sy n ps m2 = Some (r, m')" by simp
      with s ok show ?thesis by (intro go [of m2]) simp_all
    qed
  qed
qed simp

section \<open>The round of a commit\<close>

text \<open>The commit \<open>data\<close> of the version \<open>p\<close> clashes with what the transaction did: it removes a file that the transaction
  deletes, or (serializable) changes a table the transaction has read.\<close>

definition deletes_file :: "table_stats \<Rightarrow> string \<Rightarrow> bool" where
  "deletes_file t path \<longleftrightarrow>
     (\<exists>(full, f) \<in> set (t_deleted_files t). fs_valid f \<and> relative_path full (t_base_path t) = path)"

definition clashes :: "sys \<Rightarrow> string \<Rightarrow> string \<Rightarrow> manager \<Rightarrow> bool" where
  "clashes sy p data m \<longleftrightarrow> marker_table_id p m < length (tables m) \<and>
     (let t = tables m ! marker_table_id p m
      in \<exists>v \<in> set (json_objects (sy_parse sy) data).
           (\<exists>path. removed_path v = Some path \<and> deletes_file t path)
           \<or> isolation (options m) = Serializable \<and> t_was_read t \<and> changes_data v)"

lemma removed_changes: "removed_path v = Some path \<Longrightarrow> changes_data v"
  by (auto simp: removed_path_def changes_data_def member_object_def has_member_def split: bind_splits option.splits)

lemma lease_expiring_learned: "lease_expiring t m = (b, m') \<Longrightarrow> learned m m'"
  by (auto simp: lease_expiring_def Let_def split: option.splits if_splits prod.splits)

lemma not_shifted:
  "shift_expiring sy n k is s m = Some ((True, False), m') \<Longrightarrow> tables m' = tables m \<and> settled m' = settled m"
proof (induction "is" arbitrary: s m)
  case (Cons i js)
  let ?t = "tables m ! i"
  obtain ex m1 where e: "(if \<not> t_committed ?t \<and> changed ?t then lease_expiring ?t m else (False, m)) = (ex, m1)"
    by (metis surj_pair)
  then have f: "tables m1 = tables m \<and> settled m1 = settled m"
    by (auto simp: settled_def split: if_splits dest!: lease_expiring_frame)
  have moved: "shift_expiring sy n k js True m2 = Some ((True, False), m') \<Longrightarrow> False" for m2 js
    by (induction js arbitrary: m2) (auto simp: Let_def split: if_splits option.splits prod.splits)
  from Cons.prems e have "shift_expiring sy n k js s m1 = Some ((True, False), m')"
    by (auto simp: Let_def split: if_splits option.splits dest: moved)
  from Cons.IH [OF this] f show ?case by simp
qed simp

lemma noted_no_clash:
  assumes l: "learned m m1" and nt: "noted_at sy p data m1" and nc: "\<not> conflicts m1"
  shows "\<not> clashes sy p data m"
proof
  let ?i = "marker_table_id p m"
  assume "clashes sy p data m"
  then obtain v where i: "?i < length (tables m)" and v: "v \<in> set (json_objects (sy_parse sy) data)"
    and c: "(\<exists>path. removed_path v = Some path \<and> deletes_file (tables m ! ?i) path)
      \<or> isolation (options m) = Serializable \<and> t_was_read (tables m ! ?i) \<and> changes_data v"
    by (auto simp: clashes_def Let_def)
  from l have l2: "list_all2 knows_more (tables m) (tables m1)" and o: "options m1 = options m"
    by (simp_all add: learned_def settled_def)
  let ?t = "tables m1 ! ?i"
  from list_all2_nthD [OF l2 i] have k: "knows_more (tables m ! ?i) ?t" .
  have i1: "?i < length (tables m1)" using i list_all2_lengthD [OF l2] by simp
  have "changes_data v" using c removed_changes by blast
  with nt v same_table_id [OF l2] have n: "noted (json_objects (sy_parse sy) data) ?t" by (auto simp: noted_at_def)
  have mem: "?t \<in> set (tables m1)" using i1 by simp
  from c show False
  proof
    assume "\<exists>path. removed_path v = Some path \<and> deletes_file (tables m ! ?i) path"
    then obtain path where "removed_path v = Some path" "deletes_file ?t path"
      using k by (auto simp: deletes_file_def knows_more_def)
    with n v have "has_write_conflict m1"
      using mem by (fastforce simp: has_write_conflict_def list_ex_iff deletes_file_def noted_def)
    with nc show False by (simp add: conflicts_def split: if_splits)
  next
    assume "isolation (options m) = Serializable \<and> t_was_read (tables m ! ?i) \<and> changes_data v"
    with n v k mem o have "has_read_conflict m1" "isolation (options m1) = Serializable"
      by (auto simp: has_read_conflict_def list_ex_iff noted_def knows_more_def)
    with nc show False by (simp add: conflicts_def)
  qed
qed

lemma has_deletes_learned: "learned m m' \<Longrightarrow> has_deletes m' = has_deletes m"
proof -
  assume "learned m m'"
  then have "list_all2 knows_more (tables m) (tables m')" by (simp add: learned_def)
  then have "map t_deleted_files (tables m') = map t_deleted_files (tables m)"
    by (induction rule: list_all2_induct) (auto simp: knows_more_def)
  moreover have "has_deletes m = list_ex (list_ex (\<lambda>(path, f). fs_valid f)) (map t_deleted_files (tables m))" for m
    by (simp add: has_deletes_def list_ex_iff)
  ultimately show ?thesis by simp
qed

text \<open>A transaction that deletes files and cannot redo its operations waits once for every marker it knows of; a round
  that succeeds then found no conflict with what it had noted.\<close>

lemma round_waited:
  assumes round: "commit_round sv n cm m = Some (Stop True, m')"
    and c: "in_protocol (sv_sys sv) (conn m)" "reads_reliable (conn m)"
    and m: "with_markers m" "\<not> level0 m" "has_deletes m"
  obtains m1 where "wait_prev_markers (sv_sys sv) (sv_fuel sv) (prev_markers m) m = Some (True, m1)" "\<not> conflicts m1"
proof -
  from round obtain ok m1 where w: "wait_markers (sv_sys sv) (sv_parquet sv) (sv_fuel sv) (sv_fuel sv) m = Some (ok, m1)"
    by (auto simp: commit_round_def split: option.splits)
  with round have ok: "ok" by (cases ok) (auto simp: commit_round_def)
  then obtain k where "wait_markers (sv_sys sv) (sv_parquet sv) (Suc k) (sv_fuel sv) m = Some (ok, m1)"
    using w by (cases "sv_fuel sv") auto
  then obtain r m0 where p: "wait_prev_markers (sv_sys sv) (sv_fuel sv) (prev_markers m) m = Some (r, m0)"
    using m(1) by (auto split: option.splits)
  note l = wait_prev_markers_waited [OF p c]
  then have d: "has_deletes m0" "\<not> can_redo m0" "with_markers m0" "\<not> level0 m0"
    using m has_deletes_learned [of m m0] l by (auto simp: can_redo_def learned_def settled_def with_markers_def)
  with p \<open>wait_markers _ _ (Suc k) _ m = _\<close> ok m(1) have r: "r" "m1 = m0" by (auto split: bool.splits)
  from round w ok obtain m2 where
    s: "shift_expiring (sv_sys sv) (sv_fuel sv) (cm_rounds cm) [0..<length (tables m1)] False m1 = Some ((True, False), m2)"
    by (auto simp: commit_round_def split: option.splits bool.splits)
  note s2 = not_shifted [OF s]
  with d r have m2: "\<not> level0 m2" "with_markers m2" by (auto simp: settled_def with_markers_def)
  then have "collect_unseen_versions (sv_sys sv) (sv_fuel sv) m2 = Some m2"
    by (auto simp: collect_unseen_versions_def with_markers_def)
  with round w ok s m2(1) have "\<not> conflicts m2" by (auto simp: commit_round_def can_redo_def split: if_splits)
  moreover have "conflicts m2 = conflicts m1" by (rule conflicts_part) (use s2 in \<open>simp_all add: settled_def\<close>)
  ultimately show ?thesis using that [of m1] p r by simp
qed

text \<open>At some moment after \<open>m\<close> the version was free, or a commit that does not clash with \<open>m\<close>, or a marker that was then
  replaced by the empty commit of a takeover.\<close>

definition accounted_for :: "sys \<Rightarrow> manager \<Rightarrow> string \<Rightarrow> bool" where
  "accounted_for sy m p \<longleftrightarrow> (\<exists>s. (log_step sy)\<^sup>*\<^sup>* (mem (conn m)) s \<and>
     (map_of (objects s) p = None
      \<or> (\<exists>ob. map_of (objects s) p = Some ob \<and> \<not> marker_text sy (obj_content ob) \<and> \<not> clashes sy p (obj_content ob) m)
      \<or> (\<exists>ob. map_of (objects s) p = Some ob \<and> marker_text sy (obj_content ob))
        \<and> (\<exists>ob t s'. (log_step sy)\<^sup>*\<^sup>* s s' \<and> map_of (objects s') p = Some ob
             \<and> obj_content ob = empty_commit sy ''MarkerTakeover'' t)))"

lemma round_accounts:
  assumes "commit_round sv n cm m = Some (Stop True, m')"
    and "in_protocol (sv_sys sv) (conn m)" "reads_reliable (conn m)"
    and "with_markers m" "\<not> level0 m" "has_deletes m" and p: "p \<in> set (prev_markers m)"
  shows "accounted_for (sv_sys sv) m p"
proof -
  obtain m1 where w: "wait_prev_markers (sv_sys sv) (sv_fuel sv) (prev_markers m) m = Some (True, m1)" "\<not> conflicts m1"
    using round_waited [OF assms(1-6)] by blast
  from wait_prev_markers_waited [OF w(1) assms(2,3)]
  have l: "learned m m1" and "version_seen (sv_sys sv) p (mem (conn m)) (mem (conn m1)) m1" using p by auto
  then show ?thesis unfolding version_seen_def accounted_for_def using noted_no_clash [OF l _ w(2)] by metis
qed

section \<open>Properties\<close>



section \<open>Witnesses\<close>

text \<open>A transaction that deletes a file of a table and knows one marker; the store of the first has the commit of another
  client that removes the same file, the store of the second has nothing.\<close>

definition demo_removal :: json where
  "demo_removal = JObject [(''remove'', JObject [(''path'', JString ''x'')])]"

definition demo_deleter :: "bool \<Rightarrow> connector \<Rightarrow> manager" where
  "demo_deleter done c = demo_manager\<lparr>conn := c, level0 := False, level1 := True, prev_markers := [demo_version],
     tables := [(table_stats_new ''t/'')\<lparr>t_committed := done,
       t_deleted_files := [(''t/x'', file_stats_new\<lparr>fs_path := ''t/x'', fs_valid := True\<rparr>)]\<rparr>]\<rparr>"

lemma demo_removal_text:
  "json_objects (sy_parse demo_sys) (sample_write demo_removal) = [demo_removal]"
  "\<not> marker_text demo_sys (sample_write demo_removal)"
proof -
  show o: "json_objects (sy_parse demo_sys) (sample_write demo_removal) = [demo_removal]"
    using json_objects_sep [OF sample_codec, of demo_removal "[]"]
    by (simp add: demo_sys_def demo_removal_def del: sample_write.simps)
  show "\<not> marker_text demo_sys (sample_write demo_removal)"
    unfolding marker_text_def o by (simp add: demo_removal_def is_marker_line_def member_object_def)
qed

lemma demo_deleter_fields:
  "with_markers (demo_deleter d c)" "\<not> level0 (demo_deleter d c)" "\<not> level2 (demo_deleter d c)" "has_deletes (demo_deleter d c)"
  "conn (demo_deleter d c) = c" "prev_markers (demo_deleter d c) = [demo_version]"
  by (simp_all add: demo_deleter_def with_markers_def has_deletes_def demo_manager_def manager_new_def level_of_def file_stats_new_def)

lemma demo_deleter_clash: "clashes demo_sys p (sample_write demo_removal) (demo_deleter d c)"
proof -
  have "marker_table_id p (demo_deleter d c) = 0" by (simp add: marker_table_id_def demo_deleter_def)
  moreover have "removed_path demo_removal = Some ''x''"
    by (simp add: removed_path_def demo_removal_def member_object_def member_string_def c_str_def)
  ultimately show ?thesis unfolding clashes_def demo_removal_text(1)
    by (simp add: deletes_file_def demo_deleter_def table_stats_new_def file_stats_new_def relative_path_def starts_with_def)
qed

lemma calm_protocol: "store_ok (mem c) \<Longrightarrow> fail_hook c = None \<Longrightarrow> in_protocol sy c \<and> reads_reliable c"
  by (simp add: in_protocol_def protocol_hook_def reads_reliable_def)

lemma apply_waited_keeps:
  assumes "apply_waited sy k v (t, m) = (t', m')"
  shows "level2 m' = level2 m \<and> t_committed t' = t_committed t"
proof -
  have p: "parseEntry sy v l k m = (x, m1) \<Longrightarrow> level2 m1 = level2 m" for l x m1
    by (auto simp: parseEntry_def Let_def split: option.splits if_splits)
  show ?thesis using assms
    by (auto simp: apply_waited_def Let_def split: prod.splits option.splits if_splits dest!: p)
qed

lemma demo_waited:
  "\<exists>m1. wait_prev_markers demo_sys (Suc 0) [demo_version] (demo_deleter True (demo_log_store (sample_write demo_removal)))
     = Some (True, m1) \<and> length (tables m1) = 1 \<and> t_committed (tables m1 ! 0) \<and> conflicts m1
     \<and> \<not> level0 m1 \<and> level1 m1"
proof -
  let ?c = "demo_log_store (sample_write demo_removal)"
  let ?m = "demo_deleter True ?c"
  note store = demo_log_object should_fail_def lookup_object_def
  obtain c1 where ck: "mc_check demo_version ?c = (True, c1)" and c1: "mem c1 = mem ?c" "fail_hook c1 = None"
    by (simp add: mc_check_def store demo_log_conn(2))
  obtain x c2 where lt: "local_time_ms c1 = (x, c2)" and c2: "mem c2 = mem ?c" "fail_hook c2 = None"
    by (simp add: local_time_ms_def c1)
  obtain v c3 where rd: "mc_read_versioned demo_version c2 = ((Some (sample_write demo_removal), v), c3)"
    by (simp add: mc_read_versioned_def store c2)
  let ?m3 = "?m\<lparr>conn := c3\<rparr>"
  obtain t1 m1 where f: "apply_waited demo_sys 1 demo_removal (tables ?m3 ! 0, ?m3) = (t1, m1)" by (metis surj_pair)
  have m1: "tables m1 = tables ?m" using apply_waited_learns [OF f] by simp
  have len: "length (tables ?m) = 1" "t_committed (tables ?m ! 0)" "level1 ?m" by (simp_all add: demo_deleter_def)
  have "marker_table_id demo_version ?m3 = 0" by (simp add: marker_table_id_def demo_deleter_def)
  moreover have "parse_log_version demo_version = Inr (Some 1)"
    using parse_log_version_iff [of demo_version 1] by (auto simp: demo_version_def version_path_def)
  moreover note apply_waited_keeps [OF f]
  ultimately have fw: "finish_wait demo_sys demo_version [demo_removal] ?m3 = Some (True, set_table 0 t1 m1)"
    using f m1 len by (simp add: finish_wait_def get_table_def set_table_def demo_deleter_fields Let_def u32_def)
  from finish_wait_learns [of demo_sys demo_version "sample_write demo_removal" ?m3, unfolded demo_removal_text(1), OF fw]
  have l: "learned ?m3 (set_table 0 t1 m1)"
    and n: "noted_at demo_sys demo_version (sample_write demo_removal) (set_table 0 t1 m1)" by auto
  have "conflicts (set_table 0 t1 m1)" using noted_no_clash [OF l n] demo_deleter_clash [of demo_version True ?c]
    by (auto simp: clashes_def marker_table_id_def Let_def)
  moreover have "t_committed t1 \<and> level0 m1 = level0 ?m \<and> level1 m1 = level1 ?m"
    using apply_waited_keeps [OF f] apply_waited_learns [OF f] len by (simp add: settled_def)
  moreover have "wait_loop demo_sys (Suc 0) x demo_version (?m\<lparr>conn := c2\<rparr>) = finish_wait demo_sys demo_version [demo_removal] ?m3"
    using rd demo_removal_text by (simp add: demo_deleter_fields marker_text_def del: sample_write.simps)
  ultimately show ?thesis
    using with_conn_eq [of "mc_check demo_version" ?m True c1] ck lt fw m1
      len demo_deleter_fields
    by (simp add: wait_for_marker_def Let_def set_table_def del: wait_loop.simps)
qed



end
