(* ===== verification/Banking.thy ===== *)
theory Banking
  imports Waiting WriteSet "HOL-Library.Monad_Syntax"
begin

text \<open>
  The banking client (\<open>YCSBDB/lhtransactionsBanking.cpp\<close>): two accounts in one table, or in two tables with a
  manager each; the operations of the benchmark read a balance, withdraw and transfer.  Both managers act on the same
  store.  Doubles, with \<open>std::stod\<close> and \<open>std::to_string\<close>, are a parameter; measured times and messages are not modelled.
  \<open>None\<close> is the end of a fuel, an exception or a null pointer that is followed.
\<close>

section \<open>Accounts\<close>

datatype layout = Query | MultiTable | SeparateTables

text \<open>\<open>d_cents n\<close> is \<open>0.01 * n\<close>; \<open>d_stod\<close> gives \<open>None\<close> for an exception.\<close>

record 'd doubles =
  d_zero :: 'd
  d_add :: "'d \<Rightarrow> 'd \<Rightarrow> 'd"
  d_sub :: "'d \<Rightarrow> 'd \<Rightarrow> 'd"
  d_cents :: "nat \<Rightarrow> 'd"
  d_stod :: "string \<Rightarrow> 'd option"
  d_text :: "'d \<Rightarrow> string"

text \<open>The manager (0 or 1), the table in it, the key, and which of the two balance changes.\<close>

record account =
  ac_manager :: nat
  ac_table :: nat
  ac_key :: string
  ac_changes :: nat

record 'd bank =
  bk_layout :: layout
  bk_path0 :: string
  bk_path1 :: string
  bk_store :: mem_store
  bk_manager0 :: manager
  bk_manager1 :: "manager option"
  bk_next :: nat
  bk_changes0 :: 'd
  bk_changes1 :: 'd

definition bank_manager :: "nat \<Rightarrow> 'd bank \<Rightarrow> manager option" where
  "bank_manager k b = map_option (at_store (bk_store b)) (if k = 0 then Some (bk_manager0 b) else bk_manager1 b)"

definition put_manager :: "nat \<Rightarrow> manager \<Rightarrow> 'd bank \<Rightarrow> 'd bank" where
  "put_manager k m b =
     (if k = 0 then b\<lparr>bk_manager0 := m, bk_store := mem (conn m)\<rparr>
      else b\<lparr>bk_manager1 := Some m, bk_store := mem (conn m)\<rparr>)"

text \<open>An operation of one manager on the shared store.\<close>

definition on_manager :: "nat \<Rightarrow> (manager \<Rightarrow> ('a \<times> manager) option) \<Rightarrow> 'd bank \<Rightarrow> ('a \<times> 'd bank) option" where
  "on_manager k f b =
     (case bank_manager k b of
        None \<Rightarrow> None
      | Some m \<Rightarrow> map_option (\<lambda>(x, m). (x, put_manager k m b)) (f m))"

definition change_by :: "nat \<Rightarrow> ('d \<Rightarrow> 'd) \<Rightarrow> 'd bank \<Rightarrow> 'd bank" where
  "change_by i f b =
     (if i = 0 then b\<lparr>bk_changes0 := f (bk_changes0 b)\<rparr> else b\<lparr>bk_changes1 := f (bk_changes1 b)\<rparr>)"

definition actor :: "nat \<Rightarrow> 'd bank \<Rightarrow> account" where
  "actor i b =
     (if bk_layout b = Query then \<lparr>ac_manager = 0, ac_table = 0, ac_key = dec i, ac_changes = i\<rparr>
      else \<lparr>ac_manager = (if i = 0 then 0 else 1), ac_table = 0, ac_key = ''0'', ac_changes = i\<rparr>)"

text \<open>The accounts act in turn.\<close>

definition next_account :: "'d bank \<Rightarrow> nat \<times> 'd bank" where
  "next_account b = (bk_next b, b\<lparr>bk_next := 1 - bk_next b\<rparr>)"

text \<open>\<open>seed\<close>: the global log is written by the first client that wants it.\<close>

definition bank_init ::
    "'d doubles \<Rightarrow> layout \<Rightarrow> bool list \<Rightarrow> string \<Rightarrow> string \<Rightarrow> connector \<Rightarrow> nat \<Rightarrow> nat \<Rightarrow> manager_defaults \<Rightarrow> bool \<Rightarrow> 'd bank" where
  "bank_init d lay levels path0 path1 c txn0 txn1 defaults seed =
     (let m0 = manager_new levels path0 c txn0 defaults;
          m1 = (if lay \<noteq> Query then Some (manager_new levels path1 c txn1 defaults) else None);
          c = (if seed then snd (mc_write (global_log_path m0)
                                   (path0 @ '' 1'' @ [newline] @ path1 @ '' 1'' @ [newline]) c) else c)
      in \<lparr>bk_layout = lay, bk_path0 = path0, bk_path1 = path1, bk_store = mem c, bk_manager0 = m0, bk_manager1 = m1,
          bk_next = 0, bk_changes0 = d_zero d, bk_changes1 = d_zero d\<rparr>)"

definition bank_close :: "services \<Rightarrow> 'd bank \<Rightarrow> mem_store" where
  "bank_close sv b =
     (let s = mem (conn (clear_tables (sv_sys sv) (at_store (bk_store b) (bk_manager0 b))))
      in case bk_manager1 b of
           None \<Rightarrow> s
         | Some m \<Rightarrow> mem (conn (clear_tables (sv_sys sv) (at_store s m))))"

section \<open>Balances\<close>

text \<open>The text between the first and the last quote.\<close>

definition parse_balance :: "'d doubles \<Rightarrow> string \<Rightarrow> 'd option" where
  "parse_balance d column =
     (case (find_sub [CHR 0x22] column, rfind_sub [CHR 0x22] column) of
        (Some i, Some j) \<Rightarrow> if j \<le> i then None else d_stod d (take (j - i - 1) (drop (i + 1) column))
      | _ \<Rightarrow> None)"

definition balance_schema :: "arrow_field list" where
  "balance_schema = [field ''Banking_ID'' T_STRING, field ''balance'' T_STRING]"

definition account_row :: "string \<Rightarrow> string \<Rightarrow> arrow_table" where
  "account_row key balance =
     map2 (\<lambda>f v. \<lparr>col_field = f, col_chunks = [[AV_STRING v]]\<rparr>) balance_schema [key, balance]"

definition read_balance :: "services \<Rightarrow> 'd doubles \<Rightarrow> account \<Rightarrow> manager \<Rightarrow> 'd option \<times> manager" where
  "read_balance sv d acc m =
     (let ((found, result, path), m) =
            read_file (sv_sys sv) (sv_parquet sv) (sv_ops sv) (ac_table acc) (ac_key acc) (Some [''balance'']) [] m
      in (if found = [] \<or> result = [] then None else parse_balance d (snd (hd result)), m))"

text \<open>The result of the removal is not used.\<close>

definition write_balance ::
    "services \<Rightarrow> 'd doubles \<Rightarrow> account \<Rightarrow> 'd \<Rightarrow> update_operation \<Rightarrow> 'd \<Rightarrow> manager \<Rightarrow> (bool \<times> manager) option" where
  "write_balance sv d acc balance op change m =
     (let (prev, m) = register_update_pairs_op [(''balance'', d_text d balance)] op [(''balance'', d_text d change)] m
      in do {
           (_, m) \<leftarrow> remove_file_key (sv_sys sv) (sv_parquet sv) (sv_ops sv) (sv_fuel sv) (ac_table acc) (ac_key acc) prev m;
           add_file_table (sv_sys sv) (sv_parquet sv) (sv_ops sv) (sv_fuel sv) (ac_table acc)
             (Some (account_row (ac_key acc) (d_text d balance))) prev m
         })"

definition new_balance :: "'d doubles \<Rightarrow> update_operation \<Rightarrow> 'd \<Rightarrow> 'd \<Rightarrow> 'd" where
  "new_balance d op x change = (if op = Upd_SUB then d_sub d x change else d_add d x change)"

text \<open>One account is changed; nothing is written when its balance cannot be read.\<close>

definition change_balance ::
    "services \<Rightarrow> 'd doubles \<Rightarrow> account \<Rightarrow> update_operation \<Rightarrow> 'd \<Rightarrow> manager \<Rightarrow> (bool \<times> manager) option" where
  "change_balance sv d acc op change m =
     (case read_balance sv d acc m of
        (None, m) \<Rightarrow> Some (False, m)
      | (Some balance, m) \<Rightarrow>
          write_balance sv d acc (new_balance d op balance change) op change m)"

section \<open>The operations\<close>

definition bank_begin :: "services \<Rightarrow> (nat \<Rightarrow> nat) \<Rightarrow> nat \<Rightarrow> 'd bank \<Rightarrow> (bool \<times> 'd bank) option" where
  "bank_begin sv random k b = on_manager k (begin_transaction_ycsb (sv_sys sv) (sv_parquet sv) (sv_fuel sv) random) b"

definition bank_commit :: "services \<Rightarrow> 'e float_unit \<Rightarrow> nat \<Rightarrow> nat \<Rightarrow> 'd bank \<Rightarrow> (bool \<times> 'd bank) option" where
  "bank_commit sv fu n k b = on_manager k (commit sv fu n False) b"

definition money :: "'d doubles \<Rightarrow> nat \<Rightarrow> 'd" where
  "money d random = d_cents d (random mod 50001)"

text \<open>\<open>Read\<close>: the balance of an account.\<close>

definition check_balance ::
    "services \<Rightarrow> 'e float_unit \<Rightarrow> nat \<Rightarrow> (nat \<Rightarrow> nat) \<Rightarrow> 'd bank \<Rightarrow> ((nat \<times> (string \<times> string) list) \<times> 'd bank) option" where
  "check_balance sv fu n random b =
     (let (i, b) = next_account b; acc = actor i b
      in do {
           (begun, b) \<leftarrow> bank_begin sv random (ac_manager acc) b;
           if \<not> begun then Some ((1, []), b)
           else do {
             ((text, result, _), b) \<leftarrow> on_manager (ac_manager acc)
                (\<lambda>m. Some (read_file (sv_sys sv) (sv_parquet sv) (sv_ops sv) (ac_table acc) (ac_key acc) (Some [''balance'']) [] m)) b;
             (committed, b) \<leftarrow> bank_commit sv fu n (ac_manager acc) b;
             Some ((if text = [] \<or> \<not> committed then 1 else 0, result), b)
           }
         })"

text \<open>One account in a transaction of its own; the transaction is committed also when nothing or only half was written.\<close>

definition change_and_commit ::
    "services \<Rightarrow> 'e float_unit \<Rightarrow> nat \<Rightarrow> 'd doubles \<Rightarrow> account \<Rightarrow> update_operation \<Rightarrow> 'd \<Rightarrow> manager
     \<Rightarrow> (bool \<times> manager) option" where
  "change_and_commit sv fu n d acc op change m =
     do {
       (written, m) \<leftarrow> change_balance sv d acc op change m;
       (committed, m) \<leftarrow> commit sv fu n False m;
       Some (written \<and> committed, m)
     }"

definition change_alone ::
    "services \<Rightarrow> 'e float_unit \<Rightarrow> nat \<Rightarrow> (nat \<Rightarrow> nat) \<Rightarrow> 'd doubles \<Rightarrow> account \<Rightarrow> update_operation \<Rightarrow> 'd \<Rightarrow> 'd bank
     \<Rightarrow> (nat \<times> 'd bank) option" where
  "change_alone sv fu n random d acc op change b =
     do {
       (begun, b) \<leftarrow> bank_begin sv random (ac_manager acc) b;
       if \<not> begun then Some (1, b)
       else do {
         (ok, b) \<leftarrow> on_manager (ac_manager acc) (change_and_commit sv fu n d acc op change) b;
         if ok then Some (0, change_by (ac_changes acc) (\<lambda>x. new_balance d op x change) b) else Some (1, b)
       }
     }"

text \<open>\<open>Scan\<close>: a withdrawal.\<close>

definition withdraw ::
    "services \<Rightarrow> 'e float_unit \<Rightarrow> nat \<Rightarrow> (nat \<Rightarrow> nat) \<Rightarrow> 'd doubles \<Rightarrow> nat \<Rightarrow> 'd bank \<Rightarrow> (nat \<times> 'd bank) option" where
  "withdraw sv fu n random d number b =
     (let (i, b) = next_account b
      in change_alone sv fu n random d (actor i b) Upd_SUB (money d number) b)"

text \<open>\<open>Update\<close>: a transfer, in one transaction for both accounts, or in the last layout one for each of them (the second
  with its own services and random numbers).\<close>

definition transfer_together ::
    "services \<Rightarrow> 'e float_unit \<Rightarrow> nat \<Rightarrow> 'd doubles \<Rightarrow> account \<Rightarrow> account \<Rightarrow> 'd \<Rightarrow> manager \<Rightarrow> (bool \<times> manager) option" where
  "transfer_together sv fu n d sender receiver change m =
     do {
       (written, m) \<leftarrow> change_balance sv d sender Upd_SUB change m;
       (written2, m) \<leftarrow> (if written then change_balance sv d receiver Upd_ADD change m else Some (False, m));
       if \<not> written2 then Some (False, abort_txn (sv_sys sv) True m) else commit sv fu n False m
     }"

definition transfer ::
    "services \<Rightarrow> services \<Rightarrow> 'e float_unit \<Rightarrow> nat \<Rightarrow> (nat \<Rightarrow> nat) \<Rightarrow> (nat \<Rightarrow> nat) \<Rightarrow> 'd doubles \<Rightarrow> nat \<Rightarrow> 'd bank \<Rightarrow> (nat \<times> 'd bank) option" where
  "transfer sv sv2 fu n random random2 d number b =
     (let (i, b) = next_account b;
          sender = actor i b; receiver = actor (1 - i) b; change = money d number
      in if bk_layout b = SeparateTables
         then do {
           (failed, b) \<leftarrow> change_alone sv fu n random d sender Upd_SUB change b;
           if failed \<noteq> 0 then Some (1, b) else change_alone sv2 fu n random2 d receiver Upd_ADD change b
         }
         else do {
           (begun, b) \<leftarrow> bank_begin sv random (ac_manager sender) b;
           if \<not> begun then Some (1, b)
           else do {
             (opened, b) \<leftarrow> (if bk_layout b = MultiTable
               then on_manager (ac_manager sender)
                      (open_new_table (sv_sys sv) (sv_parquet sv) (sv_fuel sv) (if i = 0 then bk_path1 b else bk_path0 b)) b
               else Some (True, b));
             if \<not> opened then map_option (\<lambda>(_, b). (1, b)) (bank_commit sv fu n (ac_manager sender) b)
             else do {
               (committed, b) \<leftarrow> on_manager (ac_manager sender)
                 (\<lambda>m. transfer_together sv fu n d sender
                   (if bk_layout b = MultiTable
                    then receiver\<lparr>ac_manager := ac_manager sender,
                                  ac_table := get_table_id (if i = 0 then bk_path1 b else bk_path0 b) m\<rparr>
                    else receiver) change m) b;
               if \<not> committed then Some (1, b)
               else Some (0, change_by (ac_changes receiver) (\<lambda>x. d_add d x change)
                               (change_by (ac_changes sender) (\<lambda>x. d_sub d x change) b))
             }
           }
         })"

text \<open>The other operations of the benchmark do nothing.\<close>

definition bank_insert :: "'d bank \<Rightarrow> nat \<times> 'd bank" where "bank_insert b = (0, b)"
definition bank_delete :: "'d bank \<Rightarrow> nat \<times> 'd bank" where "bank_delete b = (0, b)"

section \<open>What the operations keep\<close>

text \<open>All but the table an operation is about, the connector and the sublog.\<close>

definition mode where
  "mode i m = (explicit_log m, level0 m, level1 m, level2 m, options m, (tables m)[i := table_stats_new []])"

lemma mode_fields:
  assumes "mode i m' = mode i m"
  shows "explicit_log m' = explicit_log m" "level0 m' = level0 m" "length (tables m') = length (tables m)"
    "j \<noteq> i \<Longrightarrow> tables m' ! j = tables m ! j"
proof -
  from assms have e: "explicit_log m' = explicit_log m" "level0 m' = level0 m"
    "(tables m')[i := table_stats_new []] = (tables m)[i := table_stats_new []]" by (simp_all add: mode_def)
  then show "explicit_log m' = explicit_log m" "level0 m' = level0 m" by auto
  from e(3) show "length (tables m') = length (tables m)" by (metis length_list_update)
  from e(3) show "j \<noteq> i \<Longrightarrow> tables m' ! j = tables m ! j" by (metis nth_list_update_neq)
qed

lemma mode_update [simp]:
  "mode i (m\<lparr>conn := c\<rparr>) = mode i m" "mode i (m\<lparr>found := f\<rparr>) = mode i m" "mode i (m\<lparr>next_step := k\<rparr>) = mode i m"
  "mode i (m\<lparr>update_vals := vs\<rparr>) = mode i m" "mode i (m\<lparr>update_ops := us\<rparr>) = mode i m" "mode i (set_table i t m) = mode i m"
  by (simp_all add: mode_def set_table_def)

lemma add_substep_mode: "add_substep file ty i k m = (b, m') \<Longrightarrow> mode j m' = mode j m"
  by (auto simp: add_substep_def add_substep_explicit_def add_substep_implicit_def append_step_def write_sublog_def Let_def
      split: if_splits sub_op.splits option.splits dest!: with_conn_frame)

lemma substep_mode [simp]: "mode j (snd (add_substep file ty i k m)) = mode j m"
  by (rule add_substep_mode [OF prod.collapse [symmetric]])

lemma log_substep_mode [simp]: "mode j (log_add_substep i p k m) = mode j m" "mode j (log_delete_substep i p k m) = mode j m"
  by (simp_all add: log_delete_substep_def log_add_substep_def)

lemma register_mode [simp]: "mode i (register_created_file i f w m) = mode i m" "mode i (register_deleted_file i p m) = mode i m"
  by (simp_all add: register_created_file_def register_deleted_file_def on_table_def)

lemma read_mode: "get_table_for_read i m = (r, m') \<Longrightarrow> mode i m' = mode i m"
  by (auto simp: get_table_for_read_def Let_def split: option.splits)

lemma write_rest_mode: "write_rest sy pq ops n i e rows log m = Some (ok, m') \<Longrightarrow> mode i m' = mode i m"
  by (auto simp: write_rest_def Let_def split: option.splits prod.splits if_splits
      dest!: with_conn_frame new_data_file_path_free)

lemma remove_key_rows_mode: "remove_key_rows sy pq ops n i file k log m = Some (ok, m') \<Longrightarrow> mode i m' = mode i m"
  by (auto simp: remove_key_rows_def split: option.splits bool.splits if_splits dest!: write_rest_mode)

lemma remove_all_mode: "remove_all_key_rows sy pq ops n i files k log m = Some (ok, m') \<Longrightarrow> mode i m' = mode i m"
  by (induction files arbitrary: m) (auto split: option.splits bool.splits dest!: remove_key_rows_mode)

lemma remove_file_mode: "remove_file_key sy pq ops n i key k m = Some (r, m') \<Longrightarrow> mode i m' = mode i m"
  by (auto simp: remove_file_key_def split: option.splits prod.splits list.splits if_splits
      simp del: remove_all_key_rows.simps dest!: read_mode with_conn_frame remove_all_mode)

lemma read_balance_mode: "read_balance sv d acc m = (x, m') \<Longrightarrow> mode (ac_table acc) m' = mode (ac_table acc) m"
  by (auto simp: read_balance_def read_file_def read_file_as_table_def Let_def split: prod.splits option.splits list.splits if_splits
      dest!: read_mode with_conn_frame)

lemma register_pairs_mode: "register_update_pairs_op vs op ps m = (k, m') \<Longrightarrow> \<forall>i. mode i m' = mode i m"
  by (auto simp: register_update_pairs_op_def split: if_splits)

lemma add_table_mode: "add_file_table sy pq ops n i rows k m = Some (r, m') \<Longrightarrow> mode i m' = mode i m"
  by (auto simp: add_file_table_def Let_def split: option.splits prod.splits if_splits dest!: with_conn_frame new_data_file_path_free)

lemma change_balance_mode: "change_balance sv d acc op change m = Some (ok, m') \<Longrightarrow>
    mode (ac_table acc) m' = mode (ac_table acc) m"
  by (auto simp: change_balance_def write_balance_def split: prod.splits option.splits bind_splits
      dest!: read_balance_mode register_pairs_mode remove_file_mode add_table_mode)

section \<open>Writing a balance\<close>

text \<open>A data file with the row of the account and this balance was written, and it is the last change of its table: its
  statistics are registered, and it is valid.\<close>

definition balance_file :: "services \<Rightarrow> account \<Rightarrow> string \<Rightarrow> manager \<Rightarrow> bool" where
  "balance_file sv acc balance m \<longleftrightarrow> ac_table acc < length (tables m) \<and> (\<exists>t rows path prev c c'.
     conform_for_write (sv_sys sv) (sv_ops sv) t (Some (account_row (ac_key acc) balance)) = Some rows
     \<and> mc_write path (encodeAsParquet (sv_parquet sv) rows) c = (True, c')
     \<and> tables m ! ac_table acc = created_file
         (written_stats (sv_ops sv) path (encodeAsParquet (sv_parquet sv) rows) rows prev) False t)"

lemma add_table_written:
  assumes a: "add_file_table sy pq ops n i (Some r) prev m = Some (True, m')" and e: "explicit_log m"
  shows "i < length (tables m) \<and> (\<exists>rows path c c'. conform_for_write sy ops (tables m ! i) (Some r) = Some rows
     \<and> mc_write path (encodeAsParquet pq rows) c = (True, c')
     \<and> tables m' ! i = created_file (written_stats ops path (encodeAsParquet pq rows) rows prev) False (tables m ! i))"
proof -
  from a obtain t where t: "get_table i m = Some t" by (auto simp: add_file_table_def both_def split: option.splits)
  then have i: "i < length (tables m)" "t = tables m ! i" by (auto simp: get_table_def split: if_splits)
  from a t obtain rows where rows: "conform_for_write sy ops t (Some r) = Some rows"
    by (auto simp: add_file_table_def both_def split: option.splits)
  from a t rows obtain path m1 where p: "new_data_file_path ops n t m = Some (path, m1)"
    by (auto simp: add_file_table_def both_def Let_def split: option.splits)
  let ?m2 = "log_add_substep i path prev m1"
  obtain ok m3 where w: "with_conn (mc_write path (encodeAsParquet pq rows)) ?m2 = (ok, m3)" by (metis surj_pair)
  have "mode i ?m2 = mode i m" using new_data_file_path_free [OF p] by auto
  then have "explicit_log ?m2" using e mode_fields(1) by blast
  with a t rows p w have ok: "ok" and m': "m' = register_created_file i
      (written_stats ops path (encodeAsParquet pq rows) rows prev) False m3"
    by (auto simp: add_file_table_def both_def Let_def split: if_splits)
  from with_conn_tables [OF w] ok have c: "mc_write path (encodeAsParquet pq rows) (conn ?m2) = (True, conn m3)"
    and "tables m3 = tables m" using new_path_tables [OF p] by simp_all
  then have "tables m' ! i = created_file (written_stats ops path (encodeAsParquet pq rows) rows prev) False (tables m ! i)"
    using i by (simp add: m' register_created_file_def on_table_def set_table_def)
  with c rows i show ?thesis by blast
qed

lemma change_written:
  assumes "change_balance sv d acc op change m = Some (True, m')" "explicit_log m"
  obtains x where "fst (read_balance sv d acc m) = Some x" "balance_file sv acc (d_text d (new_balance d op x change)) m'"
proof -
  obtain bal m1 where r: "read_balance sv d acc m = (bal, m1)" by (metis surj_pair)
  with assms(1) obtain x where x: "bal = Some x" by (auto simp: change_balance_def split: option.splits)
  let ?b = "new_balance d op x change"
  obtain prev m2 where p: "register_update_pairs_op [(''balance'', d_text d ?b)] op [(''balance'', d_text d change)] m1 = (prev, m2)"
    by (metis surj_pair)
  from assms(1) r x p obtain q m3 where
    rm: "remove_file_key (sv_sys sv) (sv_parquet sv) (sv_ops sv) (sv_fuel sv) (ac_table acc) (ac_key acc) prev m2 = Some (q, m3)"
    and a: "add_file_table (sv_sys sv) (sv_parquet sv) (sv_ops sv) (sv_fuel sv) (ac_table acc)
       (Some (account_row (ac_key acc) (d_text d ?b))) prev m3 = Some (True, m')"
    by (auto simp: change_balance_def write_balance_def split: bind_splits)
  have "mode (ac_table acc) m3 = mode (ac_table acc) m" using read_balance_mode [OF r] register_pairs_mode [OF p] remove_file_mode [OF rm] by simp
  then have e: "explicit_log m3" using assms(2) mode_fields(1) by blast
  from add_table_written [OF a e]
  have "balance_file sv acc (d_text d ?b) m'" unfolding balance_file_def mode_fields(3) [OF add_table_mode [OF a]] by blast
  with that r x show ?thesis by simp
qed

section \<open>What was committed\<close>

text \<open>Every table with changes got a commit of exactly these changes.\<close>

definition changes_written :: "services \<Rightarrow> manager \<Rightarrow> bool" where
  "changes_written sv m \<longleftrightarrow> (\<forall>t \<in> set (tables m). changed t \<longrightarrow> written_log (sv_sys sv) (changes_of t))"

lemma changes_committed: "commit sv fu n False m = Some (True, m') \<Longrightarrow> \<not> level0 m \<Longrightarrow> changes_written sv m"
  using committed_changes [of sv fu n m m'] by (auto simp: changes_written_def)

lemma commit_no_conflicts: "commit sv fu n False m = Some (True, m') \<Longrightarrow> \<not> conflicts m'"
proof -
  assume "commit sv fu n False m = Some (True, m')"
  then obtain m1 where m1: "commit_rounds sv n \<lparr>cm_rounds = 0, cm_redo_done = False, cm_claim_failures = 0\<rparr>
      (m\<lparr>tables := map (\<lambda>t. t\<lparr>t_committed := False\<rparr>) (tables m)\<rparr>) = Some (True, m1)"
    "tables m' = tables m1" "options m' = options m1"
    by (rule commit_rounds_of) (rule that)
  from commit_rounds_true [OF m1(1)] conflicts_part [of m' m1] m1(2,3) show ?thesis by simp
qed

lemma balance_file_mode:
  "mode i m' = mode i m \<Longrightarrow> ac_table acc \<noteq> i \<Longrightarrow> balance_file sv acc balance m' = balance_file sv acc balance m"
proof -
  assume m: "mode i m' = mode i m" and i: "ac_table acc \<noteq> i"
  show ?thesis unfolding balance_file_def mode_fields(3) [OF m] mode_fields(4) [OF m i] ..
qed

section \<open>Properties\<close>



section \<open>Witnesses\<close>

text \<open>Two accounts in one table without a schema, 3 and 1; a balance is written as so many letters.  The hook lets the
  writes of data files fail, or nothing.\<close>

definition bank_doubles :: "int doubles" where
  "bank_doubles = \<lparr>d_zero = 0, d_add = (+), d_sub = (-), d_cents = int, d_stod = (\<lambda>s. Some (int (length s))), d_text = (\<lambda>i. replicate (nat i) (CHR ''x''))\<rparr>"

definition row_balance :: "arrow_table \<Rightarrow> string" where
  "row_balance t = (case concat (map col_values t) of [k, AV_STRING s] \<Rightarrow> s | _ \<Rightarrow> ''x'')"

definition bank_parquet :: parquet where
  "bank_parquet = \<lparr>pq_read = (\<lambda>data. Some (account_row ''0'' data)), pq_write = (\<lambda>t n. row_balance t)\<rparr>"

definition bank_ops :: data_ops where
  "bank_ops = demo_ops\<lparr>op_column_text := (\<lambda>c. case col_values c of [AV_STRING s] \<Rightarrow> CHR 0x22 # s @ [CHR 0x22] | _ \<Rightarrow> [])\<rparr>"

definition bank_services :: services where
  "bank_services = demo_services\<lparr>sv_ops := bank_ops, sv_parquet := bank_parquet\<rparr>"

definition bank_hook :: "bool \<Rightarrow> hook" where
  "bank_hook failing n op p s = (failing \<and> op = Op_Write, s)"

definition bank_conn :: "bool \<Rightarrow> connector" where
  "bank_conn failing = demo_connector\<lparr>fail_hook := Some (bank_hook failing),
     mem := \<lparr>objects = [(''t/f'', \<lparr>obj_content = ''xxx'', obj_etag = [], modified_ms = 0\<rparr>),
                       (''t/g'', \<lparr>obj_content = ''x'', obj_etag = [], modified_ms = 0\<rparr>)], next_etag = 0\<rparr>\<rparr>"

definition bank_entry :: "string \<Rightarrow> delta_log_entry" where
  "bank_entry key = entry_of_file ADD [''Banking_ID''] [key] [key] 1"

definition bank_table :: table_stats where
  "bank_table = (table_stats_new ''t/'')\<lparr>t_marker := Some (set_invalid (marker_new ''t/v1'' [] 0)),
     t_delta_log := (delta_log_new ''t/'')\<lparr>dl_files := [(''f'', bank_entry ''0''), (''g'', bank_entry ''1'')]\<rparr>\<rparr>"

definition bank_client :: "bool \<Rightarrow> manager" where
  "bank_client failing = demo_manager\<lparr>level0 := False, conn := bank_conn failing, tables := [bank_table]\<rparr>"


lemma bank_services_fields: "sv_sys bank_services = demo_sys" "sv_parquet bank_services = bank_parquet" "sv_ops bank_services = bank_ops" "sv_fuel bank_services = 1"
  by (simp_all add: bank_services_def demo_services_def)

definition plain_table :: "manager \<Rightarrow> table_stats \<Rightarrow> bool" where
  "plain_table m t \<longleftrightarrow> tables m = [t] \<and> dl_metadata (t_delta_log t) = [] \<and> \<not> level0 m \<and> explicit_log m"

lemma plain_schema: "plain_table m t \<Longrightarrow> schema_of_table sy t = (None, [])" "plain_table m t \<Longrightarrow> schema_of_table sy (t\<lparr>t_was_read := b\<rparr>) = (None, [])"
  by (simp_all add: schema_of_table_def plain_table_def get_metadata_def)

lemma plain_find:
  "plain_table m t \<Longrightarrow> findFileWithStats 0 key True (t_delta_log t) = p \<Longrightarrow> p \<noteq> [] \<Longrightarrow>
   find_key_files sy pq ops (t\<lparr>t_was_read := True\<rparr>) key False k c = (Some [\<lparr>kf_path = p, kf_data = None, kf_rows = [], kf_exact = True\<rparr>], c)"
  by (simp add: find_key_files_def plain_schema)

lemma plain_for_read: "plain_table m t \<Longrightarrow> get_table_for_read 0 m = (Some (t\<lparr>t_was_read := True\<rparr>), m\<lparr>tables := [t\<lparr>t_was_read := True\<rparr>]\<rparr>)"
  by (simp add: get_table_for_read_def get_table_def plain_table_def set_table_def Let_def)

lemma account_row_table: "num_rows (account_row k s) = 1" "row_balance (account_row k s) = s"
  "tl (account_row k s) = [\<lparr>col_field = field ''balance'' T_STRING, col_chunks = [[AV_STRING s]]\<rparr>]"
  by (simp_all add: account_row_def balance_schema_def num_rows_def col_values_def row_balance_def)

lemma quoted_balance: "parse_balance bank_doubles (CHR 0x22 # s @ [CHR 0x22]) = Some (int (length s))"
proof -
  have f: "find_sub [CHR 0x22] (CHR 0x22 # s @ [CHR 0x22]) = Some 0" by (simp add: starts_with_def)
  have "rfind_sub [CHR 0x22] (u @ [CHR 0x22]) = Some (length u)" for u
    by (induction u) (simp_all add: starts_with_def)
  from this [of "CHR 0x22 # s"] have "rfind_sub [CHR 0x22] (CHR 0x22 # s @ [CHR 0x22]) = Some (Suc (length s))" by simp
  with f show ?thesis by (simp add: parse_balance_def bank_doubles_def del: find_sub.simps rfind_sub.simps)
qed

lemma plain_read:
  assumes "plain_table m t" "findFileWithStats 0 (ac_key a) True (t_delta_log t) = p" "p \<noteq> []" "ac_table a = 0"
    and "mc_read2 p (conn m) = (Some s, c)" "s \<noteq> []"
  shows "read_balance bank_services bank_doubles a m = (Some (int (length s)), m\<lparr>tables := [t\<lparr>t_was_read := True\<rparr>], conn := c\<rparr>)"
proof -
  have "read_file_as_table demo_sys bank_parquet bank_ops 0 (ac_key a) [] m = ((Some (account_row ''0'' s), p), m\<lparr>tables := [t\<lparr>t_was_read := True\<rparr>], conn := c\<rparr>)"
    using assms(1,5,6) plain_schema(2) [OF assms(1), of _ True]
    by (simp add: read_file_as_table_def plain_for_read [OF assms(1)] plain_find [OF assms(1,2,3)] with_conn_def add_substep_def plain_table_def
      read_data_file_def readParquetAsTable_def bank_parquet_def key_rows_def select_table_def account_row_table)
  then show ?thesis
    using assms(3,4) by (simp add: read_balance_def bank_services_fields read_file_def account_row_table bank_ops_def col_values_def quoted_balance)
qed

lemma plain_remove:
  assumes "plain_table m t" "findFileWithStats 0 key True (t_delta_log t) = p" "p \<noteq> []"
  shows "remove_file_key demo_sys bank_parquet bank_ops 1 0 key k m = Some ((True, Some p), m\<lparr>tables := [deleted_file p (t\<lparr>t_was_read := True\<rparr>)]\<rparr>)"
  using assms(1)
  by (simp add: remove_file_key_def plain_for_read [OF assms(1)] plain_find [OF assms] with_conn_def plain_table_def remove_key_rows_def all_rows_def
     log_delete_substep_def add_substep_def register_deleted_file_def on_table_def set_table_def)

lemma plain_add:
  assumes "plain_table m t" "new_data_file_path bank_ops 1 t m = Some (path, m\<lparr>conn := c\<rparr>)" "mc_write path (row_balance r) c = (ok, c')"
  shows "add_file_table demo_sys bank_parquet bank_ops 1 0 (Some r) k m =
    Some (ok, if ok then m\<lparr>conn := c', tables := [created_file (written_stats bank_ops path (row_balance r) r k) False t]\<rparr> else m\<lparr>conn := c'\<rparr>)"
  using assms plain_schema(1) [OF assms(1)]
  by (simp add: add_file_table_def get_table_def plain_table_def both_def conform_for_write_def encodeAsParquet_def bank_parquet_def
    log_add_substep_def add_substep_def with_conn_def register_created_file_def on_table_def set_table_def Let_def)

definition a0 :: account where "a0 = \<lparr>ac_manager = 0, ac_table = 0, ac_key = ''0'', ac_changes = 0\<rparr>"


lemma bank_client_fields: "tables (bank_client b) = [bank_table]" "\<not> level0 (bank_client b)" "\<not> level1 (bank_client b)" "\<not> level2 (bank_client b)"
   "explicit_log (bank_client b)" "conn (bank_client b) = bank_conn b" "update_vals (bank_client b) = []" "storage_retries (bank_client b) = Suc 7"
   "transaction_id (bank_client b) = 7" "next_step (bank_client b) = 0"
  by (simp_all add: bank_client_def demo_manager_def manager_new_def level_of_def)

lemma bank_table_plain: "dl_metadata (t_delta_log bank_table) = []" "findFileWithStats 0 ''0'' True (t_delta_log bank_table) = ''t/f''"
  by (simp_all add: bank_table_def delta_log_new_def findFileWithStats_def bank_entry_def entry_of_file_def)

definition bank_like :: "bool \<Rightarrow> connector \<Rightarrow> connector \<Rightarrow> bool" where
  "bank_like b c0 c \<longleftrightarrow> fail_hook c = Some (bank_hook b) \<and> clock c = None \<and> local_clock c = int \<and> mem c = mem c0 \<and> clock_reads c = clock_reads c0"

lemma metadata_kept [simp]: "dl_metadata (snd (register_operation op p ub ow l)) = dl_metadata l" "dl_metadata (snd (register_operation_entry op p e ub ow l)) = dl_metadata l"
  by (auto simp: register_operation_def register_operation_entry_def upsert_def Let_def split: option.splits)

lemma plain_change:
  fixes x :: int
  assumes "plain_table m t" "findFileWithStats 0 (ac_key a) True (t_delta_log t) = p" "p \<noteq> []" "ac_table a = 0"
    and "mc_read2 p (conn m) = (Some s, c)" "s \<noteq> []"
    and x: "x = new_balance bank_doubles op (int (length s)) change"
    and t1: "t1 = deleted_file p (t\<lparr>t_was_read := True\<rparr>)"
    and m1: "m1 = m\<lparr>tables := [t1], conn := c, update_vals := update_vals m @ [[(''balance'', d_text bank_doubles x)]]\<rparr>"
    and np: "new_data_file_path bank_ops 1 t1 m1 = Some (path, m1\<lparr>conn := c1\<rparr>)"
    and w: "mc_write path (d_text bank_doubles x) c1 = (ok, c2)"
  shows "change_balance bank_services bank_doubles a op change m =
    Some (ok, if ok then m1\<lparr>conn := c2, tables := [created_file (written_stats bank_ops path (d_text bank_doubles x)
       (account_row (ac_key a) (d_text bank_doubles x)) (u32 (length (update_vals m)))) False t1]\<rparr> else m1\<lparr>conn := c2\<rparr>)"
proof -
  let ?u = "[(''balance'', d_text bank_doubles x)]"
  let ?r = "m\<lparr>tables := [t\<lparr>t_was_read := True\<rparr>], conn := c\<rparr>"
  let ?r2 = "?r\<lparr>update_vals := update_vals m @ [?u]\<rparr>"
  have pl: "plain_table ?r2 (t\<lparr>t_was_read := True\<rparr>)" "plain_table m1 t1" "explicit_log m"
    using assms(1) by (auto simp: plain_table_def m1 t1 deleted_file_def)
  have rm: "remove_file_key demo_sys bank_parquet bank_ops 1 0 (ac_key a) k ?r2 = Some ((True, Some p), m1)" for k
    using plain_remove [OF pl(1), of "ac_key a" p k] assms(2,3) by (simp add: m1 t1)
  show ?thesis
    using plain_read [OF assms(1,2,3,4,5,6)] rm plain_add [OF pl(2) np, of "account_row (ac_key a) (d_text bank_doubles x)"] w pl(3) assms(4)
    by (simp add: change_balance_def write_balance_def bank_services_fields x [symmetric] register_update_pairs_op_def account_row_table)
qed

lemma bank_path:
  assumes "fail_hook (conn m) = Some (bank_hook b)" "local_clock (conn m) = int" "clock (conn m) = None" "clock_reads (conn m) = n" "n < 1000"
    and "path = data_file_name (t_base_path t) (transaction_id m) 0 (next_step m) n"
    and "map_of (objects (mem (conn m))) path = None"
  shows "\<exists>c. new_data_file_path bank_ops 1 t m = Some (path, m\<lparr>conn := c\<rparr>) \<and> fail_hook c = Some (bank_hook b) \<and> mem c = mem (conn m)
     \<and> clock_reads c = Suc n \<and> local_clock c = int \<and> clock c = None"
  using assms by (auto intro!: exI [of _ "(conn m)\<lparr>clock_reads := Suc n, hook_calls := Suc (hook_calls (conn m))\<rparr>"]
      simp: bank_ops_def demo_ops_def Let_def local_time_ms_def mc_check_def should_fail_def bank_hook_def lookup_object_def)

lemma bank_file_names:
  "data_file_name ''t/'' 7 0 0 0 = ''t/lhdata-7-0-0-0.parquet''" "data_file_name ''t/'' 7 0 0 2 = ''t/lhdata-7-0-0-2.parquet''"
  by code_simp+

lemma bank_conn_fields:
  "fail_hook (bank_conn b) = Some (bank_hook b)" "local_clock (bank_conn b) = int" "clock (bank_conn b) = None" "clock_reads (bank_conn b) = 0"
  by (simp_all add: bank_conn_def demo_connector_def)

lemma bank_reads: "\<exists>c. mc_read2 p c0 = (map_option obj_content (map_of (objects (mem c0)) p), c) \<and> fail_hook c = fail_hook c0 \<and> mem c = mem c0
     \<and> clock_reads c = clock_reads c0 \<and> local_clock c = local_clock c0 \<and> clock c = clock c0" if "fail_hook c0 = Some (bank_hook b)" for c0
  using that by (auto simp: mc_read2_def should_fail_def bank_hook_def lookup_object_def split: option.splits)

definition half_table :: table_stats where "half_table = deleted_file ''t/f'' (bank_table\<lparr>t_was_read := True\<rparr>)"

lemma half_change: "\<exists>c. change_balance bank_services bank_doubles a0 Upd_SUB 2 (bank_client True) =
   Some (False, bank_client True\<lparr>tables := [half_table], update_vals := [[(''balance'', ''x'')]], conn := c\<rparr>)
   \<and> fail_hook c = Some (bank_hook True) \<and> map_of (objects (mem c)) ''t/v1'' = None"
proof -
  let ?m = "bank_client True"
  have p: "plain_table ?m bank_table" using bank_client_fields [of True] bank_table_plain(1) by (simp add: plain_table_def)
  obtain c where r: "mc_read2 ''t/f'' (conn ?m) = (Some ''xxx'', c)" "fail_hook c = Some (bank_hook True)" "mem c = mem (bank_conn True)"
      "clock_reads c = 0" "local_clock c = int" "clock c = None"
    using bank_reads [of "bank_conn True" True "''t/f''"] bank_conn_fields [of True] by (auto simp: bank_client_fields bank_conn_def)
  let ?m1 = "?m\<lparr>tables := [half_table], conn := c, update_vals := update_vals ?m @ [[(''balance'', d_text bank_doubles 1)]]\<rparr>"
  obtain c1 where np: "new_data_file_path bank_ops 1 half_table ?m1 = Some (''t/lhdata-7-0-0-0.parquet'', ?m1\<lparr>conn := c1\<rparr>)"
      "fail_hook c1 = Some (bank_hook True)" "mem c1 = mem (bank_conn True)"
    using bank_path [of ?m1 True 0 "''t/lhdata-7-0-0-0.parquet''" half_table] r
    by (auto simp: bank_client_fields bank_file_names half_table_def deleted_file_def bank_table_def table_stats_new_def bank_conn_def)
  obtain c2 where w: "mc_write ''t/lhdata-7-0-0-0.parquet'' (d_text bank_doubles 1) c1 = (False, c2)" "fail_hook c2 = fail_hook c1" "mem c2 = mem c1"
    using np(2) by (auto simp: mc_write_def should_fail_def bank_hook_def)
  have "change_balance bank_services bank_doubles a0 Upd_SUB 2 ?m = Some (False, ?m1\<lparr>conn := c2\<rparr>)"
    using plain_change [OF p _ _ _ r(1) _ _ half_table_def refl np(1) w(1), of a0 Upd_SUB 2]
    by (simp add: a0_def bank_table_plain new_balance_def bank_doubles_def)
  then show ?thesis using w(2,3) np(2,3)
    by (intro exI [of _ c2]) (simp add: bank_client_fields bank_doubles_def bank_conn_def)
qed

lemma bank_commits:
  assumes "tables m = [t]" "\<not> level0 m" "\<not> level1 m" "\<not> level2 m" "storage_retries m = Suc 7"
    and "changed t" "\<not> t_committed t" "t_marker t = Some (set_invalid (marker_new ''t/v1'' [] 0))"
      "t_concurrent_removes t = []" "\<not> t_concurrent_change t"
    and "\<And>c now. build_commit_log demo_sys (m\<lparr>conn := c\<rparr>) t now \<noteq> None"
    and "fail_hook (conn m) = Some (bank_hook b)" "map_of (objects (mem (conn m))) ''t/v1'' = None"
  shows "\<exists>m'. commit bank_services fu 1 False m = Some (True, m')"
proof (rule one_table_commit [OF assms(1-8) _ assms(9,10)])
  show "parse_log_version ''t/v1'' = Inr None \<or> \<not> checkpoints (options m)" by (rule disjI1) code_simp
  show "build_commit_log (sv_sys bank_services) (m\<lparr>conn := c\<rparr>) t now \<noteq> None" for c now
    using assms(11) by (simp add: bank_services_fields)
  show "fst (fst (mc_write_atomic ''t/v1'' log (snd (local_time_ms (conn m))))) = Ok" for log
    using assms(12,13) by (simp add: mc_write_atomic_def local_time_ms_def should_fail_def bank_hook_def lookup_object_def Let_def)
  show "sv_fuel bank_services = Suc 0" by (simp add: bank_services_fields)
qed

lemma half_table: "changed half_table" "\<not> t_committed half_table" "t_marker half_table = Some (set_invalid (marker_new ''t/v1'' [] 0))"
  "t_concurrent_removes half_table = []" "\<not> t_concurrent_change half_table" "t_created_files half_table = []" "map fst (t_deleted_files half_table) = [''t/f'']"
  "t_base_path half_table = ''t/''"
  by (simp_all add: half_table_def deleted_file_def bank_table_def table_stats_new_def changed_def set_valid_def)

lemma half_log: "build_commit_log demo_sys m half_table now \<noteq> None"
  by (simp add: build_commit_log_def half_table_def deleted_file_def bank_table_def table_stats_new_def set_valid_def log_files_def file_stats_new_def)


definition a1 :: account where "a1 = \<lparr>ac_manager = 0, ac_table = 0, ac_key = ''1'', ac_changes = 1\<rparr>"

definition sender_file :: file_stats where
  "sender_file = written_stats bank_ops ''t/lhdata-7-0-0-0.parquet'' ''x'' (account_row ''0'' ''x'') 0"

definition receiver_file :: file_stats where
  "receiver_file = written_stats bank_ops ''t/lhdata-7-0-0-2.parquet'' ''xxx'' (account_row ''1'' ''xxx'') 1"

definition sent_table :: table_stats where "sent_table = created_file sender_file False half_table"

definition got_table :: table_stats where
  "got_table = created_file receiver_file False (deleted_file ''t/g'' (sent_table\<lparr>t_was_read := True\<rparr>))"

lemma sent_find: "findFileWithStats 0 ''1'' True (t_delta_log sent_table) = ''t/g''" "dl_metadata (t_delta_log sent_table) = []"
  by (simp_all add: sent_table_def created_file_def half_table_def deleted_file_def bank_table_def delta_log_new_def findFileWithStats_def
    register_operation_def register_operation_entry_def upsert_def bank_entry_def entry_of_file_def
    dl_relative_def starts_with_def sender_file_def written_stats_def entry_of_def entry_update_def)

text \<open>A step of the demo: the account's file is read, and its new balance is written.\<close>

lemma bank_step:
  fixes x :: int
  assumes m: "plain_table m t" "t_base_path t = ''t/''" "transaction_id m = 7" "next_step m = 0"
    and f: "findFileWithStats 0 (ac_key a) True (t_delta_log t) = p" "p \<noteq> []" "ac_table a = 0"
    and c: "fail_hook (conn m) = Some (bank_hook False)" "clock (conn m) = None" "local_clock (conn m) = int" "clock_reads (conn m) = n" "n < 1000"
    and o: "map_of (objects (mem (conn m))) p = Some ob" "obj_content ob \<noteq> []" "path = data_file_name ''t/'' 7 0 0 n"
      "map_of (objects (mem (conn m))) path = None"
    and x: "x = new_balance bank_doubles op (int (length (obj_content ob))) change" "txt = d_text bank_doubles x"
    and t1: "t1 = deleted_file p (t\<lparr>t_was_read := True\<rparr>)"
  shows "\<exists>c. change_balance bank_services bank_doubles a op change m = Some (True,
      m\<lparr>tables := [created_file (written_stats bank_ops path txt (account_row (ac_key a) txt) (u32 (length (update_vals m)))) False t1],
        update_vals := update_vals m @ [[(''balance'', txt)]], conn := c\<rparr>)
     \<and> fail_hook c = Some (bank_hook False) \<and> clock c = None \<and> local_clock c = int \<and> clock_reads c = n + 2
     \<and> (\<exists>u. mem c = put_object path txt u (mem (conn m)))"
proof -
  obtain c1 where r: "mc_read2 p (conn m) = (Some (obj_content ob), c1)" "fail_hook c1 = fail_hook (conn m)" "mem c1 = mem (conn m)"
      "clock_reads c1 = clock_reads (conn m)" "local_clock c1 = local_clock (conn m)" "clock c1 = clock (conn m)"
    using bank_reads [OF c(1), of p] o(1) by auto
  let ?m1 = "m\<lparr>tables := [t1], conn := c1, update_vals := update_vals m @ [[(''balance'', d_text bank_doubles x)]]\<rparr>"
  obtain c2 where np: "new_data_file_path bank_ops 1 t1 ?m1 = Some (path, ?m1\<lparr>conn := c2\<rparr>)"
      "fail_hook c2 = Some (bank_hook False)" "mem c2 = mem (conn m)" "clock_reads c2 = Suc n" "local_clock c2 = int" "clock c2 = None"
    using bank_path [of ?m1 False n path t1] c(2-5) m(2-4) o(3,4) r(2-6) c(1) by (auto simp: t1 deleted_file_def)
  let ?c3 = "store path txt (c2\<lparr>hook_calls := Suc (hook_calls c2)\<rparr>)"
  have w: "mc_write path (d_text bank_doubles x) c2 = (True, ?c3\<lparr>bytes_write := u64 (bytes_write ?c3 + length txt)\<rparr>)"
    using np(2) by (simp add: mc_write_def should_fail_def bank_hook_def x(2) Let_def)
  have s: "fail_hook ?c3 = fail_hook c2" "clock ?c3 = None" "local_clock ?c3 = int" "clock_reads ?c3 = Suc (clock_reads c2)"
    "\<exists>u. mem ?c3 = put_object path txt u (mem (conn m))"
    using np(3,5,6) by (auto simp: store_def clock_time_def local_time_ms_def)
  have e: "change_balance bank_services bank_doubles a op change m = Some (True,
      m\<lparr>tables := [created_file (written_stats bank_ops path txt (account_row (ac_key a) txt) (u32 (length (update_vals m)))) False t1],
        update_vals := update_vals m @ [[(''balance'', txt)]], conn := ?c3\<lparr>bytes_write := u64 (bytes_write ?c3 + length txt)\<rparr>\<rparr>)"
    using plain_change [OF m(1) f(1,2,3) r(1) o(2) x(1) t1 refl np(1) w] by (simp add: x(2))
  show ?thesis
    by (rule exI, rule conjI, rule e) (use s np in simp)
qed

lemma sent_fields: "t_base_path sent_table = ''t/''" "t_base_path bank_table = ''t/''"
  by (simp_all add: sent_table_def created_file_def half_table_def deleted_file_def bank_table_def table_stats_new_def)

lemma bank_transfer: "\<exists>m1 m2. change_balance bank_services bank_doubles a0 Upd_SUB 2 (bank_client False) = Some (True, m1)
   \<and> change_balance bank_services bank_doubles a1 Upd_ADD 2 m1 = Some (True, m2)
   \<and> tables m2 = [got_table] \<and> mode 0 m2 = mode 0 (bank_client False) \<and> storage_retries m2 = Suc 7
   \<and> fail_hook (conn m2) = Some (bank_hook False) \<and> map_of (objects (mem (conn m2))) ''t/v1'' = None"
proof -
  let ?m = "bank_client False"
  have p: "plain_table ?m bank_table" using bank_client_fields [of False] bank_table_plain(1) by (simp add: plain_table_def)
  have o: "map_of (objects (mem (conn ?m))) ''t/f'' = Some \<lparr>obj_content = ''xxx'', obj_etag = [], modified_ms = 0\<rparr>"
    "map_of (objects (mem (conn ?m))) ''t/g'' = Some \<lparr>obj_content = ''x'', obj_etag = [], modified_ms = 0\<rparr>"
    "map_of (objects (mem (conn ?m))) ''t/lhdata-7-0-0-0.parquet'' = None"
    "map_of (objects (mem (conn ?m))) ''t/lhdata-7-0-0-2.parquet'' = None"
    "map_of (objects (mem (conn ?m))) ''t/v1'' = None"
    by (simp_all add: bank_client_fields bank_conn_def)
  have n: "new_balance bank_doubles Upd_SUB 3 2 = 1" "d_text bank_doubles 1 = ''x''"
    "new_balance bank_doubles Upd_ADD 1 2 = 3" "d_text bank_doubles 3 = ''xxx''" "u32 0 = 0" "u32 (Suc 0) = 1"
    by (simp_all add: new_balance_def bank_doubles_def numeral_3_eq_3 u32_def)
  obtain c1 u where s1: "change_balance bank_services bank_doubles a0 Upd_SUB 2 ?m = Some (True,
      ?m\<lparr>tables := [sent_table], update_vals := [[(''balance'', ''x'')]], conn := c1\<rparr>)"
    "fail_hook c1 = Some (bank_hook False)" "clock c1 = None" "local_clock c1 = int" "clock_reads c1 = 2"
    "mem c1 = put_object ''t/lhdata-7-0-0-0.parquet'' ''x'' u (mem (conn ?m))"
    using bank_step [OF p sent_fields(2) bank_client_fields(9,10), of a0 "''t/f''" 0 _ "''t/lhdata-7-0-0-0.parquet''" 1 Upd_SUB 2 "''x''" half_table]
      o(1,3) n bank_conn_fields [of False] bank_table_plain(2) bank_file_names
    by (auto simp: bank_client_fields a0_def half_table_def sent_table_def sender_file_def)
  let ?m1 = "?m\<lparr>tables := [sent_table], update_vals := [[(''balance'', ''x'')]], conn := c1\<rparr>"
  have p1: "plain_table ?m1 sent_table" using bank_client_fields [of False] sent_find(2) by (simp add: plain_table_def)
  have o1: "map_of (objects (mem (conn ?m1))) ''t/g'' = Some \<lparr>obj_content = ''x'', obj_etag = [], modified_ms = 0\<rparr>"
    "map_of (objects (mem (conn ?m1))) ''t/lhdata-7-0-0-2.parquet'' = None" "map_of (objects (mem (conn ?m1))) ''t/v1'' = None"
    using o s1(6) by (simp_all add: put_object_def)
  obtain c2 v where s2: "change_balance bank_services bank_doubles a1 Upd_ADD 2 ?m1 = Some (True,
      ?m1\<lparr>tables := [got_table], update_vals := [[(''balance'', ''x'')], [(''balance'', ''xxx'')]], conn := c2\<rparr>)"
    "fail_hook c2 = Some (bank_hook False)" "mem c2 = put_object ''t/lhdata-7-0-0-2.parquet'' ''xxx'' v (mem (conn ?m1))"
    using bank_step [OF p1 sent_fields(1) _ _, of a1 "''t/g''" 2
        "\<lparr>obj_content = ''x'', obj_etag = [], modified_ms = 0\<rparr>" "''t/lhdata-7-0-0-2.parquet''" 3 Upd_ADD 2 "''xxx''"
        "deleted_file ''t/g'' (sent_table\<lparr>t_was_read := True\<rparr>)"]
      o1(1,2) n s1(2-5) sent_find(1) bank_file_names
    by (auto simp: bank_client_fields a1_def got_table_def receiver_file_def)
  have v: "map_of (objects (mem c2)) ''t/v1'' = None" using o1(3) s2(3) by (simp add: put_object_def)
  show ?thesis
    by (rule exI [of _ ?m1], rule exI, intro conjI, rule s1(1), rule s2(1)) (use v s2(2) in \<open>simp_all add: mode_def bank_client_fields\<close>)
qed

lemma got_table: "changed got_table" "\<not> t_committed got_table" "t_marker got_table = Some (set_invalid (marker_new ''t/v1'' [] 0))"
  "t_concurrent_removes got_table = []" "\<not> t_concurrent_change got_table"
  by (simp_all add: got_table_def sent_table_def created_file_def half_table_def deleted_file_def bank_table_def table_stats_new_def
      changed_def set_valid_def receiver_file_def written_stats_def)


lemma account_add: "createOperationAddEntry sy (written_stats ops path txt (account_row k s) j) base now \<noteq> None"
proof -
  have "stats_json sy (computeStatistics sh (account_row k s)) \<noteq> None" for sh
    by (simp add: stats_json_def computeStatistics_def account_row_def balance_schema_def column_stats_def field_def col_values_def
      string_min_max_def not_null_def stat_value_def Let_def)
  then show ?thesis by (simp add: createOperationAddEntry_def add_action_def written_stats_def Let_def)
qed

lemma got_files: "t_created_files got_table = [(''t/lhdata-7-0-0-0.parquet'', sender_file), (''t/lhdata-7-0-0-2.parquet'', receiver_file)]"
  by (simp add: got_table_def sent_table_def created_file_def half_table_def deleted_file_def bank_table_def table_stats_new_def
      receiver_file_def sender_file_def written_stats_def set_valid_def)

lemma got_log: "build_commit_log demo_sys m got_table now \<noteq> None"
  using account_add [of demo_sys bank_ops "''t/lhdata-7-0-0-0.parquet''" "''x''" "''0''" "''x''" 0 "t_base_path got_table" now]
    account_add [of demo_sys bank_ops "''t/lhdata-7-0-0-2.parquet''" "''xxx''" "''1''" "''xxx''" 1 "t_base_path got_table" now]
  by (auto simp: build_commit_log_def got_files log_files_def sender_file_def receiver_file_def)


end
