(* ===== verification/Ycsb.thy ===== *)
theory Ycsb
  imports Banking
begin

text \<open>
  The YCSB client (\<open>YCSBDB/lhtransactions.cpp\<close>): each operation is a transaction, or all operations of a client are one
  (\<open>single\<close>).  An update removes the old rows of the key in a thread while it writes the new ones; the registrations
  lock the manager, so the thread is run before or after, and the order is proved not to matter.  The results of
  \<open>begin_transaction_ycsb\<close> are not used by the code.  Measured times are not modelled.  \<open>None\<close> is the end of a fuel or
  an exception.
\<close>

record ycsb =
  yc_manager :: manager
  yc_read_only :: bool
  yc_single :: bool

definition ycsb_fields :: "arrow_field list" where
  "ycsb_fields = map (\<lambda>name. field name T_STRING)
     [''YCSB_KEY'', ''field0'', ''field1'', ''field2'', ''field3'', ''field4'', ''field5'', ''field6'', ''field7'', ''field8'', ''field9'']"

text \<open>A table of one row; with another number of columns than the schema has it is not a valid Arrow table (\<open>None\<close>).\<close>

definition ycsb_row :: "string \<Rightarrow> (string \<times> string) list \<Rightarrow> arrow_table option" where
  "ycsb_row key values =
     (if length values = 10
      then Some (map2 (\<lambda>f v. \<lparr>col_field = f, col_chunks = [[AV_STRING v]]\<rparr>) ycsb_fields (key # map snd values)) else None)"

section \<open>Transactions of the client\<close>

text \<open>The identifiers of a process count up from a random number (\<open>Manager.cpp\<close>); \<open>UINT32_MAX\<close> is left out.  The result
  has the next value of the counter.\<close>

definition unique_transaction_id :: "nat \<Rightarrow> nat \<times> nat" where
  "unique_transaction_id next =
     (if next = u32_max then (u32 (next + 1), u32 (u32 (next + 1) + 1)) else (next, u32 (next + 1)))"

lemma unique_transaction_id_valid: "fst (unique_transaction_id next) \<noteq> u32_max"
  by (simp add: unique_transaction_id_def u32_def u32_max_def)

definition ycsb_begin :: "services \<Rightarrow> (nat \<Rightarrow> nat) \<Rightarrow> manager \<Rightarrow> manager option" where
  "ycsb_begin sv random m =
     map_option snd (begin_transaction_ycsb (sv_sys sv) (sv_parquet sv) (sv_fuel sv) random m)"

definition start_operation :: "services \<Rightarrow> (nat \<Rightarrow> nat) \<Rightarrow> ycsb \<Rightarrow> manager option" where
  "start_operation sv random y = (if yc_single y then Some (yc_manager y) else ycsb_begin sv random (yc_manager y))"

definition commit_operation ::
    "services \<Rightarrow> 'e float_unit \<Rightarrow> nat \<Rightarrow> bool \<Rightarrow> manager \<Rightarrow> (bool \<times> manager) option" where
  "commit_operation sv fu n read_only m = commit sv fu n read_only m"

definition end_operation ::
    "services \<Rightarrow> 'e float_unit \<Rightarrow> nat \<Rightarrow> bool \<Rightarrow> ycsb \<Rightarrow> manager \<Rightarrow> (bool \<times> manager) option" where
  "end_operation sv fu n read_only y m = (if yc_single y then Some (True, m) else commit_operation sv fu n read_only m)"

definition ycsb_init ::
    "services \<Rightarrow> (nat \<Rightarrow> nat) \<Rightarrow> bool list \<Rightarrow> string \<Rightarrow> connector \<Rightarrow> nat \<Rightarrow> manager_defaults \<Rightarrow> bool \<Rightarrow> ycsb option" where
  "ycsb_init sv random levels path c txn defaults single =
     (let m = manager_new levels path c txn defaults
      in map_option (\<lambda>m. \<lparr>yc_manager = m, yc_read_only = True, yc_single = single\<rparr>)
           (if single then ycsb_begin sv random m else Some m))"

definition ycsb_close :: "services \<Rightarrow> 'e float_unit \<Rightarrow> nat \<Rightarrow> ycsb \<Rightarrow> manager option" where
  "ycsb_close sv fu n y =
     map_option (clear_tables (sv_sys sv))
       (if yc_single y then map_option snd (commit sv fu n (yc_read_only y) (yc_manager y)) else Some (yc_manager y))"

section \<open>The operations\<close>

definition ycsb_read ::
    "services \<Rightarrow> 'e float_unit \<Rightarrow> nat \<Rightarrow> (nat \<Rightarrow> nat) \<Rightarrow> string \<Rightarrow> string list option \<Rightarrow> ycsb
     \<Rightarrow> ((nat \<times> (string \<times> string) list) \<times> ycsb) option" where
  "ycsb_read sv fu n random key names y =
     do {
       m \<leftarrow> start_operation sv random y;
       let ((text, result, _), m) = read_file (sv_sys sv) (sv_parquet sv) (sv_ops sv) 0 key names [] m;
       (_, m) \<leftarrow> end_operation sv fu n True y m;
       Some ((if text = [] then 1 else 0, result), y\<lparr>yc_manager := m\<rparr>)
     }"

definition ycsb_scan ::
    "services \<Rightarrow> 'e float_unit \<Rightarrow> nat \<Rightarrow> (nat \<Rightarrow> nat) \<Rightarrow> ycsb \<Rightarrow> (nat \<times> ycsb) option" where
  "ycsb_scan sv fu n random y =
     do {
       m \<leftarrow> start_operation sv random y;
       let (rows, m) = read_table (sv_sys sv) (sv_parquet sv) (sv_ops sv) 0 8 m;
       (_, m) \<leftarrow> end_operation sv fu n True y m;
       Some (if rows = None then 1 else 0, y\<lparr>yc_manager := m\<rparr>)
     }"

text \<open>A column is replaced by one value: the result of \<open>SetColumn\<close> is an error, which is not checked, unless there is
  exactly one row.\<close>

fun set_fields :: "(string \<times> string) list \<Rightarrow> arrow_table \<Rightarrow> arrow_table option" where
  "set_fields [] t = Some t"
| "set_fields ((name, val) # values) t =
     (if list_ex (\<lambda>c. same_name (f_name (col_field c)) name) t \<and> num_rows t \<noteq> 1 then None
      else set_fields values (replace_columns name val t))"

definition replace_rows ::
    "services \<Rightarrow> bool \<Rightarrow> string \<Rightarrow> nat \<Rightarrow> (string \<times> string) list \<Rightarrow> arrow_table \<Rightarrow> manager \<Rightarrow> (bool \<times> manager) option" where
  "replace_rows sv remove_first key prev values rows m =
     (let remove = remove_file_key (sv_sys sv) (sv_parquet sv) (sv_ops sv) (sv_fuel sv) 0 key prev;
          add = (\<lambda>m. do {
            rows \<leftarrow> set_fields values rows;
            add_file_table (sv_sys sv) (sv_parquet sv) (sv_ops sv) (sv_fuel sv) 0 (Some rows) prev m
          })
      in if remove_first then do { (_, m) \<leftarrow> remove m; add m }
         else do { (ok, m) \<leftarrow> add m; (_, m) \<leftarrow> remove m; Some (ok, m) })"

definition ycsb_update ::
    "services \<Rightarrow> 'e float_unit \<Rightarrow> nat \<Rightarrow> (nat \<Rightarrow> nat) \<Rightarrow> bool \<Rightarrow> string \<Rightarrow> (string \<times> string) list \<Rightarrow> ycsb \<Rightarrow> (nat \<times> ycsb) option" where
  "ycsb_update sv fu n random remove_first key values y =
     do {
       m \<leftarrow> start_operation sv random y;
       let ((rows, _), m) = read_file_as_table (sv_sys sv) (sv_parquet sv) (sv_ops sv) 0 key [] m;
       let y = y\<lparr>yc_read_only := False\<rparr>;
       (case rows of
          None \<Rightarrow> do {
            (_, m) \<leftarrow> end_operation sv fu n True y m;
            Some (1, y\<lparr>yc_manager := m\<rparr>)
          }
        | Some rows \<Rightarrow> do {
            let (prev, m) = register_update_pairs_op values Upd_REP values m;
            (ok, m) \<leftarrow> replace_rows sv remove_first key prev values rows m;
            (committed, m) \<leftarrow> end_operation sv fu n False y m;
            Some (if ok \<and> committed then 0 else 1, y\<lparr>yc_manager := m\<rparr>)
          })
     }"

definition ycsb_insert ::
    "services \<Rightarrow> 'e float_unit \<Rightarrow> nat \<Rightarrow> (nat \<Rightarrow> nat) \<Rightarrow> string \<Rightarrow> (string \<times> string) list \<Rightarrow> ycsb \<Rightarrow> (nat \<times> ycsb) option" where
  "ycsb_insert sv fu n random key values y =
     do {
       m \<leftarrow> start_operation sv random y;
       rows \<leftarrow> ycsb_row key values;
       let y = y\<lparr>yc_read_only := False\<rparr>;
       (ok, m) \<leftarrow> add_file_table (sv_sys sv) (sv_parquet sv) (sv_ops sv) (sv_fuel sv) 0 (Some rows) u32_max m;
       (committed, m) \<leftarrow> end_operation sv fu n False y m;
       Some (if ok \<and> committed then 0 else 1, y\<lparr>yc_manager := m\<rparr>)
     }"

definition ycsb_delete ::
    "services \<Rightarrow> 'e float_unit \<Rightarrow> nat \<Rightarrow> (nat \<Rightarrow> nat) \<Rightarrow> string \<Rightarrow> ycsb \<Rightarrow> (nat \<times> ycsb) option" where
  "ycsb_delete sv fu n random key y =
     do {
       m \<leftarrow> start_operation sv random y;
       let y = y\<lparr>yc_read_only := False\<rparr>;
       ((ok, _), m) \<leftarrow> remove_file_key (sv_sys sv) (sv_parquet sv) (sv_ops sv) (sv_fuel sv) 0 key u32_max m;
       (committed, m) \<leftarrow> end_operation sv fu n False y m;
       Some (if ok \<and> committed then 0 else 1, y\<lparr>yc_manager := m\<rparr>)
     }"

section \<open>The order of the two threads of an update\<close>

text \<open>Equal but for the order of the files in their maps.\<close>

definition same_changes :: "table_stats \<Rightarrow> table_stats \<Rightarrow> bool" where
  "same_changes a b \<longleftrightarrow> map_of (t_created_files a) = map_of (t_created_files b)
     \<and> map_of (t_deleted_files a) = map_of (t_deleted_files b)
     \<and> map_of (dl_files (t_delta_log a)) = map_of (dl_files (t_delta_log b))
     \<and> (t_delta_log a)\<lparr>dl_files := []\<rparr> = (t_delta_log b)\<lparr>dl_files := []\<rparr>
     \<and> a\<lparr>t_created_files := [], t_deleted_files := [], t_delta_log := delta_log_new []\<rparr>
       = b\<lparr>t_created_files := [], t_deleted_files := [], t_delta_log := delta_log_new []\<rparr>"

lemma map_of_upsert:
  "map_of (dl_files (upsert path e op ow l)) = (map_of (dl_files l))(path \<mapsto>
     (case map_of (dl_files l) path of Some cur \<Rightarrow> entry_update op ow cur | None \<Rightarrow> e))"
  by (auto simp: upsert_def update_conv' split: option.splits)

lemma upsert_fields:
  "(upsert path e op ow l)\<lparr>dl_files := []\<rparr> = l\<lparr>dl_files := []\<rparr>" "dl_base_path (upsert path e op ow l) = dl_base_path l"
  by (simp_all add: upsert_def split: option.splits)

lemma relative_upsert: "dl_relative p b (upsert path e op ow l) = dl_relative p b l"
  by (simp add: dl_relative_def upsert_fields)

text \<open>The thread that removes the old rows of an update and the main thread that adds the new ones may register their
  files in either order: for different paths the write set and the snapshot of the table are the same maps.\<close>

lemma registrations_commute:
  assumes "fs_path f \<noteq> path"
    and "dl_relative (fs_path f) True (t_delta_log t) \<noteq> dl_relative path True (t_delta_log t)"
  shows "same_changes (deleted_file path (created_file f ow t)) (created_file f ow (deleted_file path t))"
proof -
  have size: "get_size path True (upsert (dl_relative (fs_path f) True (t_delta_log t)) e op ow (t_delta_log t))
      = get_size path True (t_delta_log t)" for e op
    using assms(2) by (simp add: get_size_def relative_upsert map_of_upsert)
  show ?thesis
    using assms size
    by (auto simp: same_changes_def deleted_file_def created_file_def register_operation_def register_operation_entry_def
        relative_upsert map_of_upsert upsert_fields map_of_set_valid update_conv' fun_eq_iff split: option.splits)
qed

lemma registrations_commute_witness:
  "same_changes (deleted_file ''t/b'' (created_file (file_stats_new\<lparr>fs_path := ''t/a''\<rparr>) False (table_stats_new ''t/'')))
     (created_file (file_stats_new\<lparr>fs_path := ''t/a''\<rparr>) False (deleted_file ''t/b'' (table_stats_new ''t/'')))"
proof -
  have "dl_relative (fs_path (file_stats_new\<lparr>fs_path := ''t/a''\<rparr>)) True (t_delta_log (table_stats_new ''t/''))
      \<noteq> dl_relative ''t/b'' True (t_delta_log (table_stats_new ''t/''))"
    by (simp add: dl_relative_def table_stats_new_def delta_log_new_def starts_with_def)
  then show ?thesis by (intro registrations_commute) simp_all
qed

end
