(* ===== verification/ReadOnly.thy ===== *)
theory ReadOnly
  imports Frames
begin

text \<open>
  Reading without markers.  A manager without the levels 0 and 1 keeps no markers, so that opening tables, reading data
  files and aborting change nothing in the store: whatever changes there meanwhile is the work of other clients.
\<close>

definition unmarked :: "manager \<Rightarrow> bool" where
  "unmarked m \<longleftrightarrow> \<not> level0 m \<and> \<not> level1 m \<and> list_all no_live_marker (tables m)"

text \<open>An operation that writes nothing, and leaves a manager without markers without markers.\<close>

definition access :: "manager \<Rightarrow> bool \<times> nat \<times> string" where
  "access m = (level2 m, storage_retries m, m_base_path m)"

definition still :: "manager \<Rightarrow> manager \<Rightarrow> bool" where
  "still m m' \<longleftrightarrow> quiet (conn m) (conn m') \<and> (unmarked m \<longrightarrow> unmarked m') \<and> access m' = access m"

lemma still_refl [simp]: "still m m" by (simp add: still_def)

lemma still_trans: "still a b \<Longrightarrow> still b c \<Longrightarrow> still a c"
  by (auto simp: still_def intro: quiet_trans)

lemma unmarked_update [simp]:
  "unmarked (m\<lparr>conn := c\<rparr>) = unmarked m" "unmarked (m\<lparr>local_log := l\<rparr>) = unmarked m"
  "unmarked (m\<lparr>prev_markers := ps\<rparr>) = unmarked m" "unmarked (m\<lparr>relation := r\<rparr>) = unmarked m"
  "unmarked (m\<lparr>next_step := k\<rparr>) = unmarked m" "unmarked (m\<lparr>working_dir := d\<rparr>) = unmarked m"
  "unmarked (m\<lparr>found := f\<rparr>) = unmarked m" "unmarked (m\<lparr>explicit_log := b\<rparr>) = unmarked m"
  "unmarked (m\<lparr>times_redo := k\<rparr>) = unmarked m" "unmarked (m\<lparr>update_vals := vs\<rparr>) = unmarked m"
  "unmarked (m\<lparr>update_ops := us\<rparr>) = unmarked m"
  by (simp_all add: unmarked_def)

lemma access_update [simp]:
  "access (m\<lparr>conn := c\<rparr>) = access m" "access (m\<lparr>local_log := l\<rparr>) = access m" "access (m\<lparr>prev_markers := ps\<rparr>) = access m"
  "access (m\<lparr>relation := r\<rparr>) = access m" "access (m\<lparr>next_step := k\<rparr>) = access m" "access (m\<lparr>working_dir := d\<rparr>) = access m"
  "access (m\<lparr>found := f\<rparr>) = access m" "access (m\<lparr>explicit_log := b\<rparr>) = access m" "access (m\<lparr>times_redo := k\<rparr>) = access m"
  "access (m\<lparr>update_vals := vs\<rparr>) = access m" "access (m\<lparr>update_ops := us\<rparr>) = access m" "access (m\<lparr>tables := ts\<rparr>) = access m"
  by (simp_all add: access_def)

lemma unmarked_levels: "unmarked m \<Longrightarrow> \<not> level0 m \<and> \<not> level1 m \<and> \<not> with_markers m"
  by (simp add: unmarked_def with_markers_def)

lemma with_conn_still: "with_conn f m = (r, m') \<Longrightarrow> (\<And>c r c'. f c = (r, c') \<Longrightarrow> quiet c c') \<Longrightarrow> still m m'"
  by (auto simp: with_conn_def still_def split: prod.splits)

lemma check_still: "with_conn (mc_check p) m = (r, m') \<Longrightarrow> still m m'"
  by (erule with_conn_still, erule mc_check_quiet)

lemma read2_still: "with_conn (mc_read2 p) m = (r, m') \<Longrightarrow> still m m'"
  by (erule with_conn_still, erule mc_read2_quiet)

lemma read_retry_still: "read_retry p m = (r, m') \<Longrightarrow> still m m'"
proof -
  have q: "read_retry_loop n p c = (r, c') \<Longrightarrow> quiet c c'" for n c r c'
    by (induction n arbitrary: c) (auto split: prod.splits option.splits dest!: mc_read2_quiet intro: quiet_trans)
  show "read_retry p m = (r, m') \<Longrightarrow> still m m'" unfolding read_retry_def by (erule with_conn_still, erule q)
qed

lemma list_retry_still: "list_retry p m = (r, m') \<Longrightarrow> still m m'"
proof -
  have q: "list_retry_loop n p c = (r, c') \<Longrightarrow> quiet c c'" for n c r c'
    by (induction n arbitrary: c) (auto split: prod.splits option.splits dest!: mc_list_objects_quiet intro: quiet_trans)
  show "list_retry p m = (r, m') \<Longrightarrow> still m m'" unfolding list_retry_def by (erule with_conn_still, erule q)
qed

lemmas still_ops = check_still read2_still read_retry_still list_retry_still

section \<open>Loading a snapshot\<close>

lemma find_checkpoint_still: "find_checkpoint sy b mx m = (r, m') \<Longrightarrow> still m m'"
  by (auto simp: find_checkpoint_def read_last_checkpoint_def split: prod.splits if_splits option.splits
      dest!: still_ops intro: still_trans)

lemma parse_checkpoint_still: "parse_checkpoint sy pq b info l m = (r, m') \<Longrightarrow> still m m'"
proof -
  have "parse_checkpoint_files sy pq v fs l m = (r, m') \<Longrightarrow> still m m'" for v fs l m r
    by (induction fs arbitrary: l m)
       (auto split: prod.splits option.splits dest!: read_retry_still intro: still_trans)
  then show "parse_checkpoint sy pq b info l m = (r, m') \<Longrightarrow> still m m'"
    by (auto simp: parse_checkpoint_def split: option.splits)
qed

lemma parse_lines_still:
  "parse_lines sy p s vs l deps m = ((l', deps'), m') \<Longrightarrow> still m m' \<and> (\<not> level1 m \<longrightarrow> deps' = deps)"
proof (induction vs arbitrary: l deps m)
  case (Cons v vs)
  obtain dep l1 m1 where p: "parseEntry sy v l s m = ((dep, l1), m1)" by (metis surj_pair)
  then have "conn m1 = conn m" "unmarked m1 = unmarked m" "access m1 = access m" and l: "level1 m1 = level1 m"
    by (auto simp: parseEntry_def unmarked_def access_def Let_def split: option.splits if_splits)
  then have s: "still m m1" by (simp add: still_def)
  show ?case
  proof (cases "dep = u32_max")
    case True
    with Cons.prems p Cons.IH [of l1 deps m1] s l show ?thesis by (auto intro: still_trans)
  next
    case False
    with Cons.prems p s l show ?thesis by (auto simp: Let_def still_def split: if_splits prod.splits)
  qed
qed simp

lemma parse_logentries2_still:
  "parse_logentries2 sy b mx ss l deps m = ((ok, l', deps'), m') \<Longrightarrow>
     still m m' \<and> (unmarked m \<longrightarrow> deps' = deps)"
proof (induction ss arbitrary: l deps m)
  case (Cons s ss)
  show ?case
  proof (cases "s \<le> mx")
    case True
    obtain r m1 where r: "read_retry (version_path b s) m = (r, m1)" by (metis surj_pair)
    note q = read_retry_still [OF r]
    show ?thesis
    proof (cases r)
      case None
      with Cons.prems True r q show ?thesis by auto
    next
      case (Some content)
      obtain l2 d2 m2 where p: "parse_lines sy (version_path b s) s (json_objects (sy_parse sy) content) l deps m1
          = ((l2, d2), m2)" by (metis surj_pair)
      from Cons.prems True r Some p have "parse_logentries2 sy b mx ss l2 d2 m2 = ((ok, l', deps'), m')" by (simp add: Let_def)
      from Cons.IH [OF this] parse_lines_still [OF p] q unmarked_levels show ?thesis by (auto simp: still_def intro: quiet_trans)
    qed
  next
    case False
    with Cons.prems have "parse_logentries2 sy b mx ss l deps
        (if with_markers m then m\<lparr>prev_markers := prev_markers m @ [version_path b s]\<rparr> else m) = ((ok, l', deps'), m')"
      by (simp add: Let_def)
    from Cons.IH [OF this] show ?thesis by (auto simp: still_def split: if_splits)
  qed
qed simp

lemma skip_foreign_still: "skip_foreign_versions sy n b v m = Some (r, m') \<Longrightarrow> still m m'"
proof (induction n arbitrary: v m)
  case (Suc n)
  obtain ex m1 where c: "with_conn (mc_check (version_path b (u32 (v + 1)))) m = (ex, m1)" by (metis surj_pair)
  obtain k m2 where k: "classify_version sy (version_path b (u32 (v + 1))) m1 = (k, m2)" by (metis surj_pair)
  then have s: "still m1 m2"
    by (auto simp: classify_version_def split: prod.splits option.splits dest!: read2_still)
  from Suc.prems c k have "m' = m1 \<or> m' = m2 \<or> skip_foreign_versions sy n b (u32 (v + 1)) m2 = Some (r, m')"
    by (auto split: if_splits)
  with Suc.IH check_still [OF c] s show ?case by (blast intro: still_trans)
qed simp

lemma still_local_log [simp]: "still m (m'\<lparr>local_log := l\<rparr>) = still m m'"
  by (simp add: still_def)

lemma visible_version_still: "visible_version sy n b m = Some (v, m') \<Longrightarrow> still m m'"
  by (auto simp: visible_version_def split: if_splits option.splits dest!: skip_foreign_still)

lemma find_start_still: "find_start sy b v m = Some (r, m') \<Longrightarrow> still m m'"
  by (auto simp: find_start_def split: if_splits option.splits prod.splits sum.splits
      dest!: find_checkpoint_still list_retry_still)

lemma reserve_unmarked:
  assumes "reserve_version sy n t h m = Some ((r, t', h'), m')" "unmarked m" "no_live_marker t"
  shows "still m m' \<and> no_live_marker t' \<and> t_was_read t' = t_was_read t"
proof (cases n)
  case (Suc k)
  with assms unmarked_levels [OF assms(2)] show ?thesis
    by (auto simp: assign_marker_dead still_def no_live_marker_def set_invalid_def Let_def)
qed (use assms in simp)

lemma load_table_unmarked:
  assumes l: "load_table sy pq n k t deps m = Some ((r, t', deps'), m')" and u: "unmarked m" and t: "no_live_marker t"
  shows "still m m' \<and> no_live_marker t' \<and> deps' = deps"
proof -
  let ?b = "t_base_path t"
  let ?t = "t\<lparr>t_delta_log := delta_log_new ?b, t_file_num := 0, t_in_bytes := 0,
                        t_out_bytes := 0, t_concurrent_removes := [], t_concurrent_change := False\<rparr>"
  from l obtain v m1 where v: "visible_version sy n ?b m = Some (v, m1)"
    by (cases "visible_version sy n ?b m") (auto simp: load_table_def Let_def)
  with l obtain st m2 where s: "find_start sy ?b v m1 = Some (st, m2)"
    by (cases "find_start sy ?b v m1") (auto simp: load_table_def Let_def)
  from visible_version_still [OF v] find_start_still [OF s] have s2: "still m m2" by (rule still_trans)
  with u have u2: "unmarked m2" by (simp add: still_def)
  have nt: "no_live_marker ?t" using t by (simp add: no_live_marker_def)
  show ?thesis
  proof (cases "\<exists>h info. st = Some (Some h, info)")
    case False
    with l v s have "t' = ?t" "m' = m2" "deps' = deps" by (auto simp: load_table_def Let_def split: option.splits)
    with s2 nt show ?thesis by simp
  next
    case True
    then obtain h info where st: "st = Some (Some h, info)" by blast
    with l v s obtain rr t1 h1 m3 where rv: "reserve_version sy n ?t (u32 h) m2 = Some ((rr, t1, h1), m3)"
      by (cases "reserve_version sy n ?t (u32 h) m2") (auto simp: load_table_def Let_def)
    note q = reserve_unmarked [OF rv u2 nt]
    obtain ok1 l1 m4 where pc: "parse_checkpoint sy pq ?b info (t_delta_log t1) m3 = ((ok1, l1), m4)" by (metis surj_pair)
    note q4 = parse_checkpoint_still [OF pc]
    let ?vs = "ranges_list (split_range (case ci_version info of Some v \<Rightarrow> u32 (v + 1) | None \<Rightarrow> 0) (u32 (h1 + 1)) k)"
    obtain ok2 l2 d2 m5 where pl: "parse_logentries2 sy ?b v ?vs l1 deps m4 = ((ok2, l2, d2), m5)" by (metis surj_pair)
    have s4: "still m m4" using s2 q q4 by (blast intro: still_trans)
    note q5 = parse_logentries2_still [OF pl]
    from l v s st rv pc pl have t': "t' = t1\<lparr>t_delta_log := l2, t_read_version := h1\<rparr>" "deps' = d2"
      and m': "m' = (if level2 m5 \<and> v = u32_max then m5\<lparr>local_log := insert_new ?b h1 (local_log m5)\<rparr> else m5)"
      by (auto simp: load_table_def Let_def)
    have "unmarked m4" using s4 u by (simp add: still_def)
    with s4 q q5 show ?thesis unfolding t' m' by (auto simp: no_live_marker_def intro: still_trans)
  qed
qed

section \<open>The operations of a reader\<close>

lemma abort_still: "unmarked m \<Longrightarrow> still m (abort_txn sy b m)"
  by (simp add: abort_txn_def clear_subdirectory_def unmarked_levels)

lemma marker_destroy_dead: "no_live_marker t \<Longrightarrow> marker_destroy sy (t_marker t) c = c"
  by (auto simp: marker_destroy_def no_live_marker_def split: option.splits)

lemma clear_tables_still: "unmarked m \<Longrightarrow> still m (clear_tables sy m)"
proof -
  have "list_all no_live_marker ts \<Longrightarrow> fold (\<lambda>t c. marker_destroy sy (t_marker t) c) ts c = c" for ts c
    by (induction ts arbitrary: c) (simp_all add: marker_destroy_dead)
  then show "unmarked m \<Longrightarrow> still m (clear_tables sy m)" by (simp add: clear_tables_def still_def unmarked_def)
qed

lemma open_tableV2_still:
  assumes o: "open_tableV2 sy pq n path k m = Some (t, m')" and u: "unmarked m"
  shows "still m m' \<and> (\<forall>t'. t = Some t' \<longrightarrow> no_live_marker t')" (is ?still)
    and "tables m' = tables m \<and> (\<forall>t'. t = Some t' \<longrightarrow> write_set t' = (path, [], [], False))" (is ?new)
proof -
  let ?t = "(table_stats_new path)\<lparr>t_table_id := length (tables m)\<rparr>"
  have "no_live_marker ?t" by (simp add: no_live_marker_def table_stats_new_def)
  note l = load_table_unmarked [OF _ u this]
  from o obtain ok t1 deps m1 where ld: "load_table sy pq n k ?t False m = Some ((ok, t1, deps), m1)"
    by (auto simp: open_tableV2_def split: option.splits prod.splits)
  from l [OF ld] have s: "still m m1" "no_live_marker t1" "\<not> deps" by simp_all
  with u have "\<not> with_markers m1" using unmarked_levels by (auto simp: still_def)
  with o ld s show ?still by (auto simp: open_tableV2_def split: if_splits option.splits)
  from load_table_view [OF ld] have "write_set t1 = (path, [], [], False)" "tables m1 = tables m"
    by (simp_all add: write_set_def table_stats_new_def)
  with o ld s \<open>\<not> with_markers m1\<close> show ?new by (auto simp: open_tableV2_def split: if_splits option.splits)
qed

lemma unmarked_append: "unmarked m \<Longrightarrow> no_live_marker t \<Longrightarrow> unmarked (m\<lparr>tables := tables m @ [t]\<rparr>)"
  by (simp add: unmarked_def)

lemma still_append: "still m m' \<Longrightarrow> (unmarked m \<Longrightarrow> no_live_marker t) \<Longrightarrow> still m (m'\<lparr>tables := tables m' @ [t]\<rparr>)"
  using unmarked_append by (auto simp: still_def)

lemma open_new_table_still:
  assumes "open_new_table sy pq n path m = Some (ok, m')" "unmarked m"
  shows "still m m'"
proof -
  have l: "open_loop k sy pq n path m = Some (t, m') \<Longrightarrow> unmarked m \<Longrightarrow>
      still m m' \<and> (\<forall>t'. t = Some t' \<longrightarrow> no_live_marker t')" for k m t m'
  proof (induction k arbitrary: m)
    case (Suc k)
    from Suc.prems obtain t1 m1 where o: "open_tableV2 sy pq n path 2 m = Some (t1, m1)" by (auto split: option.splits)
    note q = open_tableV2_still(1) [OF o Suc.prems(2)]
    with Suc.prems(2) have "unmarked m1" by (simp add: still_def)
    with Suc.prems(1) o q Suc.IH [of m1] show ?case by (auto split: option.splits intro: still_trans)
  qed simp
  from assms(1) obtain t m1 where o: "open_loop 5 sy pq n path m = Some (t, m1)"
    by (auto simp: open_new_table_def split: option.splits)
  note q = l [OF o assms(2)]
  with assms(2) have "unmarked m1" by (simp add: still_def)
  with assms(1) o q abort_still [of m1] still_append [of m m1] show ?thesis
    by (auto simp: open_new_table_def split: option.splits intro: still_trans)
qed

lemma parse_global_snapshots_still: "still m (snd (parse_global_snapshots m))"
proof -
  have "parse_global_snapshots m = (r, m') \<Longrightarrow> still m m'" for r m'
    by (auto simp: parse_global_snapshots_def Let_def split: if_splits prod.splits option.splits
        dest!: check_still read_retry_still intro: still_trans)
  then show ?thesis by (metis prod.collapse)
qed

lemma parse_global_snapshots_tables: "tables (snd (parse_global_snapshots m)) = tables m"
  by (auto simp: parse_global_snapshots_def read_retry_def Let_def split: prod.splits option.splits dest!: with_conn_frame)

definition fresh_table :: "string \<Rightarrow> manager \<Rightarrow> bool" where
  "fresh_table path m \<longleftrightarrow> map write_set (tables m) = [(path, [], [], False)]"

lemma begin_txn_still:
  assumes b: "begin_txn sy pq n r path m = Some (ok, m')" and u: "unmarked m"
  shows "still m m' \<and> (ok \<longrightarrow> fresh_table path m')"
proof -
  let ?m = "(clear_tables sy m)\<lparr>found := ([], []),
     working_dir := path @ log_dir @ dec r @ ''-'' @ dec (transaction_id m) @ ''/''\<rparr>"
  have s: "still m ?m" using clear_tables_still [OF u, of sy] by (simp add: still_def)
  with u have "\<not> level0 ?m" using unmarked_levels by (auto simp: still_def)
  then have l: "\<not> level0 (clear_tables sy m)" "transaction_id (clear_tables sy m) = transaction_id m"
    by (simp_all add: clear_tables_def)
  define m1 where "m1 = snd (parse_global_snapshots ?m)"
  have s1: "still m m1" using s parse_global_snapshots_still unfolding m1_def by (rule still_trans)
  with u have u1: "unmarked m1" by (simp add: still_def)
  from b l obtain t m2 where o: "open_tableV2 sy pq n path 2 m1 = Some (t, m2)"
    by (auto simp: begin_txn_def Let_def m1_def split: option.splits)
  note q = open_tableV2_still(1) [OF o u1]
  have s2: "still m m2" using s1 q by (blast intro: still_trans)
  with u have u2: "unmarked m2" by (simp add: still_def)
  have t2: "tables m2 = [] \<and> (\<forall>t'. t = Some t' \<longrightarrow> write_set t' = (path, [], [], False))"
    using open_tableV2_still(2) [OF o u1] parse_global_snapshots_tables by (simp add: m1_def clear_tables_def)
  show ?thesis
  proof (cases t)
    case None
    with b o l have "\<not> ok" "m' = clear_subdirectory (m2\<lparr>next_step := 1\<rparr>)"
      by (auto simp: begin_txn_def Let_def m1_def)
    with s2 u2 show ?thesis by (simp add: clear_subdirectory_def still_def unmarked_levels)
  next
    case (Some t1)
    with b o l have "m' = m2\<lparr>tables := tables m2 @ [t1], next_step := 1\<rparr>"
      by (auto simp: begin_txn_def Let_def m1_def)
    moreover have "still m (m2\<lparr>tables := tables m2 @ [t1]\<rparr>)" by (rule still_append [OF s2]) (use q Some in simp)
    ultimately show ?thesis using t2 Some by (simp add: still_def fresh_table_def)
  qed
qed

lemma begin_transaction_still:
  assumes "begin_transaction_ycsb sy pq n random m = Some (ok, m')" "unmarked m"
  shows "still m m' \<and> (ok \<longrightarrow> fresh_table (m_base_path m) m')"
proof -
  have l: "begin_loop k sy pq n random m = Some (ok, m') \<Longrightarrow> unmarked m \<Longrightarrow>
      still m m' \<and> (ok \<longrightarrow> fresh_table (m_base_path m) m')" for k m
  proof (induction k arbitrary: m)
    case (Suc k)
    from Suc.prems obtain o1 m1 where b: "begin_txn sy pq n (random k) (m_base_path m) m = Some (o1, m1)"
      by (auto split: option.splits)
    note q = begin_txn_still [OF b Suc.prems(2)]
    with Suc.prems(2) have "unmarked m1" "m_base_path m1 = m_base_path m" by (simp_all add: still_def access_def)
    with Suc.prems(1) b q Suc.IH [of m1] show ?case by (auto split: if_splits intro: still_trans)
  qed simp
  let ?m = "(clear_tables sy m)\<lparr>relation := global_relation_new, working_dir := [], next_step := 0,
          explicit_log := True, found := ([], []), times_redo := 0, update_vals := [], update_ops := [],
          prev_markers := [], local_log := []\<rparr>"
  have s: "still m ?m" using clear_tables_still [OF assms(2), of sy] by (simp add: still_def)
  with assms(2) have u: "unmarked ?m" by (simp only: still_def)
  from assms(1) have "begin_loop 5 sy pq n random ?m = Some (ok, m')" by (simp add: begin_transaction_ycsb_def)
  from l [OF this u] have f: "still ?m m'" "ok \<longrightarrow> fresh_table (m_base_path ?m) m'" by simp_all
  moreover have "m_base_path ?m = m_base_path m" by (simp add: clear_tables_def)
  ultimately show ?thesis using still_trans [OF s f(1)] by simp
qed


section \<open>Reading the data\<close>

lemma get_for_read_still: "get_table_for_read i m = (t, m') \<Longrightarrow> still m m'"
proof (cases "i < length (tables m)")
  case True
  assume "get_table_for_read i m = (t, m')"
  with True have "m' = set_table i ((tables m ! i)\<lparr>t_was_read := True\<rparr>) m"
    by (simp add: get_table_for_read_def get_table_def Let_def)
  moreover have "no_live_marker (tables m ! i) \<Longrightarrow> no_live_marker ((tables m ! i)\<lparr>t_was_read := True\<rparr>)"
    by (simp add: no_live_marker_def)
  ultimately show ?thesis using True
    by (auto simp: still_def unmarked_def set_table_def list_all_length nth_list_update)
qed (simp add: get_table_for_read_def get_table_def)

lemma read_mock_quiet: "quiet c (mc_read_mock p c)"
  unfolding mc_read_mock_def by (metis mc_read2_quiet prod.collapse)

lemma fold_quiet: "(\<And>x c. quiet c (f x c)) \<Longrightarrow> quiet c (fold f xs c)"
proof (induction xs arbitrary: c)
  case (Cons x xs)
  from Cons.IH [OF Cons.prems] Cons.prems show ?case by (auto intro: quiet_trans)
qed simp

lemma read_table_simple_still: "still m (read_table_simple i n m)"
proof -
  obtain t m1 where g: "get_table_for_read i m = (t, m1)" by (metis surj_pair)
  have part: "quiet c (read_part_simple files r c)" for files r c
    unfolding read_part_simple_def by (rule fold_quiet [OF read_mock_quiet])
  have "quiet c (fold (read_part_simple files) rs c)" for files rs c
    by (rule fold_quiet) (rule part)
  then have "still m1 (m1\<lparr>conn := fold (read_part_simple files) rs (conn m1)\<rparr>)" for files rs by (simp add: still_def)
  with get_for_read_still [OF g] g show ?thesis
    by (auto simp: read_table_simple_def in_parts_def Let_def split: option.splits intro: still_trans)
qed

lemma read_random_simple_still: "unmarked m \<Longrightarrow> read_random_file_simple i k path m = (r, m') \<Longrightarrow> still m m'"
proof -
  assume u: "unmarked m" and r: "read_random_file_simple i k path m = (r, m')"
  obtain t m1 where g: "get_table_for_read i m = (t, m1)" by (metis surj_pair)
  note q = get_for_read_still [OF g]
  with u have "\<not> level0 m1" using unmarked_levels by (auto simp: still_def)
  with r g have "m' = m1 \<or> (\<exists>p. m' = m1\<lparr>conn := mc_read_mock p (conn m1)\<rparr>)"
    by (auto simp: read_random_file_simple_def random_file_def add_substep_def Let_def split: option.splits if_splits)
  moreover have "still m1 (m1\<lparr>conn := mc_read_mock p (conn m1)\<rparr>)" for p by (simp add: still_def read_mock_quiet)
  ultimately show ?thesis using q by (blast intro: still_trans)
qed

section \<open>Reading without faults\<close>

text \<open>A reader without markers and the global log, on a store without faults and other clients.\<close>

definition ready :: "(string \<rightharpoonup> string) \<Rightarrow> manager \<Rightarrow> bool" where
  "ready objs m \<longleftrightarrow> unmarked m \<and> \<not> level2 m \<and> calm_store (conn m) \<and> 0 < storage_retries m \<and> contents (conn m) = objs"

definition readable_log :: "sys \<Rightarrow> (string \<rightharpoonup> string) \<Rightarrow> string \<Rightarrow> bool" where
  "readable_log sy objs base \<longleftrightarrow> (\<exists>n text. 0 < n \<and> n < 2 ^ 32 - 1 \<and> plain_log base n text objs \<and> (\<forall>v < n. no_marker sy (text v)))"

lemma ready_still: "ready objs m \<Longrightarrow> still m m' \<Longrightarrow> ready objs m'"
  using calm_store_quiet [of "conn m" "conn m'"] by (auto simp: ready_def still_def access_def contents_def fun_eq_iff)

text \<open>A table as it is read from a plain log: it has a marker only for the name of its next version.\<close>

definition read_table_state :: "sys \<Rightarrow> nat \<Rightarrow> (nat \<Rightarrow> string) \<Rightarrow> table_stats \<Rightarrow> bool" where
  "read_table_state sy n text t \<longleftrightarrow> t_marker t = Some (set_invalid (marker_new (version_path (t_base_path t) n) [] 0))
     \<and> (\<exists>l. dl_files l = [] \<and> dl_base_path l = t_base_path t \<and> t_delta_log t = replay sy text [0..<n] l)
     \<and> t_concurrent_removes t = [] \<and> \<not> t_concurrent_change t"

lemma load_table_plain:
  assumes r: "ready objs m" and t: "no_live_marker t" and n: "0 < n" "n < 2 ^ 32 - 1"
    and log: "plain_log (t_base_path t) n text objs" and nm: "\<forall>v < n. no_marker sy (text v)"
  shows "\<exists>t' c. load_table sy pq (Suc f) threads t deps m = Some ((True, t', deps), m\<lparr>conn := c\<rparr>)
    \<and> t_base_path t' = t_base_path t \<and> read_table_state sy n text t'"
proof -
  let ?base = "t_base_path t"
  let ?t = "t\<lparr>t_delta_log := delta_log_new ?base, t_file_num := 0, t_in_bytes := 0, t_out_bytes := 0,
      t_concurrent_removes := [], t_concurrent_change := False\<rparr>"
  from r have calm: "calm_store (conn m)" "0 < storage_retries m" "\<not> level2 m" "\<not> with_markers m"
    using unmarked_levels by (auto simp: ready_def)
  from log r have p: "plain_log ?base n text (contents (conn m))" by (simp add: ready_def)
  obtain c1 where start: "find_start sy ?base u32_max m = Some (Some (Some (n - 1), no_checkpoint), m\<lparr>conn := c1\<rparr>)"
    and c1: "calm_store c1" "contents c1 = contents (conn m)"
    using plain_log_start [OF p n(1) _ calm(1-3), of sy u32_max] n(2) by auto
  let ?m1 = "m\<lparr>conn := c1\<rparr>"
  obtain k where k: "n = Suc k" using n(1) by (cases n) auto
  have nn: "n - 1 = k" "u32 k = k" "u32 (k + 1) = n" using n k by (simp_all add: u32_id)
  obtain t1 where res: "reserve_version sy (Suc f) ?t k ?m1 = Some ((True, t1, k), ?m1)"
    and t1: "t_base_path t1 = ?base" "t_marker t1 = Some (set_invalid (marker_new (version_path ?base n) [] 0))"
      "dl_files (t_delta_log t1) = []" "dl_base_path (t_delta_log t1) = ?base" "t_concurrent_removes t1 = []" "\<not> t_concurrent_change t1"
    using calm(4) t nn(3) by (auto simp: assign_marker_dead no_live_marker_def with_markers_def delta_log_new_def
        register_read_version_def register_write_version_def Let_def)
  have "v \<in> set [0..<n] \<Longrightarrow> v \<le> u32_max \<and> contents (conn ?m1) (version_path ?base v) = Some (text v)
      \<and> no_marker sy (text v)" for v
    using p c1(2) nm n(2) by (auto simp: plain_log_def u32_max_def)
  then obtain c3 where parse: "parse_logentries2 sy ?base u32_max [0..<n] (t_delta_log t1) deps ?m1
      = ((True, replay sy text [0..<n] (t_delta_log t1), deps), ?m1\<lparr>conn := c3\<rparr>)"
    using parse_logentries2_plain [of ?m1 "[0..<n]" u32_max ?base "text" sy "t_delta_log t1" deps] c1(1) calm(2) by auto
  let ?t' = "t1\<lparr>t_delta_log := replay sy text [0..<n] (t_delta_log t1), t_read_version := k\<rparr>"
  have "load_table sy pq (Suc f) threads t deps m = Some ((True, ?t', deps), m\<lparr>conn := c3\<rparr>)"
    using calm(3) start res parse nn
    by (simp add: load_table_def visible_version_def parse_checkpoint_def no_checkpoint_def ranges_split Let_def
        del: reserve_version.simps One_nat_def add_Suc_right)
  moreover have "read_table_state sy n text ?t'"
    unfolding read_table_state_def using t1 by (intro conjI exI [of _ "t_delta_log t1"]) simp_all
  ultimately show ?thesis using t1(1) by (intro exI [of _ ?t'] exI [of _ c3]) simp
qed

lemma open_tableV2_plain:
  assumes r: "ready objs m" and n: "0 < n" "n < 2 ^ 32 - 1" and log: "plain_log path n text objs" "\<forall>v < n. no_marker sy (text v)"
  shows "\<exists>t c. open_tableV2 sy pq (Suc f) path k m = Some (Some t, m\<lparr>conn := c\<rparr>) \<and> t_base_path t = path \<and> read_table_state sy n text t"
proof -
  let ?t = "(table_stats_new path)\<lparr>t_table_id := length (tables m)\<rparr>"
  have t: "no_live_marker ?t" "t_base_path ?t = path" by (simp_all add: no_live_marker_def table_stats_new_def)
  from load_table_plain [OF r t(1) n, of "text" sy pq f k False] log t(2) obtain t' c where
    "load_table sy pq (Suc f) k ?t False m = Some ((True, t', False), m\<lparr>conn := c\<rparr>)" "t_base_path t' = path"
    "read_table_state sy n text t'" by auto
  then show ?thesis by (intro exI [of _ t'] exI [of _ c]) (simp add: open_tableV2_def)
qed

lemma open_new_table_ready:
  assumes "ready objs m" "readable_log sy objs path"
  shows "\<exists>m'. open_new_table sy pq (Suc f) path m = Some (True, m')"
proof -
  from assms(2) obtain n "text" where "0 < n" "n < 2 ^ 32 - 1" "plain_log path n text objs" "\<forall>v < n. no_marker sy (text v)"
    by (auto simp: readable_log_def)
  from open_tableV2_plain [OF assms(1) this, of pq f 2] obtain t m' where "open_tableV2 sy pq (Suc f) path 2 m = Some (Some t, m')"
    by blast
  then show ?thesis by (simp add: open_new_table_def eval_nat_numeral)
qed

lemma begin_plain:
  assumes r: "ready objs m" and n: "0 < n" "n < 2 ^ 32 - 1"
    and log: "plain_log (m_base_path m) n text objs" "\<forall>v < n. no_marker sy (text v)"
  shows "\<exists>m' t. begin_transaction_ycsb sy pq (Suc f) random m = Some (True, m') \<and> tables m' = [t] \<and> options m' = options m
    \<and> t_base_path t = m_base_path m \<and> read_table_state sy n text t"
proof -
  let ?m = "(clear_tables sy m)\<lparr>relation := global_relation_new, working_dir := [], next_step := 0,
          explicit_log := True, found := ([], []), times_redo := 0, update_vals := [], update_ops := [],
          prev_markers := [], local_log := []\<rparr>"
  have u: "unmarked m" using r by (simp add: ready_def)
  have "still m ?m" using clear_tables_still [OF u, of sy] by (simp add: still_def)
  then have rm: "ready objs ?m" by (rule ready_still [OF r])
  then have um: "unmarked ?m" by (simp only: ready_def)
  let ?m1 = "(clear_tables sy ?m)\<lparr>found := ([], []),
     working_dir := m_base_path m @ log_dir @ dec (random 4) @ ''-'' @ dec (transaction_id m) @ ''/''\<rparr>"
  have "still ?m ?m1" using clear_tables_still [OF um, of sy] by (simp add: still_def)
  then have r1: "ready objs ?m1" by (rule ready_still [OF rm])
  then have l: "\<not> level2 ?m1" "\<not> level0 ?m1" using unmarked_levels by (auto simp only: ready_def)
  then have g: "parse_global_snapshots ?m1 = (True, ?m1)" by (simp add: parse_global_snapshots_def)
  from open_tableV2_plain [OF r1 n log, of pq f 2] obtain t c2 where
    o: "open_tableV2 sy pq (Suc f) (m_base_path m) 2 ?m1 = Some (Some t, ?m1\<lparr>conn := c2\<rparr>)"
      "t_base_path t = m_base_path m" "read_table_state sy n text t" by blast
  let ?m2 = "?m1\<lparr>conn := c2\<rparr>"
  have "begin_txn sy pq (Suc f) (random 4) (m_base_path m) ?m = Some (True, ?m2\<lparr>tables := tables ?m2 @ [t], next_step := 1\<rparr>)"
    using l g o(1) by (simp add: begin_txn_def Let_def clear_tables_def)
  moreover have "m_base_path ?m = m_base_path m" "(5::nat) = Suc 4" by (simp_all add: clear_tables_def)
  ultimately have "begin_transaction_ycsb sy pq (Suc f) random m = Some (True, ?m2\<lparr>tables := tables ?m2 @ [t], next_step := 1\<rparr>)"
    unfolding begin_transaction_ycsb_def by (simp only: begin_loop.simps) simp
  with o(2,3) show ?thesis by (simp add: clear_tables_def)
qed

lemma begin_ready:
  assumes "ready objs m" "readable_log sy objs (m_base_path m)"
  shows "\<exists>m'. begin_transaction_ycsb sy pq (Suc f) random m = Some (True, m')"
  using assms begin_plain unfolding readable_log_def by blast

end
