(* ===== verification/Cab.thy ===== *)
theory Cab
  imports Ycsb ReadOnly
begin

text \<open>
  The cloud analytics benchmark (\<open>CAB/CABClient.cpp\<close>): 22 analytical queries, each a transaction that reads tables and is
  repeated until it commits, one query that also writes, inserts of one file and updates of one file; with the clients
  that switch levels or scale the number of tables.  A local variable for the id of a table is an entry in a list.  The
  sample files, threads, phases and measured times are not modelled.  \<open>None\<close> is the end of a fuel, or an exception (which
  \<open>start_query\<close> turns into \<open>false\<close>).
\<close>

section \<open>The client\<close>

datatype cab_table = Customer | Lineitem | Nation | Orders | Part | Partsupp | Region | Supplier

text \<open>With the levels, the content to insert, and what a manager is made with (\<open>cb_next_id\<close>: the counter of transaction ids); \<open>cb_rounds\<close> bounds the rounds of a commit, and
  random numbers are indexed by the attempt.\<close>

record 'e cab =
  cb_services :: services
  cb_units :: "'e float_unit"
  cb_rounds :: nat
  cb_parquet_rows :: "string \<Rightarrow> int"
  cb_random :: "nat \<Rightarrow> nat \<Rightarrow> nat"
  cb_pick :: "nat \<Rightarrow> nat"
  cb_defaults :: manager_defaults
  cb_next_id :: nat
  cb_paths :: "cab_table \<Rightarrow> string"
  cb_content :: "cab_table \<Rightarrow> string"
  cb_levels :: "bool list"

primrec cab_name :: "cab_table \<Rightarrow> string" where
  "cab_name Customer = ''customer''"
| "cab_name Lineitem = ''lineitem''"
| "cab_name Nation = ''nation''"
| "cab_name Orders = ''orders''"
| "cab_name Part = ''part''"
| "cab_name Partsupp = ''partsupp''"
| "cab_name Region = ''region''"
| "cab_name Supplier = ''supplier''"

definition generateTablePaths :: "string \<Rightarrow> nat \<Rightarrow> cab_table \<Rightarrow> string" where
  "generateTablePaths base tendant t = base @ ''t'' @ dec tendant @ ''.db/'' @ cab_name t @ ''/''"

text \<open>A manager of its own for each transaction, destroyed at the end.\<close>

definition cab_session ::
    "'e cab \<Rightarrow> bool list \<Rightarrow> string \<Rightarrow> (manager \<Rightarrow> (bool \<times> manager) option) \<Rightarrow> connector \<Rightarrow> (bool \<times> connector) option" where
  "cab_session cb levels path body c =
     map_option (\<lambda>(ok, m). (ok, conn (clear_tables (sv_sys (cb_services cb)) m)))
       (body (manager_new levels path c (fst (unique_transaction_id (cb_next_id cb))) (cb_defaults cb)))"

definition cab_begin :: "'e cab \<Rightarrow> nat \<Rightarrow> manager \<Rightarrow> (bool \<times> manager) option" where
  "cab_begin cb r m =
     begin_transaction_ycsb (sv_sys (cb_services cb)) (sv_parquet (cb_services cb)) (sv_fuel (cb_services cb)) (cb_random cb r) m"

definition cab_open :: "'e cab \<Rightarrow> string \<Rightarrow> manager \<Rightarrow> (bool \<times> manager) option" where
  "cab_open cb path m =
     open_new_table (sv_sys (cb_services cb)) (sv_parquet (cb_services cb)) (sv_fuel (cb_services cb)) path m"

definition cab_commit :: "'e cab \<Rightarrow> bool \<Rightarrow> manager \<Rightarrow> (bool \<times> manager) option" where
  "cab_commit cb read_only m = commit (cb_services cb) (cb_units cb) (cb_rounds cb) read_only m"

section \<open>The analytical queries\<close>

text \<open>The calls of a query; the results of opening and reading are not used.\<close>

datatype cab_call = Open cab_table | Get_Id cab_table | Read cab_table | Read_Random cab_table

record cab_query =
  cq_table :: cab_table
  cq_calls :: "cab_call list"

definition q1 :: cab_query where
  "q1 = \<lparr>cq_table = Lineitem, cq_calls =
     [Get_Id Lineitem, Read Lineitem]\<rparr>"

definition q2 :: cab_query where
  "q2 = \<lparr>cq_table = Partsupp, cq_calls =
     [Open Supplier, Open Nation, Open Region, Get_Id Partsupp, Get_Id Supplier, Get_Id Nation, Get_Id Region,
      Read Partsupp, Read Supplier, Read Nation, Read Region, Open Part, Get_Id Part, Read_Random Part,
      Read Partsupp, Read Supplier, Read Nation, Read Region]\<rparr>"

definition q3 :: cab_query where
  "q3 = \<lparr>cq_table = Customer, cq_calls =
     [Open Orders, Open Lineitem, Get_Id Customer, Get_Id Orders, Get_Id Lineitem, Read Customer, Read Orders,
      Read Lineitem]\<rparr>"

definition q4 :: cab_query where
  "q4 = \<lparr>cq_table = Lineitem, cq_calls =
     [Get_Id Lineitem, Read Lineitem, Open Orders, Get_Id Orders, Read Orders]\<rparr>"

definition q5 :: cab_query where
  "q5 = \<lparr>cq_table = Customer, cq_calls =
     [Open Orders, Open Lineitem, Open Supplier, Open Nation, Open Region, Get_Id Customer, Get_Id Orders,
      Get_Id Lineitem, Get_Id Supplier, Get_Id Nation, Get_Id Region, Read Customer, Read Orders,
      Read Lineitem, Read Supplier, Read Nation, Read Region]\<rparr>"

definition q6 :: cab_query where
  "q6 = \<lparr>cq_table = Lineitem, cq_calls =
     [Get_Id Lineitem, Read Lineitem]\<rparr>"

definition q7 :: cab_query where
  "q7 = \<lparr>cq_table = Supplier, cq_calls =
     [Open Lineitem, Open Orders, Open Customer, Open Nation, Get_Id Customer, Get_Id Orders, Get_Id Lineitem,
      Get_Id Supplier, Get_Id Nation, Read Customer, Read Orders, Read Lineitem, Read Supplier,
      Read Nation, Read Nation]\<rparr>"

definition q8 :: cab_query where
  "q8 = \<lparr>cq_table = Part, cq_calls =
     [Open Supplier, Open Lineitem, Open Orders, Open Customer, Open Nation, Open Region, Get_Id Part,
      Get_Id Customer, Get_Id Orders, Get_Id Lineitem, Get_Id Supplier, Get_Id Nation, Get_Id Region,
      Read Part, Read Customer, Read Orders, Read Lineitem, Read Supplier, Read Nation, Read Nation,
      Read Region]\<rparr>"

definition q9 :: cab_query where
  "q9 = \<lparr>cq_table = Part, cq_calls =
     [Open Supplier, Open Lineitem, Open Orders, Open Partsupp, Open Nation, Get_Id Part, Get_Id Partsupp,
      Get_Id Orders, Get_Id Lineitem, Get_Id Supplier, Get_Id Nation, Read Part, Read Partsupp,
      Read Orders, Read Lineitem, Read Supplier, Read Nation]\<rparr>"

definition q10 :: cab_query where
  "q10 = \<lparr>cq_table = Customer, cq_calls =
     [Open Orders, Open Lineitem, Open Nation, Get_Id Customer, Get_Id Orders, Get_Id Lineitem, Get_Id Nation,
      Read Customer, Read Orders, Read Lineitem, Read Nation]\<rparr>"

definition q11 :: cab_query where
  "q11 = \<lparr>cq_table = Partsupp, cq_calls =
     [Open Supplier, Open Nation, Get_Id Partsupp, Get_Id Supplier, Get_Id Nation, Read Partsupp,
      Read Supplier, Read Nation, Read Partsupp, Read Supplier, Read Nation]\<rparr>"

definition q12 :: cab_query where
  "q12 = \<lparr>cq_table = Orders, cq_calls =
     [Open Lineitem, Get_Id Orders, Get_Id Lineitem, Read Orders, Read Lineitem]\<rparr>"

definition q13 :: cab_query where
  "q13 = \<lparr>cq_table = Customer, cq_calls =
     [Open Orders, Get_Id Customer, Get_Id Orders, Read Customer, Read Orders]\<rparr>"

definition q14 :: cab_query where
  "q14 = \<lparr>cq_table = Lineitem, cq_calls =
     [Open Part, Get_Id Lineitem, Get_Id Part, Read Lineitem, Read Part]\<rparr>"

definition q15 :: cab_query where
  "q15 = \<lparr>cq_table = Lineitem, cq_calls =
     [Get_Id Lineitem, Read Lineitem, Open Supplier, Get_Id Supplier, Read Supplier]\<rparr>"

definition q16 :: cab_query where
  "q16 = \<lparr>cq_table = Supplier, cq_calls =
     [Get_Id Supplier, Read Supplier, Open Part, Open Partsupp, Get_Id Part, Get_Id Partsupp, Read Part,
      Read Partsupp]\<rparr>"

definition q17 :: cab_query where
  "q17 = \<lparr>cq_table = Lineitem, cq_calls =
     [Get_Id Lineitem, Read Lineitem, Open Part, Get_Id Part, Read Part, Read Lineitem]\<rparr>"

definition q18 :: cab_query where
  "q18 = \<lparr>cq_table = Lineitem, cq_calls =
     [Get_Id Lineitem, Read Lineitem, Open Customer, Open Orders, Get_Id Customer, Get_Id Orders,
      Read Customer, Read Orders, Read Lineitem]\<rparr>"

definition q19 :: cab_query where
  "q19 = \<lparr>cq_table = Lineitem, cq_calls =
     [Open Part, Get_Id Lineitem, Get_Id Part, Read Part, Read Lineitem]\<rparr>"

definition q20 :: cab_query where
  "q20 = \<lparr>cq_table = Lineitem, cq_calls =
     [Get_Id Lineitem, Read Lineitem, Open Part, Get_Id Part, Read Part, Open Partsupp, Get_Id Partsupp,
      Read Partsupp, Open Supplier, Open Nation, Get_Id Supplier, Get_Id Nation, Read Supplier,
      Read Nation]\<rparr>"

definition q21 :: cab_query where
  "q21 = \<lparr>cq_table = Lineitem, cq_calls =
     [Get_Id Lineitem, Read Lineitem, Read Lineitem, Open Supplier, Open Orders, Open Nation, Get_Id Supplier,
      Get_Id Orders, Get_Id Nation, Read Lineitem, Read Supplier, Read Orders, Read Nation]\<rparr>"

definition q22 :: cab_query where
  "q22 = \<lparr>cq_table = Orders, cq_calls =
     [Get_Id Orders, Read Orders, Open Customer, Get_Id Customer, Read Customer, Read Customer]\<rparr>"

definition cab_query :: "int \<Rightarrow> cab_query option" where
  "cab_query i =
     (if 1 \<le> i \<and> i \<le> 22
      then Some ([q1, q2, q3, q4, q5, q6, q7, q8, q9, q10, q11, q12, q13, q14, q15, q16, q17, q18, q19, q20, q21, q22]
                 ! nat (i - 1)) else None)"

fun make_call :: "'e cab \<Rightarrow> nat \<Rightarrow> cab_call \<Rightarrow> (cab_table \<times> nat) list \<Rightarrow> manager \<Rightarrow> ((cab_table \<times> nat) list \<times> manager) option" where
  "make_call cb pick (Open t) ids m = map_option (\<lambda>(_, m). (ids, m)) (cab_open cb (cb_paths cb t) m)"
| "make_call cb pick (Get_Id t) ids m = Some ((t, get_table_id (cb_paths cb t) m) # ids, m)"
| "make_call cb pick (Read t) ids m = map_option (\<lambda>i. (ids, read_table_simple i 2 m)) (map_of ids t)"
| "make_call cb pick (Read_Random t) ids m =
     map_option (\<lambda>i. (ids, snd (read_random_file_simple i pick [] m))) (map_of ids t)"

fun make_calls :: "'e cab \<Rightarrow> cab_call list \<Rightarrow> (cab_table \<times> nat) list \<Rightarrow> manager \<Rightarrow> manager option" where
  "make_calls cb [] ids m = Some m"
| "make_calls cb (x # xs) ids m =
     do { (ids, m) \<leftarrow> make_call cb (cb_pick cb (length xs)) x ids m; make_calls cb xs ids m }"

text \<open>The loop around the transaction: attempt \<open>k\<close>, and how many more there may be.\<close>

fun query_loop :: "'e cab \<Rightarrow> nat \<Rightarrow> nat \<Rightarrow> cab_call list \<Rightarrow> manager \<Rightarrow> (bool \<times> manager) option" where
  "query_loop cb k 0 calls m = None"
| "query_loop cb k (Suc r) calls m =
     do {
       (begun, m) \<leftarrow> cab_begin cb k m;
       if \<not> begun then Some (False, m)
       else do {
         m \<leftarrow> make_calls cb calls [] m;
         (committed, m) \<leftarrow> cab_commit cb True m;
         if committed then Some (True, m)
         else query_loop cb (k + 1) r calls (abort_txn (sv_sys (cb_services cb)) True m)
       }
     }"

definition run_query :: "'e cab \<Rightarrow> nat \<Rightarrow> cab_query \<Rightarrow> connector \<Rightarrow> (bool \<times> connector) option" where
  "run_query cb r q c = cab_session cb (cb_levels cb) (cb_paths cb (cq_table q)) (query_loop cb 0 r (cq_calls q)) c"


section \<open>Operations that write\<close>

text \<open>The second refresh of the orders: a file is removed and added again.  \<open>abort\<close> returns true.\<close>

definition q23_transaction :: "'e cab \<Rightarrow> manager \<Rightarrow> (bool \<times> manager) option" where
  "q23_transaction cb m =
     (let sy = sv_sys (cb_services cb); pq = sv_parquet (cb_services cb); ops = sv_ops (cb_services cb)
      in do {
       (begun, m) \<leftarrow> cab_begin cb 0 m;
       if \<not> begun then Some (False, m)
       else do {
         (_, m) \<leftarrow> cab_open cb (cb_paths cb Part) m;
         let lineitem_id = get_table_id (cb_paths cb Lineitem) m;
         let part_id = get_table_id (cb_paths cb Part) m;
         let m = read_table_simple lineitem_id 2 m;
         let (part, m) = read_table sy pq ops part_id 2 m;
         (_, m) \<leftarrow> cab_open cb (cb_paths cb Orders) m;
         let orders_id = get_table_id (cb_paths cb Orders) m;
         let ((order_tbl, file), m) = read_random_file_as_table sy pq ops orders_id (cb_pick cb 0) [] m;
         let (ok, m) = (if order_tbl = None then (False, m)
            else let (ok, m) = remove_file_path orders_id file u32_max m
                 in if ok then add_file_path orders_id file True u32_max m else (False, m));
         if ok then cab_commit cb False m else Some (True, abort_txn sy True m)
       }
     })"

definition q23 :: "'e cab \<Rightarrow> connector \<Rightarrow> (bool \<times> connector) option" where
  "q23 cb c = cab_session cb [True, True, True] (cb_paths cb Lineitem) (q23_transaction cb) c"

definition start_query :: "'e cab \<Rightarrow> nat \<Rightarrow> int \<Rightarrow> bool list \<Rightarrow> connector \<Rightarrow> (bool \<times> connector) option" where
  "start_query cb r i levels c =
     (let cb = cb\<lparr>cb_levels := levels\<rparr>
      in case cab_query i of
           Some q \<Rightarrow> run_query cb r q c
         | None \<Rightarrow> if i = 23 then q23 cb c else Some (False, c))"

definition start_query_default :: "'e cab \<Rightarrow> nat \<Rightarrow> int \<Rightarrow> connector \<Rightarrow> (bool \<times> connector) option" where
  "start_query_default cb r i c = start_query cb r i [False, False, True] c"

text \<open>An insert of one file; the result of \<open>add_file\<close> is not used.\<close>

definition insert_file :: "'e cab \<Rightarrow> nat \<Rightarrow> string \<Rightarrow> manager \<Rightarrow> (bool \<times> manager) option" where
  "insert_file cb i content m =
     add_file_content (sv_sys (cb_services cb)) (sv_ops (cb_services cb)) (cb_parquet_rows cb) (sv_fuel (cb_services cb))
       i content u32_max m"

definition insert_transaction :: "'e cab \<Rightarrow> cab_table \<Rightarrow> manager \<Rightarrow> (bool \<times> manager) option" where
  "insert_transaction cb t m =
     do {
       (begun, m) \<leftarrow> cab_begin cb 0 m;
       if \<not> begun then Some (False, m)
       else do {
         (_, m) \<leftarrow> insert_file cb (get_table_id (cb_paths cb t) m) (cb_content cb t) m;
         cab_commit cb False m
       }
     }"

definition insert_into :: "'e cab \<Rightarrow> cab_table \<Rightarrow> connector \<Rightarrow> (bool \<times> connector) option" where
  "insert_into cb t c = cab_session cb (cb_levels cb) (cb_paths cb t) (insert_transaction cb t) c"

definition iCustomer :: "'e cab \<Rightarrow> connector \<Rightarrow> (bool \<times> connector) option" where "iCustomer cb = insert_into cb Customer"
definition iLineitem :: "'e cab \<Rightarrow> connector \<Rightarrow> (bool \<times> connector) option" where "iLineitem cb = insert_into cb Lineitem"
definition iNation :: "'e cab \<Rightarrow> connector \<Rightarrow> (bool \<times> connector) option" where "iNation cb = insert_into cb Nation"
definition iOrders :: "'e cab \<Rightarrow> connector \<Rightarrow> (bool \<times> connector) option" where "iOrders cb = insert_into cb Orders"
definition iPart :: "'e cab \<Rightarrow> connector \<Rightarrow> (bool \<times> connector) option" where "iPart cb = insert_into cb Part"
definition iPartsupp :: "'e cab \<Rightarrow> connector \<Rightarrow> (bool \<times> connector) option" where "iPartsupp cb = insert_into cb Partsupp"
definition iRegion :: "'e cab \<Rightarrow> connector \<Rightarrow> (bool \<times> connector) option" where "iRegion cb = insert_into cb Region"
definition iSupplier :: "'e cab \<Rightarrow> connector \<Rightarrow> (bool \<times> connector) option" where "iSupplier cb = insert_into cb Supplier"

text \<open>An update of one file: it is removed and added again; the results are not used.\<close>

definition touch_file :: "nat \<Rightarrow> string \<Rightarrow> manager \<Rightarrow> manager" where
  "touch_file i path m = snd (add_file_path i path True u32_max (snd (remove_file_path i path u32_max m)))"

definition update_transaction :: "'e cab \<Rightarrow> string \<Rightarrow> manager \<Rightarrow> (bool \<times> manager) option" where
  "update_transaction cb tbl_path m =
     do {
       (begun, m) \<leftarrow> cab_begin cb 0 m;
       if \<not> begun then Some (False, m)
       else do {
         let i = get_table_id tbl_path m;
         let (path, m) = read_random_file_simple i (cb_pick cb 0) [] m;
         let m = (if path = [] then m else touch_file i path m);
         cab_commit cb False m
       }
     }"

definition uTable :: "'e cab \<Rightarrow> string \<Rightarrow> connector \<Rightarrow> (bool \<times> connector) option" where
  "uTable cb tbl_path c = cab_session cb (cb_levels cb) tbl_path (update_transaction cb tbl_path) c"

text \<open>A table opened for nothing but a commit of what is left: the paths are opened in turn.\<close>

fun open_all :: "'e cab \<Rightarrow> string list \<Rightarrow> manager \<Rightarrow> manager option" where
  "open_all cb [] m = Some m"
| "open_all cb (path # paths) m = do { (_, m) \<leftarrow> cab_open cb path m; open_all cb paths m }"

definition sweep_transaction :: "'e cab \<Rightarrow> cab_table list \<Rightarrow> manager \<Rightarrow> (bool \<times> manager) option" where
  "sweep_transaction cb ts m =
     do {
       (begun, m) \<leftarrow> cab_begin cb 0 m;
       if \<not> begun then Some (False, m)
       else do { m \<leftarrow> open_all cb (map (cb_paths cb) ts) m; cab_commit cb False m }
     }"

definition cleanup :: "'e cab \<Rightarrow> connector \<Rightarrow> (bool \<times> connector) option" where
  "cleanup cb c = cab_session cb [True, True, False] (cb_paths cb Partsupp)
     (sweep_transaction cb [Customer, Lineitem, Nation, Orders, Part, Region, Supplier]) c"

definition executeIngestionEnd :: "'e cab \<Rightarrow> connector \<Rightarrow> (bool \<times> connector) option" where
  "executeIngestionEnd cb c = cab_session cb [False, False, True] (cb_paths cb Customer)
     (sweep_transaction cb [Lineitem, Nation, Orders, Part, Partsupp, Region, Supplier]) c"

section \<open>The streams\<close>

text \<open>The operation of the write stream for its random numbers (1 to 100, 1 to 9 or 1 to 8).\<close>

definition write_operation :: "'e cab \<Rightarrow> nat \<Rightarrow> nat \<Rightarrow> connector \<Rightarrow> (bool \<times> connector) option" where
  "write_operation cb number number2 c =
     (if number < 21
      then uTable cb (cb_paths cb (if 1 \<le> number2 \<and> number2 \<le> 8
             then [Customer, Lineitem, Nation, Orders, Part, Partsupp, Region, Supplier] ! (number2 - 1) else Supplier)) c
      else (if number2 = 1 then iCustomer cb c else if number2 = 2 then iLineitem cb c
            else if number2 = 3 then iNation cb c else if number2 = 4 then iOrders cb c
            else if number2 = 5 then iPart cb c else if number2 = 6 then iPartsupp cb c
            else if number2 = 7 then iRegion cb c else iSupplier cb c))"

text \<open>One transaction that inserts into many tables.\<close>

definition scale_path :: "string \<Rightarrow> nat \<Rightarrow> string" where "scale_path scale_table i = scale_table @ dec i @ ''/''"

fun insert_all :: "'e cab \<Rightarrow> string list \<Rightarrow> manager \<Rightarrow> manager option" where
  "insert_all cb [] m = Some m"
| "insert_all cb (path # paths) m =
     do {
       (_, m) \<leftarrow> cab_open cb path m;
       (_, m) \<leftarrow> insert_file cb (get_table_id path m) (cb_content cb Customer) m;
       insert_all cb paths m
     }"

definition multi_table_transaction :: "'e cab \<Rightarrow> string \<Rightarrow> nat \<Rightarrow> manager \<Rightarrow> (bool \<times> manager) option" where
  "multi_table_transaction cb scale_table num_tables m =
     do {
       (begun, m) \<leftarrow> cab_begin cb 0 m;
       if \<not> begun then Some (False, m)
       else do {
         (_, m) \<leftarrow> insert_file cb (get_table_id (scale_path scale_table 0) m) (cb_content cb Customer) m;
         m \<leftarrow> insert_all cb (map (scale_path scale_table) [1..<num_tables]) m;
         cab_commit cb False m
       }
     }"

fun executeMultiTableTransaction ::
    "'e cab \<Rightarrow> string \<Rightarrow> nat \<Rightarrow> nat \<Rightarrow> connector \<Rightarrow> (bool \<times> connector) option" where
  "executeMultiTableTransaction cb scale_table 0 num_tables c = Some (True, c)"
| "executeMultiTableTransaction cb scale_table (Suc runs) num_tables c =
     do {
       (ok, c) \<leftarrow> cab_session cb [True, True, True] (scale_path scale_table 0)
                   (multi_table_transaction cb scale_table num_tables) c;
       if ok
       then executeMultiTableTransaction (cb\<lparr>cb_next_id := snd (unique_transaction_id (cb_next_id cb))\<rparr>)
              scale_table runs num_tables c
       else Some (False, c)
     }"

text \<open>The versions 1 to \<open>runs\<close> of each table are deleted, and the global log.\<close>

definition resetTables :: "'e cab \<Rightarrow> string \<Rightarrow> nat \<Rightarrow> nat \<Rightarrow> connector \<Rightarrow> connector" where
  "resetTables cb scale_table runs num_tables c =
     fold (\<lambda>i c. snd (mc_delete_file (default_global_log (cb_defaults cb))
             (fold (\<lambda>v c. snd (mc_delete_file (version_path (scale_path scale_table i) v) c)) [1..<runs + 1] c)))
       [0..<num_tables] c"

section \<open>What a query does to the store\<close>

lemma make_call_still: "make_call cb k x ids m = Some (ids', m') \<Longrightarrow> unmarked m \<Longrightarrow> still m m'"
  by (cases x) (auto simp: cab_open_def read_table_simple_still
      intro: read_random_simple_still [OF _ prod.collapse [symmetric]] dest: open_new_table_still)

lemma make_calls_still: "make_calls cb xs ids m = Some m' \<Longrightarrow> unmarked m \<Longrightarrow> still m m'"
proof (induction xs arbitrary: ids m)
  case (Cons x xs)
  from Cons.prems(1) obtain ids1 m1 where c: "make_call cb (cb_pick cb (length xs)) x ids m = Some (ids1, m1)"
    "make_calls cb xs ids1 m1 = Some m'" by (auto split: bind_splits)
  note s = make_call_still [OF c(1) Cons.prems(2)]
  with Cons.prems(2) have "unmarked m1" by (simp add: still_def)
  from Cons.IH [OF c(2) this] show ?case by (rule still_trans [OF s])
qed simp

lemma commit_read_only: "cab_commit cb True m = Some (True, abort_txn (sv_sys (cb_services cb)) True m)"
  by (simp add: cab_commit_def commit_def)

lemma query_loop_once: "query_loop cb k (Suc r) calls m = query_loop cb k (Suc 0) calls m"
  by (cases "cab_begin cb k m") (auto simp: commit_read_only intro!: Option.bind_cong)

lemma query_loop_still:
  assumes q: "query_loop cb k (Suc r) calls m = Some (ok, m')" and u: "unmarked m"
  shows "still m m'"
proof -
  from q obtain b m1 where b: "cab_begin cb k m = Some (b, m1)" by (auto split: bind_splits)
  have s: "still m m1" using begin_transaction_still [OF b [unfolded cab_begin_def] u] ..
  with u have u1: "unmarked m1" by (simp add: still_def)
  show ?thesis
  proof (cases b)
    case True
    with q b obtain m2 where c: "make_calls cb calls [] m1 = Some m2"
      and m': "m' = abort_txn (sv_sys (cb_services cb)) True m2" by (auto simp: commit_read_only split: bind_splits)
    note s2 = make_calls_still [OF c u1]
    with u1 have "unmarked m2" by (simp add: still_def)
    from abort_still [OF this] s s2 show ?thesis unfolding m' by (blast intro: still_trans)
  qed (use q b s in simp)
qed

lemma unmarked_new: "levels = [False, False, l2] \<Longrightarrow> unmarked (manager_new levels path c txn d)"
  by (simp add: unmarked_def manager_new_def level_of_def)

lemma conn_new [simp]: "conn (manager_new levels path c txn d) = c" by (simp add: manager_new_def)

lemma cab_session_still:
  assumes "cab_session cb levels path body c = Some (ok, c')" "levels = [False, False, l2]"
    and "\<And>m m'. body m = Some (ok, m') \<Longrightarrow> unmarked m \<Longrightarrow> still m m'"
  shows "quiet c c'"
proof -
  let ?m = "manager_new levels path c (fst (unique_transaction_id (cb_next_id cb))) (cb_defaults cb)"
  from assms(1) obtain m' where b: "body ?m = Some (ok, m')" "c' = conn (clear_tables (sv_sys (cb_services cb)) m')"
    by (auto simp: cab_session_def)
  have u: "unmarked ?m" by (rule unmarked_new [OF assms(2)])
  from assms(3) [OF b(1) u] have s: "still ?m m'" .
  with u have "unmarked m'" by (simp add: still_def)
  with s clear_tables_still [of m' "sv_sys (cb_services cb)"] have "still ?m (clear_tables (sv_sys (cb_services cb)) m')"
    by (blast intro: still_trans)
  then show ?thesis by (simp add: still_def b(2))
qed

section \<open>A query succeeds\<close>

text \<open>Every table is read with the id that was asked for.\<close>

fun ids_asked :: "cab_table list \<Rightarrow> cab_call list \<Rightarrow> bool" where
  "ids_asked ts [] = True"
| "ids_asked ts (Open t # xs) = ids_asked ts xs"
| "ids_asked ts (Get_Id t # xs) = ids_asked (t # ts) xs"
| "ids_asked ts (Read t # xs) = (t \<in> set ts \<and> ids_asked ts xs)"
| "ids_asked ts (Read_Random t # xs) = (t \<in> set ts \<and> ids_asked ts xs)"

lemmas query_defs = q1_def q2_def q3_def q4_def q5_def q6_def q7_def q8_def q9_def q10_def q11_def q12_def q13_def q14_def
  q15_def q16_def q17_def q18_def q19_def q20_def q21_def q22_def

lemma queries_ask_ids: "cab_query i = Some q \<Longrightarrow> ids_asked [] (cq_calls q)"
proof -
  have a: "\<forall>q \<in> set [q1, q2, q3, q4, q5, q6, q7, q8, q9, q10, q11, q12, q13, q14, q15, q16, q17, q18, q19, q20, q21, q22].
      ids_asked [] (cq_calls q)" by (simp add: query_defs)
  assume "cab_query i = Some q"
  then show ?thesis using a [rule_format, OF nth_mem, of "nat (i - 1)"] by (auto simp: cab_query_def split: if_splits)
qed

text \<open>The tables of a query.\<close>

definition query_tables :: "cab_query \<Rightarrow> cab_table list" where
  "query_tables q = cq_table q # [t. Open t \<leftarrow> cq_calls q]"

lemma make_calls_ready:
  assumes "ready objs m" "sv_fuel (cb_services cb) = Suc f"
    and "\<forall>t. Open t \<in> set xs \<longrightarrow> readable_log (sv_sys (cb_services cb)) objs (cb_paths cb t)"
    and "ids_asked (map fst ids) xs"
  shows "\<exists>m'. make_calls cb xs ids m = Some m'"
  using assms(1,3,4)
proof (induction xs arbitrary: ids m)
  case (Cons x xs)
  have "\<exists>ids1 m1. make_call cb (cb_pick cb (length xs)) x ids m = Some (ids1, m1) \<and> ids_asked (map fst ids1) xs"
  proof (cases x)
    case (Open t)
    with open_new_table_ready [OF Cons.prems(1) Cons.prems(2) [rule_format]] Cons.prems(3) show ?thesis
      by (fastforce simp: cab_open_def assms(2))
  next
    case (Read t)
    with Cons.prems(3) show ?thesis by (auto simp: map_of_eq_None_iff dest!: weak_map_of_SomeI)
  next
    case (Read_Random t)
    with Cons.prems(3) show ?thesis by (auto simp: map_of_eq_None_iff dest!: weak_map_of_SomeI)
  qed (use Cons.prems(3) in simp)
  then obtain ids1 m1 where c: "make_call cb (cb_pick cb (length xs)) x ids m = Some (ids1, m1)" "ids_asked (map fst ids1) xs"
    by blast
  have "unmarked m" using Cons.prems(1) by (simp add: ready_def)
  from ready_still [OF Cons.prems(1) make_call_still [OF c(1) this]] Cons.IH Cons.prems(2) c show ?case by simp
qed simp

lemma query_succeeds:
  assumes q: "cab_query i = Some q" and c: "calm_store c" and f: "sv_fuel (cb_services cb) = Suc f"
    and log: "\<forall>t \<in> set (query_tables q). readable_log (sv_sys (cb_services cb)) (contents c) (cb_paths cb t)"
  shows "\<exists>c'. start_query cb (Suc r) i [False, False, False] c = Some (True, c')"
proof -
  let ?cb = "cb\<lparr>cb_levels := [False, False, False]\<rparr>"
  let ?m = "manager_new [False, False, False] (cb_paths cb (cq_table q)) c (fst (unique_transaction_id (cb_next_id cb))) (cb_defaults cb)"
  have rm: "ready (contents c) ?m" using c unmarked_new [OF refl]
    by (simp add: ready_def) (simp add: manager_new_def level_of_def)
  have "m_base_path ?m = cb_paths cb (cq_table q)" by (simp add: manager_new_def)
  with begin_ready [OF rm, of "sv_sys (cb_services cb)" "sv_parquet (cb_services cb)" f "cb_random cb 0"] log
  obtain m1 where b: "cab_begin ?cb 0 ?m = Some (True, m1)" by (auto simp: cab_begin_def f query_tables_def)
  have "unmarked ?m" by (rule unmarked_new [OF refl])
  from ready_still [OF rm begin_transaction_still [OF b [unfolded cab_begin_def] this, THEN conjunct1]] have "ready (contents c) m1" .
  from make_calls_ready [OF this, of ?cb f "cq_calls q" "[]"] f log [unfolded query_tables_def] queries_ask_ids [OF q] obtain m2 where
    "make_calls ?cb (cq_calls q) [] m1 = Some m2" by auto
  with b q show ?thesis by (simp add: start_query_def run_query_def cab_session_def commit_read_only)
qed


lemma start_query_session:
  "cab_query i = Some q \<Longrightarrow> start_query cb r i levels c = cab_session (cb\<lparr>cb_levels := levels\<rparr>) levels
     (cb_paths cb (cq_table q)) (query_loop (cb\<lparr>cb_levels := levels\<rparr>) 0 r (cq_calls q)) c"
  by (simp add: start_query_def run_query_def Let_def)

section \<open>Properties of the queries\<close>

text \<open>C28: An analytical query without markers only reads: whatever the global log says and however reads fail, the client
  changes no object of the store.  One attempt decides the result, so that the loop around the transaction ends.\<close>

theorem analytical_query_quiet:
  assumes "cab_query i = Some q" and "start_query cb (Suc r) i [False, False, l2] c = Some (ok, c')"
  shows "quiet c c' \<and> start_query cb (Suc 0) i [False, False, l2] c = Some (ok, c')"
proof
  note s = start_query_session [OF assms(1), of cb _ "[False, False, l2]" c]
  show "quiet c c'" by (rule cab_session_still [OF assms(2) [unfolded s] refl query_loop_still])
  show "start_query cb (Suc 0) i [False, False, l2] c = Some (ok, c')"
    using assms(2) unfolding s cab_session_def query_loop_once [of _ _ r] .
qed



section \<open>An update of one file\<close>

definition live_names :: "(string \<times> delta_log_entry) list \<Rightarrow> string set" where
  "live_names fs = fst ` {x \<in> set fs. e_operation (snd x) = ADD}"

lemma live_names_simps [simp]:
  "live_names [] = {}"
  "live_names ((p, e) # fs) = (if e_operation e = ADD then insert p (live_names fs) else live_names fs)"
proof -
  have "{x \<in> set ((p, e) # fs). e_operation (snd x) = ADD}
      = (if e_operation e = ADD then insert (p, e) {x \<in> set fs. e_operation (snd x) = ADD} else {x \<in> set fs. e_operation (snd x) = ADD})"
    by auto
  then show "live_names ((p, e) # fs) = (if e_operation e = ADD then insert p (live_names fs) else live_names fs)"
    unfolding live_names_def by simp
qed (simp add: live_names_def)

lemma get_list_live: "set (get_list l) = (\<lambda>p. dl_base_path l @ p) ` live_names (dl_files l)"
proof -
  have "set (map fst (filter (\<lambda>(_, e). e_operation e = ADD) fs)) = live_names fs" for fs
    by (induction fs) auto
  moreover have "get_list l = map (\<lambda>p. dl_base_path l @ p) (map fst (filter (\<lambda>(_, e). e_operation e = ADD) (dl_files l)))"
    by (simp add: get_list_def case_prod_unfold)
  ultimately show ?thesis by (metis set_map)
qed

lemma live_keeps: "p \<in> live_names fs \<Longrightarrow> e_operation e = ADD \<Longrightarrow> live_names (AList.update p e fs) = live_names fs"
proof (induction fs)
  case (Cons x fs)
  obtain k v where x: "x = (k, v)" by (cases x)
  show ?case
  proof (cases "k = p")
    case True
    with Cons.prems x show ?thesis by (cases "e_operation v = ADD") (simp_all add: insert_absorb)
  next
    case False
    with Cons.prems x have "p \<in> live_names fs" by (cases "e_operation v = ADD") simp_all
    with Cons.IH Cons.prems(2) False x show ?thesis by simp
  qed
qed simp

lemma update_update: "AList.update p e (AList.update p e' fs) = AList.update p e fs"
  by (induction fs) simp_all

lemma live_touched:
  "p \<in> live_names fs \<Longrightarrow> e_operation e = ADD \<Longrightarrow> live_names (AList.update p e (AList.update p e' fs)) = live_names fs"
  by (simp add: update_update live_keeps)

lemma live_map: "p \<in> live_names fs \<Longrightarrow> \<exists>e. map_of fs p = Some e"
  by (induction fs) (auto split: if_splits)

lemma dl_relative_files [simp]: "dl_relative p b (l\<lparr>dl_files := fs\<rparr>) = dl_relative p b l"
  by (simp add: dl_relative_def)

definition sized :: "delta_log \<Rightarrow> bool" where
  "sized l \<longleftrightarrow> (\<forall>(p, e) \<in> set (dl_files l). 0 \<le> e_size e)"

text \<open>A table whose file was removed and added again, and what its commit says: the file is added, with its size and
  without statistics, and nothing is removed.\<close>

definition touched_table :: "string \<Rightarrow> bool \<Rightarrow> table_stats \<Rightarrow> table_stats" where
  "touched_table path explicit t =
     (let t1 = (if explicit then deleted_file path t else t)
      in created_file (file_stats_new\<lparr>fs_path := path, fs_size := get_size path True (t_delta_log t)\<rparr>) True t1)"

lemma touched_table_changes:
  assumes w: "write_set t = (base, [], [], False)" and p: "path \<in> set (get_list (t_delta_log t))"
  shows "t_base_path (touched_table path b t) = base \<and> log_files (t_deleted_files (touched_table path b t)) = []
    \<and> t_created_files (touched_table path b t)
        = [(path, file_stats_new\<lparr>fs_path := path, fs_size := get_size path True (t_delta_log t)\<rparr>)]
    \<and> set (get_list (t_delta_log (touched_table path b t))) = set (get_list (t_delta_log t))"
proof -
  let ?l = "t_delta_log t"
  from p obtain q where q: "path = dl_base_path ?l @ q" "q \<in> live_names (dl_files ?l)" by (auto simp: get_list_live)
  from live_map [OF q(2)] obtain e where e: "map_of (dl_files ?l) q = Some e" by blast
  have r: "dl_relative path True ?l = q" by (simp add: q(1) dl_relative_def starts_with_def)
  from w have w2: "t_base_path t = base" "t_created_files t = []" "t_deleted_files t = []" by (simp_all add: write_set_def)
  have "live_names (dl_files (t_delta_log (touched_table path b t))) = live_names (dl_files ?l)"
    "dl_base_path (t_delta_log (touched_table path b t)) = dl_base_path ?l"
    using e q(2) r
    by (auto simp: touched_table_def created_file_def deleted_file_def register_operation_def register_operation_entry_def
        upsert_def relative_upsert live_touched live_keeps update_conv' entry_update_def Let_def)
  with w2 show ?thesis
    by (simp add: get_list_live touched_table_def created_file_def deleted_file_def set_valid_def log_files_def Let_def)
qed

lemma size_after_delete: "path \<in> set (get_list (t_delta_log t)) \<Longrightarrow>
  get_size path True (t_delta_log (deleted_file path t)) = get_size path True (t_delta_log t)"
proof -
  let ?l = "t_delta_log t"
  assume "path \<in> set (get_list ?l)"
  then obtain q where q: "path = dl_base_path ?l @ q" "q \<in> live_names (dl_files ?l)" by (auto simp: get_list_live)
  from live_map [OF q(2)] obtain e where e: "map_of (dl_files ?l) q = Some e" by blast
  have "dl_relative path True ?l = q" by (simp add: q(1) dl_relative_def starts_with_def)
  with e show ?thesis
    by (simp add: get_size_def deleted_file_def register_operation_def upsert_def update_conv' entry_update_def)
qed

lemma size_known: "path \<in> set (get_list l) \<Longrightarrow> sized l \<Longrightarrow> 0 \<le> get_size path True l"
proof -
  assume "path \<in> set (get_list l)" and s: "sized l"
  then obtain q where q: "path = dl_base_path l @ q" "q \<in> live_names (dl_files l)" by (auto simp: get_list_live)
  from live_map [OF q(2)] obtain e where e: "map_of (dl_files l) q = Some e" by blast
  have "dl_relative path True l = q" by (simp add: q(1) dl_relative_def starts_with_def)
  with e map_of_SomeD [OF e] s show ?thesis by (auto simp: get_size_def sized_def)
qed

lemma touch_file_table:
  assumes m: "\<not> level0 m" "tables m = [t]" and p: "path \<in> set (get_list (t_delta_log t))" "path \<noteq> []" "sized (t_delta_log t)"
  shows "touch_file 0 path m = m\<lparr>tables := [touched_table path (explicit_log m) t]\<rparr>"
proof -
  have l: "log_delete_substep 0 path u32_max m = m" "\<And>k. \<not> level0 k \<Longrightarrow> log_add_substep 0 path u32_max k = k"
    using m(1) by (simp_all add: log_delete_substep_def log_add_substep_def add_substep_def)
  let ?t1 = "if explicit_log m then deleted_file path t else t"
  have r: "snd (remove_file_path 0 path u32_max m) = m\<lparr>tables := [?t1]\<rparr>"
    using m p(2) l by (simp add: remove_file_path_def get_table_def register_deleted_file_def on_table_def set_table_def)
  have "get_size path True (t_delta_log ?t1) = get_size path True (t_delta_log t)" "0 \<le> get_size path True (t_delta_log t)"
    using size_after_delete [OF p(1)] size_known [OF p(1,3)] by simp_all
  then show ?thesis
    using m l by (simp add: touch_file_def r add_file_path_def get_table_def register_created_file_def on_table_def
        set_table_def touched_table_def Let_def)
qed

lemma random_file_simple_table:
  assumes "read_random_file_simple 0 k [] m = (path, m')" "\<not> level0 m" "tables m = [t]"
  shows "\<exists>c. m' = m\<lparr>tables := [t\<lparr>t_was_read := True\<rparr>], conn := c\<rparr>" and "path \<noteq> [] \<Longrightarrow> path \<in> set (get_list (t_delta_log t))"
proof -
  let ?m = "m\<lparr>tables := [t\<lparr>t_was_read := True\<rparr>]\<rparr>"
  have g: "get_table_for_read 0 m = (Some (t\<lparr>t_was_read := True\<rparr>), ?m)"
    using assms(3) by (simp add: get_table_for_read_def get_table_def set_table_def Let_def)
  let ?f = "get_list (t_delta_log t)"
  have eq: "?m = ?m\<lparr>conn := conn ?m\<rparr>" by simp
  have "m' = ?m \<or> (\<exists>c. m' = ?m\<lparr>conn := c\<rparr>)"
    using assms(1,2) g by (cases "?f = []") (auto simp: read_random_file_simple_def random_file_def add_substep_def Let_def)
  with eq show "\<exists>c. m' = m\<lparr>tables := [t\<lparr>t_was_read := True\<rparr>], conn := c\<rparr>" by metis
  show "path \<in> set ?f" if "path \<noteq> []"
    using assms(1,2) g that
    by (cases "?f = []") (auto simp: read_random_file_simple_def random_file_def add_substep_def Let_def)
qed


section \<open>Witnesses\<close>

definition demo_cab :: "int cab" where
  "demo_cab =
     \<lparr>cb_services = demo_services, cb_units = demo_units, cb_rounds = 1, cb_parquet_rows = (\<lambda>_. 0), cb_random = (\<lambda>_ _. 5),
      cb_pick = (\<lambda>_. 0), cb_defaults = \<lparr>default_global_log = ''g'', default_global_tmp_log = ''g.tmp'',
        default_protocol = default_options\<rparr>, cb_next_id = 7, cb_paths = generateTablePaths ''wh/'' 1,
      cb_content = (\<lambda>_. ''x''), cb_levels = [False, False, False]\<rparr>"

text \<open>The store has a log of one version for the table of the line items.\<close>

definition demo_lineitem :: string where "demo_lineitem = generateTablePaths ''wh/'' 1 Lineitem"

definition demo_cab_store :: connector where
  "demo_cab_store = store (version_path demo_lineitem 0) demo_commit demo_connector"

lemma demo_cab_store:
  "calm_store demo_cab_store" "contents demo_cab_store = [version_path demo_lineitem 0 \<mapsto> demo_commit]"
proof -
  have c: "conn demo_manager = demo_connector" by (simp add: demo_manager_def manager_new_def)
  have e: "contents demo_connector = Map.empty" using demo_manager_calm(3) unfolding c by (intro ext)
  have "calm_store demo_connector" using demo_manager_calm(1) unfolding c .
  from contents_store [OF this, of "version_path demo_lineitem 0" demo_commit]
  show "calm_store demo_cab_store" "contents demo_cab_store = [version_path demo_lineitem 0 \<mapsto> demo_commit]"
    unfolding demo_cab_store_def e by blast+
qed

lemma demo_cab_log: "readable_log demo_sys (contents demo_cab_store) demo_lineitem"
proof -
  have "version_path demo_lineitem 1 \<noteq> version_path demo_lineitem 0" using version_path_inj [of demo_lineitem 1 0] by auto
  then have "plain_log demo_lineitem 1 (\<lambda>_. demo_commit) (contents demo_cab_store)"
    by (simp add: plain_log_def demo_cab_store)
  moreover have "no_marker demo_sys demo_commit" by (simp add: no_marker_def demo_sys_def demo_commit_lines has_member_def)
  ultimately show ?thesis unfolding readable_log_def by (intro exI [of _ 1] exI [of _ "\<lambda>_. demo_commit"]) simp
qed

lemma demo_cab_fields:
  "sv_fuel (cb_services demo_cab) = Suc 0" "sv_sys (cb_services demo_cab) = demo_sys"
  "cab_query 1 = Some q1" "query_tables q1 = [Lineitem]" "cb_paths demo_cab Lineitem = demo_lineitem"
  by (simp_all add: demo_cab_def demo_services_def cab_query_def q1_def query_tables_def demo_lineitem_def)


lemma analytical_query_quiet_witness:
  "\<exists>c'. start_query demo_cab (Suc 2) 1 [False, False, False] demo_cab_store = Some (True, c') \<and> quiet demo_cab_store c'"
proof -
  from query_succeeds [OF demo_cab_fields(3) demo_cab_store(1) demo_cab_fields(1), of 2] obtain c' where
    c: "start_query demo_cab (Suc 2) 1 [False, False, False] demo_cab_store = Some (True, c')"
    using demo_cab_log by (auto simp: demo_cab_fields)
  from analytical_query_quiet [OF demo_cab_fields(3) c] c show ?thesis by blast
qed

text \<open>The commit with one file of a known size, and the client that updates the table.\<close>

definition demo_add :: json where
  "demo_add = JObject [(''add'', JObject [(''path'', JString ''a''), (''size'', JInt 3)])]"

definition demo_sized_commit :: string where "demo_sized_commit = sample_write demo_add @ [newline]"

definition demo_update_store :: connector where
  "demo_update_store = store (version_path ''t/'' 0) demo_sized_commit demo_connector"

definition demo_update_cab :: "int cab" where
  "demo_update_cab = demo_cab\<lparr>cb_defaults := (cb_defaults demo_cab)\<lparr>default_protocol := default_options\<lparr>checkpoints := False\<rparr>\<rparr>\<rparr>"

definition demo_updater :: manager where
  "demo_updater = manager_new [] ''t/'' demo_update_store 7 (cb_defaults demo_update_cab)"

lemma demo_sized_lines: "json_objects sample_parse demo_sized_commit = [demo_add]"
  using json_objects_lines [OF sample_codec, of "[demo_add]"]
  by (simp add: demo_sized_commit_def demo_add_def del: sample_write.simps)

lemma demo_replay:
  assumes "dl_files l = []"
  shows "\<exists>e. dl_files (replay demo_sys (\<lambda>_. demo_sized_commit) [0..<1] l) = [(''a'', e)] \<and> e_operation e = ADD \<and> e_size e = 3"
    and "dl_base_path (replay demo_sys (\<lambda>_. demo_sized_commit) [0..<1] l) = dl_base_path l"
proof -
  have m: "member_object ''add'' demo_add = Some (JObject [(''path'', JString ''a''), (''size'', JInt 3)])"
    "member_object ''metaData'' demo_add = None" "member_object ''protocol'' demo_add = None" "member_object ''txn'' demo_add = None"
    "member_object ''domainMetadata'' demo_add = None" "member_object ''remove'' demo_add = None"
    by (simp_all add: demo_add_def member_object_def)
  have r: "replay demo_sys (\<lambda>_. demo_sized_commit) [0..<1] l = register_action ''a''
      (from_action (sy_parse demo_sys) (sy_write demo_sys) ADD (JObject [(''path'', JString ''a''), (''size'', JInt 3)]) 0) l"
    by (simp add: replay_def demo_sys_def demo_sized_lines apply_log_action_def apply_metadata_def apply_protocol_def
        apply_txn_def apply_domain_def apply_add_def apply_remove_def m member_string_def c_str_def)
  show "\<exists>e. dl_files (replay demo_sys (\<lambda>_. demo_sized_commit) [0..<1] l) = [(''a'', e)] \<and> e_operation e = ADD \<and> e_size e = 3"
    "dl_base_path (replay demo_sys (\<lambda>_. demo_sized_commit) [0..<1] l) = dl_base_path l"
    unfolding r using assms
    by (simp_all add: register_action_def from_action_def entry_with_stats_def member_string_def member_int64_def entry_of_def in_int64_def Let_def)
qed

lemma demo_update_store:
  "calm_store demo_update_store" "contents demo_update_store = [version_path ''t/'' 0 \<mapsto> demo_sized_commit]"
proof -
  have c: "conn demo_manager = demo_connector" by (simp add: demo_manager_def manager_new_def)
  have e: "contents demo_connector = Map.empty" using demo_manager_calm(3) unfolding c by (intro ext)
  have "calm_store demo_connector" using demo_manager_calm(1) unfolding c .
  from contents_store [OF this, of "version_path ''t/'' 0" demo_sized_commit]
  show "calm_store demo_update_store" "contents demo_update_store = [version_path ''t/'' 0 \<mapsto> demo_sized_commit]"
    unfolding demo_update_store_def e by blast+
qed

lemma demo_updater:
  "ready (contents demo_update_store) demo_updater" "m_base_path demo_updater = ''t/''" "\<not> checkpoints (options demo_updater)"
  using demo_update_store(1)
  by (simp_all add: ready_def unmarked_def demo_updater_def manager_new_def level_of_def demo_update_cab_def)

lemma demo_update_log: "plain_log ''t/'' 1 (\<lambda>_. demo_sized_commit) (contents demo_update_store)"
  "no_marker demo_sys demo_sized_commit"
proof -
  have "version_path ''t/'' 1 \<noteq> version_path ''t/'' 0" using version_path_inj [of "''t/''" 1 0] by auto
  then show "plain_log ''t/'' 1 (\<lambda>_. demo_sized_commit) (contents demo_update_store)"
    by (simp add: plain_log_def demo_update_store)
  have "sy_parse demo_sys = sample_parse" by (simp add: demo_sys_def)
  then show "no_marker demo_sys demo_sized_commit"
    by (simp add: no_marker_def demo_sized_lines) (simp add: demo_add_def has_member_def)
qed

lemma demo_update_fields:
  "sv_fuel (cb_services demo_update_cab) = Suc 0" "sv_sys (cb_services demo_update_cab) = demo_sys" "cb_rounds demo_update_cab = 1"
  "cb_pick demo_update_cab k = 0"
  by (simp_all add: demo_update_cab_def demo_cab_def demo_services_def)

lemma touched_table_fields:
  "t_committed (touched_table p b t) = t_committed t" "t_marker (touched_table p b t) = t_marker t"
  "t_concurrent_removes (touched_table p b t) = t_concurrent_removes t"
  "t_concurrent_change (touched_table p b t) = t_concurrent_change t"
  by (simp_all add: touched_table_def created_file_def deleted_file_def Let_def)

text \<open>A table that was read and touched commits when the name of its next version is free.\<close>

lemma touch_commits:
  assumes r: "ready objs m" and m: "tables m = [t]" "storage_retries m = Suc k" "\<not> checkpoints (options m)"
    and t: "write_set t = (base, [], [], False)" "read_table_state sy n text t" "objs (version_path base n) = None"
    and p: "path \<in> set (get_list (t_delta_log t))" "path \<noteq> []" "sized (t_delta_log t)" and f: "sv_fuel sv = Suc j"
  shows "\<exists>m'. commit sv fu 1 False (touch_file 0 path m) = Some (True, m')"
proof -
  let ?m = "touch_file 0 path m" and ?t = "touched_table path (explicit_log m) t"
  have l: "\<not> level0 m" "\<not> level1 m" "\<not> level2 m" using r unmarked_levels by (auto simp: ready_def)
  have eq: "?m = m\<lparr>tables := [?t]\<rparr>" by (rule touch_file_table [OF l(1) m(1) p])
  have mf: "tables ?m = [?t]" "\<not> level0 ?m" "\<not> level1 ?m" "\<not> level2 ?m" "storage_retries ?m = Suc k"
    unfolding eq using l m(2) by simp_all
  note ch = touched_table_changes [OF t(1) p(1), of "explicit_log m"]
  have base: "t_base_path t = base" using t(1) by (simp add: write_set_def)
  have tf: "\<not> t_committed ?t" "t_marker ?t = Some (set_invalid (marker_new (version_path base n) [] 0))"
    "t_concurrent_removes ?t = []" "\<not> t_concurrent_change ?t"
    using t(1,2) base unfolding touched_table_fields read_table_state_def by (simp_all add: write_set_def)
  have "changed ?t" using ch by (simp add: changed_def)
  show ?thesis
  proof (rule one_table_commit [OF mf \<open>changed ?t\<close> tf(1,2) _ tf(3,4) _ _ f])
    show "build_commit_log (sv_sys sv) (?m\<lparr>conn := c\<rparr>) ?t now \<noteq> None" for c now
      using ch by (simp add: build_commit_log_def log_files_def createOperationAddEntry_def add_action_def file_stats_new_def no_statistics_def)
    show "fst (fst (mc_write_atomic (version_path base n) log (snd (local_time_ms (conn ?m))))) = Ok" for log
    proof -
      obtain x c where lt: "local_time_ms (conn m) = (x, c)" by (metis surj_pair)
      have "calm_store (conn m)" "contents (conn m) = objs" using r by (simp_all add: ready_def)
      with calm_store_quiet [OF local_time_quiet [OF lt]] t(3)
      have c: "calm_store c" "mc_get (version_path base n) c = None" by (auto simp: contents_def fun_eq_iff)
      obtain st et c4 where "mc_write_atomic (version_path base n) log c = ((st, et), c4)" by (metis prod.collapse)
      with calm_create [OF c(1) this] c(2) lt show ?thesis by (simp add: eq)
    qed
    show "parse_log_version (version_path base n) = Inr None \<or> \<not> checkpoints (options ?m)" using m(3) by (simp add: eq)
  qed
qed

lemma demo_update_begun:
  obtains m1 t where "cab_begin demo_update_cab 0 demo_updater = Some (True, m1)" "tables m1 = [t]"
    "ready (contents demo_update_store) m1" "storage_retries m1 = Suc 7" "\<not> checkpoints (options m1)"
    "write_set t = (''t/'', [], [], False)" "read_table_state demo_sys 1 (\<lambda>_. demo_sized_commit) t"
    "get_list (t_delta_log t) = [''t/a'']" "sized (t_delta_log t)"
proof -
  let ?cb = demo_update_cab and ?m = demo_updater
  have u: "unmarked ?m" using demo_updater(1) by (simp add: ready_def)
  from begin_plain [OF demo_updater(1), of 1 "\<lambda>_. demo_sized_commit" demo_sys "sv_parquet (cb_services ?cb)" 0 "cb_random ?cb 0"]
    demo_update_log
  obtain m1 t where b: "cab_begin ?cb 0 ?m = Some (True, m1)" "tables m1 = [t]" "options m1 = options ?m"
    and t: "t_base_path t = ''t/''" "read_table_state demo_sys 1 (\<lambda>_. demo_sized_commit) t"
    by (auto simp: cab_begin_def demo_update_fields demo_updater(2))
  from t(2) obtain l where l: "dl_files l = []" "dl_base_path l = t_base_path t"
    "t_delta_log t = replay demo_sys (\<lambda>_. demo_sized_commit) [0..<1] l" unfolding read_table_state_def by blast
  from demo_replay [OF l(1)] obtain e where e: "dl_files (t_delta_log t) = [(''a'', e)]" "e_operation e = ADD" "e_size e = 3"
    and dl: "dl_base_path (t_delta_log t) = ''t/''" unfolding l(3) l(2) t(1) by blast
  note st = begin_transaction_still [OF b(1) [unfolded cab_begin_def] u]
  have "write_set t = (''t/'', [], [], False)" using st b(2) by (simp add: fresh_table_def demo_updater(2))
  moreover have "ready (contents demo_update_store) m1" using st by (auto intro: ready_still [OF demo_updater(1)])
  moreover have "storage_retries m1 = Suc 7" using st by (auto simp: still_def access_def demo_updater_def manager_new_def)
  moreover have "\<not> checkpoints (options m1)" using b(3) demo_updater(3) by simp
  moreover have "get_list (t_delta_log t) = [''t/a'']" "sized (t_delta_log t)"
    using e dl by (simp_all add: get_list_def sized_def)
  ultimately show thesis using that b t(2) by blast
qed


end
