(* ===== verification/Tpcc.thy ===== *)
theory Tpcc
  imports Cab
begin

text \<open>
  The TPC-C clients (\<open>TPC-C\<close>): the five transactions over one manager with several tables, and over one manager per
  table.  Updates remove a file and add it again; inserts add a sample file.  The results of beginning a transaction,
  reading and adding are not used by the code.  Random numbers are arguments: the drawn numbers of a transaction, the
  attempts of \<open>begin\<close>, and \<open>tp_pick i j\<close> for the \<open>j\<close>-th choice of a file in round \<open>i\<close>.  \<open>None\<close> is the end of a fuel or an
  exception.
\<close>

section \<open>The client\<close>

datatype tpcc_table = T_Warehouse | T_Stock | T_Item | T_History | T_New_Order | T_Order_Line | T_District | T_Customer | T_Order

record 'e tpcc =
  tp_services :: services
  tp_units :: "'e float_unit"
  tp_rounds :: nat
  tp_file :: "string \<Rightarrow> string"
  tp_random :: "nat \<Rightarrow> nat"
  tp_pick :: "nat \<Rightarrow> nat \<Rightarrow> nat"
  tp_defaults :: manager_defaults
  tp_paths :: "tpcc_table \<Rightarrow> string"
  tp_levels :: "bool list"

text \<open>The rows to insert, from a sample file.\<close>

definition sample_rows :: "'e tpcc \<Rightarrow> string \<Rightarrow> arrow_table option" where
  "sample_rows tp path = readParquetAsTable (sv_parquet (tp_services tp)) (tp_file tp path)"

definition generateHistory :: "'e tpcc \<Rightarrow> arrow_table option" where
  "generateHistory tp = sample_rows tp ''/LakeVilla/tpcc/sample/history.parquet''"
definition generateOrder :: "'e tpcc \<Rightarrow> arrow_table option" where
  "generateOrder tp = sample_rows tp ''/LakeVilla/tpcc/sample/order.parquet''"
definition generateNewOrder :: "'e tpcc \<Rightarrow> arrow_table option" where
  "generateNewOrder tp = sample_rows tp ''/LakeVilla/tpcc/sample/new_order.parquet''"
definition generateOrderLine :: "'e tpcc \<Rightarrow> arrow_table option" where
  "generateOrderLine tp = sample_rows tp ''/LakeVilla/tpcc/sample/order_line.parquet''"

text \<open>The calls of the manager.\<close>

definition tp_begin :: "'e tpcc \<Rightarrow> manager \<Rightarrow> (bool \<times> manager) option" where
  "tp_begin tp m =
     begin_transaction_ycsb (sv_sys (tp_services tp)) (sv_parquet (tp_services tp)) (sv_fuel (tp_services tp)) (tp_random tp) m"

definition tp_commit :: "'e tpcc \<Rightarrow> bool \<Rightarrow> manager \<Rightarrow> (bool \<times> manager) option" where
  "tp_commit tp read_only m = commit (tp_services tp) (tp_units tp) (tp_rounds tp) read_only m"

definition tp_read :: "'e tpcc \<Rightarrow> nat \<Rightarrow> manager \<Rightarrow> manager" where
  "tp_read tp i m =
     snd (read_table (sv_sys (tp_services tp)) (sv_parquet (tp_services tp)) (sv_ops (tp_services tp)) i 2 m)"

definition tp_choose :: "'e tpcc \<Rightarrow> nat \<Rightarrow> nat \<Rightarrow> string \<Rightarrow> manager \<Rightarrow> string \<times> manager" where
  "tp_choose tp i number path m =
     (let ((_, path), m) = read_random_file_as_table (sv_sys (tp_services tp)) (sv_parquet (tp_services tp))
                             (sv_ops (tp_services tp)) i number path m
      in (path, m))"

text \<open>An update with one registered pair; the manager per table does not register it.\<close>

definition tp_update :: "nat \<Rightarrow> string \<Rightarrow> manager \<Rightarrow> manager" where
  "tp_update i path m = touch_file i path (snd (register_update_pairs [(''mock'', ''mock'')] m))"

text \<open>\<open>add_file(i, rows, key, true)\<close>: \<open>true\<close> is converted to the number 1 of a registered update.\<close>

definition tp_insert :: "'e tpcc \<Rightarrow> nat \<Rightarrow> arrow_table option \<Rightarrow> manager \<Rightarrow> manager option" where
  "tp_insert tp i rows m =
     map_option snd (add_file_table (sv_sys (tp_services tp)) (sv_parquet (tp_services tp)) (sv_ops (tp_services tp))
       (sv_fuel (tp_services tp)) i rows 1 m)"

text \<open>A table more, or the transaction has failed.\<close>

definition opened ::
    "'e tpcc \<Rightarrow> tpcc_table \<Rightarrow> (manager \<Rightarrow> (bool \<times> manager) option) \<Rightarrow> manager \<Rightarrow> (bool \<times> manager) option" where
  "opened tp t k m =
     do {
       (ok, m) \<leftarrow> open_new_table (sv_sys (tp_services tp)) (sv_parquet (tp_services tp)) (sv_fuel (tp_services tp)) (tp_paths tp t) m;
       if ok then k m else Some (False, m)
     }"

section \<open>One manager for all tables\<close>

definition stock_level_samples :: "'e tpcc \<Rightarrow> manager \<Rightarrow> (bool \<times> manager) option" where
  "stock_level_samples tp m =
     (let m = snd (tp_choose tp 1 (tp_pick tp 0 0) [] m);
          m = snd (tp_choose tp 2 (tp_pick tp 0 1) [] m)
      in tp_commit tp True m)"

definition stock_level :: "'e tpcc \<Rightarrow> manager \<Rightarrow> (bool \<times> manager) option" where
  "stock_level tp m =
     do {
       (_, m) \<leftarrow> tp_begin tp m;
       opened tp T_Order_Line (opened tp T_Stock (stock_level_samples tp)) (tp_read tp 0 m)
     }"

definition order_status_reads :: "'e tpcc \<Rightarrow> manager \<Rightarrow> (bool \<times> manager) option" where
  "order_status_reads tp m = tp_commit tp True (tp_read tp 2 (tp_read tp 1 m))"

definition order_status :: "'e tpcc \<Rightarrow> manager \<Rightarrow> (bool \<times> manager) option" where
  "order_status tp m =
     do {
       (_, m) \<leftarrow> tp_begin tp m;
       opened tp T_Order (opened tp T_Order_Line (order_status_reads tp)) (tp_read tp 0 (tp_read tp 0 m))
     }"

text \<open>Rounds of a delivery, until a table has no file; the tables are new_order, order, order_line and customer.\<close>

fun delivery_loop :: "'e tpcc \<Rightarrow> nat \<Rightarrow> manager \<Rightarrow> manager" where
  "delivery_loop tp 0 m = m"
| "delivery_loop tp (Suc i) m =
     (let (path, m) = tp_choose tp 0 (tp_pick tp i 0) [] m
      in if path = [] then m
         else let m = touch_file 0 path m;
                  (order_path, m) = tp_choose tp 1 (tp_pick tp i 1) [] m
              in if order_path = [] then m
                 else let m = tp_update 1 order_path m;
                          (order_line_path, m) = tp_choose tp 2 (tp_pick tp i 2) [] m;
                          m = tp_update 2 order_line_path m;
                          m = tp_read tp 2 m;
                          (customer_path, m) = tp_choose tp 3 (tp_pick tp i 3) [] m
                      in delivery_loop tp i (tp_update 3 customer_path m))"

definition delivery :: "'e tpcc \<Rightarrow> nat \<Rightarrow> manager \<Rightarrow> (bool \<times> manager) option" where
  "delivery tp number m =
     do {
       (_, m) \<leftarrow> tp_begin tp m;
       opened tp T_Order (opened tp T_Order_Line (opened tp T_Customer (\<lambda>m.
         tp_commit tp False (delivery_loop tp number m)))) m
     }"

text \<open>The tables are warehouse, district, customer and history; \<open>by_name\<close> and \<open>bad_credit\<close> are drawn (below 51 of 100).\<close>

definition payment_history :: "'e tpcc \<Rightarrow> manager \<Rightarrow> (bool \<times> manager) option" where
  "payment_history tp m = do { m \<leftarrow> tp_insert tp 3 (generateHistory tp) m; tp_commit tp False m }"

definition payment_customer :: "'e tpcc \<Rightarrow> nat \<Rightarrow> nat \<Rightarrow> manager \<Rightarrow> (bool \<times> manager) option" where
  "payment_customer tp by_name bad_credit m =
     (let (customer_path, m) = tp_choose tp 2 (tp_pick tp 0 4) [] m;
          (customer_path, m) = (if by_name < 51 then tp_choose tp 2 (tp_pick tp 0 5) customer_path m else (customer_path, m));
          (customer_path, m) = (if bad_credit < 51 then tp_choose tp 2 (tp_pick tp 0 6) customer_path m else (customer_path, m));
          m = tp_update 2 customer_path m
      in opened tp T_History (payment_history tp) m)"

definition payment_district :: "'e tpcc \<Rightarrow> nat \<Rightarrow> nat \<Rightarrow> manager \<Rightarrow> (bool \<times> manager) option" where
  "payment_district tp by_name bad_credit m =
     (let (district_path, m) = tp_choose tp 1 (tp_pick tp 0 2) [] m;
          m = tp_update 1 district_path m;
          (district_path, m) = tp_choose tp 1 (tp_pick tp 0 3) district_path m
      in opened tp T_Customer (payment_customer tp by_name bad_credit) m)"

definition payment_warehouse :: "'e tpcc \<Rightarrow> nat \<Rightarrow> nat \<Rightarrow> manager \<Rightarrow> (bool \<times> manager) option" where
  "payment_warehouse tp by_name bad_credit m =
     (let (path, m) = tp_choose tp 0 (tp_pick tp 0 0) [] m;
          m = tp_update 0 path m;
          (path, m) = tp_choose tp 0 (tp_pick tp 0 1) path m
      in opened tp T_District (payment_district tp by_name bad_credit) m)"

definition payment :: "'e tpcc \<Rightarrow> nat \<Rightarrow> nat \<Rightarrow> manager \<Rightarrow> (bool \<times> manager) option" where
  "payment tp by_name bad_credit m = do { (_, m) \<leftarrow> tp_begin tp m; payment_warehouse tp by_name bad_credit m }"

text \<open>The tables are customer, warehouse, district, order, new_order, item, stock and order_line.\<close>

fun order_lines :: "'e tpcc \<Rightarrow> nat \<Rightarrow> manager \<Rightarrow> manager option" where
  "order_lines tp 0 m = Some m"
| "order_lines tp (Suc i) m =
     (let m = snd (tp_choose tp 5 (tp_pick tp i 0) [] m);
          (stock_path, m) = tp_choose tp 6 (tp_pick tp i 1) [] m;
          m = tp_update 6 stock_path m
      in do { m \<leftarrow> tp_insert tp 7 (generateOrderLine tp) m; order_lines tp i m })"

definition new_order_lines :: "'e tpcc \<Rightarrow> nat \<Rightarrow> manager \<Rightarrow> (bool \<times> manager) option" where
  "new_order_lines tp number m = do { m \<leftarrow> order_lines tp number m; tp_commit tp False m }"

definition new_order_inserts :: "'e tpcc \<Rightarrow> nat \<Rightarrow> manager \<Rightarrow> (bool \<times> manager) option" where
  "new_order_inserts tp number m =
     do {
       m \<leftarrow> tp_insert tp 3 (generateOrder tp) m;
       opened tp T_New_Order (\<lambda>m. do {
         m \<leftarrow> tp_insert tp 4 (generateNewOrder tp) m;
         opened tp T_Item (opened tp T_Stock (opened tp T_Order_Line (new_order_lines tp number))) m
       }) m
     }"

definition new_order_district :: "'e tpcc \<Rightarrow> nat \<Rightarrow> manager \<Rightarrow> (bool \<times> manager) option" where
  "new_order_district tp number m =
     (let (district_path, m) = tp_choose tp 2 (tp_pick tp number 0) [] m;
          m = tp_update 2 district_path m
      in opened tp T_Order (new_order_inserts tp number) m)"

definition new_order_reads :: "'e tpcc \<Rightarrow> nat \<Rightarrow> manager \<Rightarrow> (bool \<times> manager) option" where
  "new_order_reads tp number m = opened tp T_District (new_order_district tp number) (tp_read tp 1 (tp_read tp 0 m))"

definition new_order :: "'e tpcc \<Rightarrow> nat \<Rightarrow> manager \<Rightarrow> (bool \<times> manager) option" where
  "new_order tp number m = do { (_, m) \<leftarrow> tp_begin tp m; opened tp T_Warehouse (new_order_reads tp number) m }"

text \<open>The choice of the transaction; the manager is made for its first table and destroyed at the end.  \<open>draws\<close> are the
  numbers drawn inside the transaction.\<close>

definition tpcc_transaction ::
    "'e tpcc \<Rightarrow> nat \<Rightarrow> nat \<times> nat \<Rightarrow> tpcc_table \<times> (manager \<Rightarrow> (bool \<times> manager) option)" where
  "tpcc_transaction tp number draws =
     (if number < 4 then (T_District, stock_level tp)
      else if number < 9 then (T_New_Order, delivery tp (fst draws))
      else if number < 13 then (T_Customer, order_status tp)
      else if number < 56 then (T_Warehouse, payment tp (fst draws) (snd draws))
      else (T_Customer, new_order tp (fst draws)))"

definition executeOne ::
    "'e tpcc \<Rightarrow> nat \<Rightarrow> nat \<times> nat \<Rightarrow> nat \<Rightarrow> nat \<Rightarrow> connector \<Rightarrow> ((bool \<times> nat) \<times> connector) option" where
  "executeOne tp number draws txn aborts c =
     (let (first, body) = tpcc_transaction tp number draws
      in map_option (\<lambda>(ok, m).
           ((ok, if ok then aborts else u32 (aborts + 1)), conn (clear_tables (sv_sys (tp_services tp)) m)))
           (body (manager_new (tp_levels tp) (tp_paths tp first) c txn (tp_defaults tp))))"

section \<open>One manager per table\<close>

text \<open>The store and the managers in the order they are made; each has a connector of its own.\<close>

type_synonym fleet = "mem_store \<times> manager list"

definition on_nth :: "nat \<Rightarrow> (manager \<Rightarrow> ('a \<times> manager) option) \<Rightarrow> fleet \<Rightarrow> ('a \<times> fleet) option" where
  "on_nth k f = (\<lambda>(s, ms).
     (if k < length ms then map_option (\<lambda>(x, m). (x, mem (conn m), ms[k := m])) (f (at_store s (ms ! k))) else None))"

definition nth_update :: "nat \<Rightarrow> (manager \<Rightarrow> manager) \<Rightarrow> fleet \<Rightarrow> fleet option" where
  "nth_update k f st = map_option snd (on_nth k (\<lambda>m. Some ((), f m)) st)"

text \<open>A manager for a table, and its begin.\<close>

definition start_manager :: "'e tpcc \<Rightarrow> connector \<Rightarrow> (nat \<Rightarrow> nat) \<Rightarrow> tpcc_table \<Rightarrow> fleet \<Rightarrow> fleet option" where
  "start_manager tp c txn t = (\<lambda>(s, ms).
     map_option (\<lambda>(_, m). (mem (conn m), ms @ [m]))
       (tp_begin tp (manager_new (tp_levels tp) (tp_paths tp t) (c\<lparr>mem := s\<rparr>) (txn (length ms)) (tp_defaults tp))))"

definition choose_nth :: "'e tpcc \<Rightarrow> nat \<Rightarrow> nat \<Rightarrow> string \<Rightarrow> fleet \<Rightarrow> (string \<times> fleet) option" where
  "choose_nth tp k number path = on_nth k (\<lambda>m. Some (tp_choose tp 0 number path m))"

text \<open>A file is chosen, removed and added again.\<close>

definition touch_nth :: "'e tpcc \<Rightarrow> nat \<Rightarrow> nat \<Rightarrow> fleet \<Rightarrow> (string \<times> fleet) option" where
  "touch_nth tp k number st =
     do { (path, st) \<leftarrow> choose_nth tp k number [] st; st \<leftarrow> nth_update k (touch_file 0 path) st; Some (path, st) }"

definition insert_nth :: "'e tpcc \<Rightarrow> nat \<Rightarrow> arrow_table option \<Rightarrow> fleet \<Rightarrow> fleet option" where
  "insert_nth tp k rows st = map_option snd (on_nth k (\<lambda>m. map_option (\<lambda>m. ((), m)) (tp_insert tp 0 rows m)) st)"

text \<open>Every manager commits, also after one has failed; the list says which commits are read-only.\<close>

fun commit_all :: "'e tpcc \<Rightarrow> nat \<Rightarrow> bool list \<Rightarrow> fleet \<Rightarrow> (bool \<times> fleet) option" where
  "commit_all tp k [] st = Some (True, st)"
| "commit_all tp k (read_only # rest) st =
     do {
       (ok, st) \<leftarrow> on_nth k (tp_commit tp read_only) st;
       (all_ok, st) \<leftarrow> commit_all tp (k + 1) rest st;
       Some (ok \<and> all_ok, st)
     }"

definition close_fleet :: "'e tpcc \<Rightarrow> fleet \<Rightarrow> mem_store" where
  "close_fleet tp = (\<lambda>(s, ms).
     fold (\<lambda>m s. mem (conn (clear_tables (sv_sys (tp_services tp)) (at_store s m)))) (rev ms) s)"

definition stock_level_single :: "'e tpcc \<Rightarrow> connector \<Rightarrow> (nat \<Rightarrow> nat) \<Rightarrow> fleet \<Rightarrow> (bool \<times> fleet) option" where
  "stock_level_single tp c txn st =
     do {
       st \<leftarrow> start_manager tp c txn T_District st;
       st \<leftarrow> nth_update 0 (tp_read tp 0) st;
       st \<leftarrow> start_manager tp c txn T_Order_Line st;
       st \<leftarrow> start_manager tp c txn T_Stock st;
       (_, st) \<leftarrow> choose_nth tp 1 (tp_pick tp 0 0) [] st;
       (_, st) \<leftarrow> choose_nth tp 2 (tp_pick tp 0 1) [] st;
       commit_all tp 0 [True, True, True] st
     }"

definition order_status_single :: "'e tpcc \<Rightarrow> connector \<Rightarrow> (nat \<Rightarrow> nat) \<Rightarrow> fleet \<Rightarrow> (bool \<times> fleet) option" where
  "order_status_single tp c txn st =
     do {
       st \<leftarrow> start_manager tp c txn T_Customer st;
       st \<leftarrow> nth_update 0 (\<lambda>m. tp_read tp 0 (tp_read tp 0 m)) st;
       st \<leftarrow> start_manager tp c txn T_Order st;
       st \<leftarrow> start_manager tp c txn T_Order_Line st;
       st \<leftarrow> nth_update 1 (tp_read tp 0) st;
       st \<leftarrow> nth_update 2 (tp_read tp 0) st;
       commit_all tp 0 [True, True, True] st
     }"

text \<open>The managers are those of new_order, order, order_line and customer.\<close>

fun delivery_single_loop :: "'e tpcc \<Rightarrow> nat \<Rightarrow> fleet \<Rightarrow> fleet option" where
  "delivery_single_loop tp 0 st = Some st"
| "delivery_single_loop tp (Suc i) st =
     do {
       (path, st) \<leftarrow> choose_nth tp 0 (tp_pick tp i 0) [] st;
       if path = [] then Some st
       else do {
         st \<leftarrow> nth_update 0 (touch_file 0 path) st;
         (order_path, st) \<leftarrow> choose_nth tp 1 (tp_pick tp i 1) [] st;
         if order_path = [] then Some st
         else do {
           st \<leftarrow> nth_update 1 (touch_file 0 order_path) st;
           (_, st) \<leftarrow> touch_nth tp 2 (tp_pick tp i 2) st;
           st \<leftarrow> nth_update 1 (tp_read tp 0) st;
           (_, st) \<leftarrow> touch_nth tp 3 (tp_pick tp i 3) st;
           delivery_single_loop tp i st
         }
       }
     }"

definition delivery_single :: "'e tpcc \<Rightarrow> connector \<Rightarrow> (nat \<Rightarrow> nat) \<Rightarrow> nat \<Rightarrow> fleet \<Rightarrow> (bool \<times> fleet) option" where
  "delivery_single tp c txn number st =
     do {
       st \<leftarrow> start_manager tp c txn T_New_Order st;
       st \<leftarrow> start_manager tp c txn T_Order st;
       st \<leftarrow> start_manager tp c txn T_Order_Line st;
       st \<leftarrow> start_manager tp c txn T_Customer st;
       st \<leftarrow> delivery_single_loop tp number st;
       commit_all tp 0 [False, False, False, False] st
     }"

definition payment_single :: "'e tpcc \<Rightarrow> connector \<Rightarrow> (nat \<Rightarrow> nat) \<Rightarrow> nat \<Rightarrow> nat \<Rightarrow> fleet \<Rightarrow> (bool \<times> fleet) option" where
  "payment_single tp c txn by_name bad_credit st =
     do {
       st \<leftarrow> start_manager tp c txn T_Warehouse st;
       (path, st) \<leftarrow> touch_nth tp 0 (tp_pick tp 0 0) st;
       (_, st) \<leftarrow> choose_nth tp 0 (tp_pick tp 0 1) path st;
       st \<leftarrow> start_manager tp c txn T_District st;
       (path, st) \<leftarrow> touch_nth tp 1 (tp_pick tp 0 2) st;
       (_, st) \<leftarrow> choose_nth tp 1 (tp_pick tp 0 3) path st;
       st \<leftarrow> start_manager tp c txn T_Customer st;
       (path, st) \<leftarrow> choose_nth tp 2 (tp_pick tp 0 4) [] st;
       (path, st) \<leftarrow> (if by_name < 51 then choose_nth tp 2 (tp_pick tp 0 5) path st else Some (path, st));
       (path, st) \<leftarrow> (if bad_credit < 51 then choose_nth tp 2 (tp_pick tp 0 6) path st else Some (path, st));
       st \<leftarrow> nth_update 2 (touch_file 0 path) st;
       st \<leftarrow> start_manager tp c txn T_History st;
       st \<leftarrow> insert_nth tp 3 (generateHistory tp) st;
       commit_all tp 0 [False, False, False, False] st
     }"

text \<open>The managers are those of customer, warehouse, district, order, new_order, item, stock and order_line.\<close>

fun order_lines_single :: "'e tpcc \<Rightarrow> nat \<Rightarrow> fleet \<Rightarrow> fleet option" where
  "order_lines_single tp 0 st = Some st"
| "order_lines_single tp (Suc i) st =
     do {
       (_, st) \<leftarrow> choose_nth tp 5 (tp_pick tp i 0) [] st;
       (_, st) \<leftarrow> touch_nth tp 6 (tp_pick tp i 1) st;
       st \<leftarrow> insert_nth tp 7 (generateOrderLine tp) st;
       order_lines_single tp i st
     }"

definition new_order_single :: "'e tpcc \<Rightarrow> connector \<Rightarrow> (nat \<Rightarrow> nat) \<Rightarrow> nat \<Rightarrow> fleet \<Rightarrow> (bool \<times> fleet) option" where
  "new_order_single tp c txn number st =
     do {
       st \<leftarrow> start_manager tp c txn T_Customer st;
       st \<leftarrow> start_manager tp c txn T_Warehouse st;
       st \<leftarrow> nth_update 0 (tp_read tp 0) st;
       st \<leftarrow> nth_update 1 (tp_read tp 0) st;
       st \<leftarrow> start_manager tp c txn T_District st;
       (_, st) \<leftarrow> touch_nth tp 2 (tp_pick tp number 0) st;
       st \<leftarrow> start_manager tp c txn T_Order st;
       st \<leftarrow> insert_nth tp 3 (generateOrder tp) st;
       st \<leftarrow> start_manager tp c txn T_New_Order st;
       st \<leftarrow> insert_nth tp 4 (generateNewOrder tp) st;
       st \<leftarrow> start_manager tp c txn T_Item st;
       st \<leftarrow> start_manager tp c txn T_Stock st;
       st \<leftarrow> start_manager tp c txn T_Order_Line st;
       st \<leftarrow> order_lines_single tp number st;
       commit_all tp 0 [True, True, False, False, False, True, False, False] st
     }"

definition executeOne_single ::
    "'e tpcc \<Rightarrow> connector \<Rightarrow> (nat \<Rightarrow> nat) \<Rightarrow> nat \<Rightarrow> nat \<times> nat \<Rightarrow> nat \<Rightarrow> mem_store \<Rightarrow> ((bool \<times> nat) \<times> mem_store) option" where
  "executeOne_single tp c txn number draws aborts s =
     map_option (\<lambda>(ok, st). ((ok, if ok then aborts else u32 (aborts + 1)), close_fleet tp st))
       (if number < 4 then stock_level_single tp c txn (s, [])
        else if number < 9 then delivery_single tp c txn (fst draws) (s, [])
        else if number < 13 then order_status_single tp c txn (s, [])
        else if number < 56 then payment_single tp c txn (fst draws) (snd draws) (s, [])
        else new_order_single tp c txn (fst draws) (s, []))"

section \<open>Which table is which\<close>

text \<open>The tables of a manager without markers are those of \<open>ts\<close>, and those outside \<open>W\<close> have no changes.\<close>

definition placed :: "(tpcc_table \<Rightarrow> string) \<Rightarrow> nat set \<Rightarrow> tpcc_table list \<Rightarrow> manager \<Rightarrow> bool" where
  "placed P W ts m \<longleftrightarrow> unmarked m \<and> map t_base_path (tables m) = map P ts
     \<and> (\<forall>i < length ts. i \<notin> W \<longrightarrow> write_set (tables m ! i) = (P (ts ! i), [], [], False))"

lemma layout_level: "placed P W ts m \<Longrightarrow> \<not> level0 m" using unmarked_levels by (auto simp: placed_def)

lemma layout_update [simp]:
  "placed P W ts (m\<lparr>conn := c\<rparr>) = placed P W ts m" "placed P W ts (m\<lparr>update_vals := vs\<rparr>) = placed P W ts m"
  by (simp_all add: placed_def)

lemma layout_set_table:
  assumes m: "placed P W ts m" and i: "i < length (tables m)"
    and t: "t_base_path t = t_base_path (tables m ! i)" "t_marker t = t_marker (tables m ! i)"
      "i \<in> W \<or> write_set t = write_set (tables m ! i)"
  shows "placed P W ts (set_table i t m)"
proof -
  have "length (tables m) = length ts" using m unfolding placed_def by (metis length_map)
  moreover have "map t_base_path ((tables m)[i := t]) = map t_base_path (tables m)"
    using i t(1) by (simp add: map_update list_update_same_conv)
  ultimately show ?thesis using m i t(2,3)
    by (auto simp: placed_def unmarked_def set_table_def no_live_marker_def list_all_length nth_list_update)
qed

lemma layout_append:
  assumes "placed P W ts m" "no_live_marker t" "write_set t = (P x, [], [], False)"
  shows "placed P W (ts @ [x]) (m\<lparr>tables := tables m @ [t]\<rparr>)"
proof -
  have "length (tables m) = length ts" using assms(1) unfolding placed_def by (metis length_map)
  with assms show ?thesis
    by (auto simp: placed_def unmarked_def nth_append write_set_def less_Suc_eq)
qed

lemma add_substep_level: "\<not> level0 m \<Longrightarrow> add_substep f ty i k m = (True, m)" by (simp add: add_substep_def)

lemma layout_for_read: "placed P W ts m \<Longrightarrow> get_table_for_read i m = (t, m') \<Longrightarrow> placed P W ts m'"
  by (auto simp: get_table_for_read_def get_table_def Let_def write_set_def split: if_splits intro!: layout_set_table)

lemma layout_conn: "with_conn f m = (r, m') \<Longrightarrow> placed P W ts m' = placed P W ts m"
  by (auto simp: with_conn_def split: prod.splits)

lemma layout_read: "placed P W ts m \<Longrightarrow> placed P W ts (tp_read tp i m)"
proof -
  assume m: "placed P W ts m"
  obtain t m1 where g: "get_table_for_read i m = (t, m1)" by (metis surj_pair)
  from layout_for_read [OF m g] g show ?thesis
    by (auto simp: tp_read_def read_table_def Let_def layout_conn split: option.splits prod.splits)
qed

lemma layout_choose: "placed P W ts m \<Longrightarrow> tp_choose tp i k path m = (path', m') \<Longrightarrow> placed P W ts m'"
proof -
  assume m: "placed P W ts m" and c: "tp_choose tp i k path m = (path', m')"
  obtain t m1 where g: "get_table_for_read i m = (t, m1)" by (metis surj_pair)
  note l = layout_for_read [OF m g]
  from l c g layout_level [OF l] show ?thesis
    by (auto simp: tp_choose_def read_random_file_as_table_def random_file_def add_substep_level Let_def layout_conn
        split: option.splits prod.splits if_splits)
qed

lemma layout_on_table:
  assumes "placed P W ts m" "i \<in> W" "i < length (tables m)"
    and "\<And>t. t_base_path (f t) = t_base_path t" "\<And>t. t_marker (f t) = t_marker t"
  shows "placed P W ts (on_table i f m)"
  unfolding on_table_def by (rule layout_set_table [OF assms(1,3)]) (use assms in simp_all)

lemma changes_keep:
  "t_base_path (created_file f b t) = t_base_path t" "t_marker (created_file f b t) = t_marker t"
  "t_base_path (deleted_file p t) = t_base_path t" "t_marker (deleted_file p t) = t_marker t"
  by (simp_all add: created_file_def deleted_file_def)

lemma layout_remove: "placed P W ts m \<Longrightarrow> i \<in> W \<Longrightarrow> placed P W ts (snd (remove_file_path i path u32_max m))"
  using layout_level [of P W ts m]
  by (auto simp: remove_file_path_def get_table_def register_deleted_file_def log_delete_substep_def add_substep_level
      changes_keep Let_def split: if_splits intro!: layout_on_table)

lemma layout_created: "placed P W ts m \<Longrightarrow> i \<in> W \<Longrightarrow> i < length (tables m) \<Longrightarrow> placed P W ts (register_created_file i f b m)"
  unfolding register_created_file_def by (rule layout_on_table) (simp_all add: changes_keep)

lemma layout_add: "placed P W ts m \<Longrightarrow> i \<in> W \<Longrightarrow> placed P W ts (snd (add_file_path i path b u32_max m))"
proof -
  assume m: "placed P W ts m" and i: "i \<in> W"
  obtain len m1 where l: "listed_size path m = (len, m1)" by (metis surj_pair)
  then have "\<exists>c. m1 = m\<lparr>conn := c\<rparr>" by (auto simp: listed_size_def with_conn_def split: prod.splits)
  then show ?thesis using m i layout_level [OF m] l
    by (auto simp: add_file_path_def get_table_def log_add_substep_def add_substep_level Let_def
        split: if_splits intro!: layout_created)
qed

lemma layout_touch: "placed P W ts m \<Longrightarrow> i \<in> W \<Longrightarrow> placed P W ts (touch_file i path m)"
  by (simp add: touch_file_def layout_add layout_remove)

lemma layout_tp_update: "placed P W ts m \<Longrightarrow> i \<in> W \<Longrightarrow> placed P W ts (tp_update i path m)"
  by (simp add: tp_update_def register_update_pairs_def layout_touch)

lemma layout_insert:
  assumes "tp_insert tp i rows m = Some m'" "placed P W ts m" "i \<in> W"
  shows "placed P W ts m'"
  using assms layout_level [OF assms(2)]
  by (auto simp: tp_insert_def add_file_table_def get_table_def both_def log_add_substep_def Let_def with_conn_def add_substep_level
      split: option.splits if_splits prod.splits dest!: new_data_file_path_free intro!: layout_created)

lemma open_new_table_appends:
  assumes o: "open_new_table sy pq n path m = Some (True, m')" and u: "unmarked m"
  shows "\<exists>m1 t. m' = m1\<lparr>tables := tables m @ [t]\<rparr> \<and> still m m1 \<and> no_live_marker t \<and> write_set t = (path, [], [], False)"
proof -
  have l: "open_loop k sy pq n path m = Some (Some t, m1) \<Longrightarrow> unmarked m \<Longrightarrow>
      still m m1 \<and> no_live_marker t \<and> tables m1 = tables m \<and> write_set t = (path, [], [], False)" for k m t m1
  proof (induction k arbitrary: m)
    case (Suc k)
    from Suc.prems obtain t1 m2 where o: "open_tableV2 sy pq n path 2 m = Some (t1, m2)" by (auto split: option.splits)
    note q = open_tableV2_still [OF o Suc.prems(2)]
    with Suc.prems(2) have "unmarked m2" by (simp add: still_def)
    with Suc.prems(1) o q Suc.IH [of m2] show ?case by (auto split: option.splits intro: still_trans)
  qed simp
  from o obtain t m1 where "open_loop 5 sy pq n path m = Some (Some t, m1)" "m' = m1\<lparr>tables := tables m1 @ [t]\<rparr>"
    by (auto simp: open_new_table_def split: option.splits)
  with l [OF this(1) u] show ?thesis by auto
qed

lemma layout_opened:
  assumes "opened tp t k m = Some (True, m')" "placed (tp_paths tp) W ts m"
  obtains m1 where "placed (tp_paths tp) W (ts @ [t]) m1" "k m1 = Some (True, m')"
proof -
  from assms(1) obtain m1 where o: "open_new_table (sv_sys (tp_services tp)) (sv_parquet (tp_services tp))
      (sv_fuel (tp_services tp)) (tp_paths tp t) m = Some (True, m1)" and k: "k m1 = Some (True, m')"
    by (auto simp: opened_def split: bind_splits if_splits)
  have u: "unmarked m" using assms(2) by (simp add: placed_def)
  from open_new_table_appends [OF o u] obtain m2 t' where m1: "m1 = m2\<lparr>tables := tables m @ [t']\<rparr>" "still m m2"
    "no_live_marker t'" "write_set t' = (tp_paths tp t, [], [], False)" by blast
  have "placed (tp_paths tp) W (ts @ [t]) (m\<lparr>tables := tables m @ [t']\<rparr>)"
    by (rule layout_append [OF assms(2)]) (use m1 in simp_all)
  moreover have "unmarked m2" using u m1(2) by (simp add: still_def)
  ultimately have "placed (tp_paths tp) W (ts @ [t]) m1" unfolding m1(1) by (simp add: placed_def unmarked_def)
  from that [OF this k] show thesis .
qed

lemma layout_begin:
  assumes "tp_begin tp m = Some (True, m1)" "unmarked m" "m_base_path m = tp_paths tp t"
  shows "placed (tp_paths tp) W [t] m1"
  using begin_transaction_still [OF assms(1) [unfolded tp_begin_def] assms(2)] assms(2,3)
  by (auto simp: placed_def fresh_table_def still_def write_set_def)

section \<open>The five transactions\<close>

text \<open>What a transaction has done when it reaches its commit, and the commit succeeds; and a part of a transaction
  that gets there from the tables \<open>ts\<close>.\<close>

definition ends_in :: "'e tpcc \<Rightarrow> nat set \<Rightarrow> tpcc_table list \<Rightarrow> bool \<Rightarrow> manager \<Rightarrow> bool" where
  "ends_in tp W ts read_only m' \<longleftrightarrow>
     (\<exists>m2. placed (tp_paths tp) W ts m2 \<and> tp_commit tp read_only m2 = Some (True, m'))"

definition reaches ::
    "'e tpcc \<Rightarrow> nat set \<Rightarrow> tpcc_table list \<Rightarrow> tpcc_table list \<Rightarrow> bool \<Rightarrow> (manager \<Rightarrow> (bool \<times> manager) option) \<Rightarrow> bool" where
  "reaches tp W ts all read_only body \<longleftrightarrow>
     (\<forall>m m'. placed (tp_paths tp) W ts m \<longrightarrow> body m = Some (True, m') \<longrightarrow> ends_in tp W all read_only m')"

lemma ends_inI: "tp_commit tp ro m2 = Some (True, m') \<Longrightarrow> placed (tp_paths tp) W ts m2 \<Longrightarrow> ends_in tp W ts ro m'"
  by (auto simp: ends_in_def)

lemma reaches_opened: "reaches tp W ts' all ro k \<Longrightarrow> ts' = ts @ [t] \<Longrightarrow> reaches tp W ts all ro (opened tp t k)"
  unfolding reaches_def by (blast elim: layout_opened)

lemma reachesD: "reaches tp W ts all ro body \<Longrightarrow> body m = Some (True, m') \<Longrightarrow> placed (tp_paths tp) W ts m \<Longrightarrow> ends_in tp W all ro m'"
  by (simp add: reaches_def)

lemmas layout_chosen = layout_choose [OF _ prod.collapse [symmetric]]
lemmas layout_intros = layout_read layout_touch layout_tp_update layout_chosen

lemma stock_level_reaches:
  "reaches tp {} [T_District] [T_District, T_Order_Line, T_Stock] True (opened tp T_Order_Line (opened tp T_Stock (stock_level_samples tp)))"
  by (rule reaches_opened, rule reaches_opened) (auto simp: reaches_def stock_level_samples_def intro: ends_inI layout_intros)

lemma order_status_reaches:
  "reaches tp {} [T_Customer] [T_Customer, T_Order, T_Order_Line] True (opened tp T_Order (opened tp T_Order_Line (order_status_reads tp)))"
  by (rule reaches_opened, rule reaches_opened) (auto simp: reaches_def order_status_reads_def intro: ends_inI layout_intros)

lemma delivery_loop_layout:
  "placed P {..<4} ts m \<Longrightarrow> placed P {..<4} ts (delivery_loop tp n m)"
proof (induction n arbitrary: m)
  case (Suc n)
  then show ?case
    by (simp add: case_prod_unfold Let_def) (intro impI conjI Suc.IH layout_intros; simp)
qed simp

lemma delivery_reaches:
  "reaches tp {..<4} [T_New_Order] [T_New_Order, T_Order, T_Order_Line, T_Customer] False
     (opened tp T_Order (opened tp T_Order_Line (opened tp T_Customer (\<lambda>m. tp_commit tp False (delivery_loop tp n m)))))"
proof -
  have "reaches tp {..<4} ts ts False (\<lambda>m. tp_commit tp False (delivery_loop tp n m))" for ts
    unfolding reaches_def by (intro allI impI, rule ends_inI, assumption, rule delivery_loop_layout) simp_all
  then show ?thesis by (intro reaches_opened) simp_all
qed

lemma payment_reaches:
  "reaches tp {..<4} [T_Warehouse] [T_Warehouse, T_District, T_Customer, T_History] False (payment_warehouse tp by_name bad)"
proof -
  let ?R = "\<lambda>ts. reaches tp {..<4} ts [T_Warehouse, T_District, T_Customer, T_History] False"
  have "?R [T_Warehouse, T_District, T_Customer, T_History] (payment_history tp)"
    by (auto simp: reaches_def payment_history_def split: bind_splits intro!: ends_inI elim!: layout_insert)
  then have h: "?R [T_Warehouse, T_District, T_Customer] (opened tp T_History (payment_history tp))" by (rule reaches_opened) simp
  have "?R [T_Warehouse, T_District, T_Customer] (payment_customer tp by_name bad)"
    unfolding reaches_def
    by (auto simp: payment_customer_def Let_def case_prod_unfold intro!: reachesD [OF h] layout_intros)
  then have c: "?R [T_Warehouse, T_District] (opened tp T_Customer (payment_customer tp by_name bad))" by (rule reaches_opened) simp
  have "?R [T_Warehouse, T_District] (payment_district tp by_name bad)"
    unfolding reaches_def
    by (auto simp: payment_district_def Let_def case_prod_unfold intro!: reachesD [OF c] layout_intros)
  then have d: "?R [T_Warehouse] (opened tp T_District (payment_district tp by_name bad))" by (rule reaches_opened) simp
  show ?thesis
    unfolding reaches_def
    by (auto simp: payment_warehouse_def Let_def case_prod_unfold intro!: reachesD [OF d] layout_intros)
qed

lemma order_lines_layout: "order_lines tp n m = Some m' \<Longrightarrow> placed P W ts m \<Longrightarrow> {6, 7} \<subseteq> W \<Longrightarrow> placed P W ts m'"
proof (induction n arbitrary: m)
  case (Suc n)
  from Suc.prems(1) obtain m1 where m1: "tp_insert tp 7 (generateOrderLine tp) (let m = snd (tp_choose tp 5 (tp_pick tp n 0) [] m);
      (stock_path, m) = tp_choose tp 6 (tp_pick tp n 1) [] m in tp_update 6 stock_path m) = Some m1" "order_lines tp n m1 = Some m'"
    by (auto simp: Let_def case_prod_unfold split: bind_splits)
  from Suc.prems(3) have "6 \<in> W" "7 \<in> W" by auto
  with Suc.prems(2) have "placed P W ts m1"
    by (intro layout_insert [OF m1(1)]) (auto simp: Let_def case_prod_unfold intro!: layout_intros)
  from Suc.IH [OF m1(2) this Suc.prems(3)] show ?case .
qed simp

lemma new_order_reaches:
  "reaches tp {2, 3, 4, 6, 7} [T_Customer]
     [T_Customer, T_Warehouse, T_District, T_Order, T_New_Order, T_Item, T_Stock, T_Order_Line] False
     (opened tp T_Warehouse (new_order_reads tp n))"
proof -
  let ?all = "[T_Customer, T_Warehouse, T_District, T_Order, T_New_Order, T_Item, T_Stock, T_Order_Line]"
  let ?R = "\<lambda>k. reaches tp {2, 3, 4, 6, 7} (take k ?all) ?all False"
  have "?R 8 (new_order_lines tp n)"
    by (auto simp: reaches_def new_order_lines_def split: bind_splits intro!: ends_inI elim!: order_lines_layout)
  then have l: "?R 5 (opened tp T_Item (opened tp T_Stock (opened tp T_Order_Line (new_order_lines tp n))))"
    by (intro reaches_opened) simp_all
  have "?R 5 (\<lambda>m. do { m \<leftarrow> tp_insert tp 4 (generateNewOrder tp) m;
      opened tp T_Item (opened tp T_Stock (opened tp T_Order_Line (new_order_lines tp n))) m })"
    unfolding reaches_def by (auto split: bind_splits intro!: reachesD [OF l] elim!: layout_insert)
  then have i: "?R 4 (opened tp T_New_Order (\<lambda>m. do { m \<leftarrow> tp_insert tp 4 (generateNewOrder tp) m;
      opened tp T_Item (opened tp T_Stock (opened tp T_Order_Line (new_order_lines tp n))) m }))" by (rule reaches_opened) simp
  have "?R 4 (new_order_inserts tp n)"
    unfolding reaches_def by (auto simp: new_order_inserts_def split: bind_splits intro!: reachesD [OF i] elim!: layout_insert)
  then have d: "?R 3 (opened tp T_Order (new_order_inserts tp n))" by (rule reaches_opened) simp
  have "?R 3 (new_order_district tp n)"
    unfolding reaches_def
    by (auto simp: new_order_district_def Let_def case_prod_unfold intro!: reachesD [OF d] layout_intros)
  then have w: "?R 2 (opened tp T_District (new_order_district tp n))" by (rule reaches_opened) simp
  have "?R 2 (new_order_reads tp n)"
    unfolding reaches_def by (auto simp: new_order_reads_def intro!: reachesD [OF w] layout_intros)
  then have "?R 1 (opened tp T_Warehouse (new_order_reads tp n))" by (rule reaches_opened) simp
  then show ?thesis by simp
qed

section \<open>The tables of a transaction\<close>

text \<open>The tables by their numbers, and whether the transaction writes to them.\<close>

definition tpcc_plan :: "nat \<Rightarrow> (tpcc_table \<times> bool) list" where
  "tpcc_plan number =
     (if number < 4 then [(T_District, False), (T_Order_Line, False), (T_Stock, False)]
      else if number < 9 then [(T_New_Order, True), (T_Order, True), (T_Order_Line, True), (T_Customer, True)]
      else if number < 13 then [(T_Customer, False), (T_Order, False), (T_Order_Line, False)]
      else if number < 56 then [(T_Warehouse, True), (T_District, True), (T_Customer, True), (T_History, True)]
      else [(T_Customer, False), (T_Warehouse, False), (T_District, True), (T_Order, True), (T_New_Order, True),
            (T_Item, False), (T_Stock, True), (T_Order_Line, True)])"

definition plan_written :: "nat \<Rightarrow> nat set" where
  "plan_written number = (if number < 4 then {} else if number < 9 then {..<4} else if number < 13 then {}
     else if number < 56 then {..<4} else {2, 3, 4, 6, 7})"

lemma plan_written: "i < length (tpcc_plan number) \<Longrightarrow> i \<in> plan_written number \<longleftrightarrow> snd (tpcc_plan number ! i)"
proof -
  have "\<forall>i < length (tpcc_plan number). i \<in> plan_written number \<longleftrightarrow> snd (tpcc_plan number ! i)"
    by (simp add: tpcc_plan_def plan_written_def All_less_Suc2)
  then show "i < length (tpcc_plan number) \<Longrightarrow> ?thesis" by blast
qed

lemma transaction_ends:
  assumes "tpcc_transaction tp number draws = (first, body)" "unmarked m" "m_base_path m = tp_paths tp first"
    "tp_begin tp m = Some (True, m1)" "body m = Some (True, m')"
  shows "ends_in tp (plan_written number) (map fst (tpcc_plan number)) (list_all (Not \<circ> snd) (tpcc_plan number)) m'"
proof -
  have l: "placed (tp_paths tp) W [first] m1" for W by (rule layout_begin [OF assms(4,2,3)])
  consider "number < 4" | "4 \<le> number" "number < 9" | "9 \<le> number" "number < 13" | "13 \<le> number" "number < 56" | "56 \<le> number"
    by linarith
  then show ?thesis
  proof cases
    case 1
    with assms(1,4,5) layout_read [OF l, of _ tp] show ?thesis
      by (auto simp: tpcc_transaction_def plan_written_def tpcc_plan_def stock_level_def intro: reachesD [OF stock_level_reaches])
  next
    case 2
    with assms(1,4,5) l show ?thesis
      by (auto simp: tpcc_transaction_def plan_written_def tpcc_plan_def delivery_def intro: reachesD [OF delivery_reaches])
  next
    case 3
    with assms(1,4,5) layout_read [OF layout_read [OF l, of _ tp], of _ tp] show ?thesis
      by (auto simp: tpcc_transaction_def plan_written_def tpcc_plan_def order_status_def intro: reachesD [OF order_status_reaches])
  next
    case 4
    with assms(1,4,5) l show ?thesis
      by (auto simp: tpcc_transaction_def plan_written_def tpcc_plan_def payment_def intro: reachesD [OF payment_reaches])
  next
    case 5
    with assms(1,4,5) l show ?thesis
      by (auto simp: tpcc_transaction_def plan_written_def tpcc_plan_def new_order_def intro: reachesD [OF new_order_reaches])
  qed
qed


section \<open>The transactions that only read\<close>

lemma read_data_file_quiet: "quiet c (snd (read_data_file sy pq ops t p c))"
  by (auto simp: read_data_file_def Let_def split: prod.splits option.splits dest!: mc_read2_quiet)

lemma read_parts_quiet: "quiet c (snd (read_parts sy pq ops t files rs c))"
proof -
  have p: "quiet c (snd (read_part_from sy pq ops t acc ps c))" for acc ps c
  proof (induction ps arbitrary: acc c)
    case (Cons p ps)
    obtain d c1 where d: "read_data_file sy pq ops t p c = (d, c1)" by (metis surj_pair)
    with read_data_file_quiet [of c sy pq ops t p] have "quiet c c1" by simp
    with Cons.IH d show ?case by (auto split: option.splits intro: quiet_trans)
  qed simp
  show ?thesis
  proof (induction rs arbitrary: c)
    case (Cons r rs)
    show ?case by (simp add: read_part_def case_prod_unfold Let_def) (rule quiet_trans [OF p Cons.IH])
  qed simp
qed

lemma tp_read_still: "still m (tp_read tp i m)"
proof -
  obtain t m1 where g: "get_table_for_read i m = (t, m1)" by (metis surj_pair)
  have "with_conn (read_parts sy pq ops t fs rs) m = (x, m') \<Longrightarrow> still m m'" for sy pq ops t fs rs m x m'
    by (erule with_conn_still) (metis read_parts_quiet snd_conv)
  with get_for_read_still [OF g] g show ?thesis
    by (auto simp: tp_read_def read_table_def Let_def split: option.splits prod.splits intro: still_trans)
qed

lemma tp_choose_still: "unmarked m \<Longrightarrow> still m (snd (tp_choose tp i k path m))"
proof -
  assume u: "unmarked m"
  obtain t m1 where g: "get_table_for_read i m = (t, m1)" by (metis surj_pair)
  note q = get_for_read_still [OF g]
  with u have l: "\<not> level0 m1" using unmarked_levels by (auto simp: still_def)
  have "with_conn (read_data_file sy pq ops t p) m = (x, m') \<Longrightarrow> still m m'" for sy pq ops t p m x m'
    by (erule with_conn_still) (metis read_data_file_quiet snd_conv)
  with q g l show ?thesis
    by (auto simp: tp_choose_def read_random_file_as_table_def random_file_def add_substep_level Let_def
        split: option.splits prod.splits if_splits intro: still_trans)
qed

text \<open>A part of a transaction that writes nothing.\<close>

definition silent :: "(manager \<Rightarrow> (bool \<times> manager) option) \<Rightarrow> bool" where
  "silent body \<longleftrightarrow> (\<forall>m ok m'. unmarked m \<longrightarrow> body m = Some (ok, m') \<longrightarrow> still m m')"

lemma silentD: "silent body \<Longrightarrow> unmarked m \<Longrightarrow> body m = Some (ok, m') \<Longrightarrow> still m m'"
  unfolding silent_def by blast

lemma silent_opened: "silent k \<Longrightarrow> silent (opened tp t k)"
proof -
  assume k: "silent k"
  have "still m m'" if o: "opened tp t k m = Some (ok, m')" and u: "unmarked m" for m ok m'
  proof -
    from o obtain b m1 where n: "open_new_table (sv_sys (tp_services tp)) (sv_parquet (tp_services tp))
        (sv_fuel (tp_services tp)) (tp_paths tp t) m = Some (b, m1)" and r: "if b then k m1 = Some (ok, m') else m' = m1"
      by (auto simp: opened_def split: bind_splits if_splits)
    note q = open_new_table_still [OF n u]
    with u have "unmarked m1" by (simp add: still_def)
    with q r silentD [OF k] show ?thesis by (auto split: if_splits intro: still_trans)
  qed
  then show ?thesis unfolding silent_def by blast
qed

lemma commit_read_only_still: "unmarked m \<Longrightarrow> tp_commit tp True m = Some (ok, m') \<Longrightarrow> still m m'"
  by (auto simp: tp_commit_def commit_def abort_still)

lemma silent_commits: "silent (order_status_reads tp)" "silent (stock_level_samples tp)"
proof -
  have "still m m'" if u: "unmarked m" and o: "order_status_reads tp m = Some (ok, m')" for m ok m'
  proof -
    have s: "still m (tp_read tp 2 (tp_read tp 1 m))" by (rule still_trans [OF tp_read_still tp_read_still])
    with u have "unmarked (tp_read tp 2 (tp_read tp 1 m))" by (simp add: still_def)
    from still_trans [OF s commit_read_only_still [OF this]] o show ?thesis by (simp add: order_status_reads_def)
  qed
  then show "silent (order_status_reads tp)" unfolding silent_def by blast
  have "still m m'" if u: "unmarked m" and o: "stock_level_samples tp m = Some (ok, m')" for m ok m'
  proof -
    let ?m1 = "snd (tp_choose tp 1 (tp_pick tp 0 0) [] m)"
    note s1 = tp_choose_still [OF u, of tp 1 "tp_pick tp 0 0" "[]"]
    with u have u1: "unmarked ?m1" by (simp only: still_def)
    note s2 = tp_choose_still [OF u1, of tp 2 "tp_pick tp 0 1" "[]"]
    with u1 have "unmarked (snd (tp_choose tp 2 (tp_pick tp 0 1) [] ?m1))" by (simp only: still_def)
    from commit_read_only_still [OF this] o have "still (snd (tp_choose tp 2 (tp_pick tp 0 1) [] ?m1)) m'"
      by (simp add: stock_level_samples_def Let_def)
    from still_trans [OF s1 still_trans [OF s2 this]] show ?thesis .
  qed
  then show "silent (stock_level_samples tp)" unfolding silent_def by blast
qed

lemma silent_reading: "silent (order_status tp)" "silent (stock_level tp)"
proof -
  have b: "still m m1" if "tp_begin tp m = Some (ok, m1)" "unmarked m" for m ok m1
    using begin_transaction_still [OF that(1) [unfolded tp_begin_def] that(2)] ..
  have after: "silent k \<Longrightarrow> (\<And>m. still m (f m)) \<Longrightarrow>
      silent (\<lambda>m. Option.bind (tp_begin tp m) (\<lambda>x. case x of (_, m) \<Rightarrow> k (f m)))" for k f
  proof -
    assume k: "silent k" and f: "\<And>m. still m (f m)"
    have "still m m'" if u: "unmarked m" and c: "tp_begin tp m = Some (ok, m1)" "k (f m1) = Some (ok', m')" for m ok m1 ok' m'
    proof -
      have s: "still m (f m1)" by (rule still_trans [OF b [OF c(1) u] f])
      with u have "unmarked (f m1)" by (simp add: still_def)
      from still_trans [OF s silentD [OF k this c(2)]] show ?thesis .
    qed
    then show ?thesis unfolding silent_def by (auto split: bind_splits)
  qed
  show "silent (order_status tp)" unfolding order_status_def [abs_def]
    by (rule after [of _ "\<lambda>m. tp_read tp 0 (tp_read tp 0 m)"]) (intro silent_opened silent_commits still_trans [OF tp_read_still tp_read_still])+
  show "silent (stock_level tp)" unfolding stock_level_def [abs_def]
    by (rule after [of _ "tp_read tp 0"]) (intro silent_opened silent_commits tp_read_still)+
qed

text \<open>The stock-level and order-status transactions of TPC-C only read: without markers, whatever the global log says,
  however operations fail and also when the transaction could not be begun, the client changes no object of the store.  The
  client counts an abort exactly when it reports a failure.\<close>

lemma tpcc_reads_quiet:
  assumes "number < 4 \<or> 9 \<le> number \<and> number < 13" and "tp_levels tp = [False, False, l2]"
    and "executeOne tp number draws txn aborts c = Some ((ok, n), c')"
  shows "quiet c c' \<and> n = (if ok then aborts else u32 (aborts + 1))"
proof -
  obtain first body where t: "tpcc_transaction tp number draws = (first, body)" by (metis surj_pair)
  with assms(1) have s: "silent body" by (auto simp: tpcc_transaction_def silent_reading split: if_splits)
  let ?m = "manager_new (tp_levels tp) (tp_paths tp first) c txn (tp_defaults tp)"
  from assms(3) t obtain m' where b: "body ?m = Some (ok, m')" and n: "n = (if ok then aborts else u32 (aborts + 1))"
    and c': "c' = conn (clear_tables (sv_sys (tp_services tp)) m')" by (auto simp: executeOne_def)
  have u: "unmarked ?m" by (rule unmarked_new [OF assms(2)])
  note q = silentD [OF s u b]
  with u have "unmarked m'" by (simp add: still_def)
  from still_trans [OF q clear_tables_still [OF this]] n c' show ?thesis by (simp add: still_def)
qed

section \<open>A transaction that was not begun\<close>

text \<open>Without a log a table is not opened, and a transaction does not begin.\<close>

lemma open_tableV2_missing:
  assumes r: "ready objs m" and e: "\<forall>p. starts_with (path @ log_dir) p \<longrightarrow> objs p = None"
  shows "\<exists>c. open_tableV2 sy pq n path k m = Some (None, m\<lparr>conn := c\<rparr>)"
proof -
  let ?t = "(table_stats_new path)\<lparr>t_table_id := length (tables m)\<rparr>"
  from r have calm: "calm_store (conn m)" "0 < storage_retries m" "\<not> level2 m" and o: "contents (conn m) = objs" by (simp_all add: ready_def)
  obtain os c where l: "list_retry (path @ log_dir) m = (Some os, m\<lparr>conn := c\<rparr>)"
    "oi_key ` set os = {p. starts_with (path @ log_dir) p \<and> contents (conn m) p \<noteq> None}" by (rule calm_listE [OF calm(1,2)])
  have "oi_key ` set os = {}" unfolding l(2) o using e by simp
  then have "os = []" by simp
  then have "find_start sy path u32_max m = Some (Some (None, no_checkpoint), m\<lparr>conn := c\<rparr>)"
    using l(1) calm(3) by (simp add: find_start_def highest_listed_def newest_checkpoint_def newest_found_def no_checkpoint_def)
  then show ?thesis using calm(3)
    by (intro exI [of _ c]) (simp add: open_tableV2_def load_table_def visible_version_def table_stats_new_def Let_def)
qed

lemma begin_missing:
  assumes r: "ready objs m" and e: "\<forall>p. starts_with (m_base_path m @ log_dir) p \<longrightarrow> objs p = None"
  shows "\<exists>m'. begin_transaction_ycsb sy pq n random m = Some (False, m')"
proof -
  have one: "\<exists>m'. begin_txn sy pq n k path m = Some (False, m')"
    if r: "ready objs m" and e: "\<forall>p. starts_with (path @ log_dir) p \<longrightarrow> objs p = None" for k path m
  proof -
    let ?m = "(clear_tables sy m)\<lparr>found := ([], []),
       working_dir := path @ log_dir @ dec k @ ''-'' @ dec (transaction_id m) @ ''/''\<rparr>"
    have u: "unmarked m" using r by (simp add: ready_def)
    have "still m ?m" using clear_tables_still [OF u, of sy] by (simp add: still_def)
    then have rm: "ready objs ?m" by (rule ready_still [OF r])
    then have l: "\<not> level2 ?m" "\<not> level0 ?m" using unmarked_levels by (auto simp only: ready_def)
    then have "parse_global_snapshots ?m = (True, ?m)" by (simp add: parse_global_snapshots_def)
    with open_tableV2_missing [OF rm e, of sy pq n 2] l show ?thesis
      by (auto simp: begin_txn_def Let_def clear_tables_def)
  qed
  have loop: "\<exists>m'. begin_loop k sy pq n random m = Some (False, m')"
    if "ready objs m" "\<forall>p. starts_with (m_base_path m @ log_dir) p \<longrightarrow> objs p = None" for k m
    using that
  proof (induction k arbitrary: m)
    case (Suc k)
    from one [OF Suc.prems] obtain m1 where b: "begin_txn sy pq n (random k) (m_base_path m) m = Some (False, m1)" by blast
    have "unmarked m" using Suc.prems(1) by (simp add: ready_def)
    then have s: "still m m1" using begin_txn_still [OF b] by blast
    then have "m_base_path m1 = m_base_path m" by (simp add: still_def access_def)
    with b Suc.IH [OF ready_still [OF Suc.prems(1) s]] Suc.prems(2) show ?case by simp
  qed simp
  let ?m = "(clear_tables sy m)\<lparr>relation := global_relation_new, working_dir := [], next_step := 0,
          explicit_log := True, found := ([], []), times_redo := 0, update_vals := [], update_ops := [],
          prev_markers := [], local_log := []\<rparr>"
  have u: "unmarked m" using r by (simp add: ready_def)
  have "still m ?m" using clear_tables_still [OF u, of sy] by (simp add: still_def)
  then have rm: "ready objs ?m" by (rule ready_still [OF r])
  have "m_base_path ?m = m_base_path m" by (simp add: clear_tables_def)
  with loop [OF rm, of 5] e show ?thesis by (simp only: begin_transaction_ycsb_def)
qed

lemma reading_ready:
  assumes m: "ready objs m" "sv_fuel (tp_services tp) = Suc f"
    and log: "\<forall>t \<in> {T_Order, T_Order_Line}. readable_log (sv_sys (tp_services tp)) objs (tp_paths tp t)"
    and b: "tp_begin tp m = Some (ok, m1)"
  shows "\<exists>m'. order_status tp m = Some (True, m')"
proof -
  have u: "unmarked m" using m(1) by (simp add: ready_def)
  have "still m m1" using begin_transaction_still [OF b [unfolded tp_begin_def] u] ..
  then have "still m (tp_read tp 0 (tp_read tp 0 m1))" by (intro still_trans [OF _ tp_read_still] still_trans [OF _ tp_read_still])
  then have r1: "ready objs (tp_read tp 0 (tp_read tp 0 m1))" by (rule ready_still [OF m(1)])
  have o: "\<exists>m2. open_new_table (sv_sys (tp_services tp)) (sv_parquet (tp_services tp)) (sv_fuel (tp_services tp)) (tp_paths tp t) m'
      = Some (True, m2) \<and> ready objs m2" if "ready objs m'" "t \<in> {T_Order, T_Order_Line}" for t m'
  proof -
    from open_new_table_ready [OF that(1) log [rule_format, OF that(2)]] m(2) obtain m2 where
      n: "open_new_table (sv_sys (tp_services tp)) (sv_parquet (tp_services tp)) (sv_fuel (tp_services tp)) (tp_paths tp t) m'
        = Some (True, m2)" by fastforce
    moreover have "unmarked m'" using that(1) by (simp add: ready_def)
    ultimately show ?thesis using ready_still [OF that(1) open_new_table_still] by blast
  qed
  from o [OF r1, of T_Order] obtain m2 where m2: "open_new_table (sv_sys (tp_services tp)) (sv_parquet (tp_services tp))
      (sv_fuel (tp_services tp)) (tp_paths tp T_Order) (tp_read tp 0 (tp_read tp 0 m1)) = Some (True, m2)" "ready objs m2" by blast
  from o [OF m2(2), of T_Order_Line] obtain m3 where "open_new_table (sv_sys (tp_services tp)) (sv_parquet (tp_services tp))
      (sv_fuel (tp_services tp)) (tp_paths tp T_Order_Line) m2 = Some (True, m3)" by blast
  with b m2(1) show ?thesis
    by (simp add: order_status_def opened_def order_status_reads_def tp_commit_def commit_def)
qed

lemma ready_new: "calm_store c \<Longrightarrow> ready (contents c) (manager_new [False, False, False] path c txn d)"
  using unmarked_new [OF refl] by (simp add: ready_def) (simp add: manager_new_def level_of_def)

lemma order_status_chosen: "9 \<le> number \<Longrightarrow> number < 13 \<Longrightarrow> tpcc_transaction tp number draws = (T_Customer, order_status tp)"
  by (simp add: tpcc_transaction_def)

text \<open>C30: The result of beginning a transaction is not used.  On a store without faults in which the customer table does not
  exist, the order-status transaction of TPC-C is not begun, and yet the client reports success, counts no abort and has read
  no customer, when the logs of the orders and of the order lines can be read.\<close>

theorem order_status_not_begun:
  assumes "9 \<le> number" "number < 13" and "tp_levels tp = [False, False, False]" and "calm_store c" and "0 < sv_fuel (tp_services tp)"
    and "\<forall>p. starts_with (tp_paths tp T_Customer @ log_dir) p \<longrightarrow> contents c p = None"
    and "\<forall>t \<in> {T_Order, T_Order_Line}. readable_log (sv_sys (tp_services tp)) (contents c) (tp_paths tp t)"
  shows "(\<exists>m1. tp_begin tp (manager_new (tp_levels tp) (tp_paths tp T_Customer) c txn (tp_defaults tp)) = Some (False, m1))
    \<and> (\<exists>c'. executeOne tp number draws txn aborts c = Some ((True, aborts), c'))"
proof -
  let ?m = "manager_new (tp_levels tp) (tp_paths tp T_Customer) c txn (tp_defaults tp)"
  have r: "ready (contents c) ?m" unfolding assms(3) by (rule ready_new [OF assms(4)])
  obtain f where f: "sv_fuel (tp_services tp) = Suc f" using assms(5) by (cases "sv_fuel (tp_services tp)") auto
  have "m_base_path ?m = tp_paths tp T_Customer" by (simp add: manager_new_def)
  with begin_missing [OF r] assms(6) obtain m1 where b: "tp_begin tp ?m = Some (False, m1)" unfolding tp_begin_def by metis
  from reading_ready [OF r f assms(7) b] obtain m' where "order_status tp ?m = Some (True, m')" by blast
  with b show ?thesis by (simp add: executeOne_def order_status_chosen [OF assms(1,2)])
qed

section \<open>Witnesses\<close>

definition demo_tpcc_path :: "tpcc_table \<Rightarrow> string" where
  "demo_tpcc_path t = (case t of T_Customer \<Rightarrow> ''c/'' | T_Order \<Rightarrow> ''o/'' | T_Order_Line \<Rightarrow> ''l/'' | _ \<Rightarrow> ''x/'')"

definition demo_tpcc :: "int tpcc" where
  "demo_tpcc =
     \<lparr>tp_services = demo_services, tp_units = demo_units, tp_rounds = 1, tp_file = (\<lambda>_. []), tp_random = (\<lambda>_. 5),
      tp_pick = (\<lambda>_ _. 0), tp_defaults = cb_defaults demo_cab, tp_paths = demo_tpcc_path, tp_levels = [False, False, False]\<rparr>"

text \<open>Stores with a log of one version for the orders and the order lines, and for the customers.\<close>

definition demo_orders :: connector where
  "demo_orders = store (version_path ''o/'' 0) demo_commit (store (version_path ''l/'' 0) demo_commit demo_connector)"

definition demo_customers :: connector where "demo_customers = store (version_path ''c/'' 0) demo_commit demo_orders"

lemma demo_tpcc_stores:
  "calm_store demo_orders" "contents demo_orders = [version_path ''o/'' 0 \<mapsto> demo_commit, version_path ''l/'' 0 \<mapsto> demo_commit]"
  "calm_store demo_customers" "contents demo_customers = (contents demo_orders)(version_path ''c/'' 0 \<mapsto> demo_commit)"
proof -
  have c: "conn demo_manager = demo_connector" by (simp add: demo_manager_def manager_new_def)
  have e: "contents demo_connector = Map.empty" using demo_manager_calm(3) unfolding c by (intro ext)
  have 0: "calm_store demo_connector" using demo_manager_calm(1) unfolding c .
  note 1 = contents_store [OF 0, of "version_path ''l/'' 0" demo_commit, unfolded e]
  note 2 = contents_store [OF 1 [THEN conjunct2], of "version_path ''o/'' 0" demo_commit, folded demo_orders_def, unfolded 1 [THEN conjunct1]]
  note 3 = contents_store [OF 2 [THEN conjunct2], of "version_path ''c/'' 0" demo_commit, folded demo_customers_def]
  have "version_path ''l/'' 0 \<noteq> version_path ''o/'' 0" by (simp add: version_path_def)
  with 2 show "calm_store demo_orders"
    "contents demo_orders = [version_path ''o/'' 0 \<mapsto> demo_commit, version_path ''l/'' 0 \<mapsto> demo_commit]" by (auto simp: fun_upd_twist)
  from 3 show "calm_store demo_customers" "contents demo_customers = (contents demo_orders)(version_path ''c/'' 0 \<mapsto> demo_commit)"
    by blast+
qed

lemma demo_log_readable:
  assumes "objs (version_path path 0) = Some demo_commit"
    and e: "\<And>q. starts_with (path @ log_dir) q \<Longrightarrow> q \<noteq> version_path path 0 \<Longrightarrow> objs q = None"
  shows "readable_log demo_sys objs path"
proof -
  have "starts_with (path @ log_dir) (version_path path 1)" by (simp add: version_path_def starts_with_conv)
  moreover have "version_path path 1 \<noteq> version_path path 0" using version_path_inj [of path 1 0] by auto
  moreover have other: "starts_with (path @ log_dir) q \<longrightarrow> (\<exists>y. objs q = Some y) \<longrightarrow> q = version_path path 0 \<or> ignored_key q" for q
    by (cases "q = version_path path 0") (simp_all add: e)
  ultimately have "plain_log path 1 (\<lambda>_. demo_commit) objs"
    using assms(1) e [of "version_path path 1"] other by (simp add: plain_log_def)
  moreover have "no_marker demo_sys demo_commit" by (simp add: no_marker_def demo_sys_def demo_commit_lines has_member_def)
  ultimately show ?thesis unfolding readable_log_def by (intro exI [of _ 1] exI [of _ "\<lambda>_. demo_commit"]) simp
qed

lemma demo_tpcc_logs:
  "\<forall>t \<in> {T_Order, T_Order_Line}. readable_log demo_sys (contents demo_orders) (demo_tpcc_path t)"
  "\<forall>t \<in> {T_Customer, T_Order, T_Order_Line}. readable_log demo_sys (contents demo_customers) (demo_tpcc_path t)"
  by (auto simp: demo_tpcc_path_def demo_tpcc_stores version_path_def starts_with_conv intro!: demo_log_readable)

lemma demo_tpcc_fields:
  "sv_sys (tp_services demo_tpcc) = demo_sys" "sv_fuel (tp_services demo_tpcc) = Suc 0" "tp_paths demo_tpcc = demo_tpcc_path"
  "tp_levels demo_tpcc = [False, False, False]"
  by (simp_all add: demo_tpcc_def demo_services_def)

lemma order_status_not_begun_witness:
  "\<exists>c'. executeOne demo_tpcc 9 (0, 0) 7 0 demo_orders = Some ((True, 0), c')"
  using order_status_not_begun [of 9 demo_tpcc demo_orders 7 "(0, 0)" 0] demo_tpcc_logs(1) demo_tpcc_stores(1)
  by (auto simp: demo_tpcc_fields demo_tpcc_stores(2) demo_tpcc_path_def version_path_def starts_with_conv)

lemma tpcc_reads_quiet_witness:
  "\<exists>c'. executeOne demo_tpcc 10 (0, 0) 7 0 demo_orders = Some ((True, 0), c') \<and> quiet demo_orders c'"
proof -
  let ?m = "manager_new [False, False, False] ''c/'' demo_orders 7 (tp_defaults demo_tpcc)"
  have r: "ready (contents demo_orders) ?m" by (rule ready_new [OF demo_tpcc_stores(1)])
  have e: "\<forall>p. starts_with (m_base_path ?m @ log_dir) p \<longrightarrow> contents demo_orders p = None"
    by (auto simp: demo_tpcc_stores(2) manager_new_def version_path_def starts_with_conv)
  from begin_missing [OF r e] obtain m1 where b: "tp_begin demo_tpcc ?m = Some (False, m1)" unfolding tp_begin_def by metis
  from reading_ready [OF r demo_tpcc_fields(2) _ b] demo_tpcc_logs(1) obtain m' where "order_status demo_tpcc ?m = Some (True, m')"
    by (auto simp: demo_tpcc_fields)
  then obtain c' where c: "executeOne demo_tpcc 10 (0, 0) 7 0 demo_orders = Some ((True, 0), c')"
    by (simp add: executeOne_def tpcc_transaction_def demo_tpcc_fields demo_tpcc_path_def)
  have "(10::nat) < 4 \<or> 9 \<le> (10::nat) \<and> (10::nat) < 13" by simp
  from tpcc_reads_quiet [OF this demo_tpcc_fields(4) c] c show ?thesis by blast
qed

end
