(* ===== verification/Spec2Isabelle.thy ===== *)
theory Spec2Isabelle
  imports Settings Buffer ReplayOrder Tables CommitSafety LogProtocol WriteSet Waiting Banking Ycsb Cab Tpcc
begin

text \<open>
  A model of the core of LakeVilla (\<open>src/LV/src\<close>): multi-table transactions over Delta Lake tables that lie in
  an object store.  A transaction manager opens tables by replaying their logs, reserves the next version of each
  log with a marker object (level 0 and 1) or claims it when it commits, validates against a global version log
  (level 2), writes its data files and then one log object per changed table.  There is no server: everything
  that keeps concurrent clients apart is a conditional write of the store.

  The parts, bottom up, with the sources under \<open>src/LV/src\<close>:

  \<^item> \<open>Prelude\<close>: the functions of the C++ library the code calls (\<open>stoul\<close>, \<open>find\<close>, \<open>rfind\<close>, \<open>getline\<close>,
    \<open>to_string\<close>), unsigned integers with their wrap-around, \<open>std::map\<close> as a sorted list.  \<open>Json\<close>: the values of
    rapidjson; the parser and writer are parameters whose contract is \<open>json_codec\<close>; \<open>SampleCodec\<close> is an instance.
  \<^item> \<open>ObjectStore\<close>, \<open>StoreClock\<close> (\<open>Connectors/Connector.hpp\<close>, \<open>MemoryConnector\<close>, \<open>StoreClock\<close>): the state is the
    list of objects with their ETags, the operations are the connector's; a hook called before every operation
    decides on failures and stands for all other clients.  \<open>StoreLaws\<close> states the contract of the conditional
    writes as the locale \<open>etag_store\<close>; \<open>StoreEnv\<close> says what one operation changes apart from the hook, and
    \<open>Calm\<close> what it does without faults and other clients.
  \<^item> \<open>Buffer\<close> (\<open>LakeVilla/Buffer\<close>) and \<open>Settings\<close> (\<open>Settings/LvSettings\<close>, \<open>ProtocolOptions.hpp\<close>).
  \<^item> \<open>DeltaLog\<close> (\<open>LakeVilla/DeltaLog\<close>): the snapshot of a table; its registers (files, metadata, protocol,
    transactions, domains) are instances of the locale \<open>max_register\<close>.
  \<^item> \<open>LogNames\<close>, \<open>CheckpointNames\<close>, \<open>KeyMatcher\<close>: the free functions of \<open>ManagerDeltaLake.cpp\<close> about names of log
    objects, listings of checkpoints, keys and statistics.
  \<^item> \<open>ManagerState\<close> (\<open>Manager.hpp\<close>, \<open>ManagerDeltaLake.hpp\<close>): the members of a transaction manager.  The manager
    holds the connector, so every operation is a function from managers to managers.
  \<^item> \<open>LogActions\<close>, \<open>Markers\<close>, \<open>Leases\<close>, \<open>GlobalLog\<close> (\<open>Marker.cpp\<close>, \<open>ManagerDeltaLake.cpp\<close>): the actions of a
    commit; reserving, waiting for, shifting, releasing and replacing markers; the global version log and its lock.
  \<^item> \<open>Arrow\<close>, \<open>Checkpoints\<close>, \<open>SampleParquet\<close>, \<open>CheckpointLog\<close> (\<open>Helpers/Helper.cpp\<close>, \<open>ManagerDeltaLake.cpp\<close>):
    checkpoints of a log and the hint \<open>_last_checkpoint\<close>.  Parquet is a parameter with the contract \<open>parquet_ok\<close>.
  \<^item> \<open>Snapshots\<close>, \<open>ReplayOrder\<close> (\<open>ManagerDeltaLake.cpp\<close>): loading, opening and reopening tables, beginning and
    aborting a transaction, and the independence of the snapshot from the schedule of the parsing threads (the
    locale \<open>log_register\<close>, interpreted for each kind of action).
  \<^item> \<open>ArrowTypes\<close>, \<open>Statistics\<close> (\<open>Helpers/Helper.cpp\<close>, \<open>ManagerDeltaLake.cpp\<close>): the cells of a table, the
    statistics of a data file and their conversion to and from the scalars of Arrow.
  \<^item> \<open>DeltaSchema\<close>, \<open>DeltaConform\<close> (\<open>Helpers/DeltaSchema.cpp\<close>, \<open>DeltaConform.cpp\<close>): schemas and the conversion of
    data to them.  \<open>Tables\<close> (\<open>TransactionManager/Tables.cpp\<close>): creating and dropping tables.
  \<^item> \<open>DataFiles\<close>, \<open>Changes\<close> (\<open>ManagerDeltaLake.cpp\<close>, \<open>Manager.hpp\<close>): finding, reading, writing and removing the data
    files of a table, and the read and write sets these leave in the manager.  \<open>Redo\<close>: the cases in which an
    overtaken transaction need not be aborted.
  \<^item> \<open>Commits\<close> (\<open>CommitTransaction\<close> and what it calls): one function per phase - waiting for earlier markers,
    looking at the global log, taking the locks, writing the log objects, replacing the marker - and \<open>commit\<close>, which
    composes them.  \<open>Frames\<close> says what each phase keeps of the manager and of the store; \<open>CommitSafety\<close>, \<open>WriteSet\<close>
    and \<open>Waiting\<close> hold what a commit promises: what it writes, what it leaves when it fails, what it has seen of the
    transactions before it.  \<open>LogProtocol\<close> lets any number of clients take the steps of the protocol in any order.
  \<^item> \<open>Banking\<close>, \<open>Ycsb\<close> (\<open>YCSBDB/lhtransactionsBanking.cpp\<close>, \<open>lhtransactions.cpp\<close>): two clients of the manager, the
    second with its collection of transaction ids.
  \<^item> \<open>Cab\<close> (\<open>CAB/CABClient.cpp\<close> and its variants) and \<open>Tpcc\<close> (\<open>TPC-C\<close>): the queries, inserts, updates and transactions
    of two more clients.  A query is the list of its calls; a TPC-C transaction is one function per stretch between two
    tables that are opened.  \<open>ReadOnly\<close> shows for them what a manager without markers leaves alone (\<open>still\<close>) and when
    it reads without failing (\<open>ready\<close>).

  What the lemmas show.  The lease protocol: a commit replaces nothing but its own marker, a takeover excludes the
  commit, a takeover never comes before the lease has ended in store time, a wait ends.  The global log:
  validation never goes back, its lock excludes, an entry is set exactly.  Logs: what is written is read back, the
  snapshot is the latest action of each file, in any order of replay; checkpoints restore the log they were
  written from, and the hint only moves forward.  Tables: the effect of creating and dropping on the objects, also
  when it is interrupted.  Schemas and values: round trips and bounds.  Commits: a commit of one table is one
  object; a commit accounts for every marker before its version, and of two transactions that delete the same file
  the first to commit wins.  Clients: a transfer between accounts reaches the log as a whole or not
  at all, a query only reads, an update of a file loses none, and a TPC-C transaction writes to the tables that its table
  numbers stand for.

  Loops without a bound take fuel, one unit per round, and give \<open>None\<close> when it ends; for waiting, reserving and
  locking it is proved how much fuel is enough (\<open>wait_for_marker_returns\<close>, \<open>reserve_version_least_free\<close>,
  \<open>acquire_global_lock_ends\<close>).  \<open>commit\<close> takes two of them: a bound on its own rounds, which other clients can prolong
  by overtaking it, and the fuel \<open>sv_fuel\<close> of the waits inside a round.  The lemmas about what a commit has seen
  take the reads of the logs to succeed (\<open>reads_reliable\<close> in \<open>Waiting\<close>), since the code takes a read that fails for
  an object that is not there.  An exception that leaves an operation is \<open>None\<close> or an error value as well.

  Not modelled: the S3 connector and \<open>ManagerS3.cpp\<close> (calls of the AWS SDK, whose behaviour is the contract of
  \<open>ObjectStore\<close>), the Java binding (JNI glue), the benchmark drivers (\<open>main.cpp\<close>, \<open>hermitage.cpp\<close>, \<open>compat.cpp\<close>,
  \<open>TPC-DS\<close>, \<open>LSTBench\<close>, the streams and phases of \<open>CAB\<close> and the workload generator of \<open>YCSBDB\<close>: sequences of calls,
  timing and output), the question a user is asked when a transaction is overtaken, the timers, messages on \<open>stderr\<close>, and the
  internals of Arrow, Parquet and rapidjson, which are not part of the repository.
\<close>

end
